(* ===== verification/Go_Base.thy ===== *)
theory Go_Base
  imports Main "HOL-Library.AList"
begin

text \<open>
  The vocabulary every component of the development shares: loops that stop at the first
  error, results that are an error or a value, Go maps, and step relations with an invariant.

  A Go map is an association list. The order of the list stands for one iteration order of
  \<^verbatim>\<open>range\<close>, which Go leaves unspecified: a theorem that holds for every list holds for
  every order the runtime may choose. A well-formed map has no key twice (\<open>wf_map\<close>).
\<close>

named_theorems check_simps \<open>equations of the checks that loop over a collection\<close>
named_theorems map_laws \<open>what a lookup returns after an update of a Go map\<close>
named_theorems inv_intros \<open>introduction rules of the components' invariants\<close>

section \<open>Loops that stop at the first error\<close>

fun check_all :: "('a \<Rightarrow> 'e option) \<Rightarrow> 'a list \<Rightarrow> 'e option" where
  "check_all f [] = None"
| "check_all f (x # xs) = (case f x of Some e \<Rightarrow> Some e | None \<Rightarrow> check_all f xs)"

lemma first_error_None [check_simps]:
  "(case x of None \<Rightarrow> y | Some e \<Rightarrow> Some e) = None \<longleftrightarrow> x = None \<and> y = None"
  by (cases x) auto

lemma check_all_None_iff [check_simps]:
  "check_all f xs = None \<longleftrightarrow> (\<forall>x \<in> set xs. f x = None)"
  by (induction xs) (auto split: option.splits)

lemma check_all_cong [fundef_cong]:
  "xs = ys \<Longrightarrow> (\<And>x. x \<in> set ys \<Longrightarrow> f x = g x) \<Longrightarrow> check_all f xs = check_all g ys"
  by (induction ys arbitrary: xs) (auto split: option.splits)

lemma check_all_append [check_simps]:
  "check_all f (xs @ ys) = (case check_all f xs of Some e \<Rightarrow> Some e | None \<Rightarrow> check_all f ys)"
  by (induction xs) (auto split: option.splits)

lemma check_all_SomeD:
  assumes "check_all f xs = Some e"
  shows "\<exists>ys x zs. xs = ys @ x # zs \<and> f x = Some e \<and> (\<forall>y \<in> set ys. f y = None)"
  using assms
proof (induction xs)
  case Nil
  then show ?case by simp
next
  case (Cons a xs)
  show ?case
  proof (cases "f a")
    case None
    with Cons obtain ys x zs where
      "xs = ys @ x # zs" "f x = Some e" "\<forall>y \<in> set ys. f y = None"
      by auto
    with None have "a # xs = (a # ys) @ x # zs \<and> f x = Some e \<and> (\<forall>y \<in> set (a # ys). f y = None)"
      by simp
    then show ?thesis by blast
  next
    case (Some e')
    with Cons.prems have "f a = Some e" by simp
    then have "a # xs = [] @ a # xs \<and> f a = Some e \<and> (\<forall>y \<in> set []. f y = None)" by simp
    then show ?thesis by blast
  qed
qed

text \<open>A sequence of independent checks with early returns, and one such check.\<close>

definition first_of :: "'e option list \<Rightarrow> 'e option" where
  "first_of = check_all (\<lambda>e. e)"

definition refuse :: "bool \<Rightarrow> 'e \<Rightarrow> 'e option" where
  "refuse b e = (if b then Some e else None)"

lemma first_of_None [check_simps]: "first_of es = None \<longleftrightarrow> (\<forall>e \<in> set es. e = None)"
  by (simp add: first_of_def check_all_None_iff)

lemma refuse_None [check_simps]: "refuse b e = None \<longleftrightarrow> \<not> b"
  by (simp add: refuse_def)

text \<open>The same loop over an indexed range, as in \<^verbatim>\<open>for i, x := range xs\<close>.\<close>

fun check_idx :: "(nat \<Rightarrow> 'a \<Rightarrow> 'e option) \<Rightarrow> nat \<Rightarrow> 'a list \<Rightarrow> 'e option" where
  "check_idx f i [] = None"
| "check_idx f i (x # xs) =
     (case f i x of Some e \<Rightarrow> Some e | None \<Rightarrow> check_idx f (Suc i) xs)"

lemma check_idx_None_iff [check_simps]:
  "check_idx f i xs = None \<longleftrightarrow> (\<forall>j < length xs. f (i + j) (xs ! j) = None)"
proof (induction xs arbitrary: i)
  case Nil
  then show ?case by simp
next
  case (Cons x xs)
  have "(\<forall>j < length (x # xs). f (i + j) ((x # xs) ! j) = None) \<longleftrightarrow>
      f i x = None \<and> (\<forall>j < length xs. f (Suc i + j) (xs ! j) = None)"
    by (simp add: All_less_Suc2)
  with Cons show ?case by (auto split: option.splits)
qed

section \<open>Results\<close>

text \<open>A fallible call is \<open>'e + 'a\<close>: \<open>Inl\<close> the error, \<open>Inr\<close> the value.\<close>

fun rbind :: "'e + 'a \<Rightarrow> ('a \<Rightarrow> 'e + 'b) \<Rightarrow> 'e + 'b" where
  "rbind (Inl e) f = Inl e"
| "rbind (Inr a) f = f a"

lemma rbind_Inr_iff [simp]: "rbind r f = Inr b \<longleftrightarrow> (\<exists>a. r = Inr a \<and> f a = Inr b)"
  by (cases r) auto

lemma rbind_Inl_iff: "rbind r f = Inl e \<longleftrightarrow> r = Inl e \<or> (\<exists>a. r = Inr a \<and> f a = Inl e)"
  by (cases r) auto

fun map_results :: "('a \<Rightarrow> 'e + 'b) \<Rightarrow> 'a list \<Rightarrow> 'e + 'b list" where
  "map_results f [] = Inr []"
| "map_results f (x # xs) =
     rbind (f x) (\<lambda>y. rbind (map_results f xs) (\<lambda>ys. Inr (y # ys)))"

lemma map_results_Inr_iff:
  "map_results f xs = Inr ys \<longleftrightarrow> list_all2 (\<lambda>x y. f x = Inr y) xs ys"
  by (induction xs arbitrary: ys) (auto simp: list_all2_Cons1)

lemma map_results_total: "(\<And>x. x \<in> set xs \<Longrightarrow> f x = Inr (g x)) \<Longrightarrow> map_results f xs = Inr (map g xs)"
  by (induction xs) auto

lemma map_results_Inl:
  "x \<in> set xs \<Longrightarrow> f x = Inl e \<Longrightarrow> \<exists>e'. map_results f xs = Inl e'"
proof (induction xs)
  case (Cons y ys)
  then show ?case by (cases "f y"; cases "map_results f ys") auto
qed simp

section \<open>Go maps\<close>

type_synonym ('k, 'v) gomap = "('k \<times> 'v) list"

abbreviation mget :: "('k, 'v) gomap \<Rightarrow> 'k \<Rightarrow> 'v option" where
  "mget \<equiv> map_of"

abbreviation mput :: "'k \<Rightarrow> 'v \<Rightarrow> ('k, 'v) gomap \<Rightarrow> ('k, 'v) gomap" where
  "mput \<equiv> AList.update"

abbreviation mdel :: "'k \<Rightarrow> ('k, 'v) gomap \<Rightarrow> ('k, 'v) gomap" where
  "mdel \<equiv> AList.delete"

abbreviation mkeys :: "('k, 'v) gomap \<Rightarrow> 'k list" where
  "mkeys m \<equiv> map fst m"

definition wf_map :: "('k, 'v) gomap \<Rightarrow> bool" where
  "wf_map m \<longleftrightarrow> distinct (mkeys m)"

text \<open>
  The interface a client of a Go map relies on: what a lookup returns after an assignment, a
  \<^verbatim>\<open>delete\<close> and a fresh map. Its lemmas are proved once, from those laws.
\<close>

locale go_map =
  fixes empty :: "'m"
    and lookup :: "'m \<Rightarrow> 'k \<Rightarrow> 'v option"
    and put :: "'k \<Rightarrow> 'v \<Rightarrow> 'm \<Rightarrow> 'm"
    and del :: "'k \<Rightarrow> 'm \<Rightarrow> 'm"
    and wf :: "'m \<Rightarrow> bool"
  assumes lookup_empty: "lookup empty k = None"
    and lookup_put: "lookup (put k v m) k' = (if k' = k then Some v else lookup m k')"
    and lookup_del: "lookup (del k m) k' = (if k' = k then None else lookup m k')"
    and wf_empty: "wf empty"
    and wf_put: "wf m \<Longrightarrow> wf (put k v m)"
    and wf_del: "wf m \<Longrightarrow> wf (del k m)"
begin

lemma lookup_put_same: "lookup (put k v m) k = Some v"
  by (simp add: lookup_put)

lemma lookup_put_other: "k' \<noteq> k \<Longrightarrow> lookup (put k v m) k' = lookup m k'"
  by (simp add: lookup_put)

lemma lookup_del_put: "lookup m k = None \<Longrightarrow> lookup (del k (put k v m)) = lookup m"
  by (rule ext) (simp add: lookup_put lookup_del)

text \<open>Loading entries one after the other: the last entry of a key wins.\<close>

lemma lookup_load_other:
  "k \<notin> fst ` set kvs \<Longrightarrow> lookup (fold (\<lambda>(k, v). put k v) kvs m) k = lookup m k"
  by (induction kvs arbitrary: m) (auto simp: lookup_put)

lemma lookup_load:
  "lookup (fold (\<lambda>(k, v). put k v) kvs m) k =
     (case map_of (rev kvs) k of Some v \<Rightarrow> Some v | None \<Rightarrow> lookup m k)"
proof (induction kvs arbitrary: m)
  case Nil
  then show ?case by simp
next
  case (Cons kv kvs)
  then show ?case
    by (cases kv) (auto simp: lookup_put map_add_Some_iff map_add_def split: option.splits)
qed

lemma wf_load: "wf m \<Longrightarrow> wf (fold (\<lambda>(k, v). put k v) kvs m)"
  by (induction kvs arbitrary: m) (auto intro: wf_put)

end

interpretation gm: go_map "[]" mget mput mdel wf_map
  by unfold_locales
    (auto simp: update_conv' delete_conv' wf_map_def distinct_update distinct_delete)

lemmas gomap_laws [map_laws, simp] = gm.lookup_put gm.lookup_del gm.lookup_empty

lemmas wf_map_intros [inv_intros, intro] = gm.wf_empty gm.wf_put gm.wf_del

lemma wf_map_Cons: "wf_map ((k, v) # m) \<longleftrightarrow> k \<notin> set (mkeys m) \<and> wf_map m"
  by (simp add: wf_map_def)

lemma mget_in_set: "wf_map m \<Longrightarrow> (k, v) \<in> set m \<longleftrightarrow> mget m k = Some v"
  by (simp add: wf_map_def)

lemma mget_keys: "mget m k \<noteq> None \<longleftrightarrow> k \<in> set (mkeys m)"
  by (auto simp: map_of_eq_None_iff)

lemma map_of_rev_distinct: "distinct (map fst xs) \<Longrightarrow> map_of (rev xs) = map_of xs"
  by (subst map_of_inject_set) (auto simp: rev_map [symmetric])

lemma option_eq_by_Some: "(\<And>v. x = Some v \<longleftrightarrow> y = Some v) \<Longrightarrow> x = y"
  by (cases x; cases y) auto

lemma mkeys_put: "set (mkeys (mput k v m)) = insert k (set (mkeys m))"
  by (auto simp: update_keys)

section \<open>Step relations with an invariant\<close>

text \<open>
  A component whose state changes call by call is a step relation. An invariant of one step is
  an invariant of every run (\<open>step\<^sup>*\<^sup>*\<close>).
\<close>

locale step_system =
  fixes step :: "'s \<Rightarrow> 's \<Rightarrow> bool"
    and inv :: "'s \<Rightarrow> bool"
  assumes step_inv: "step s t \<Longrightarrow> inv s \<Longrightarrow> inv t"
begin

lemma run_inv: "step\<^sup>*\<^sup>* s t \<Longrightarrow> inv s \<Longrightarrow> inv t"
  by (induction rule: rtranclp_induct) (auto intro: step_inv)

lemma run_stable:
  assumes "step\<^sup>*\<^sup>* s t" and "inv s" and "P s"
    and "\<And>x y. step x y \<Longrightarrow> inv x \<Longrightarrow> P x \<Longrightarrow> P y"
  shows "P t"
  using assms(1)
proof (induction rule: rtranclp_induct)
  case base
  show ?case by (rule assms(3))
next
  case (step y z)
  have "inv y" using step.hyps(1) assms(2) by (rule run_inv)
  with step show ?case by (blast intro: assms(4))
qed

end

end
