(* ===== verification/Go_Strings.thy ===== *)
theory Go_Strings
  imports Go_Base "HOL-Library.Char_ord" "HOL-Library.List_Lexorder"
begin

text \<open>
  Go strings and the functions of the packages \<^verbatim>\<open>strings\<close>, \<^verbatim>\<open>unicode\<close>,
  \<^verbatim>\<open>unicode/utf8\<close>, \<^verbatim>\<open>encoding/hex\<close> and \<^verbatim>\<open>net/url\<close> that the program calls.

  A Go string is a sequence of bytes, so a \<open>char\<close> of the model is one byte and \<open>length\<close> is
  \<^verbatim>\<open>len\<close>. Where the code ranges over a string it reads runes: \<open>runes\<close> decodes them as
  \<^verbatim>\<open>utf8.DecodeRuneInString\<close> does, an invalid byte being the rune U+FFFD of width one. The
  order of strings is the byte order (\<^verbatim>\<open>Char_ord\<close> and \<^verbatim>\<open>List_Lexorder\<close>), the order of
  \<^verbatim>\<open>sort.Strings\<close>.
\<close>

abbreviation byte :: "char \<Rightarrow> nat" where
  "byte c \<equiv> of_char c"

section \<open>Splitting and joining\<close>

text \<open>\<^verbatim>\<open>strings.Split\<close> with a separator of one byte.\<close>

fun split_on :: "char \<Rightarrow> string \<Rightarrow> string list" where
  "split_on c [] = [[]]"
| "split_on c (x # xs) =
     (if x = c then [] # split_on c xs
      else (case split_on c xs of p # ps \<Rightarrow> (x # p) # ps | [] \<Rightarrow> [[x]]))"

text \<open>\<^verbatim>\<open>strings.Join\<close>.\<close>

fun join_with :: "string \<Rightarrow> string list \<Rightarrow> string" where
  "join_with sep [] = []"
| "join_with sep [p] = p"
| "join_with sep (p # ps) = p @ sep @ join_with sep ps"

text \<open>\<^verbatim>\<open>strings.FieldsFunc\<close> for separators that are single bytes.\<close>

fun fields_func :: "(char \<Rightarrow> bool) \<Rightarrow> string \<Rightarrow> string \<Rightarrow> string list" where
  "fields_func f acc [] = (if acc = [] then [] else [rev acc])"
| "fields_func f acc (x # xs) =
     (if f x then (if acc = [] then fields_func f [] xs else rev acc # fields_func f [] xs)
      else fields_func f (x # acc) xs)"

definition has_prefix :: "string \<Rightarrow> string \<Rightarrow> bool" where
  "has_prefix s p \<longleftrightarrow> take (length p) s = p"

lemma split_on_not_Nil [simp]: "split_on c s \<noteq> []"
  by (induction s) (auto split: list.splits)

lemma split_on_no_sep: "c \<notin> set s \<Longrightarrow> split_on c s = [s]"
  by (induction s) auto

lemma split_on_sep: "c \<notin> set p \<Longrightarrow> split_on c (p @ c # s) = p # split_on c s"
  by (induction p) (auto split: list.splits)

lemma split_on_part: "p \<in> set (split_on c s) \<Longrightarrow> c \<notin> set p"
  by (induction s arbitrary: p) (auto split: if_splits list.splits)

lemma join_with_Cons: "join_with sep ((x # p) # ps) = x # join_with sep (p # ps)"
  by (cases ps) auto

lemma join_with_append: "ps \<noteq> [] \<Longrightarrow> qs \<noteq> [] \<Longrightarrow> join_with sep (ps @ qs) = join_with sep ps @ sep @ join_with sep qs"
  by (induction ps rule: induct_list012) (auto simp: neq_Nil_conv)

lemma join_split_on: "join_with [c] (split_on c s) = s"
proof (induction s)
  case Nil
  then show ?case by simp
next
  case (Cons x xs)
  obtain p ps where "split_on c xs = p # ps" by (cases "split_on c xs") auto
  with Cons show ?case by (simp add: join_with_Cons)
qed

lemma fields_func_append:
  "\<forall>x \<in> set p. \<not> f x \<Longrightarrow> fields_func f acc (p @ s) = fields_func f (rev p @ acc) s"
  by (induction p arbitrary: acc) auto

lemma fields_func_mem:
  assumes "part \<in> set (fields_func f acc s)" and "\<forall>x \<in> set acc. \<not> f x"
  shows "part \<noteq> [] \<and> (\<forall>x \<in> set part. \<not> f x)"
  using assms
proof (induction s arbitrary: acc)
  case Nil
  then show ?case by (auto split: if_splits)
next
  case (Cons x xs)
  have empty: "part \<in> set (fields_func f [] xs) \<Longrightarrow> ?case"
    by (rule Cons.IH [of "[]"]) simp_all
  show ?case
  proof (cases "f x")
    case True
    with Cons.prems have "part \<in> set (fields_func f [] xs) \<or> (part = rev acc \<and> acc \<noteq> [])"
      by (auto split: if_splits)
    with empty Cons.prems(2) show ?thesis by auto
  next
    case False
    with Cons.prems have "part \<in> set (fields_func f (x # acc) xs)" "\<forall>y \<in> set (x # acc). \<not> f y"
      by auto
    then show ?thesis by (rule Cons.IH)
  qed
qed

section \<open>Runes\<close>

definition cont_byte :: "nat \<Rightarrow> bool" where
  "cont_byte b \<longleftrightarrow> 0x80 \<le> b \<and> b \<le> 0xBF"

definition second_ok :: "nat \<Rightarrow> nat \<Rightarrow> bool" where
  "second_ok b0 b1 \<longleftrightarrow>
     (if b0 = 0xE0 then 0xA0 else if b0 = 0xF0 then 0x90 else 0x80) \<le> b1 \<and>
     b1 \<le> (if b0 = 0xED then 0x9F else if b0 = 0xF4 then 0x8F else 0xBF)"

definition rune_error :: nat where
  "rune_error = 0xFFFD"

text \<open>\<^verbatim>\<open>utf8.DecodeRuneInString\<close>: the first rune and its width in bytes.\<close>

definition decode_rune :: "string \<Rightarrow> nat \<times> nat" where
  "decode_rune s = (case map of_char (take 4 s) :: nat list of
       [] \<Rightarrow> (rune_error, 0)
     | b0 # bs \<Rightarrow>
        (if b0 < 0x80 then (b0, 1)
         else if 0xC2 \<le> b0 \<and> b0 \<le> 0xDF then
           (case bs of
              b1 # _ \<Rightarrow> if cont_byte b1 then ((b0 - 0xC0) * 64 + (b1 - 0x80), 2) else (rune_error, 1)
            | [] \<Rightarrow> (rune_error, 1))
         else if 0xE0 \<le> b0 \<and> b0 \<le> 0xEF then
           (case bs of
              b1 # b2 # _ \<Rightarrow>
                if second_ok b0 b1 \<and> cont_byte b2
                then ((b0 - 0xE0) * 4096 + (b1 - 0x80) * 64 + (b2 - 0x80), 3) else (rune_error, 1)
            | _ \<Rightarrow> (rune_error, 1))
         else if 0xF0 \<le> b0 \<and> b0 \<le> 0xF4 then
           (case bs of
              b1 # b2 # b3 # _ \<Rightarrow>
                if second_ok b0 b1 \<and> cont_byte b2 \<and> cont_byte b3
                then ((b0 - 0xF0) * 262144 + (b1 - 0x80) * 4096 + (b2 - 0x80) * 64 + (b3 - 0x80), 4)
                else (rune_error, 1)
            | _ \<Rightarrow> (rune_error, 1))
         else (rune_error, 1)))"

text \<open>The runes of a string, each with the bytes it was decoded from.\<close>

fun runes :: "string \<Rightarrow> (nat \<times> string) list" where
  "runes [] = []"
| "runes (c # cs) =
     (let (r, w) = decode_rune (c # cs) in (r, c # take (w - 1) cs) # runes (drop (w - 1) cs))"

definition valid_utf8 :: "string \<Rightarrow> bool" where
  "valid_utf8 s \<longleftrightarrow> (\<forall>(r, bs) \<in> set (runes s). \<not> (r = rune_error \<and> length bs = 1))"

text \<open>\<^verbatim>\<open>unicode.IsControl\<close> (category Cc) and \<^verbatim>\<open>unicode.IsSpace\<close>.\<close>

definition is_control :: "nat \<Rightarrow> bool" where
  "is_control r \<longleftrightarrow> r \<le> 0x1F \<or> (0x7F \<le> r \<and> r \<le> 0x9F)"

definition is_space :: "nat \<Rightarrow> bool" where
  "is_space r \<longleftrightarrow>
     r \<in> {0x09, 0x0A, 0x0B, 0x0C, 0x0D, 0x20, 0x85, 0xA0, 0x1680, 0x2028, 0x2029, 0x202F, 0x205F, 0x3000}
     \<or> (0x2000 \<le> r \<and> r \<le> 0x200A)"

definition trim_space :: "string \<Rightarrow> string" where
  "trim_space s =
     concat (map snd (rev (dropWhile (is_space \<circ> fst) (rev (dropWhile (is_space \<circ> fst) (runes s))))))"

text \<open>
  \<^verbatim>\<open>strings.EqualFold\<close>, exact when one side is ASCII, which holds of every call of the
  program: the simple folds of an ASCII letter are the other case, the Kelvin sign for \<open>k\<close> and
  the long s for \<open>s\<close>.
\<close>

definition fold_rune :: "nat \<Rightarrow> nat" where
  "fold_rune r = (if 0x41 \<le> r \<and> r \<le> 0x5A then r + 0x20
     else if r = 0x212A then 0x6B else if r = 0x17F then 0x73 else r)"

definition equal_fold :: "string \<Rightarrow> string \<Rightarrow> bool" where
  "equal_fold s t \<longleftrightarrow> map (fold_rune \<circ> fst) (runes s) = map (fold_rune \<circ> fst) (runes t)"

lemma concat_runes: "concat (map snd (runes s)) = s"
  by (induction s rule: runes.induct) (auto simp: Let_def split: prod.splits)

text \<open>A rune below U+0080 is the byte it was read from, and no byte of another rune is ASCII.\<close>

lemma decode_rune_ascii [simp]: "byte c < 0x80 \<Longrightarrow> decode_rune (c # cs) = (byte c, 1)"
  by (simp add: decode_rune_def)

lemma decode_rune_high:
  assumes "0x80 \<le> byte c" and "decode_rune (c # cs) = (r, w)"
  shows "0x80 \<le> r \<and> (\<forall>x \<in> set (take (w - 1) cs). 0x80 \<le> byte x)"
proof -
  have sec: "second_ok b0 b1 \<Longrightarrow> 0x80 \<le> b1" for b0 b1
    by (auto simp: second_ok_def split: if_splits)
  consider "cs = []" | (one) b where "cs = [b]" | (two) b d where "cs = [b, d]"
    | (more) b d e es where "cs = b # d # e # es"
    by (metis neq_Nil_conv)
  then show ?thesis
  proof cases
    case 1
    with assms show ?thesis
      by (auto simp: decode_rune_def rune_error_def split: if_splits)
  next
    case one
    with assms show ?thesis
      by (auto simp: decode_rune_def rune_error_def cont_byte_def split: if_splits)
  next
    case two
    with assms show ?thesis
      by (auto simp: decode_rune_def rune_error_def cont_byte_def second_ok_def split: if_splits)
  next
    case more
    with assms show ?thesis
      by (auto simp: decode_rune_def rune_error_def cont_byte_def second_ok_def numeral_3_eq_3 split: if_splits)
  qed
qed

lemma runes_ascii_or_high:
  "(r, bs) \<in> set (runes s) \<Longrightarrow>
     (r < 0x80 \<and> (\<exists>c. bs = [c] \<and> byte c = r)) \<or> (0x80 \<le> r \<and> (\<forall>c \<in> set bs. 0x80 \<le> byte c))"
proof (induction s rule: runes.induct)
  case 1
  then show ?case by simp
next
  case (2 c cs)
  obtain r0 w0 where d: "decode_rune (c # cs) = (r0, w0)" by force
  show ?case
  proof (cases "(r, bs) = (r0, c # take (w0 - 1) cs)")
    case True
    show ?thesis
    proof (cases "byte c < 0x80")
      case asc: True
      with d True decode_rune_ascii [OF asc, of cs] show ?thesis by simp
    next
      case False
      with decode_rune_high [OF _ d] True show ?thesis by auto
    qed
  next
    case False
    with "2.prems" d have "(r, bs) \<in> set (runes (drop (w0 - 1) cs))" by auto
    then show ?thesis by (rule "2.IH" [OF d [symmetric] refl])
  qed
qed

text \<open>
  A test of runes that only ASCII runes pass is the same test of bytes. This is why the checks
  for separators and ASCII control characters may read bytes.
\<close>

lemma runes_bytes_exists:
  assumes "\<And>n. P n \<Longrightarrow> n < 0x80"
  shows "(\<exists>(r, bs) \<in> set (runes s). P r) \<longleftrightarrow> (\<exists>c \<in> set s. P (byte c))"
proof
  assume "\<exists>(r, bs) \<in> set (runes s). P r"
  then obtain r bs where m: "(r, bs) \<in> set (runes s)" and p: "P r" by auto
  from runes_ascii_or_high [OF m] assms [OF p] obtain c where "bs = [c]" "byte c = r" by auto
  moreover from m have "set bs \<subseteq> set (concat (map snd (runes s)))" by force
  ultimately have "c \<in> set s" by (simp add: concat_runes)
  with p \<open>byte c = r\<close> show "\<exists>c \<in> set s. P (byte c)" by auto
next
  assume "\<exists>c \<in> set s. P (byte c)"
  then obtain c where c: "c \<in> set s" and p: "P (byte c)" by auto
  from c have "c \<in> set (concat (map snd (runes s)))" by (simp add: concat_runes)
  then obtain r bs where m: "(r, bs) \<in> set (runes s)" and "c \<in> set bs" by auto
  with runes_ascii_or_high [OF m] assms [OF p] have "r = byte c" by auto
  with m p show "\<exists>(r, bs) \<in> set (runes s). P r" by auto
qed

definition is_ascii :: "string \<Rightarrow> bool" where
  "is_ascii s \<longleftrightarrow> (\<forall>c \<in> set s. byte c < 0x80)"

lemma runes_ascii: "is_ascii s \<Longrightarrow> runes s = map (\<lambda>c. (byte c, [c])) s"
  by (induction s) (auto simp: is_ascii_def decode_rune_ascii)

lemma valid_utf8_ascii: "is_ascii s \<Longrightarrow> valid_utf8 s"
  by (auto simp: valid_utf8_def runes_ascii rune_error_def is_ascii_def)

lemma trim_space_id:
  assumes "is_ascii s" and "s \<noteq> []" and "\<not> is_space (byte (hd s))" and "\<not> is_space (byte (last s))"
  shows "trim_space s = s"
proof -
  let ?f = "\<lambda>c. (byte c, [c])"
  have "dropWhile (is_space \<circ> fst) (map ?f s) = map ?f s"
    using assms by (cases s) auto
  moreover have "dropWhile (is_space \<circ> fst) (rev (map ?f s)) = rev (map ?f s)"
    using assms by (cases "rev s") (auto simp: rev_map hd_rev [symmetric])
  ultimately show ?thesis
    using assms(1) by (simp add: trim_space_def runes_ascii comp_def)
qed

section \<open>Hexadecimal and percent encoding\<close>

definition hex_digit :: "nat \<Rightarrow> char" where
  "hex_digit n = ''0123456789abcdef'' ! n"

text \<open>\<^verbatim>\<open>hex.EncodeToString\<close>.\<close>

definition hex_encode :: "string \<Rightarrow> string" where
  "hex_encode s = concat (map (\<lambda>c. [hex_digit (byte c div 16), hex_digit (byte c mod 16)]) s)"

fun unhex :: "char \<Rightarrow> nat option" where
  "unhex c = (let b = byte c in
     if 0x30 \<le> b \<and> b \<le> 0x39 then Some (b - 0x30)
     else if 0x61 \<le> b \<and> b \<le> 0x66 then Some (b - 0x61 + 10)
     else if 0x41 \<le> b \<and> b \<le> 0x46 then Some (b - 0x41 + 10)
     else None)"

text \<open>\<^verbatim>\<open>url.PathUnescape\<close>: \<open>None\<close> is its \<^verbatim>\<open>EscapeError\<close>.\<close>

fun path_unescape :: "string \<Rightarrow> string option" where
  "path_unescape [] = Some []"
| "path_unescape (c # s) =
     (if c = CHR ''%'' then
        (case s of
           a # b # t \<Rightarrow>
             (case (unhex a, unhex b) of
                (Some x, Some y) \<Rightarrow> map_option (Cons (char_of (16 * x + y))) (path_unescape t)
              | _ \<Rightarrow> None)
         | _ \<Rightarrow> None)
      else map_option (Cons c) (path_unescape s))"

text \<open>\<^verbatim>\<open>url.PathEscape\<close>: the bytes \<^verbatim>\<open>shouldEscape\<close> keeps in a path segment.\<close>

definition path_safe :: "char \<Rightarrow> bool" where
  "path_safe c \<longleftrightarrow> (let b = byte c in
     (0x61 \<le> b \<and> b \<le> 0x7A) \<or> (0x41 \<le> b \<and> b \<le> 0x5A) \<or> (0x30 \<le> b \<and> b \<le> 0x39) \<or>
     c \<in> set ''-_.~$&+:=@'')"

definition upper_hex_digit :: "nat \<Rightarrow> char" where
  "upper_hex_digit n = ''0123456789ABCDEF'' ! n"

definition path_escape :: "string \<Rightarrow> string" where
  "path_escape s = concat (map (\<lambda>c. if path_safe c then [c]
     else [CHR ''%'', upper_hex_digit (byte c div 16), upper_hex_digit (byte c mod 16)]) s)"

lemma unhex_upper: "n < 16 \<Longrightarrow> unhex (upper_hex_digit n) = Some n"
proof -
  have "list_all (\<lambda>k. unhex (upper_hex_digit k) = Some k) [0..<16]" by code_simp
  then show "n < 16 \<Longrightarrow> unhex (upper_hex_digit n) = Some n" by (simp only: list_all_iff set_upt) simp
qed

lemma byte_less [simp]: "byte c < 256"
  using of_char_of [where 'a = nat] by (metis char_of_take_bit_eq nat_of_char_less_256)

lemma byte_split: "char_of (16 * (byte c div 16) + byte c mod 16) = c"
  by simp

lemma path_safe_not_percent: "path_safe c \<Longrightarrow> c \<noteq> CHR ''%''"
  by (auto simp: path_safe_def Let_def)

theorem path_unescape_escape: "path_unescape (path_escape s) = Some s"
proof (induction s)
  case Nil
  then show ?case by (simp add: path_escape_def)
next
  case (Cons c s)
  have esc: "path_escape (c # s) = (if path_safe c then [c]
     else [CHR ''%'', upper_hex_digit (byte c div 16), upper_hex_digit (byte c mod 16)]) @ path_escape s"
    by (simp add: path_escape_def)
  have "byte c div 16 < 16" using byte_less [of c] by (simp add: less_mult_imp_div_less)
  with Cons show ?case
    by (auto simp del: unhex.simps simp: esc path_safe_not_percent unhex_upper byte_split)
qed

lemma path_escape_inj: "path_escape s = path_escape t \<Longrightarrow> s = t"
  by (metis path_unescape_escape option.inject)

lemma unhex_slash: "unhex CHR ''/'' = None"
  by code_simp

lemma upper_hex_digit_not_slash: "n < 16 \<Longrightarrow> upper_hex_digit n \<noteq> CHR ''/''"
  using unhex_upper [of n] by (metis option.discI unhex_slash)

lemma path_safe_not_slash: "path_safe c \<Longrightarrow> c \<noteq> CHR ''/''"
  by (auto simp: path_safe_def Let_def)

lemma path_escape_no_slash: "CHR ''/'' \<notin> set (path_escape s)"
proof (induction s)
  case Nil
  then show ?case by (simp add: path_escape_def)
next
  case (Cons c s)
  have "byte c div 16 < 16" using byte_less [of c] by (simp add: less_mult_imp_div_less)
  then have "CHR ''/'' \<noteq> upper_hex_digit (byte c div 16)" "CHR ''/'' \<noteq> upper_hex_digit (byte c mod 16)"
    using upper_hex_digit_not_slash [symmetric] by simp_all
  moreover have "path_safe c \<Longrightarrow> CHR ''/'' \<noteq> c"
    using path_safe_not_slash by blast
  ultimately show ?case
    using Cons by (simp add: path_escape_def)
qed

section \<open>Decimal numbers\<close>

text \<open>\<^verbatim>\<open>strconv.Itoa\<close>, \<^verbatim>\<open>strconv.FormatInt\<close> and \<^verbatim>\<open>strconv.ParseInt\<close> in base 10 and 64 bits.\<close>

fun decimal_digits :: "nat \<Rightarrow> string" where
  "decimal_digits n =
     (if n < 10 then [char_of (0x30 + n)] else decimal_digits (n div 10) @ [char_of (0x30 + n mod 10)])"

declare decimal_digits.simps [simp del]

definition format_int :: "int \<Rightarrow> string" where
  "format_int v = (if v < 0 then CHR ''-'' # decimal_digits (nat (- v)) else decimal_digits (nat v))"

definition is_digit :: "char \<Rightarrow> bool" where
  "is_digit c \<longleftrightarrow> 0x30 \<le> byte c \<and> byte c \<le> 0x39"

definition digits_value :: "string \<Rightarrow> nat" where
  "digits_value ds = foldl (\<lambda>n c. 10 * n + (byte c - 0x30)) 0 ds"

definition parse_int64 :: "string \<Rightarrow> int option" where
  "parse_int64 s =
     (let neg = (s \<noteq> [] \<and> hd s = CHR ''-'');
          ds = (if s \<noteq> [] \<and> (hd s = CHR ''-'' \<or> hd s = CHR ''+'') then tl s else s);
          v = (if neg then - int (digits_value ds) else int (digits_value ds))
      in if ds \<noteq> [] \<and> list_all is_digit ds \<and> - (2 ^ 63) \<le> v \<and> v < 2 ^ 63 then Some v else None)"

lemma digit_char: "n < 10 \<Longrightarrow> is_digit (char_of (0x30 + n)) \<and> byte (char_of (0x30 + n)) = 0x30 + n"
  by (simp add: is_digit_def)

lemma decimal_digits_are_digits: "list_all is_digit (decimal_digits n)"
proof (induction n rule: decimal_digits.induct)
  case (1 n)
  then show ?case
    using digit_char [of n] digit_char [of "n mod 10"] by (subst decimal_digits.simps) (simp add: list_all_append)
qed

lemma decimal_digits_not_Nil: "decimal_digits n \<noteq> []"
  by (subst decimal_digits.simps) simp

lemma digits_value_decimal: "digits_value (decimal_digits n) = n"
proof (induction n rule: decimal_digits.induct)
  case (1 n)
  show ?case
  proof (cases "n < 10")
    case True
    then show ?thesis using digit_char [of n] by (subst decimal_digits.simps) (simp add: digits_value_def)
  next
    case False
    with 1 have "digits_value (decimal_digits (n div 10)) = n div 10" by simp
    with False show ?thesis
      using digit_char [of "n mod 10"] by (subst decimal_digits.simps) (simp add: digits_value_def)
  qed
qed

lemma digit_not_in_decimal: "\<not> is_digit c \<Longrightarrow> c \<notin> set (decimal_digits n)"
  using decimal_digits_are_digits [of n] by (auto simp: list_all_iff)

lemma format_int_bytes: "c \<in> set (format_int v) \<Longrightarrow> is_digit c \<or> c = CHR ''-''"
  using decimal_digits_are_digits by (auto simp: format_int_def list_all_iff split: if_splits)

theorem parse_format_int64:
  assumes "- (2 ^ 63) \<le> v" and "v < 2 ^ 63"
  shows "parse_int64 (format_int v) = Some v"
proof -
  have hd: "hd (decimal_digits n) \<noteq> CHR ''-'' \<and> hd (decimal_digits n) \<noteq> CHR ''+''" for n
    using hd_in_set [OF decimal_digits_not_Nil, of n] decimal_digits_are_digits [of n]
    by (auto simp: list_all_iff is_digit_def)
  show ?thesis
    using assms hd decimal_digits_not_Nil decimal_digits_are_digits
    by (simp add: parse_int64_def format_int_def digits_value_decimal Let_def nat_le_iff nat_less_iff)
qed

end
