(* ===== verification/Go_Values.thy ===== *)
theory Go_Values
  imports Go_Strings Complex_Main
begin

text \<open>
  The values a record holds: what \<^verbatim>\<open>map[string]any\<close> carries once a JSON body has been decoded,
  and the integer types the storage adapters return. A \<^verbatim>\<open>float64\<close> is a finite value, an
  infinity or NaN; rounding is to nearest, ties to even, with the exponent range of IEEE double
  precision. The sign of a zero is not represented. A \<^verbatim>\<open>json.Number\<close> is the exact decimal value of its
  text. No value of type \<^verbatim>\<open>float32\<close> is modelled: no decoder of the program produces one.
\<close>

section \<open>float64\<close>

datatype float64 = Fin rat | PInf | NInf | NaN

fun ilog2 :: "nat \<Rightarrow> nat" where
  "ilog2 n = (if n \<le> 1 then 0 else Suc (ilog2 (n div 2)))"

declare ilog2.simps [simp del]

definition pow2 :: "int \<Rightarrow> rat" where
  "pow2 e = (if 0 \<le> e then 2 ^ nat e else 1 / 2 ^ nat (- e))"

text \<open>The exponent of a positive rational: \<open>pow2 e \<le> a < pow2 (e + 1)\<close>.\<close>

definition rat_exponent :: "rat \<Rightarrow> int" where
  "rat_exponent a =
     (let (p, q) = quotient_of a;
          e = int (ilog2 (nat p)) - int (ilog2 (nat q))
      in if pow2 e \<le> a then e else e - 1)"

definition round_half_even :: "rat \<Rightarrow> int" where
  "round_half_even r =
     (let f = \<lfloor>r\<rfloor>; d = r - of_int f in
      if d < 1 / 2 then f else if 1 / 2 < d then f + 1 else if even f then f else f + 1)"

definition fl_round :: "rat \<Rightarrow> float64" where
  "fl_round r =
     (if r = 0 then Fin 0
      else let a = \<bar>r\<bar>;
               u = max (rat_exponent a - 52) (- 1074);
               v = of_int (round_half_even (a / pow2 u)) * pow2 u
           in if pow2 1024 \<le> v then (if 0 < r then PInf else NInf)
              else Fin (if r < 0 then - v else v))"

fun fl_add :: "float64 \<Rightarrow> float64 \<Rightarrow> float64" where
  "fl_add (Fin a) (Fin b) = fl_round (a + b)"
| "fl_add NaN _ = NaN"
| "fl_add _ NaN = NaN"
| "fl_add PInf NInf = NaN"
| "fl_add NInf PInf = NaN"
| "fl_add PInf _ = PInf"
| "fl_add NInf _ = NInf"
| "fl_add _ PInf = PInf"
| "fl_add _ NInf = NInf"

text \<open>\<^verbatim>\<open>f == math.Trunc(f)\<close>.\<close>

fun fl_is_integer :: "float64 \<Rightarrow> bool" where
  "fl_is_integer (Fin r) = (of_int \<lfloor>r\<rfloor> = r)"
| "fl_is_integer NaN = False"
| "fl_is_integer _ = True"

section \<open>Values\<close>

datatype int_kind = Kint | Kint32 | Kint64 | Kuint | Kuint32 | Kuint64

datatype gvalue =
    VNil
  | VBool bool
  | VStr string
  | VFloat float64
  | VInt int_kind int
  | VNumber rat
  | VArr "gvalue list"
  | VObj "(string \<times> gvalue) list"

type_synonym gobject = "(string, gvalue) gomap"

text \<open>\<^verbatim>\<open>json.Number.Float64\<close>: out of range is an error.\<close>

definition number_float :: "rat \<Rightarrow> float64 option" where
  "number_float r = (case fl_round r of Fin v \<Rightarrow> Some (Fin v) | _ \<Rightarrow> None)"

text \<open>
  The value after \<^verbatim>\<open>json.Marshal\<close> and \<^verbatim>\<open>json.Unmarshal\<close> into \<^verbatim>\<open>map[string]any\<close>. Numbers come
  back as \<^verbatim>\<open>float64\<close>, a number out of range as nil; an invalid byte of a string comes back as the
  three bytes of U+FFFD; the keys of an object are written in sorted order, and a later key wins.
  NaN and the infinities cannot be marshalled (\<open>json_encodable\<close>).
\<close>

definition json_string :: "string \<Rightarrow> string" where
  "json_string s = concat (map (\<lambda>(r, bs). if r = rune_error \<and> length bs = 1
     then [char_of (0xEF::nat), char_of (0xBF::nat), char_of (0xBD::nat)] else bs) (runes s))"

fun json_encodable :: "gvalue \<Rightarrow> bool" where
  "json_encodable (VFloat f) = (case f of Fin _ \<Rightarrow> True | _ \<Rightarrow> False)"
| "json_encodable (VArr vs) = list_all json_encodable vs"
| "json_encodable (VObj m) = list_all (json_encodable \<circ> snd) m"
| "json_encodable _ = True"

definition json_fields :: "gobject \<Rightarrow> gobject" where
  "json_fields m = fold (\<lambda>(k, v) out. mput (json_string k) v out) (sort_key fst m) []"

fun json_value :: "gvalue \<Rightarrow> gvalue" where
  "json_value VNil = VNil"
| "json_value (VBool b) = VBool b"
| "json_value (VStr s) = VStr (json_string s)"
| "json_value (VFloat f) = VFloat f"
| "json_value (VInt k n) = VFloat (fl_round (of_int n))"
| "json_value (VNumber r) = (case number_float r of Some f \<Rightarrow> VFloat f | None \<Rightarrow> VNil)"
| "json_value (VArr vs) = VArr (map json_value vs)"
| "json_value (VObj m) = VObj (json_fields (map (\<lambda>(k, v). (k, json_value v)) m))"

section \<open>Lemmas\<close>

lemma ilog2_bounds: "0 < n \<Longrightarrow> 2 ^ ilog2 n \<le> n \<and> n < 2 ^ Suc (ilog2 n)"
proof (induction n rule: ilog2.induct)
  case (1 n)
  show ?case
  proof (cases "n \<le> 1")
    case True
    with 1 show ?thesis by (simp add: ilog2.simps)
  next
    case False
    with "1.IH" have "2 ^ ilog2 (n div 2) \<le> n div 2" "n div 2 < 2 ^ Suc (ilog2 (n div 2))" by auto
    with False show ?thesis by (simp add: ilog2.simps [of n]) (auto simp: mult.commute)
  qed
qed

lemma round_half_even_int [simp]: "round_half_even (of_int n) = n"
  by (simp add: round_half_even_def Let_def)

lemma rat_exponent_int:
  assumes "0 < n"
  shows "rat_exponent (of_int n) = int (ilog2 (nat n))"
proof -
  have q: "quotient_of (of_int n :: rat) = (n, 1)" by (simp add: quotient_of_int)
  have "2 ^ ilog2 (nat n) \<le> nat n" using ilog2_bounds [of "nat n"] assms by simp
  then have "int (2 ^ ilog2 (nat n)) \<le> int (nat n)" by (simp only: of_nat_le_iff)
  then have "(of_int (2 ^ ilog2 (nat n)) :: rat) \<le> of_int n"
    using assms by (simp only: of_int_le_iff) simp
  then have "pow2 (int (ilog2 (nat n))) \<le> (of_int n :: rat)"
    by (simp add: pow2_def)
  then show ?thesis
    by (simp add: rat_exponent_def q ilog2.simps [of "Suc 0"] Let_def)
qed

text \<open>Integers of magnitude below \<open>2 ^ 53\<close> are represented exactly.\<close>

lemma fl_round_int:
  assumes "\<bar>n\<bar> < 2 ^ 53"
  shows "fl_round (of_int n) = Fin (of_int n)"
proof (cases "n = 0")
  case True
  then show ?thesis by (simp add: fl_round_def)
next
  case False
  let ?m = "\<bar>n\<bar>" and ?e = "ilog2 (nat \<bar>n\<bar>)"
  have m: "0 < ?m" using False by simp
  have "2 ^ ?e \<le> nat ?m" using ilog2_bounds [of "nat ?m"] m by simp
  also have "nat ?m < 2 ^ 53" using assms by simp
  finally have e: "?e < 53" by (rule power_less_imp_less_exp [rotated]) simp
  have ex: "rat_exponent \<bar>of_int n\<bar> = int ?e"
    using rat_exponent_int [OF m] by simp
  have u: "max (rat_exponent \<bar>of_int n\<bar> - 52) (- 1074) = - int (52 - ?e)"
    using e by (simp add: ex max_def of_nat_diff)
  have p: "pow2 (- int (52 - ?e)) = 1 / 2 ^ (52 - ?e)"
    by (cases "52 - ?e = 0") (simp_all add: pow2_def)
  have "\<bar>of_int n\<bar> / pow2 (- int (52 - ?e)) = (of_int (?m * 2 ^ (52 - ?e)) :: rat)"
    by (simp add: p)
  then have r: "round_half_even (\<bar>of_int n\<bar> / pow2 (- int (52 - ?e))) = ?m * 2 ^ (52 - ?e)"
    by (simp only: round_half_even_int)
  have v: "of_int (round_half_even (\<bar>of_int n\<bar> / pow2 (- int (52 - ?e)))) * pow2 (- int (52 - ?e))
      = (of_int ?m :: rat)"
    by (simp only: r) (simp add: p)
  have "(of_int ?m :: rat) < of_int (2 ^ 53)" using assms by (simp only: of_int_less_iff)
  also have "\<dots> \<le> pow2 1024" by (simp add: pow2_def)
  finally have "\<not> pow2 1024 \<le> (of_int ?m :: rat)" by simp
  then have "fl_round (of_int n) = Fin (if (of_int n :: rat) < 0 then - of_int ?m else of_int ?m)"
    using False unfolding fl_round_def Let_def u v by simp
  then show ?thesis by (auto simp: abs_if)
qed

lemma fl_is_integer_int [simp]: "fl_is_integer (Fin (of_int n))"
  by simp

end
