(* ===== verification/Schema.thy ===== *)
theory Schema
  imports Go_Values
begin

text \<open>
  \<^verbatim>\<open>src/pkg/schema/schema.go\<close>: schema modes, field types, declared collections and the
  validation of a record against them. A Go string type (\<^verbatim>\<open>Mode\<close>, \<^verbatim>\<open>FieldType\<close>) stays a
  string, because an unknown value is one of the cases the code handles. A nil pointer is
  \<open>None\<close>, and a check returns \<open>None\<close> for no error.
\<close>

section \<open>Modes and field types\<close>

definition ModeStrict :: string where "ModeStrict = ''strict''"
definition ModePartial :: string where "ModePartial = ''partial''"
definition ModeSchemaless :: string where "ModeSchemaless = ''schemaless''"

datatype schema_error =
    ModeRequired
  | UnknownMode string
  | UnknownFieldType string
  | DecimalMetadataRequired
  | UnboundedDecimalMetadata
  | DecimalMetadataRange
  | DecimalMetadataNotAllowed
  | NoFields string
  | EmptyFieldName string
  | FieldInvalid string string schema_error
  | ReferenceForm string
  | ReferenceLength string
  | ReferenceUndeclaredCollection string string
  | ReferenceFieldUndeclared string string
  | ReferenceTargetUndeclared string string string

text \<open>\<^verbatim>\<open>Mode.Validate\<close> and \<^verbatim>\<open>FieldType.Validate\<close>.\<close>

definition mode_validate :: "string \<Rightarrow> schema_error option" where
  "mode_validate m =
     (if m \<in> {ModeStrict, ModePartial, ModeSchemaless} then None
      else if m = [] then Some ModeRequired else Some (UnknownMode m))"

definition field_types :: "string list" where
  "field_types = [''string'', ''number'', ''decimal'', ''integer'', ''boolean'', ''object'', ''array'', ''any'']"

definition field_type_validate :: "string \<Rightarrow> schema_error option" where
  "field_type_validate t = (if t \<in> set field_types then None else Some (UnknownFieldType t))"

record decimal =
  d_precision :: int
  d_scale :: int
  d_unbounded :: bool
  d_storage :: string

record field =
  f_type :: string
  f_required :: bool
  f_decimal :: "decimal option"
  f_nativeType :: string
  f_primaryKey :: bool
  f_nullable :: bool

text \<open>\<^verbatim>\<open>Field.Validate\<close>.\<close>

definition field_validate :: "field \<Rightarrow> schema_error option" where
  "field_validate f =
     (case field_type_validate (f_type f) of
        Some e \<Rightarrow> Some e
      | None \<Rightarrow>
         if f_type f = ''decimal'' then
           (case f_decimal f of
              None \<Rightarrow> Some DecimalMetadataRequired
            | Some d \<Rightarrow>
               if d_unbounded d then
                 (if d_precision d \<noteq> 0 \<or> d_scale d \<noteq> 0 \<or> d_storage d \<noteq> ''text''
                  then Some UnboundedDecimalMetadata else None)
               else if d_precision d < 1 \<or> d_precision d > 1000 \<or> d_scale d < 0 \<or>
                       d_scale d > d_precision d \<or> d_storage d \<noteq> ''text''
               then Some DecimalMetadataRange else None)
         else if f_decimal f \<noteq> None then Some DecimalMetadataNotAllowed
         else None)"

section \<open>Collections and references\<close>

record reference =
  r_field :: string
  r_fields :: "string list"
  r_collection :: string
  r_targetField :: string
  r_targetFields :: "string list"

record native_source =
  ns_schema :: string
  ns_name :: string

record collection =
  c_fields :: "(string, field) gomap"
  c_references :: "reference list"
  c_source :: "native_source option"

type_synonym schemas = "(string, collection) gomap"

text \<open>\<^verbatim>\<open>Schemas.Collection\<close>; nil schemas are \<open>None\<close>.\<close>

definition schemas_collection :: "schemas option \<Rightarrow> string \<Rightarrow> collection option" where
  "schemas_collection ms name = (case ms of None \<Rightarrow> None | Some s \<Rightarrow> mget s name)"

text \<open>The body of the loop over references in \<^verbatim>\<open>Schemas.Validate\<close>.\<close>

definition reference_pairs :: "string \<Rightarrow> reference \<Rightarrow> schema_error + (string list \<times> string list)" where
  "reference_pairs colName ref =
     (if r_field ref \<noteq> [] \<or> r_targetField ref \<noteq> [] then
        (if r_fields ref \<noteq> [] \<or> r_targetFields ref \<noteq> [] \<or> r_field ref = [] \<or> r_targetField ref = []
         then Inl (ReferenceForm colName)
         else Inr ([r_field ref], [r_targetField ref]))
      else Inr (r_fields ref, r_targetFields ref))"

definition reference_validate :: "schemas \<Rightarrow> string \<Rightarrow> collection \<Rightarrow> reference \<Rightarrow> schema_error option" where
  "reference_validate s colName col ref =
     (case reference_pairs colName ref of
        Inl e \<Rightarrow> Some e
      | Inr (srcs, targets) \<Rightarrow>
         if srcs = [] \<or> length srcs \<noteq> length targets then Some (ReferenceLength colName)
         else (case mget s (r_collection ref) of
             None \<Rightarrow> Some (ReferenceUndeclaredCollection colName (r_collection ref))
           | Some target \<Rightarrow>
              check_all (\<lambda>(f, t).
                 if mget (c_fields col) f = None then Some (ReferenceFieldUndeclared colName f)
                 else if mget (c_fields target) t = None
                 then Some (ReferenceTargetUndeclared colName t (r_collection ref))
                 else None) (zip srcs targets)))"

definition collection_validate :: "schemas \<Rightarrow> string \<times> collection \<Rightarrow> schema_error option" where
  "collection_validate s = (\<lambda>(colName, col).
     (if c_fields col = [] then Some (NoFields colName)
      else case check_all (\<lambda>(fieldName, f).
                if fieldName = [] then Some (EmptyFieldName colName)
                else map_option (FieldInvalid colName fieldName) (field_validate f)) (c_fields col) of
          Some e \<Rightarrow> Some e
        | None \<Rightarrow> check_all (reference_validate s colName col) (c_references col)))"

text \<open>\<^verbatim>\<open>Schemas.Validate\<close>.\<close>

definition schemas_validate :: "schemas option \<Rightarrow> schema_error option" where
  "schemas_validate ms =
     (case ms of None \<Rightarrow> None | Some s \<Rightarrow> check_all (collection_validate s) s)"

section \<open>Values\<close>

text \<open>\<^verbatim>\<open>asFloat\<close> and \<^verbatim>\<open>isNumber\<close>.\<close>

fun as_float :: "gvalue \<Rightarrow> float64 option" where
  "as_float (VFloat f) = Some f"
| "as_float (VInt k n) = Some (fl_round (of_int n))"
| "as_float (VNumber r) = number_float r"
| "as_float _ = None"

definition is_number :: "gvalue \<Rightarrow> bool" where
  "is_number v \<longleftrightarrow> as_float v \<noteq> None"

text \<open>\<^verbatim>\<open>valueMatchesType\<close>.\<close>

definition value_matches_type :: "gvalue \<Rightarrow> string \<Rightarrow> bool" where
  "value_matches_type v t =
     (if t = ''any'' then True
      else if t = ''string'' then (case v of VStr _ \<Rightarrow> True | _ \<Rightarrow> False)
      else if t = ''boolean'' then (case v of VBool _ \<Rightarrow> True | _ \<Rightarrow> False)
      else if t = ''object'' then (case v of VObj _ \<Rightarrow> True | _ \<Rightarrow> False)
      else if t = ''array'' then (case v of VArr _ \<Rightarrow> True | _ \<Rightarrow> False)
      else if t = ''number'' then is_number v
      else if t = ''integer'' then (case as_float v of Some f \<Rightarrow> fl_is_integer f | None \<Rightarrow> False)
      else False)"

definition is_digit :: "char \<Rightarrow> bool" where
  "is_digit c \<longleftrightarrow> 0x30 \<le> byte c \<and> byte c \<le> 0x39"

text \<open>
  \<^verbatim>\<open>validDecimalText\<close>. Its pieces: the parts around the decimal point once a leading sign is
  dropped, the test for a rune that is no digit, and the digits of the integer part.
\<close>

definition decimal_parts :: "string \<Rightarrow> string list" where
  "decimal_parts value =
     split_on CHR ''.'' (if hd value = CHR ''-'' \<or> hd value = CHR ''+'' then tl value else value)"

definition has_non_digit :: "string \<Rightarrow> bool" where
  "has_non_digit part = list_ex (\<lambda>(r, bs). r < 0x30 \<or> 0x39 < r) (runes part)"

definition integer_digits :: "string \<Rightarrow> string" where
  "integer_digits part =
     (let trimmed = dropWhile (\<lambda>c. c = CHR ''0'') part in if trimmed = [] then ''0'' else trimmed)"

definition valid_decimal_text :: "string \<Rightarrow> int \<Rightarrow> int \<Rightarrow> bool" where
  "valid_decimal_text value precision scale =
     (if value = [] \<or> trim_space value \<noteq> value then False
      else
        let unbounded = (precision = 0 \<and> scale = 0) in
        if unbounded \<and> value \<in> {''NaN'', ''Infinity'', ''-Infinity''} then True
        else
          let parts = decimal_parts value in
          if length parts > 2 \<or> (parts ! 0 = [] \<and> (length parts = 1 \<or> parts ! 1 = [])) \<or>
             (\<not> unbounded \<and> length parts = 2 \<and> int (length (parts ! 1)) > scale) then False
          else if list_ex has_non_digit parts then False
          else if unbounded then True
          else if integer_digits (parts ! 0) \<noteq> ''0'' \<and>
                  int (length (integer_digits (parts ! 0))) > precision - scale then False
          else True)"

text \<open>\<^verbatim>\<open>valueMatchesField\<close>.\<close>

definition value_matches_field :: "gvalue \<Rightarrow> field \<Rightarrow> bool" where
  "value_matches_field v f =
     (if f_type f \<noteq> ''decimal'' then value_matches_type v (f_type f)
      else (case (v, f_decimal f) of
              (VStr text, Some d) \<Rightarrow> valid_decimal_text text (d_precision d) (d_scale d)
            | _ \<Rightarrow> False))"

section \<open>Validating a record\<close>

datatype validation_error =
    NoSchemaDeclared string
  | RequiredFieldMissing string string
  | TypeMismatch string string string
  | UnknownFieldRejected string string
  | UnknownSchemaMode string

definition field_check :: "string \<Rightarrow> gobject \<Rightarrow> string \<times> field \<Rightarrow> validation_error option" where
  "field_check coll data = (\<lambda>(name, f).
     (case mget data name of
        None \<Rightarrow> if f_required f then Some (RequiredFieldMissing coll name) else None
      | Some VNil \<Rightarrow> if f_required f then Some (RequiredFieldMissing coll name) else None
      | Some v \<Rightarrow> if value_matches_field v f then None else Some (TypeMismatch coll name (f_type f))))"

text \<open>\<^verbatim>\<open>validateFields\<close>.\<close>

definition validate_fields :: "string \<Rightarrow> collection \<Rightarrow> gobject \<Rightarrow> bool \<Rightarrow> validation_error option" where
  "validate_fields coll col data rejectUnknown =
     (case check_all (field_check coll data) (c_fields col) of
        Some e \<Rightarrow> Some e
      | None \<Rightarrow>
         if rejectUnknown then
           check_all (\<lambda>name. if name = ''id'' then None
              else if mget (c_fields col) name = None then Some (UnknownFieldRejected coll name)
              else None) (mkeys data)
         else None)"

text \<open>\<^verbatim>\<open>ValidateRecord\<close>.\<close>

definition validate_record ::
    "string \<Rightarrow> string \<Rightarrow> collection option \<Rightarrow> gobject \<Rightarrow> validation_error option" where
  "validate_record mode coll mcol data =
     (if mode = ModeSchemaless then None
      else if mode = ModePartial then
        (case mcol of None \<Rightarrow> None | Some col \<Rightarrow> validate_fields coll col data False)
      else if mode = ModeStrict then
        (case mcol of
           None \<Rightarrow> Some (NoSchemaDeclared coll)
         | Some col \<Rightarrow> validate_fields coll col data True)
      else Some (UnknownSchemaMode mode))"

section \<open>Lemmas\<close>

definition field_ok :: "gobject \<Rightarrow> string \<Rightarrow> field \<Rightarrow> bool" where
  "field_ok data name f \<longleftrightarrow>
     (case mget data name of
        Some v \<Rightarrow> if v = VNil then \<not> f_required f else value_matches_field v f
      | None \<Rightarrow> \<not> f_required f)"

lemma field_check_None: "field_check coll data (name, f) = None \<longleftrightarrow> field_ok data name f"
  by (auto simp: field_check_def field_ok_def split: option.splits gvalue.splits)

lemma validate_fields_None:
  assumes "wf_map (c_fields col)"
  shows "validate_fields coll col data strict = None \<longleftrightarrow>
    (\<forall>name f. mget (c_fields col) name = Some f \<longrightarrow> field_ok data name f) \<and>
    (strict \<longrightarrow> (\<forall>name. mget data name \<noteq> None \<longrightarrow> name = ''id'' \<or> mget (c_fields col) name \<noteq> None))"
proof -
  have decl: "check_all (field_check coll data) (c_fields col) = None \<longleftrightarrow>
      (\<forall>name f. mget (c_fields col) name = Some f \<longrightarrow> field_ok data name f)"
    unfolding check_all_None_iff using assms
    by (auto simp: field_check_None mget_in_set [symmetric])
  let ?known = "\<lambda>name. name = ''id'' \<or> mget (c_fields col) name \<noteq> None"
  have "(check_all (\<lambda>name. if name = ''id'' then None
      else if mget (c_fields col) name = None then Some (UnknownFieldRejected coll name)
      else None) (mkeys data) = None) \<longleftrightarrow> (\<forall>name \<in> set (mkeys data). ?known name)"
    unfolding check_all_None_iff by (rule ball_cong) auto
  also have "\<dots> \<longleftrightarrow> (\<forall>name. mget data name \<noteq> None \<longrightarrow> ?known name)"
    unfolding mget_keys by blast
  finally show ?thesis
    unfolding validate_fields_def first_error_None decl by simp
qed

lemma mode_distinct [simp]:
  "ModePartial \<noteq> ModeSchemaless" "ModeStrict \<noteq> ModeSchemaless" "ModeStrict \<noteq> ModePartial"
  "ModeSchemaless \<noteq> ModePartial" "ModeSchemaless \<noteq> ModeStrict" "ModePartial \<noteq> ModeStrict"
  by (simp_all add: ModeStrict_def ModePartial_def ModeSchemaless_def)

text \<open>The number a decimal text denotes.\<close>

fun digits_value :: "string \<Rightarrow> nat" where
  "digits_value [] = 0"
| "digits_value (c # cs) = (byte c - 0x30) * 10 ^ length cs + digits_value cs"

definition decimal_value :: "string \<Rightarrow> rat" where
  "decimal_value s =
     (let parts = decimal_parts s;
          frac = (if length parts = 2 then parts ! 1 else []);
          v = of_nat (digits_value (parts ! 0)) + of_nat (digits_value frac) / 10 ^ length frac
      in if hd s = CHR ''-'' then - v else v)"

lemma digits_value_less: "\<forall>c \<in> set s. is_digit c \<Longrightarrow> digits_value s < 10 ^ length s"
proof (induction s)
  case Nil
  then show ?case by simp
next
  case (Cons c cs)
  then have "byte c \<le> 0x39" by (simp add: is_digit_def)
  then have "byte c - 0x30 \<le> 9" by linarith
  then have "(byte c - 0x30) * 10 ^ length cs \<le> 9 * 10 ^ length cs" by (rule mult_le_mono1)
  moreover have "digits_value cs < 10 ^ length cs" using Cons by simp
  ultimately have "(byte c - 0x30) * 10 ^ length cs + digits_value cs < 9 * 10 ^ length cs + 10 ^ length cs"
    by (rule add_le_less_mono)
  then show ?case by simp
qed

lemma digits_value_trim: "digits_value (dropWhile (\<lambda>c. c = CHR ''0'') s) = digits_value s"
  by (induction s) auto

lemma has_non_digit_iff: "\<not> has_non_digit s \<longleftrightarrow> (\<forall>c \<in> set s. is_digit c)"
proof
  assume d: "\<not> has_non_digit s"
  show "\<forall>c \<in> set s. is_digit c"
  proof
    fix c
    assume "c \<in> set s"
    then have "c \<in> set (concat (map snd (runes s)))" by (simp add: concat_runes)
    then obtain r bs where m: "(r, bs) \<in> set (runes s)" "c \<in> set bs" by auto
    with d have "0x30 \<le> r" "r \<le> 0x39" by (auto simp: has_non_digit_def list_ex_iff)
    with runes_ascii_or_high [OF m(1)] m(2) show "is_digit c" by (auto simp: is_digit_def)
  qed
next
  assume d: "\<forall>c \<in> set s. is_digit c"
  have "is_ascii s" unfolding is_ascii_def
  proof
    fix c
    assume "c \<in> set s"
    with d have "byte c \<le> 0x39" by (simp add: is_digit_def)
    then show "byte c < 0x80" by linarith
  qed
  with d show "\<not> has_non_digit s"
    by (auto simp: has_non_digit_def runes_ascii list_ex_iff is_digit_def linorder_not_less)
qed

lemma valid_decimal_bounded:
  assumes "1 \<le> precision"
  shows "valid_decimal_text value precision scale \<longleftrightarrow>
    value \<noteq> [] \<and> trim_space value = value \<and>
    (let parts = decimal_parts value in
       length parts \<le> 2 \<and> \<not> (parts ! 0 = [] \<and> (length parts = 1 \<or> parts ! 1 = [])) \<and>
       (length parts = 2 \<longrightarrow> int (length (parts ! 1)) \<le> scale) \<and>
       list_all (\<lambda>p. \<forall>c \<in> set p. is_digit c) parts \<and>
       (integer_digits (parts ! 0) = ''0'' \<or> int (length (integer_digits (parts ! 0))) \<le> precision - scale))"
proof -
  have unb: "(precision = 0 \<and> scale = 0) = False" using assms by auto
  have "list_ex has_non_digit parts \<longleftrightarrow> \<not> list_all (\<lambda>p. \<forall>c \<in> set p. is_digit c) parts" for parts
    unfolding list_ex_iff list_all_iff has_non_digit_iff [symmetric] by blast
  then show ?thesis
    unfolding valid_decimal_text_def Let_def unb by (auto simp: linorder_not_less)
qed

lemma integer_digits_value:
  assumes "\<forall>c \<in> set i. is_digit c"
    and "integer_digits i = ''0'' \<or> int (length (integer_digits i)) \<le> n"
  shows "digits_value i = 0 \<or> digits_value i < 10 ^ nat n"
proof -
  let ?t = "dropWhile (\<lambda>c. c = CHR ''0'') i"
  have dt: "\<forall>c \<in> set ?t. is_digit c" using assms(1) by (blast dest: set_dropWhileD)
  have v: "digits_value i = digits_value ?t" by (simp add: digits_value_trim)
  consider "?t = []" | "?t \<noteq> []" "integer_digits i = ?t"
    by (cases "?t = []") (simp_all only: integer_digits_def Let_def if_False simp_thms)
  then show ?thesis
  proof cases
    case 1
    then have "digits_value i = 0" unfolding v by (simp only: digits_value.simps)
    then show ?thesis ..
  next
    case 2
    then have "?t \<noteq> ''0''" using hd_dropWhile [of "\<lambda>c. c = CHR ''0''" i] by auto
    with 2 assms(2) have "length ?t \<le> nat n" by auto
    then have "(10::nat) ^ length ?t \<le> 10 ^ nat n" by (simp add: power_increasing)
    with digits_value_less [OF dt] have "digits_value ?t < 10 ^ nat n" by (rule less_le_trans)
    then show ?thesis unfolding v ..
  qed
qed

lemma scaled_decimal_bound:
  assumes "digits_value i = 0 \<or> digits_value i < 10 ^ nat (precision - scale)"
    and "digits_value f < 10 ^ length f" and "length f \<le> nat scale"
    and "0 \<le> scale" and "scale \<le> precision"
  shows "digits_value i * 10 ^ nat scale + digits_value f * 10 ^ (nat scale - length f) < 10 ^ nat precision"
proof -
  have i: "digits_value i + 1 \<le> 10 ^ nat (precision - scale)" using assms(1) by auto
  have p: "nat precision = nat (precision - scale) + nat scale" using assms(4,5) by simp
  have "digits_value f * 10 ^ (nat scale - length f) < 10 ^ length f * 10 ^ (nat scale - length f)"
    using assms(2) by simp
  also have "\<dots> = 10 ^ nat scale" using assms(3) by (simp add: power_add [symmetric])
  finally have "digits_value i * 10 ^ nat scale + digits_value f * 10 ^ (nat scale - length f)
      < (digits_value i + 1) * 10 ^ nat scale" by simp
  also have "\<dots> \<le> 10 ^ nat (precision - scale) * 10 ^ nat scale" using i by (rule mult_le_mono1)
  finally show ?thesis by (simp add: p power_add)
qed

lemma valid_decimal_scaled:
  assumes "valid_decimal_text value precision scale"
    and "1 \<le> precision" and "0 \<le> scale" and "scale \<le> precision"
  shows "\<exists>n :: int. decimal_value value * 10 ^ nat scale = of_int n \<and> \<bar>n\<bar> < 10 ^ nat precision"
proof -
  define parts where "parts = decimal_parts value"
  define f where "f = (if length parts = 2 then parts ! 1 else [])"
  define i where "i = parts ! 0"
  define m where "m = digits_value i * 10 ^ nat scale + digits_value f * 10 ^ (nat scale - length f)"
  note v = assms(1) [unfolded valid_decimal_bounded [OF assms(2)], folded parts_def, unfolded Let_def]
  have ne: "parts \<noteq> []" by (simp add: parts_def decimal_parts_def)
  then have "parts ! 0 \<in> set parts" by simp
  then have di: "\<forall>c \<in> set i. is_digit c" using v by (auto simp: i_def list_all_iff)
  have "length parts = 2 \<Longrightarrow> parts ! 1 \<in> set parts" by (rule nth_mem) simp
  then have df: "\<forall>c \<in> set f. is_digit c" and lf: "length f \<le> nat scale"
    using v assms(3) by (auto simp: f_def list_all_iff)
  have "digits_value i = 0 \<or> digits_value i < 10 ^ nat (precision - scale)"
    using integer_digits_value [OF di] v by (simp add: i_def)
  from scaled_decimal_bound [OF this digits_value_less [OF df] lf assms(3,4)]
  have bound: "m < 10 ^ nat precision" by (simp add: m_def)
  have pw: "(10::rat) ^ nat scale = 10 ^ length f * 10 ^ (nat scale - length f)"
    using lf by (simp add: power_add [symmetric])
  have "of_nat m = (of_nat (digits_value i) + of_nat (digits_value f) / 10 ^ length f) * (10::rat) ^ nat scale"
    by (simp add: m_def distrib_right) (simp add: pw)
  then have "decimal_value value * 10 ^ nat scale = of_int (if hd value = CHR ''-'' then - int m else int m)"
    unfolding decimal_value_def Let_def parts_def [symmetric] f_def [symmetric] i_def [symmetric]
    by (simp del: minus_add_distrib)
  moreover have "int m < 10 ^ nat precision"
    using bound of_nat_less_iff [where 'a = int, of m "10 ^ nat precision"] by simp
  then have "\<bar>if hd value = CHR ''-'' then - int m else int m\<bar> < 10 ^ nat precision" by simp
  ultimately show ?thesis by blast
qed

lemma field_validate_decimal:
  assumes "field_validate f = None" and "f_type f = ''decimal''"
  obtains d where "f_decimal f = Some d"
    and "d_unbounded d \<or> 1 \<le> d_precision d \<and> d_precision d \<le> 1000 \<and> 0 \<le> d_scale d \<and> d_scale d \<le> d_precision d"
  using assms by (auto simp: field_validate_def split: option.splits if_splits)

lemma field_validate_type: "field_validate f = None \<Longrightarrow> f_type f \<in> set field_types"
  by (auto simp: field_validate_def field_type_validate_def split: if_splits option.splits)

lemma schemas_validate_field:
  assumes "schemas_validate (Some s) = None" and "mget s cn = Some col" and "mget (c_fields col) fn = Some f"
  shows "field_validate f = None \<and> fn \<noteq> []"
proof -
  from assms(1) map_of_SomeD [OF assms(2)] have "collection_validate s (cn, col) = None"
    by (simp add: schemas_validate_def check_all_None_iff)
  then have "check_all (\<lambda>(fieldName, f). if fieldName = [] then Some (EmptyFieldName cn)
      else map_option (FieldInvalid cn fieldName) (field_validate f)) (c_fields col) = None"
    by (simp add: collection_validate_def split: option.splits if_splits)
  with map_of_SomeD [OF assms(3)] show ?thesis
    by (fastforce simp: check_all_None_iff split: if_splits)
qed

lemma reference_validate_closed:
  assumes "reference_validate s colName col ref = None"
  obtains srcs targets target where "reference_pairs colName ref = Inr (srcs, targets)"
    and "srcs \<noteq> []" and "length srcs = length targets" and "mget s (r_collection ref) = Some target"
    and "\<forall>f \<in> set srcs. mget (c_fields col) f \<noteq> None"
    and "\<forall>t \<in> set targets. mget (c_fields target) t \<noteq> None"
proof -
  obtain srcs targets where p: "reference_pairs colName ref = Inr (srcs, targets)"
    using assms by (cases "reference_pairs colName ref") (auto simp: reference_validate_def)
  note rv = assms [unfolded reference_validate_def p sum.case prod.case]
  then have ne: "srcs \<noteq> []" "length srcs = length targets" by (auto split: if_splits)
  with rv obtain target where t: "mget s (r_collection ref) = Some target" by (auto split: option.splits)
  with rv ne have z: "\<forall>(f, t) \<in> set (zip srcs targets). mget (c_fields col) f \<noteq> None \<and> mget (c_fields target) t \<noteq> None"
    by (auto simp: check_all_None_iff split: if_splits)
  have "\<forall>f \<in> set srcs. mget (c_fields col) f \<noteq> None" "\<forall>t \<in> set targets. mget (c_fields target) t \<noteq> None"
    using ne(2) z by (fastforce simp: in_set_conv_nth set_zip)+
  with p ne t that show ?thesis by blast
qed

section \<open>Properties\<close>

definition demo_decimal :: decimal where
  "demo_decimal = \<lparr> d_precision = 5, d_scale = 2, d_unbounded = False, d_storage = ''text'' \<rparr>"

definition demo_total :: field where
  "demo_total = \<lparr> f_type = ''decimal'', f_required = True, f_decimal = Some demo_decimal,
     f_nativeType = [], f_primaryKey = False, f_nullable = False \<rparr>"

definition demo_name :: field where
  "demo_name = \<lparr> f_type = ''string'', f_required = False, f_decimal = None,
     f_nativeType = [], f_primaryKey = False, f_nullable = True \<rparr>"

definition demo_reference :: reference where
  "demo_reference = \<lparr> r_field = ''buyer'', r_fields = [], r_collection = ''users'',
     r_targetField = ''name'', r_targetFields = [] \<rparr>"

definition demo_orders :: collection where
  "demo_orders = \<lparr> c_fields = [(''total'', demo_total), (''buyer'', demo_name)],
     c_references = [demo_reference], c_source = None \<rparr>"

definition demo_schemas :: schemas where
  "demo_schemas = [(''orders'', demo_orders),
     (''users'', \<lparr> c_fields = [(''name'', demo_name)], c_references = [], c_source = None \<rparr>)]"

lemma demo_order_accepted:
  "validate_record ModeStrict ''orders'' (Some demo_orders) [(''total'', VStr ''123.45'')] = None"
proof -
  have "valid_decimal_text ''123.45'' 5 2"
    by (simp add: valid_decimal_text_def trim_space_def is_space_def decimal_parts_def has_non_digit_def
        integer_digits_def)
  then show ?thesis
    by (simp add: validate_record_def validate_fields_def field_check_def value_matches_field_def
        demo_orders_def demo_total_def demo_name_def demo_decimal_def check_simps)
qed

text \<open>
  C30. Exact decimals are exact: when the declared schemas pass \<^verbatim>\<open>Schemas.Validate\<close> and a record
  passes \<^verbatim>\<open>ValidateRecord\<close> in strict or partial mode, every value it holds in a bounded
  \<^verbatim>\<open>decimal(precision, scale)\<close> field is a text, and the number that text denotes, scaled by
  \<open>10 ^ scale\<close>, is an integer of magnitude below \<open>10 ^ precision\<close>.
\<close>

theorem accepted_decimals_are_exact:
  assumes "schemas_validate (Some s) = None" and "mget s coll = Some col" and "wf_map (c_fields col)"
    and "mode = ModeStrict \<or> mode = ModePartial" and "validate_record mode coll (Some col) data = None"
    and "mget (c_fields col) name = Some f" and "f_type f = ''decimal''" and "f_decimal f = Some d"
    and "\<not> d_unbounded d" and "mget data name = Some v" and "v \<noteq> VNil"
  shows "\<exists>body n. v = VStr body \<and> decimal_value body * 10 ^ nat (d_scale d) = of_int n \<and>
           \<bar>n\<bar> < 10 ^ nat (d_precision d)"
proof -
  have "field_validate f = None" using schemas_validate_field assms(1,2,6) by blast
  with assms(7-9) have d: "1 \<le> d_precision d" "0 \<le> d_scale d" "d_scale d \<le> d_precision d"
    by (auto elim: field_validate_decimal)
  from assms(4,5) have "validate_fields coll col data (mode = ModeStrict) = None"
    by (auto simp: validate_record_def)
  with assms(3,6) have "field_ok data name f" using validate_fields_None by blast
  with assms(7,8,10,11) obtain body where "v = VStr body" "valid_decimal_text body (d_precision d) (d_scale d)"
    by (auto simp: field_ok_def value_matches_field_def split: gvalue.splits)
  with valid_decimal_scaled d show ?thesis by blast
qed

theorem accepted_decimals_are_exact_witness:
  "\<exists>body n. VStr ''123.45'' = VStr body \<and>
     decimal_value body * 10 ^ nat (d_scale demo_decimal) = of_int n \<and> \<bar>n\<bar> < 10 ^ nat (d_precision demo_decimal)"
proof (rule accepted_decimals_are_exact [OF _ _ _ _ demo_order_accepted])
  show "schemas_validate (Some demo_schemas) = None" by code_simp
  show "mget demo_schemas ''orders'' = Some demo_orders" by (simp add: demo_schemas_def)
  show "mget (c_fields demo_orders) ''total'' = Some demo_total" by (simp add: demo_orders_def)
qed (simp_all add: demo_orders_def demo_total_def demo_decimal_def wf_map_def)

text \<open>
  Declared references resolve: after \<^verbatim>\<open>Schemas.Validate\<close> succeeds, every reference of every
  collection names a declared collection, pairs a non-empty list of local fields with as many
  target fields, and each of those fields is declared on its side; no declared field has an empty
  name or an unknown type.
\<close>

theorem validated_schemas_are_closed:
  assumes "schemas_validate (Some s) = None" and "mget s cn = Some col"
  shows "c_fields col \<noteq> [] \<and>
    (\<forall>fn f. mget (c_fields col) fn = Some f \<longrightarrow> fn \<noteq> [] \<and> f_type f \<in> set field_types) \<and>
    (\<forall>ref \<in> set (c_references col). \<exists>target srcs targets.
       mget s (r_collection ref) = Some target \<and> reference_pairs cn ref = Inr (srcs, targets) \<and>
       srcs \<noteq> [] \<and> length srcs = length targets \<and>
       (\<forall>f \<in> set srcs. mget (c_fields col) f \<noteq> None) \<and>
       (\<forall>t \<in> set targets. mget (c_fields target) t \<noteq> None))"
proof (intro conjI)
  from assms(1) map_of_SomeD [OF assms(2)] have cv: "collection_validate s (cn, col) = None"
    by (simp add: schemas_validate_def check_all_None_iff)
  then show "c_fields col \<noteq> []" by (auto simp: collection_validate_def)
  show "\<forall>fn f. mget (c_fields col) fn = Some f \<longrightarrow> fn \<noteq> [] \<and> f_type f \<in> set field_types"
    using schemas_validate_field [OF assms] field_validate_type by blast
  from cv have "check_all (reference_validate s cn col) (c_references col) = None"
    by (simp add: collection_validate_def split: option.splits if_splits)
  then show "\<forall>ref \<in> set (c_references col). \<exists>target srcs targets.
       mget s (r_collection ref) = Some target \<and> reference_pairs cn ref = Inr (srcs, targets) \<and>
       srcs \<noteq> [] \<and> length srcs = length targets \<and>
       (\<forall>f \<in> set srcs. mget (c_fields col) f \<noteq> None) \<and>
       (\<forall>t \<in> set targets. mget (c_fields target) t \<noteq> None)"
    unfolding check_all_None_iff using reference_validate_closed by metis
qed

theorem validated_schemas_are_closed_witness:
  "\<exists>target srcs targets. mget demo_schemas ''users'' = Some target \<and>
     reference_pairs ''orders'' demo_reference = Inr (srcs, targets) \<and>
     (\<exists>t \<in> set targets. mget (c_fields target) t \<noteq> None)"
proof -
  have "schemas_validate (Some demo_schemas) = None" by code_simp
  moreover have "mget demo_schemas ''orders'' = Some demo_orders" by (simp add: demo_schemas_def)
  ultimately have "\<forall>ref \<in> set (c_references demo_orders). \<exists>target srcs targets.
       mget demo_schemas (r_collection ref) = Some target \<and> reference_pairs ''orders'' ref = Inr (srcs, targets) \<and>
       srcs \<noteq> [] \<and> length srcs = length targets \<and>
       (\<forall>f \<in> set srcs. mget (c_fields demo_orders) f \<noteq> None) \<and>
       (\<forall>t \<in> set targets. mget (c_fields target) t \<noteq> None)"
    using validated_schemas_are_closed by blast
  moreover have "demo_reference \<in> set (c_references demo_orders)" by (simp add: demo_orders_def)
  moreover have "r_collection demo_reference = ''users''" by (simp add: demo_reference_def)
  ultimately obtain target srcs targets where t: "mget demo_schemas ''users'' = Some target"
    "reference_pairs ''orders'' demo_reference = Inr (srcs, targets)" "srcs \<noteq> []" "length srcs = length targets"
    "\<forall>t \<in> set targets. mget (c_fields target) t \<noteq> None" by metis
  then show ?thesis by (cases targets) auto
qed

text \<open>
  Tightening the schema mode only narrows what is accepted: a record that strict mode
  accepts is accepted by partial mode and by schemaless mode, and one that partial mode accepts is
  accepted by schemaless mode, whatever the declared schema.
\<close>

theorem schema_modes_are_nested:
  "(validate_record ModeStrict coll mcol data = None \<longrightarrow> validate_record ModePartial coll mcol data = None) \<and>
   (validate_record ModePartial coll mcol data = None \<longrightarrow> validate_record ModeSchemaless coll mcol data = None)"
  by (auto simp: validate_record_def validate_fields_def check_simps split: option.splits)

text \<open>
  What strict mode accepts, independently of the order in which Go iterates over the maps: a
  record is accepted exactly when the collection is declared, every declared field that is
  required is present and not null, every declared field that is present and not null has a value
  of its type, and every other field of the record is the implicit \<^verbatim>\<open>id\<close>.
\<close>

theorem strict_mode_accepts_iff:
  assumes "\<And>col. mcol = Some col \<Longrightarrow> wf_map (c_fields col)"
  shows "validate_record ModeStrict coll mcol data = None \<longleftrightarrow>
    (\<exists>col. mcol = Some col \<and>
       (\<forall>name f. mget (c_fields col) name = Some f \<longrightarrow>
          (case mget data name of
             None \<Rightarrow> \<not> f_required f
           | Some v \<Rightarrow> if v = VNil then \<not> f_required f else value_matches_field v f)) \<and>
       (\<forall>name. mget data name \<noteq> None \<longrightarrow> name = ''id'' \<or> mget (c_fields col) name \<noteq> None))"
proof (cases mcol)
  case None
  then show ?thesis by (simp add: validate_record_def)
next
  case (Some col)
  have "validate_record ModeStrict coll mcol data = validate_fields coll col data True"
    by (simp add: validate_record_def Some)
  then show ?thesis
    by (simp add: validate_fields_None [OF assms [OF Some]] Some field_ok_def cong: option.case_cong)
qed

theorem schema_modes_are_nested_witness:
  "validate_record ModePartial ''orders'' (Some demo_orders) [(''total'', VStr ''123.45'')] = None"
  using schema_modes_are_nested demo_order_accepted by blast

theorem strict_mode_accepts_iff_witness:
  "validate_record ModeStrict ''orders'' (Some demo_orders) [(''colour'', VStr ''1'')] \<noteq> None"
proof -
  have "mget (c_fields demo_orders) ''colour'' = None" by code_simp
  moreover have "wf_map (c_fields demo_orders)" by code_simp
  ultimately show ?thesis
    using strict_mode_accepts_iff [of "Some demo_orders" "''orders''" "[(''colour'', VStr ''1'')]"]
    by auto
qed

end
