(* ===== verification/License.thy ===== *)
theory License
  imports Go_Values "HOL-Library.Multiset"
begin

text \<open>
  \<^verbatim>\<open>src/pkg/license\<close>: declarations of the terms of source data (\<^verbatim>\<open>declaration.go\<close>) and the
  inventory of rights that travels with a result (\<^verbatim>\<open>rights.go\<close>). \<^verbatim>\<open>url.Parse\<close> is the parameter
  \<open>parse_url\<close>; the encoder of one right is a parameter too, because the code calls it through a
  variable.
\<close>

section \<open>Declarations\<close>

datatype profile = Directory | Publisher | OtherProfile nat

text \<open>The regular expression \<^verbatim>\<open>^[A-Za-z0-9][A-Za-z0-9.+-]{0,63}$\<close>.\<close>

definition ascii_alnum :: "char \<Rightarrow> bool" where
  "ascii_alnum c \<longleftrightarrow> (let b = byte c in
     (0x41 \<le> b \<and> b \<le> 0x5A) \<or> (0x61 \<le> b \<and> b \<le> 0x7A) \<or> (0x30 \<le> b \<and> b \<le> 0x39))"

definition atomShape :: "string \<Rightarrow> bool" where
  "atomShape s \<longleftrightarrow> (case s of [] \<Rightarrow> False
     | c # cs \<Rightarrow> ascii_alnum c \<and> length cs \<le> 63 \<and> list_all (\<lambda>x. ascii_alnum x \<or> x \<in> set ''.+-'') cs)"

definition knownAtoms :: "string list" where
  "knownAtoms = [''0BSD'', ''AGPL-3.0-only'', ''Apache-2.0'', ''BSD-2-Clause'', ''BSD-3-Clause'', ''CC-BY-4.0'',
     ''CC-BY-SA-4.0'', ''CC0-1.0'', ''GPL-2.0-only'', ''GPL-3.0-only'', ''ISC'', ''LGPL-3.0-only'', ''MIT'',
     ''MPL-2.0'', ''ODC-By-1.0'', ''ODbL-1.0'', ''PDDL-1.0'', ''Unlicense'']"

text \<open>\<^verbatim>\<open>strings.Split\<close> with a separator of several bytes.\<close>

function split_sep :: "string \<Rightarrow> string \<Rightarrow> string \<Rightarrow> string list" where
  "split_sep sep acc s =
     (if s = [] then [rev acc]
      else if sep \<noteq> [] \<and> has_prefix s sep then rev acc # split_sep sep [] (drop (length sep) s)
      else split_sep sep (hd s # acc) (tl s))"
  by pat_completeness auto
termination by (relation "measure (\<lambda>(sep, acc, s). length s)") auto

declare split_sep.simps [simp del]

datatype license_error =
    UnknownProfile | InvalidSPDX | TermsURL | NothingDeclared | BadName | BadText | LegacyMixed
  | MalformedJSON | TrailingJSON | NotStringOrObject | DuplicateField | BlankField | UnknownLicenseField

text \<open>\<^verbatim>\<open>ValidateSPDX\<close>.\<close>

definition ValidateSPDX :: "string \<Rightarrow> profile \<Rightarrow> license_error option" where
  "ValidateSPDX value profile =
     (if profile \<noteq> Directory \<and> profile \<noteq> Publisher then Some UnknownProfile
      else if length value \<le> 64 \<and>
        (atomShape value \<and> (profile = Directory \<or> value \<in> set knownAtoms) \<or>
         (let atoms = split_sep '' AND '' [] value in
            2 \<le> length atoms \<and> length atoms \<le> 4 \<and> set atoms \<subseteq> set knownAtoms \<and> distinct atoms))
      then None else Some InvalidSPDX)"

record license_decl =
  dc_name :: string
  dc_spdx :: string
  dc_url :: string
  dc_text :: string
  dc_legacy :: bool

definition normalized :: "license_decl \<Rightarrow> license_decl" where
  "normalized d = d\<lparr>dc_legacy := False\<rparr>"

definition boundedText :: "string \<Rightarrow> nat \<Rightarrow> bool \<Rightarrow> bool" where
  "boundedText value bound multiline =
     (if length value > bound \<or> \<not> valid_utf8 value \<or> trim_space value = [] then False
      else list_all (\<lambda>(r, bs). \<not> (is_control r \<and> (\<not> multiline \<or> r \<notin> {0x0A, 0x0D, 0x09}))) (runes value))"

text \<open>What the code reads of a parsed URL.\<close>

record url_parts =
  url_scheme :: string
  url_hostname :: string
  url_has_user :: bool
  url_opaque :: string

definition ValidateURL :: "(string \<Rightarrow> url_parts option) \<Rightarrow> string \<Rightarrow> license_error option" where
  "ValidateURL parse_url value =
     (if \<not> boundedText value 2048 False \<or> trim_space value \<noteq> value \<or>
         list_ex (\<lambda>c. byte c \<in> {0x5C, 0x20, 0x09, 0x0D, 0x0A}) value then Some TermsURL
      else case parse_url value of
          None \<Rightarrow> Some TermsURL
        | Some u \<Rightarrow>
           if url_scheme u \<noteq> ''https'' \<or> url_hostname u = [] \<or> url_has_user u \<or> url_opaque u \<noteq> []
           then Some TermsURL else None)"

text \<open>\<^verbatim>\<open>Declaration.Validate\<close>.\<close>

definition declaration_validate ::
    "(string \<Rightarrow> url_parts option) \<Rightarrow> license_decl \<Rightarrow> profile \<Rightarrow> license_error option" where
  "declaration_validate parse_url d profile =
     (if dc_spdx d = [] \<and> dc_url d = [] \<and> dc_text d = [] then Some NothingDeclared
      else if dc_name d \<noteq> [] \<and> \<not> boundedText (dc_name d) 256 False then Some BadName
      else case (if dc_spdx d \<noteq> [] then ValidateSPDX (dc_spdx d) profile else None) of
          Some e \<Rightarrow> Some e
        | None \<Rightarrow>
           (case (if dc_url d \<noteq> [] then ValidateURL parse_url (dc_url d) else None) of
              Some e \<Rightarrow> Some e
            | None \<Rightarrow>
               if dc_text d \<noteq> [] \<and> \<not> boundedText (dc_text d) 65536 True then Some BadText
               else if dc_legacy d \<and> (dc_name d \<noteq> [] \<or> dc_url d \<noteq> [] \<or> dc_text d \<noteq> []) then Some LegacyMixed
               else None))"

text \<open>
  \<^verbatim>\<open>ParseJSON\<close> on what the decoder makes of the bytes: no JSON value, a first value followed by
  more, or one value; an object comes as its members in order, duplicates included.
\<close>

datatype json_doc = DocMalformed | DocTrailing | DocString string | DocObject "(string \<times> gvalue) list" | DocOther

definition decl_member :: "string \<Rightarrow> string \<Rightarrow> license_decl \<Rightarrow> license_error + license_decl" where
  "decl_member key body d =
     (if key = ''name'' then Inr (d\<lparr>dc_name := body\<rparr>)
      else if key = ''spdx'' then Inr (d\<lparr>dc_spdx := body\<rparr>)
      else if key = ''url'' then Inr (d\<lparr>dc_url := body\<rparr>)
      else if key = ''text'' then Inr (d\<lparr>dc_text := body\<rparr>)
      else Inl UnknownLicenseField)"

fun decl_members :: "string list \<Rightarrow> (string \<times> gvalue) list \<Rightarrow> license_decl \<Rightarrow> license_error + license_decl" where
  "decl_members seen [] d = Inr d"
| "decl_members seen ((key, v) # rest) d =
     (if key \<in> set seen then Inl DuplicateField
      else case v of
          VStr body \<Rightarrow>
            if trim_space body = [] then Inl BlankField
            else rbind (decl_member key body d) (decl_members (key # seen) rest)
        | _ \<Rightarrow> Inl BlankField)"

definition no_declaration :: license_decl where
  "no_declaration = \<lparr> dc_name = [], dc_spdx = [], dc_url = [], dc_text = [], dc_legacy = False \<rparr>"

definition ParseJSON ::
    "(string \<Rightarrow> url_parts option) \<Rightarrow> json_doc \<Rightarrow> profile \<Rightarrow> license_error + license_decl" where
  "ParseJSON parse_url doc profile =
     rbind (case doc of
              DocMalformed \<Rightarrow> Inl MalformedJSON
            | DocTrailing \<Rightarrow> Inl TrailingJSON
            | DocString s \<Rightarrow> Inr (no_declaration\<lparr>dc_spdx := s, dc_legacy := True\<rparr>)
            | DocObject ms \<Rightarrow> decl_members [] ms no_declaration
            | DocOther \<Rightarrow> Inl NotStringOrObject)
       (\<lambda>d. case declaration_validate parse_url d profile of Some e \<Rightarrow> Inl e | None \<Rightarrow> Inr d)"

text \<open>\<^verbatim>\<open>Declaration.MarshalJSON\<close>: a legacy declaration is its SPDX text, any other an object without empty members.\<close>

definition MarshalJSON :: "license_decl \<Rightarrow> json_doc" where
  "MarshalJSON d =
     (if dc_legacy d then DocString (dc_spdx d)
      else DocObject (map (\<lambda>(k, s). (k, VStr s)) (filter (\<lambda>(k, s). s \<noteq> [])
        [(''name'', dc_name d), (''spdx'', dc_spdx d), (''url'', dc_url d), (''text'', dc_text d)])))"

section \<open>Rights\<close>

datatype scope = ServerScope | DatabaseScope | RecordsetScope

record identity =
  i_serverID :: string
  i_databaseID :: string
  i_recordset :: string

definition SourceID :: "identity \<Rightarrow> string" where
  "SourceID i = ''ovdb:'' @ path_escape (i_serverID i) @ ''/'' @ path_escape (i_databaseID i) @ ''/'' @
     path_escape (i_recordset i)"

text \<open>
  The fields of \<^verbatim>\<open>SourceRight\<close> that \<^verbatim>\<open>Resolve\<close> sets; pins, notices and transformations are empty in
  everything this package builds.
\<close>

record source_right =
  sr_sourceID :: string
  sr_source :: identity
  sr_declaration :: license_decl
  sr_scope :: scope
  sr_declaredAt :: identity
  sr_origin :: string

datatype rights_error = NoServerIdentity | BadDeclaration license_error | ConflictingRights | EncodeFailed | EvidenceLimit

definition Resolve ::
    "(string \<Rightarrow> url_parts option) \<Rightarrow> identity \<Rightarrow> license_decl option \<Rightarrow> license_decl option \<Rightarrow>
     license_decl option \<Rightarrow> rights_error + source_right option" where
  "Resolve parse_url source server database recordset =
     (if i_serverID source = [] then Inl NoServerIdentity
      else case check_all (\<lambda>md. case md of None \<Rightarrow> None
                 | Some d \<Rightarrow> declaration_validate parse_url d Directory) [server, database, recordset] of
          Some e \<Rightarrow> Inl (BadDeclaration e)
        | None \<Rightarrow>
           (let (d1, scope1, at1) = (server, ServerScope,
                  \<lparr> i_serverID = i_serverID source, i_databaseID = [], i_recordset = [] \<rparr>);
                (d2, scope2, at2) =
                  (if i_databaseID source \<noteq> [] \<and> database \<noteq> None
                   then (database, DatabaseScope,
                     \<lparr> i_serverID = i_serverID source, i_databaseID = i_databaseID source, i_recordset = [] \<rparr>)
                   else (d1, scope1, at1));
                (d3, scope3, at3) =
                  (if i_recordset source \<noteq> [] \<and> recordset \<noteq> None then (recordset, RecordsetScope, source)
                   else (d2, scope2, at2))
            in case d3 of
                 None \<Rightarrow> Inr None
               | Some d \<Rightarrow> Inr (Some \<lparr> sr_sourceID = SourceID source, sr_source = source,
                    sr_declaration = normalized d, sr_scope = scope3, sr_declaredAt = at3,
                    sr_origin = (if dc_legacy d then ''legacy-metadata'' else ''server-declared'') \<rparr>)))"

definition MaxEvidenceBytes :: nat where
  "MaxEvidenceBytes = 262144"

text \<open>The JSON text of a list of rights, from the encoder of one right.\<close>

definition encode_list :: "(source_right \<Rightarrow> string option) \<Rightarrow> source_right list \<Rightarrow> string option" where
  "encode_list enc rs =
     (if list_all (\<lambda>r. enc r \<noteq> None) rs
      then Some (''['' @ join_with '','' (map (the \<circ> enc) rs) @ '']'') else None)"

text \<open>\<^verbatim>\<open>Inventory\<close>: the loop, then the sorted result. A failed encoding compares as the empty text.\<close>

fun collect_rights :: "(source_right \<Rightarrow> string option) \<Rightarrow> (string, source_right) gomap \<Rightarrow> nat \<Rightarrow>
    source_right list \<Rightarrow> rights_error + (string, source_right) gomap" where
  "collect_rights enc byID bytes [] = Inr byID"
| "collect_rights enc byID bytes (right # rest) =
     (case mget byID (sr_sourceID right) of
        Some prior \<Rightarrow>
          if case_option [] id (enc prior) \<noteq> case_option [] id (enc right) then Inl ConflictingRights
          else collect_rights enc byID bytes rest
      | None \<Rightarrow>
         (case enc right of
            None \<Rightarrow> Inl EncodeFailed
          | Some body \<Rightarrow>
             let bytes' = bytes + (if byID \<noteq> [] then 1 else 0) + length body in
             if bytes' > MaxEvidenceBytes then Inl EvidenceLimit
             else collect_rights enc (mput (sr_sourceID right) right byID) bytes' rest))"

definition Inventory ::
    "(source_right \<Rightarrow> string option) \<Rightarrow> source_right list \<Rightarrow> rights_error + (source_right list \<times> nat)" where
  "Inventory enc rights =
     rbind (collect_rights enc [] 2 rights) (\<lambda>byID.
       let out = sort_key sr_sourceID (map snd byID) in
       case encode_list enc out of
         None \<Rightarrow> Inl EncodeFailed
       | Some body \<Rightarrow> if length body > MaxEvidenceBytes then Inl EvidenceLimit else Inr (out, length body))"

section \<open>Lemmas\<close>

lemma split_sep_Nil [simp]: "split_sep sep acc [] = [rev acc]"
  by (simp add: split_sep.simps)

lemma split_sep_not_Nil: "split_sep sep acc s \<noteq> []"
proof (induction sep acc s rule: split_sep.induct)
  case (1 sep acc s)
  then show ?case by (subst split_sep.simps) simp
qed

lemma join_split_sep: "sep \<noteq> [] \<Longrightarrow> join_with sep (split_sep sep acc s) = rev acc @ s"
proof (induction sep acc s rule: split_sep.induct)
  case (1 sep acc s)
  show ?case
  proof (cases "s = []")
    case True
    then show ?thesis by simp
  next
    case False
    show ?thesis
    proof (cases "has_prefix s sep")
      case True
      have "sep @ drop (length sep) s = s"
        using True by (metis append_take_drop_id has_prefix_def)
      moreover have "split_sep sep acc s = rev acc # split_sep sep [] (drop (length sep) s)"
        using False True 1(3) by (subst split_sep.simps) simp
      moreover obtain p ps where "split_sep sep [] (drop (length sep) s) = p # ps"
        using split_sep_not_Nil by (meson list.exhaust)
      ultimately show ?thesis using 1(1) [OF False] True 1(3) by simp
    next
      case np: False
      then have "split_sep sep acc s = split_sep sep (hd s # acc) (tl s)"
        using False by (subst split_sep.simps) simp
      with 1(2) [OF False] np 1(3) False show ?thesis by simp
    qed
  qed
qed

lemma split_sep_skip:
  "hd sep \<notin> set p \<Longrightarrow> sep \<noteq> [] \<Longrightarrow> split_sep sep acc (p @ s) = split_sep sep (rev p @ acc) s"
proof (induction p arbitrary: acc)
  case (Cons c p)
  then have "\<not> has_prefix ((c # p) @ s) sep" by (cases sep) (auto simp: has_prefix_def)
  then have "split_sep sep acc ((c # p) @ s) = split_sep sep (c # acc) (p @ s)"
    by (subst split_sep.simps) simp
  with Cons show ?case by simp
qed simp

lemma split_join_sep:
  "\<lbrakk>ps \<noteq> []; sep \<noteq> []; \<forall>p \<in> set ps. hd sep \<notin> set p\<rbrakk> \<Longrightarrow> split_sep sep [] (join_with sep ps) = ps"
proof (induction sep ps rule: join_with.induct)
  case (2 sep p)
  then show ?case using split_sep_skip [of sep p "[]" "[]"] by simp
next
  case (3 sep p q qs)
  let ?rest = "join_with sep (q # qs)"
  have "split_sep sep [] (p @ sep @ ?rest) = split_sep sep (rev p) (sep @ ?rest)"
    using 3 split_sep_skip [of sep p "[]" "sep @ ?rest"] by simp
  also have "\<dots> = p # split_sep sep [] ?rest"
    using 3(3) by (subst split_sep.simps) (simp add: has_prefix_def)
  finally show ?case using 3 by simp
qed simp

lemma known_atoms_plain: "list_all (\<lambda>a. atomShape a \<and> CHR '' '' \<notin> set a \<and> length a \<le> 64) knownAtoms"
  by code_simp

lemma trim_space_nonblank:
  assumes "byte c < 0x80" and "\<not> is_space (byte c)"
  shows "trim_space (c # cs) \<noteq> []"
proof -
  have "runes (c # cs) = (byte c, [c]) # runes cs" using assms(1) by simp
  then have "dropWhile (is_space \<circ> fst) (runes (c # cs)) = (byte c, [c]) # runes cs" using assms(2) by simp
  moreover have "(byte c, [c]) \<in> set (dropWhile (is_space \<circ> fst) (xs @ [(byte c, [c])]))" for xs
    using assms(2) by (induction xs) auto
  ultimately have "(byte c, [c]) \<in> set (rev (dropWhile (is_space \<circ> fst)
      (rev (dropWhile (is_space \<circ> fst) (runes (c # cs))))))" by simp
  then show ?thesis unfolding trim_space_def by fastforce
qed

lemma alnum_nonblank:
  assumes "ascii_alnum c"
  shows "trim_space (c # cs) \<noteq> []"
  by (rule trim_space_nonblank) (use assms in \<open>auto simp: ascii_alnum_def is_space_def Let_def\<close>)

lemma valid_spdx_nonblank:
  assumes "ValidateSPDX s p = None"
  shows "trim_space s \<noteq> []"
proof -
  from assms consider "atomShape s" | "set (split_sep '' AND '' [] s) \<subseteq> set knownAtoms"
    by (auto simp: ValidateSPDX_def Let_def split: if_splits)
  then obtain c cs where "s = c # cs" "ascii_alnum c"
  proof cases
    case 1
    then show ?thesis using that by (cases s) (auto simp: atomShape_def)
  next
    case 2
    obtain a as where a: "split_sep '' AND '' [] s = a # as"
      using split_sep_not_Nil by (meson list.exhaust)
    with 2 have "atomShape a" using known_atoms_plain by (auto simp: list_all_iff)
    then obtain c cs where "a = c # cs" "ascii_alnum c" by (cases a) (auto simp: atomShape_def)
    moreover have "s = join_with '' AND '' (a # as)" using join_split_sep [of "'' AND ''" "[]" s] a by simp
    ultimately show ?thesis using that by (cases as) auto
  qed
  then show ?thesis using alnum_nonblank by simp
qed

lemma collect_rights_inv:
  assumes "collect_rights enc byID bytes rights = Inr out"
    and "wf_map byID" and "\<forall>(k, r) \<in> set byID. k = sr_sourceID r \<and> enc r \<noteq> None"
  shows "wf_map out \<and> (\<forall>(k, r) \<in> set out. k = sr_sourceID r \<and> enc r \<noteq> None) \<and>
    (\<forall>r. r \<in> snd ` set out \<longrightarrow> r \<in> snd ` set byID \<union> set rights) \<and>
    (\<forall>k r. mget byID k = Some r \<longrightarrow> mget out k = Some r) \<and>
    (\<forall>r \<in> set rights. \<exists>q. mget out (sr_sourceID r) = Some q \<and> case_option [] id (enc q) = case_option [] id (enc r))"
  using assms
proof (induction rights arbitrary: byID bytes)
  case Nil
  then show ?case by simp
next
  case (Cons right rest)
  show ?case
  proof (cases "mget byID (sr_sourceID right)")
    case (Some prior)
    with Cons.prems(1) have same: "case_option [] id (enc prior) = case_option [] id (enc right)"
      and rest: "collect_rights enc byID bytes rest = Inr out" by (auto split: if_splits)
    note IH = Cons.IH [OF rest Cons.prems(2,3)]
    with Some have "mget out (sr_sourceID right) = Some prior" by blast
    moreover from IH have "\<forall>r. r \<in> snd ` set out \<longrightarrow> r \<in> snd ` set byID \<union> set (right # rest)" by auto
    ultimately show ?thesis using IH same by simp
  next
    case None
    let ?m = "mput (sr_sourceID right) right byID"
    from None Cons.prems(1) obtain b n where e: "enc right = Some b"
      and rest: "collect_rights enc ?m n rest = Inr out"
      by (auto simp: Let_def split: option.splits if_splits)
    have w: "wf_map ?m" using Cons.prems(2) by (rule gm.wf_put)
    have "set ?m \<subseteq> insert (sr_sourceID right, right) (set byID)" by (induction byID) auto
    then have k: "\<forall>(k, r) \<in> set ?m. k = sr_sourceID r \<and> enc r \<noteq> None"
      using Cons.prems(3) e by (auto dest!: subsetD)
    note IH = Cons.IH [OF rest w k]
    have new: "mget out (sr_sourceID right) = Some right" using IH by simp
    have "snd ` set ?m \<subseteq> insert right (snd ` set byID)" using \<open>set ?m \<subseteq> _\<close> by force
    moreover have "snd ` set out \<subseteq> snd ` set ?m \<union> set rest" using IH by blast
    ultimately have "\<forall>r. r \<in> snd ` set out \<longrightarrow> r \<in> snd ` set byID \<union> set (right # rest)"
      unfolding list.set(2) by blast
    moreover have "\<forall>k r. mget byID k = Some r \<longrightarrow> mget out k = Some r"
      using IH None by (metis (no_types, lifting) gm.lookup_put_other option.discI)
    ultimately show ?thesis using IH new by simp
  qed
qed

section \<open>Properties\<close>

text \<open>
  Source identities are unambiguous: two identities have the same \<^verbatim>\<open>SourceID\<close> only if they are
  equal, whatever punctuation the server, database and recordset names contain.
\<close>

theorem source_id_injective: "SourceID i = SourceID j \<longleftrightarrow> i = (j :: identity)"
proof
  assume eq: "SourceID i = SourceID j"
  let ?parts = "\<lambda>i :: identity. [path_escape (i_serverID i), path_escape (i_databaseID i), path_escape (i_recordset i)]"
  have split: "split_on CHR ''/'' (drop 5 (SourceID i)) = ?parts i" for i :: identity
    using path_escape_no_slash by (simp add: SourceID_def split_on_sep split_on_no_sep)
  from eq split [of i] split [of j] have "?parts i = ?parts j" by simp
  then show "i = j" by (auto dest!: path_escape_inj)
qed simp

text \<open>
  The publisher profile is a closed list: \<^verbatim>\<open>ValidateSPDX\<close> accepts exactly one to four distinct
  licenses of the known list joined by \<^verbatim>\<open>AND\<close>, at most 64 bytes long; and whatever it accepts, the directory
  profile accepts too.
\<close>

theorem publisher_spdx_iff:
  "(ValidateSPDX s Publisher = None \<longleftrightarrow>
     length s \<le> 64 \<and> (\<exists>atoms. atoms \<noteq> [] \<and> length atoms \<le> 4 \<and> distinct atoms \<and> set atoms \<subseteq> set knownAtoms \<and>
       s = join_with '' AND '' atoms)) \<and>
   (ValidateSPDX s Publisher = None \<longrightarrow> ValidateSPDX s Directory = None)"
proof (intro conjI impI)
  show "ValidateSPDX s Publisher = None \<Longrightarrow> ValidateSPDX s Directory = None"
    by (auto simp: ValidateSPDX_def split: if_splits)
  have plain: "a \<in> set knownAtoms \<Longrightarrow> atomShape a \<and> CHR '' '' \<notin> set a" for a
    using known_atoms_plain by (auto simp: list_all_iff)
  show "ValidateSPDX s Publisher = None \<longleftrightarrow>
     length s \<le> 64 \<and> (\<exists>atoms. atoms \<noteq> [] \<and> length atoms \<le> 4 \<and> distinct atoms \<and> set atoms \<subseteq> set knownAtoms \<and>
       s = join_with '' AND '' atoms)" (is "_ \<longleftrightarrow> ?len \<and> ?joined")
  proof
    assume v: "ValidateSPDX s Publisher = None"
    then consider "?len" "s \<in> set knownAtoms" | "?len" "2 \<le> length (split_sep '' AND '' [] s)"
      "length (split_sep '' AND '' [] s) \<le> 4" "set (split_sep '' AND '' [] s) \<subseteq> set knownAtoms"
      "distinct (split_sep '' AND '' [] s)"
      by (auto simp: ValidateSPDX_def Let_def split: if_splits)
    then show "?len \<and> ?joined"
    proof cases
      case 1
      then show ?thesis by (auto intro!: exI [of _ "[s]"])
    next
      case 2
      have "s = join_with '' AND '' (split_sep '' AND '' [] s)" using join_split_sep [of "'' AND ''" "[]" s] by simp
      with 2 split_sep_not_Nil show ?thesis by blast
    qed
  next
    assume "?len \<and> ?joined"
    then obtain atoms where a: "atoms \<noteq> []" "length atoms \<le> 4" "distinct atoms" "set atoms \<subseteq> set knownAtoms"
      and s: "s = join_with '' AND '' atoms" and len: ?len by blast
    show "ValidateSPDX s Publisher = None"
    proof (cases "length atoms = 1")
      case True
      then obtain x where "atoms = [x]" by (auto simp: length_Suc_conv)
      with a s plain len show ?thesis by (simp add: ValidateSPDX_def)
    next
      case False
      have "\<forall>p \<in> set atoms. hd '' AND '' \<notin> set p" using a(4) plain by auto
      then have "split_sep '' AND '' [] s = atoms" unfolding s using a(1) by (intro split_join_sep) simp_all
      moreover have "2 \<le> length atoms" using a(1) False by (cases atoms) (auto simp: Suc_le_eq)
      ultimately show ?thesis using a len by (simp add: ValidateSPDX_def)
    qed
  qed
qed

theorem publisher_spdx_iff_witness:
  "ValidateSPDX ''CC0-1.0 AND MIT'' Directory = None"
proof -
  have "length ''CC0-1.0 AND MIT'' \<le> 64 \<and> [''CC0-1.0'', ''MIT''] \<noteq> [] \<and> length [''CC0-1.0'', ''MIT''] \<le> 4 \<and>
      distinct [''CC0-1.0'', ''MIT''] \<and> set [''CC0-1.0'', ''MIT''] \<subseteq> set knownAtoms \<and>
      ''CC0-1.0 AND MIT'' = join_with '' AND '' [''CC0-1.0'', ''MIT'']"
    by code_simp
  then show ?thesis using publisher_spdx_iff [of "''CC0-1.0 AND MIT''"] by blast
qed

text \<open>
  Terms never mix: when \<^verbatim>\<open>Resolve\<close> returns a right, every declaration it was given is valid, and the
  right carries one of them whole, that of the recordset if there is one, else that of the database, else
  that of the server, with the scope and the identity it was declared at.
\<close>

theorem resolve_most_specific:
  assumes "Resolve parse_url source server database recordset = Inr (Some r)"
    and "i_databaseID source \<noteq> []" and "i_recordset source \<noteq> []"
  shows "(\<forall>d. Some d \<in> {server, database, recordset} \<longrightarrow> declaration_validate parse_url d Directory = None) \<and>
    sr_source r = source \<and> sr_sourceID r = SourceID source \<and>
    (case recordset of
       Some d \<Rightarrow> sr_declaration r = normalized d \<and> sr_scope r = RecordsetScope \<and> sr_declaredAt r = source
     | None \<Rightarrow>
        (case database of
           Some d \<Rightarrow> sr_declaration r = normalized d \<and> sr_scope r = DatabaseScope \<and>
             sr_declaredAt r = source\<lparr>i_recordset := []\<rparr>
         | None \<Rightarrow> \<exists>d. server = Some d \<and> sr_declaration r = normalized d \<and> sr_scope r = ServerScope \<and>
             sr_declaredAt r = source\<lparr>i_databaseID := [], i_recordset := []\<rparr>))"
  using assms
  by (auto simp: Resolve_def check_simps Let_def split: if_splits option.splits prod.splits)

theorem resolve_most_specific_witness:
  "\<exists>r. Resolve (\<lambda>_. None) \<lparr> i_serverID = ''s'', i_databaseID = ''d'', i_recordset = ''t'' \<rparr>
     (Some (no_declaration\<lparr>dc_spdx := ''MIT''\<rparr>)) (Some (no_declaration\<lparr>dc_spdx := ''ISC''\<rparr>)) None = Inr (Some r) \<and>
     dc_spdx (sr_declaration r) = ''ISC''"
proof -
  let ?src = "\<lparr> i_serverID = ''s'', i_databaseID = ''d'', i_recordset = ''t'' \<rparr>"
  let ?server = "Some (no_declaration\<lparr>dc_spdx := ''MIT''\<rparr>)"
  let ?db = "Some (no_declaration\<lparr>dc_spdx := ''ISC''\<rparr>)"
  have "ValidateSPDX ''MIT'' Directory = None" "ValidateSPDX ''ISC'' Directory = None" by code_simp+
  then obtain r where r: "Resolve (\<lambda>_. None) ?src ?server ?db None = Inr (Some r)"
    by (simp add: Resolve_def declaration_validate_def no_declaration_def)
  from resolve_most_specific [OF r] have "sr_declaration r = normalized (no_declaration\<lparr>dc_spdx := ''ISC''\<rparr>)" by simp
  with r show ?thesis by (auto simp: normalized_def)
qed

text \<open>
  The inventory is deterministic and complete: when \<^verbatim>\<open>Inventory\<close> succeeds, the result is strictly
  sorted by source identity, holds only rights that were given, represents every right that was given by
  one with the same identity and the same encoding, and the size it reports is that of its encoding, at
  most 256 KiB.
\<close>

theorem inventory_correct:
  assumes "Inventory enc rights = Inr (out, n)"
  shows "sorted_wrt (<) (map sr_sourceID out) \<and> set out \<subseteq> set rights \<and>
    (\<forall>r \<in> set rights. \<exists>q \<in> set out. sr_sourceID q = sr_sourceID r \<and>
       case_option [] id (enc q) = case_option [] id (enc r)) \<and>
    (\<exists>body. encode_list enc out = Some body \<and> n = length body) \<and> n \<le> MaxEvidenceBytes"
proof -
  from assms obtain byID body where c: "collect_rights enc [] 2 rights = Inr byID"
    and out: "out = sort_key sr_sourceID (map snd byID)"
    and n: "encode_list enc out = Some body" "n = length body" "n \<le> MaxEvidenceBytes"
    by (auto simp: Inventory_def Let_def split: option.splits if_splits)
  from collect_rights_inv [OF c] have inv: "wf_map byID" "\<forall>(k, r) \<in> set byID. k = sr_sourceID r"
    "snd ` set byID \<subseteq> set rights"
    "\<forall>r \<in> set rights. \<exists>q. mget byID (sr_sourceID r) = Some q \<and> case_option [] id (enc q) = case_option [] id (enc r)"
    by (auto simp: wf_map_def)
  have keys: "map sr_sourceID (map snd byID) = mkeys byID" using inv(2) by (induction byID) auto
  have "sorted (map sr_sourceID out)" by (simp add: out)
  moreover have "mset (map sr_sourceID out) = mset (map sr_sourceID (map snd byID))"
    by (simp add: out multiset.map_comp)
  then have "distinct (map sr_sourceID out)"
    using inv(1) unfolding keys wf_map_def by (metis mset_eq_imp_distinct_iff)
  ultimately have srt: "sorted_wrt (<) (map sr_sourceID out)" by (simp add: strict_sorted_iff)
  have so: "set out = snd ` set byID" by (simp add: out)
  have cov: "\<exists>q \<in> set out. sr_sourceID q = sr_sourceID r \<and> case_option [] id (enc q) = case_option [] id (enc r)"
    if "r \<in> set rights" for r
  proof -
    from inv(4) that obtain q where q: "mget byID (sr_sourceID r) = Some q"
      "case_option [] id (enc q) = case_option [] id (enc r)" by blast
    then have m: "(sr_sourceID r, q) \<in> set byID" by (simp add: map_of_SomeD)
    with inv(2) have "sr_sourceID q = sr_sourceID r" by auto
    moreover from m have "q \<in> set out" unfolding so by (rule image_eqI [rotated]) simp
    ultimately show ?thesis using q(2) by blast
  qed
  show ?thesis
  proof (intro conjI)
    show "set out \<subseteq> set rights" using inv(3) so by simp
    show "\<exists>body. encode_list enc out = Some body \<and> n = length body" using n(1,2) by blast
  qed (use srt cov n(3) in \<open>simp_all only: ball_simps\<close>, blast)
qed

theorem inventory_correct_witness:
  "\<exists>out n r. Inventory (\<lambda>r. Some (sr_sourceID r)) [r, r] = Inr (out, n) \<and> sorted_wrt (<) (map sr_sourceID out)"
proof -
  let ?r = "\<lparr> sr_sourceID = ''ovdb:s/d/t'', sr_source = \<lparr> i_serverID = ''s'', i_databaseID = ''d'', i_recordset = ''t'' \<rparr>,
    sr_declaration = no_declaration, sr_scope = ServerScope,
    sr_declaredAt = \<lparr> i_serverID = ''s'', i_databaseID = [], i_recordset = [] \<rparr>, sr_origin = ''server-declared'' \<rparr>"
  have i: "Inventory (\<lambda>r. Some (sr_sourceID r)) [?r, ?r] = Inr ([?r], 12)"
    by (simp add: Inventory_def MaxEvidenceBytes_def encode_list_def)
  from i inventory_correct [OF i] show ?thesis by blast
qed

text \<open>
  A declaration survives its own JSON form: whatever valid declaration is marshalled, the legacy
  scalar form included, parsing the result gives the same declaration back.
\<close>

theorem declaration_json_roundtrip:
  assumes "declaration_validate parse_url d Directory = None"
  shows "ParseJSON parse_url (MarshalJSON d) Directory = Inr d"
proof -
  have sp: "dc_spdx d \<noteq> [] \<Longrightarrow> trim_space (dc_spdx d) \<noteq> []"
    and nm: "dc_name d \<noteq> [] \<Longrightarrow> trim_space (dc_name d) \<noteq> []"
    and ur: "dc_url d \<noteq> [] \<Longrightarrow> trim_space (dc_url d) \<noteq> []"
    and tx: "dc_text d \<noteq> [] \<Longrightarrow> trim_space (dc_text d) \<noteq> []"
    and lg: "dc_legacy d \<Longrightarrow> dc_name d = [] \<and> dc_url d = [] \<and> dc_text d = []"
    using assms valid_spdx_nonblank
    by (auto simp: declaration_validate_def ValidateURL_def boundedText_def split: if_splits option.splits)
  show ?thesis
  proof (cases "dc_legacy d")
    case True
    with lg have "d = no_declaration\<lparr>dc_spdx := dc_spdx d, dc_legacy := True\<rparr>"
      by (simp add: no_declaration_def)
    with assms True show ?thesis by (simp add: ParseJSON_def MarshalJSON_def)
  next
    case False
    then have "decl_members [] (map (\<lambda>(k, s). (k, VStr s)) (filter (\<lambda>(k, s). s \<noteq> [])
        [(''name'', dc_name d), (''spdx'', dc_spdx d), (''url'', dc_url d), (''text'', dc_text d)])) no_declaration = Inr d"
      using sp nm ur tx by (auto simp: decl_member_def no_declaration_def)
    with assms False show ?thesis by (simp add: ParseJSON_def MarshalJSON_def)
  qed
qed

theorem declaration_json_roundtrip_witness:
  "ParseJSON (\<lambda>_. None) (MarshalJSON (no_declaration\<lparr>dc_spdx := ''MIT''\<rparr>)) Directory =
     Inr (no_declaration\<lparr>dc_spdx := ''MIT''\<rparr>)"
proof (rule declaration_json_roundtrip)
  have "ValidateSPDX ''MIT'' Directory = None" by code_simp
  then show "declaration_validate (\<lambda>_. None) (no_declaration\<lparr>dc_spdx := ''MIT''\<rparr>) Directory = None"
    by (simp add: declaration_validate_def no_declaration_def)
qed

end
