(* ===== verification/Keys.thy ===== *)
theory Keys
  imports Go_Strings
begin

text \<open>
  \<^verbatim>\<open>src/pkg/core/key.go\<close>: validation and parsing of record keys. A \<^verbatim>\<open>record.Key\<close> of the record
  library carries its parent (nil for a root key), its collection and its id; the program builds one
  with \<^verbatim>\<open>NewKeyWithID\<close> and \<^verbatim>\<open>NewKeyWithParentAndID\<close> and reads it with the accessors, which
  are the constructor and the selectors of \<open>rkey\<close>. All errors wrap \<^verbatim>\<open>ErrInvalidKey\<close>.
\<close>

datatype rkey = Key (key_parent: "rkey option") (key_collection: string) (key_id: string)

datatype key_error =
    EmptySegment
  | ControlCharacter string
  | OnlySeparators string
  | RelativeComponent string
  | SegmentCount nat
  | BadEscape string

section \<open>Operations\<close>

text \<open>\<^verbatim>\<open>ValidateSegment\<close>.\<close>

definition path_sep :: "char \<Rightarrow> bool" where
  "path_sep c \<longleftrightarrow> c = CHR ''/'' \<or> byte c = 0x5C"

definition ValidateSegment :: "string \<Rightarrow> key_error option" where
  "ValidateSegment s =
     (if s = [] then Some EmptySegment
      else if list_ex (\<lambda>(r, bs). r < 0x20 \<or> r = 0x7F) (runes s) then Some (ControlCharacter s)
      else
        let parts = fields_func path_sep [] s in
        if parts = [] then Some (OnlySeparators s)
        else check_all (\<lambda>part. if part = ''.'' \<or> part = ''..'' then Some (RelativeComponent s) else None) parts)"

definition ValidateCollectionName :: "string \<Rightarrow> key_error option" where
  "ValidateCollectionName = ValidateSegment"

text \<open>\<^verbatim>\<open>ParseKey\<close>: the loop over pairs extends the key built so far.\<close>

fun build_key :: "rkey option \<Rightarrow> string list \<Rightarrow> rkey option" where
  "build_key key (c # i # rest) = build_key (Some (Key key c i)) rest"
| "build_key key _ = key"

definition ParseKey :: "string list \<Rightarrow> key_error + rkey" where
  "ParseKey segments =
     (if length segments < 2 \<or> length segments mod 2 \<noteq> 0 then Inl (SegmentCount (length segments))
      else case check_all ValidateSegment segments of
          Some e \<Rightarrow> Inl e
        | None \<Rightarrow> Inr (the (build_key None segments)))"

text \<open>\<^verbatim>\<open>ParseKeyPath\<close>.\<close>

definition ParseKeyPath :: "string \<Rightarrow> key_error + rkey" where
  "ParseKeyPath raw =
     rbind (map_results (\<lambda>part. case path_unescape part of
              None \<Rightarrow> Inl (BadEscape part) | Some seg \<Rightarrow> Inr seg) (split_on CHR ''/'' raw))
       ParseKey"

text \<open>\<^verbatim>\<open>RootCollection\<close>: the loop that walks to the last ancestor.\<close>

fun RootCollection :: "rkey \<Rightarrow> string" where
  "RootCollection (Key parent c i) = (case parent of None \<Rightarrow> c | Some p \<Rightarrow> RootCollection p)"

text \<open>\<^verbatim>\<open>collectionChains\<close>: the names root first, then the growing path.\<close>

fun collection_names_of :: "rkey \<Rightarrow> string list" where
  "collection_names_of (Key parent c i) =
     (case parent of None \<Rightarrow> [] | Some p \<Rightarrow> collection_names_of p) @ [c]"

fun grow_chains :: "string \<Rightarrow> string list \<Rightarrow> string list" where
  "grow_chains path [] = []"
| "grow_chains path (name # names) =
     (let path' = (if path = [] then name else path @ ''/'' @ name) in path' # grow_chains path' names)"

definition collectionChains :: "rkey \<Rightarrow> string list" where
  "collectionChains k = grow_chains [] (collection_names_of k)"

section \<open>Lemmas\<close>

text \<open>The segments a key was built from, and the path components a file-backed engine sees.\<close>

fun key_segments :: "rkey \<Rightarrow> string list" where
  "key_segments (Key parent c i) = (case parent of None \<Rightarrow> [] | Some p \<Rightarrow> key_segments p) @ [c, i]"

fun path_components :: "string \<Rightarrow> string \<Rightarrow> string list" where
  "path_components acc [] = [rev acc]"
| "path_components acc (x # xs) =
     (if path_sep x then rev acc # path_components [] xs else path_components (x # acc) xs)"

text \<open>
  Lexical resolution of a path below a directory given as its own list of components, as
  \<^verbatim>\<open>filepath.Join\<close> cleans it: an empty component and \<^verbatim>\<open>.\<close> stay, \<^verbatim>\<open>..\<close> goes up.
\<close>

definition enter :: "string \<Rightarrow> string list \<Rightarrow> string list" where
  "enter c dir = (if c = [] \<or> c = ''.'' then dir else if c = ''..'' then butlast dir else dir @ [c])"

definition resolve_below :: "string list \<Rightarrow> string list \<Rightarrow> string list" where
  "resolve_below dir segments = fold enter (concat (map (path_components []) segments)) dir"

lemma fields_func_components: "fields_func path_sep acc s = filter (\<lambda>p. p \<noteq> []) (path_components acc s)"
  by (induction s arbitrary: acc) auto

lemma ValidateSegment_None_iff:
  "ValidateSegment s = None \<longleftrightarrow>
    (\<forall>c \<in> set s. 0x20 \<le> byte c \<and> byte c \<noteq> 0x7F) \<and>
    (\<exists>p \<in> set (path_components [] s). p \<noteq> []) \<and>
    (\<forall>p \<in> set (path_components [] s). p \<noteq> ''.'' \<and> p \<noteq> ''..'')"
proof -
  have ctrl: "list_ex (\<lambda>(r, bs). r < 0x20 \<or> r = 0x7F) (runes s) \<longleftrightarrow>
      \<not> (\<forall>c \<in> set s. 0x20 \<le> byte c \<and> byte c \<noteq> 0x7F)"
    unfolding list_ex_iff by (subst runes_bytes_exists) (linarith, auto simp: not_le)
  have "s = [] \<Longrightarrow> \<not> (\<exists>p \<in> set (path_components [] s). p \<noteq> [])" by simp
  then show ?thesis
    unfolding ValidateSegment_def Let_def ctrl fields_func_components
    by (auto simp: check_simps filter_empty_conv split: if_splits)
qed

lemma build_key_append:
  "even (length xs) \<Longrightarrow> build_key k (xs @ [c, i]) = Some (Key (build_key k xs) c i)"
  by (induction k xs rule: build_key.induct) auto

lemma build_key_segments: "build_key None (key_segments k) = Some k \<and> even (length (key_segments k))"
proof (induction k)
  case (Key parent c i)
  show ?case
  proof (cases parent)
    case None
    then show ?thesis by simp
  next
    case (Some p)
    then have "build_key None (key_segments p) = Some p \<and> even (length (key_segments p))" using Key by simp
    with Some show ?thesis by (simp add: build_key_append)
  qed
qed

lemma segments_build_key:
  assumes "even (length xs)" and "build_key k xs = Some r"
  shows "key_segments r = (case k of None \<Rightarrow> [] | Some p \<Rightarrow> key_segments p) @ xs"
  using assms by (induction k xs arbitrary: r rule: build_key.induct) auto

lemma ParseKey_iff: "ParseKey segments = Inr k \<longleftrightarrow>
    segments = key_segments k \<and> (\<forall>s \<in> set segments. ValidateSegment s = None)"
proof
  assume p: "ParseKey segments = Inr k"
  then have e: "even (length segments)" "2 \<le> length segments" and v: "\<forall>s \<in> set segments. ValidateSegment s = None"
    and k: "k = the (build_key None segments)"
    by (auto simp: ParseKey_def check_simps split: if_splits option.splits)
  obtain c i rest where "segments = c # i # rest" using e(2) by (metis One_nat_def Suc_1 Suc_le_length_iff)
  moreover have "build_key (Some p) xs \<noteq> None" for p xs
    by (induction "Some p" xs arbitrary: p rule: build_key.induct) auto
  ultimately have "build_key None segments = Some k" using k by auto
  with segments_build_key [OF e(1)] v show
    "segments = key_segments k \<and> (\<forall>s \<in> set segments. ValidateSegment s = None)" by fastforce
next
  assume r: "segments = key_segments k \<and> (\<forall>s \<in> set segments. ValidateSegment s = None)"
  moreover have "\<not> length (key_segments k) < 2" by (cases k) simp
  moreover have "length (key_segments k) mod 2 = 0" using build_key_segments [of k] by presburger
  moreover have "check_all ValidateSegment segments = None" using r by (simp add: check_all_None_iff)
  ultimately show "ParseKey segments = Inr k"
    using build_key_segments [of k] by (simp add: ParseKey_def)
qed

lemma split_join_no_sep:
  "ps \<noteq> [] \<Longrightarrow> \<forall>p \<in> set ps. c \<notin> set p \<Longrightarrow> split_on c (join_with [c] ps) = ps"
proof (induction ps)
  case (Cons p ps)
  then show ?case by (cases ps) (simp_all add: split_on_no_sep split_on_sep)
qed simp

lemma ParseKeyPath_escape:
  assumes "segments \<noteq> []"
  shows "ParseKeyPath (join_with ''/'' (map path_escape segments)) = ParseKey segments"
proof -
  have "split_on CHR ''/'' (join_with ''/'' (map path_escape segments)) = map path_escape segments"
    using assms by (intro split_join_no_sep) (auto simp: path_escape_no_slash)
  moreover have "map_results (\<lambda>part. case path_unescape part of
      None \<Rightarrow> Inl (BadEscape part) | Some seg \<Rightarrow> Inr seg) (map path_escape segments) = Inr segments"
    by (induction segments) (auto simp: path_unescape_escape)
  ultimately show ?thesis by (simp add: ParseKeyPath_def)
qed

lemma enter_safe:
  "\<forall>p \<in> set comps. p \<noteq> ''.'' \<and> p \<noteq> ''..'' \<Longrightarrow> fold enter comps dir = dir @ filter (\<lambda>p. p \<noteq> []) comps"
  by (induction comps arbitrary: dir) (auto simp: enter_def)

lemma resolve_below_valid:
  assumes "\<forall>s \<in> set segments. ValidateSegment s = None"
  shows "\<exists>below. resolve_below dir segments = dir @ below \<and> length segments \<le> length below"
proof -
  have "\<forall>p \<in> set (concat (map (path_components []) segments)). p \<noteq> ''.'' \<and> p \<noteq> ''..''"
    using assms by (auto simp: ValidateSegment_None_iff)
  from enter_safe [OF this]
  have "resolve_below dir segments =
      dir @ concat (map (\<lambda>s. filter (\<lambda>p. p \<noteq> []) (path_components [] s)) segments)"
    by (simp add: resolve_below_def filter_concat comp_def)
  moreover have "length segments \<le>
      length (concat (map (\<lambda>s. filter (\<lambda>p. p \<noteq> []) (path_components [] s)) segments))"
    using assms
  proof (induction segments)
    case (Cons s segments)
    then have "filter (\<lambda>p. p \<noteq> []) (path_components [] s) \<noteq> []"
      by (auto simp: ValidateSegment_None_iff filter_empty_conv)
    then have "1 \<le> length (filter (\<lambda>p. p \<noteq> []) (path_components [] s))"
      by (metis One_nat_def Suc_leI length_greater_0_conv)
    with Cons show ?case by simp
  qed simp
  ultimately show ?thesis by blast
qed

lemma join_with_snoc: "pre \<noteq> [] \<Longrightarrow> join_with sep (pre @ [n]) = join_with sep pre @ sep @ n"
  by (induction sep pre rule: join_with.induct) auto

lemma grow_chains_join:
  "\<forall>n \<in> set names. n \<noteq> [] \<Longrightarrow> grow_chains (join_with ''/'' pre) names =
    map (\<lambda>k. join_with ''/'' (pre @ take (Suc k) names)) [0..<length names]" if "\<forall>n \<in> set pre. n \<noteq> []"
  using that
proof (induction names arbitrary: pre)
  case (Cons n names)
  have "join_with ''/'' pre = [] \<longleftrightarrow> pre = []"
    using Cons.prems(2) by (cases pre; cases "tl pre") auto
  then have ext: "(if join_with ''/'' pre = [] then n else join_with ''/'' pre @ ''/'' @ n) = join_with ''/'' (pre @ [n])"
    by (simp add: join_with_snoc)
  have "grow_chains (join_with ''/'' (pre @ [n])) names =
      map (\<lambda>k. join_with ''/'' ((pre @ [n]) @ take (Suc k) names)) [0..<length names]"
    using Cons by (intro Cons.IH) auto
  then show ?case
    unfolding grow_chains.simps Let_def ext
    by (simp add: upt_conv_Cons map_Suc_upt [symmetric] del: upt_Suc)
qed simp

section \<open>Properties\<close>

text \<open>
  C32. No key escapes its directory: when \<^verbatim>\<open>ParseKeyPath\<close> accepts a key, then whatever directory a
  file-backed engine joins the segments to, and after any number of them, lexical resolution of the
  path stays strictly inside that directory, one level or more per segment; and no segment holds a
  control character.
\<close>

theorem parsed_key_stays_below:
  assumes "ParseKeyPath raw = Inr k"
  shows "(\<forall>n. \<exists>below. resolve_below dir (take n (key_segments k)) = dir @ below \<and>
            min n (length (key_segments k)) \<le> length below) \<and>
         (\<forall>s \<in> set (key_segments k). \<forall>c \<in> set s. 0x20 \<le> byte c \<and> byte c \<noteq> 0x7F)"
proof -
  from assms obtain segments where "ParseKey segments = Inr k" by (auto simp: ParseKeyPath_def)
  then have v: "\<forall>s \<in> set (key_segments k). ValidateSegment s = None" by (auto simp: ParseKey_iff)
  have "\<exists>below. resolve_below dir (take n (key_segments k)) = dir @ below \<and>
      min n (length (key_segments k)) \<le> length below" for n
  proof -
    have "\<forall>s \<in> set (take n (key_segments k)). ValidateSegment s = None" using v by (blast dest: in_set_takeD)
    then show ?thesis using resolve_below_valid [of "take n (key_segments k)" dir] by (simp add: min.commute)
  qed
  with v show ?thesis by (simp add: ValidateSegment_None_iff)
qed

theorem parsed_key_stays_below_witness:
  "\<exists>k below. ParseKeyPath ''notes/2024%2Fmay'' = Inr k \<and>
     resolve_below [''data''] (take 2 (key_segments k)) = ''data'' # below \<and> 2 \<le> length below"
proof -
  let ?k = "Key None ''notes'' ''2024/may''"
  have p: "ParseKeyPath ''notes/2024%2Fmay'' = Inr ?k" by code_simp
  have "\<exists>below. resolve_below [''data''] (take 2 (key_segments ?k)) = [''data''] @ below \<and>
      min 2 (length (key_segments ?k)) \<le> length below"
    using parsed_key_stays_below [OF p, of "[''data'']"] by blast
  with p show ?thesis by (auto simp: numeral_2_eq_2)
qed

text \<open>
  Keys round-trip through their escaped path: \<^verbatim>\<open>ParseKey\<close> accepts exactly an even, non-zero
  number of valid segments and builds the key that carries them in order; and the path that escapes
  each segment of an accepted key parses back to that key, whatever bytes its ids hold.
\<close>

theorem key_path_roundtrip:
  "(ParseKey segments = Inr k \<longleftrightarrow>
      segments = key_segments k \<and> (\<forall>s \<in> set segments. ValidateSegment s = None)) \<and>
   (ParseKey (key_segments k) = Inr k \<longrightarrow>
      ParseKeyPath (join_with ''/'' (map path_escape (key_segments k))) = Inr k)"
proof -
  have "key_segments k \<noteq> []" by (cases k) simp
  from ParseKeyPath_escape [OF this] show ?thesis by (simp add: ParseKey_iff)
qed

theorem key_path_roundtrip_witness:
  "ParseKeyPath (join_with ''/'' (map path_escape (key_segments (Key (Some (Key None ''a'' ''x/y'')) ''b'' ''z%'')))) =
     Inr (Key (Some (Key None ''a'' ''x/y'')) ''b'' ''z%'')"
proof -
  let ?k = "Key (Some (Key None ''a'' ''x/y'')) ''b'' ''z%''"
  have "ParseKey (key_segments ?k) = Inr ?k" by code_simp
  with key_path_roundtrip show ?thesis by blast
qed

text \<open>
  Collection chains: for a key \<^verbatim>\<open>ParseKey\<close> built, chain number \<open>i\<close> is the path of the first
  \<open>i + 1\<close> collection names, there is one chain per level, and the first chain is the root collection
  that a per-collection capability is checked on.
\<close>

theorem chains_are_collection_paths:
  assumes "ParseKey segments = Inr k"
  shows "collectionChains k =
      map (\<lambda>i. join_with ''/'' (take (Suc i) (collection_names_of k))) [0..<length segments div 2] \<and>
    hd (collectionChains k) = RootCollection k"
proof -
  have sub: "set (collection_names_of k) \<subseteq> set (key_segments k)" for k
    by (induction k rule: collection_names_of.induct) (auto split: option.splits)
  have len: "length (key_segments k) = 2 * length (collection_names_of k)" for k
    by (induction k rule: collection_names_of.induct) (auto split: option.splits)
  have root: "hd (collection_names_of k) = RootCollection k \<and> collection_names_of k \<noteq> []" for k
    by (induction k rule: collection_names_of.induct) (auto split: option.splits)
  from assms have s: "segments = key_segments k" "\<forall>s \<in> set segments. ValidateSegment s = None"
    by (auto simp: ParseKey_iff)
  then have ne: "\<forall>n \<in> set (collection_names_of k). n \<noteq> []" using sub by (fastforce simp: ValidateSegment_def)
  have c: "collectionChains k =
      map (\<lambda>i. join_with ''/'' (take (Suc i) (collection_names_of k))) [0..<length (collection_names_of k)]"
    using grow_chains_join [of "[]" "collection_names_of k"] ne by (simp add: collectionChains_def)
  moreover obtain n ns where "collection_names_of k = n # ns" using root [of k] by (cases "collection_names_of k") auto
  ultimately show ?thesis using root [of k] len [of k] s(1) by (simp add: upt_conv_Cons del: upt_Suc)
qed

theorem chains_are_collection_paths_witness:
  "\<exists>k. ParseKey [''spaces'', ''s1'', ''ext'', ''c1''] = Inr k \<and>
     collectionChains k = [''spaces'', ''spaces/ext'']"
proof -
  let ?k = "Key (Some (Key None ''spaces'' ''s1'')) ''ext'' ''c1''"
  have p: "ParseKey [''spaces'', ''s1'', ''ext'', ''c1''] = Inr ?k" by code_simp
  from chains_are_collection_paths [OF p] have "collectionChains ?k = [''spaces'', ''spaces/ext'']"
    by (simp add: upt_rec)
  with p show ?thesis by blast
qed

end
