(* ===== verification/Manifest.thy ===== *)
theory Manifest
  imports Schema License Keys
begin

text \<open>
  \<^verbatim>\<open>src/pkg/manifest\<close>: the database manifest and its validation (\<^verbatim>\<open>manifest.go\<close>,
  \<^verbatim>\<open>http.go\<close>, \<^verbatim>\<open>licenses.go\<close>, \<^verbatim>\<open>postgres_names.go\<close>, \<^verbatim>\<open>retention.go\<close>). Decoding the YAML
  text is not modelled; \<^verbatim>\<open>Validate\<close> works on the decoded struct. \<^verbatim>\<open>time.ParseDuration\<close> and
  \<^verbatim>\<open>url.Parse\<close> are the fields of the parameter \<open>std\<close>; a duration is in nanoseconds.
\<close>

record std_api =
  parse_duration :: "string \<Rightarrow> int option"
  parse_url :: "string \<Rightarrow> url_parts option"
  lower_other :: "string \<Rightarrow> string"

section \<open>The manifest\<close>

record http_options =
  h_profile :: string
  h_collection :: string

record sqlite_options =
  s_recordKeys :: "(string, string) gomap option"
  s_busyTimeout :: "string option"

record firestore_options =
  fs_project :: string
  fs_database :: string

record postgres_options =
  pg_dsnEnv :: string
  pg_readOnly :: bool
  pg_insecureTransport :: bool

record mysql_options =
  my_dsnEnv :: string

record github_options =
  gh_owner :: string
  gh_repo :: string
  gh_ref :: string
  gh_tokenEnv :: string
  gh_apiBaseURL :: string

record ingitdb_options =
  ig_push :: string
  ig_remote :: string
  ig_branch :: string
  ig_github :: "github_options option"

record storage =
  st_http :: "http_options option"
  st_sqlite :: "sqlite_options option"
  st_engine :: string
  st_path :: string
  st_ingitdb :: "ingitdb_options option"
  st_firestore :: "firestore_options option"
  st_postgres :: "postgres_options option"
  st_mysql :: "mysql_options option"

record database_decl =
  db_license :: "license_decl option"
  db_id :: string
  db_tags :: "string list"
  db_schemaMode :: string
  db_cacheTTL :: string
  db_retention :: string

text \<open>Of \<^verbatim>\<open>access.FilePolicyConfig\<close> the code reads whether it is enabled, the realm and the policies.\<close>

record acl_config =
  acl_enabled :: bool
  acl_realm :: string
  acl_policies :: "string list"

record manifest =
  m_recordsetLicenses :: "(string, license_decl) gomap"
  m_database :: database_decl
  m_storage :: storage
  m_schemas :: "schemas option"
  m_aclStore :: "string option"
  m_acl :: "acl_config option"

datatype manifest_error =
    BadRetention | RetentionCache | LicenseInvalid license_error | RecordsetLicenseName
  | AclStoreConfig | IdRequired | IdInvalid | TooManyTags | TagShape nat | TagDuplicate nat
  | ModeInvalid schema_error | CacheTTLInvalid | EngineRequired | PathRequired
  | HTTPEngineRequired | HTTPProfileAndCollection | HTTPProfileUnsupported | HTTPOtherStorage
  | HTTPStrictSingle | HTTPNativeFields | HTTPSourceOverride | HTTPFieldType string | HTTPFieldInferred string
  | FirestoreProject | FirestoreEngine | SQLiteEngine | SQLiteBusyTimeout | SQLiteRecordKeys
  | PostgresEngine | MySQLEngine | PostgresDSNEnv | MySQLDSNEnv | InGitDBEngine | InGitDBPush
  | GitHubOwnerRepo | GitHubTokenEnv | GitHubPush | SchemasInvalid schema_error
  | PostgresCollectionName string | PostgresFieldName string string | StrictRequiresSchemas

section \<open>Durations and defaults\<close>

definition day_ns :: int where
  "day_ns = 24 * 3600 * 1000000000"

text \<open>\<^verbatim>\<open>Database.ReadCacheTTL\<close>.\<close>

definition cache_ttl_ok :: "int \<Rightarrow> bool" where
  "cache_ttl_ok ttl \<longleftrightarrow> \<not> (ttl < 0 \<or> ttl > 365 * day_ns \<or> ttl mod 1000000000 \<noteq> 0)"

definition ReadCacheTTL :: "std_api \<Rightarrow> database_decl \<Rightarrow> int" where
  "ReadCacheTTL std d =
     (case parse_duration std (db_cacheTTL d) of
        None \<Rightarrow> 0
      | Some ttl \<Rightarrow> if cache_ttl_ok ttl then ttl else 0)"

text \<open>\<^verbatim>\<open>SQLiteOptions.LockWait\<close>.\<close>

definition LockWait :: "std_api \<Rightarrow> sqlite_options option \<Rightarrow> int \<Rightarrow> manifest_error + int" where
  "LockWait std mo legacy =
     (case mo of
        None \<Rightarrow> Inr legacy
      | Some o' \<Rightarrow>
         (case s_busyTimeout o' of
            None \<Rightarrow> Inr legacy
          | Some body \<Rightarrow>
             (case parse_duration std body of
                None \<Rightarrow> Inl SQLiteBusyTimeout
              | Some wait \<Rightarrow>
                 if wait < 0 \<or> wait > 5 * 1000000000 \<or> wait mod 1000000 \<noteq> 0 then Inl SQLiteBusyTimeout
                 else Inr wait)))"

text \<open>The options with a default.\<close>

definition PostgresDSNEnvVar :: "postgres_options option \<Rightarrow> string" where
  "PostgresDSNEnvVar mo = (case mo of None \<Rightarrow> ''OVDB_POSTGRES_DSN''
     | Some o' \<Rightarrow> if pg_dsnEnv o' = [] then ''OVDB_POSTGRES_DSN'' else pg_dsnEnv o')"

definition MySQLDSNEnvVar :: "mysql_options option \<Rightarrow> string" where
  "MySQLDSNEnvVar mo = (case mo of None \<Rightarrow> ''OVDB_MYSQL_DSN''
     | Some o' \<Rightarrow> if my_dsnEnv o' = [] then ''OVDB_MYSQL_DSN'' else my_dsnEnv o')"

definition GitRef :: "github_options option \<Rightarrow> string" where
  "GitRef mo = (case mo of None \<Rightarrow> ''main'' | Some o' \<Rightarrow> if gh_ref o' = [] then ''main'' else gh_ref o')"

definition TokenEnvVar :: "github_options option \<Rightarrow> string" where
  "TokenEnvVar mo = (case mo of None \<Rightarrow> ''OVDB_GITHUB_TOKEN''
     | Some o' \<Rightarrow> if gh_tokenEnv o' = [] then ''OVDB_GITHUB_TOKEN'' else gh_tokenEnv o')"

definition PushMode :: "ingitdb_options option \<Rightarrow> string" where
  "PushMode mo = (case mo of None \<Rightarrow> ''none'' | Some o' \<Rightarrow> if ig_push o' = [] then ''none'' else ig_push o')"

definition PushRemote :: "ingitdb_options option \<Rightarrow> string" where
  "PushRemote mo = (case mo of None \<Rightarrow> ''origin'' | Some o' \<Rightarrow> if ig_remote o' = [] then ''origin'' else ig_remote o')"

definition PushBranch :: "ingitdb_options option \<Rightarrow> string" where
  "PushBranch mo = (case mo of None \<Rightarrow> ''HEAD'' | Some o' \<Rightarrow> if ig_branch o' = [] then ''HEAD'' else ig_branch o')"

section \<open>Names\<close>

text \<open>The regular expressions \<^verbatim>\<open>dbIDRe\<close>, \<^verbatim>\<open>databaseTagRe\<close>, \<^verbatim>\<open>envVarNameRe\<close> and \<^verbatim>\<open>plainPostgresName\<close>.\<close>

definition ascii_letter :: "char \<Rightarrow> bool" where
  "ascii_letter c \<longleftrightarrow> (let b = byte c in (0x41 \<le> b \<and> b \<le> 0x5A) \<or> (0x61 \<le> b \<and> b \<le> 0x7A))"

definition dbIDRe :: "string \<Rightarrow> bool" where
  "dbIDRe s \<longleftrightarrow> (case s of [] \<Rightarrow> False
     | c # cs \<Rightarrow> ascii_alnum c \<and> list_all (\<lambda>x. ascii_alnum x \<or> x = CHR ''_'' \<or> x = CHR ''-'') cs)"

definition slug_char :: "char \<Rightarrow> bool" where
  "slug_char c \<longleftrightarrow> (let b = byte c in (0x61 \<le> b \<and> b \<le> 0x7A) \<or> (0x30 \<le> b \<and> b \<le> 0x39))"

definition databaseTagRe :: "string \<Rightarrow> bool" where
  "databaseTagRe s \<longleftrightarrow> list_all (\<lambda>p. p \<noteq> [] \<and> list_all slug_char p) (split_on CHR ''-'' s)"

definition plain_identifier :: "string \<Rightarrow> bool" where
  "plain_identifier s \<longleftrightarrow> (case s of [] \<Rightarrow> False
     | c # cs \<Rightarrow> (ascii_letter c \<or> c = CHR ''_'') \<and>
         list_all (\<lambda>x. ascii_alnum x \<or> x = CHR ''_'') cs)"

definition ValidEnvVarName :: "string \<Rightarrow> bool" where
  "ValidEnvVarName name = plain_identifier name"

definition ValidateID :: "string \<Rightarrow> manifest_error option" where
  "ValidateID i = (if i = [] then Some IdRequired else if \<not> dbIDRe i then Some IdInvalid else None)"

section \<open>Validation\<close>

text \<open>\<^verbatim>\<open>EffectiveRetention\<close> and \<^verbatim>\<open>ValidateRetention\<close>.\<close>

definition RetentionNone :: string where "RetentionNone = ''none''"

definition EffectiveRetention :: "manifest \<Rightarrow> string" where
  "EffectiveRetention m =
     (if db_retention (m_database m) = RetentionNone then RetentionNone
      else if st_engine (m_storage m) \<in> {''sqlite'', ''ingitdb'', ''firestore'', ''postgres'', ''mysql''} then []
      else RetentionNone)"

definition ValidateRetention :: "std_api \<Rightarrow> manifest \<Rightarrow> manifest_error option" where
  "ValidateRetention std m =
     (if db_retention (m_database m) \<noteq> [] \<and> db_retention (m_database m) \<noteq> RetentionNone then Some BadRetention
      else if EffectiveRetention m = RetentionNone \<and> db_cacheTTL (m_database m) \<noteq> [] then
        (case parse_duration std (db_cacheTTL (m_database m)) of
           None \<Rightarrow> Some RetentionCache
         | Some ttl \<Rightarrow> if ttl \<noteq> 0 then Some RetentionCache else None)
      else None)"

text \<open>\<^verbatim>\<open>ValidateLicenses\<close>.\<close>

definition ValidateLicenses :: "std_api \<Rightarrow> manifest \<Rightarrow> manifest_error option" where
  "ValidateLicenses std m =
     (case (case db_license (m_database m) of None \<Rightarrow> None
             | Some d \<Rightarrow> map_option LicenseInvalid (declaration_validate (parse_url std) d Directory)) of
        Some e \<Rightarrow> Some e
      | None \<Rightarrow>
         check_all (\<lambda>(name, decl).
            if trim_space name = [] \<or> length name > 256 then Some RecordsetLicenseName
            else map_option LicenseInvalid (declaration_validate (parse_url std) decl Directory))
           (m_recordsetLicenses m))"

text \<open>\<^verbatim>\<open>ValidateHTTP\<close>.\<close>

definition string_field :: field where
  "string_field = \<lparr> f_type = ''string'', f_required = False, f_decimal = None,
     f_nativeType = [], f_primaryKey = False, f_nullable = False \<rparr>"

definition native_fields :: "string \<Rightarrow> string list option" where
  "native_fields profile =
     (if profile = ''ecb-daily/1'' then Some [''time'', ''currency'', ''rate'']
      else if profile = ''iana-http-status/1'' then Some [''Value'', ''Description'', ''Reference'']
      else None)"

definition http_field_check :: "string \<Rightarrow> collection \<Rightarrow> string \<Rightarrow> manifest_error option" where
  "http_field_check profile c name =
     (case mget (c_fields c) name of
        None \<Rightarrow> Some (HTTPFieldType name)
      | Some f \<Rightarrow>
         if f_type f \<noteq> ''string'' \<or> f_decimal f \<noteq> None then Some (HTTPFieldType name)
         else if profile = ''iana-http-status/1'' \<and> f \<noteq> string_field then Some (HTTPFieldInferred name)
         else None)"

definition ValidateHTTP :: "std_api \<Rightarrow> manifest \<Rightarrow> manifest_error option" where
  "ValidateHTTP std m =
     (let st = m_storage m in
      if st_engine st \<noteq> ''http'' then (if st_http st \<noteq> None then Some HTTPEngineRequired else None)
      else case st_http st of
          None \<Rightarrow> Some HTTPProfileAndCollection
        | Some o' \<Rightarrow>
           if h_collection o' = [] then Some HTTPProfileAndCollection
           else case native_fields (h_profile o') of
               None \<Rightarrow> Some HTTPProfileUnsupported
             | Some nativeFields \<Rightarrow>
                if st_path st \<noteq> [] \<or> st_ingitdb st \<noteq> None \<or> st_sqlite st \<noteq> None \<or> st_firestore st \<noteq> None \<or>
                   st_postgres st \<noteq> None \<or> st_mysql st \<noteq> None then Some HTTPOtherStorage
                else if db_schemaMode (m_database m) \<noteq> ModeStrict then Some HTTPStrictSingle
                else case m_schemas m of
                    None \<Rightarrow> Some HTTPStrictSingle
                  | Some s \<Rightarrow>
                     if length s \<noteq> 1 then Some HTTPStrictSingle
                     else case mget s (h_collection o') of
                         None \<Rightarrow> Some HTTPNativeFields
                       | Some c \<Rightarrow>
                          if length (c_fields c) \<noteq> 3 \<or> c_references c \<noteq> [] then Some HTTPNativeFields
                          else if h_profile o' = ''iana-http-status/1'' \<and> c_source c \<noteq> None
                          then Some HTTPSourceOverride
                          else case check_all (http_field_check (h_profile o') c) nativeFields of
                              Some e \<Rightarrow> Some e
                            | None \<Rightarrow> ValidateRetention std m)"

text \<open>
  \<^verbatim>\<open>postgresNameProblem\<close> and \<^verbatim>\<open>CheckPostgresNames\<close>. Lower-casing is exact on ASCII names; of any
  other name only the length matters here, and the shape test refuses it anyway.
\<close>

definition to_lower :: "std_api \<Rightarrow> string \<Rightarrow> string" where
  "to_lower std s =
     (if is_ascii s then map (\<lambda>c. if 0x41 \<le> byte c \<and> byte c \<le> 0x5A then char_of (byte c + 0x20) else c) s
      else lower_other std s)"

definition postgres_name_ok :: "std_api \<Rightarrow> string \<Rightarrow> bool" where
  "postgres_name_ok std name \<longleftrightarrow> length (to_lower std name) \<le> 63 \<and> plain_identifier name"

definition CheckPostgresNames :: "std_api \<Rightarrow> manifest \<Rightarrow> manifest_error option" where
  "CheckPostgresNames std m =
     (let st = m_storage m in
      case m_schemas m of
        None \<Rightarrow> None
      | Some s \<Rightarrow>
         if st_engine st \<noteq> ''postgres'' \<or> (case st_postgres st of None \<Rightarrow> False | Some o' \<Rightarrow> pg_readOnly o') then None
         else
           let collections = sort (mkeys s) in
           case check_all (\<lambda>c. if postgres_name_ok std c then None else Some (PostgresCollectionName c)) collections of
             Some e \<Rightarrow> Some e
           | None \<Rightarrow>
              check_all (\<lambda>c. case mget s c of None \<Rightarrow> None
                 | Some col \<Rightarrow> check_all (\<lambda>f. if postgres_name_ok std f then None
                     else Some (PostgresFieldName c f)) (sort (mkeys (c_fields col)))) collections)"

text \<open>\<^verbatim>\<open>Validate\<close>: the checks in the order of the code, the loop over tags first.\<close>

definition tag_check :: "string list \<Rightarrow> nat \<Rightarrow> string \<Rightarrow> manifest_error option" where
  "tag_check tags i tag =
     (if length tag > 64 \<or> \<not> databaseTagRe tag then Some (TagShape i)
      else if tag \<in> set (take i tags) then Some (TagDuplicate i) else None)"

definition acl_store_check :: "manifest \<Rightarrow> manifest_error option" where
  "acl_store_check m =
     (case m_aclStore m of
        None \<Rightarrow> None
      | Some path \<Rightarrow>
         (case m_acl m of
            None \<Rightarrow> Some AclStoreConfig
          | Some a \<Rightarrow> refuse (\<not> acl_enabled a \<or> path = [] \<or> acl_policies a \<noteq> []) AclStoreConfig))"

definition sqlite_check :: "std_api \<Rightarrow> storage \<Rightarrow> manifest_error option" where
  "sqlite_check std st =
     (case st_sqlite st of
        None \<Rightarrow> None
      | Some o' \<Rightarrow>
         if st_engine st \<noteq> ''sqlite'' then Some SQLiteEngine
         else case LockWait std (Some o') (5 * 1000000000) of
             Inl e \<Rightarrow> Some e
           | Inr _ \<Rightarrow> refuse (s_recordKeys o' = Some []) SQLiteRecordKeys)"

definition github_check :: "ingitdb_options \<Rightarrow> manifest_error option" where
  "github_check o' =
     (case ig_github o' of
        None \<Rightarrow> None
      | Some gh \<Rightarrow> first_of
          [refuse (gh_owner gh = [] \<or> gh_repo gh = []) GitHubOwnerRepo,
           refuse (gh_tokenEnv gh \<noteq> [] \<and> \<not> ValidEnvVarName (gh_tokenEnv gh)) GitHubTokenEnv,
           refuse (ig_push o' \<noteq> []) GitHubPush])"

definition ingitdb_check :: "storage \<Rightarrow> manifest_error option" where
  "ingitdb_check st =
     (case st_ingitdb st of
        None \<Rightarrow> None
      | Some o' \<Rightarrow> first_of
          [refuse (st_engine st \<noteq> ''ingitdb'') InGitDBEngine,
           refuse (ig_push o' \<notin> {[], ''none'', ''sync'', ''async''}) InGitDBPush,
           github_check o'])"

definition pathless :: "storage \<Rightarrow> bool" where
  "pathless st \<longleftrightarrow> st_engine st \<in> {''firestore'', ''postgres'', ''mysql'', ''http''} \<or>
     (st_engine st = ''ingitdb'' \<and> (case st_ingitdb st of None \<Rightarrow> False | Some o' \<Rightarrow> ig_github o' \<noteq> None))"

definition native_postgres_mount :: "storage \<Rightarrow> bool" where
  "native_postgres_mount st \<longleftrightarrow>
     st_engine st = ''postgres'' \<and> (case st_postgres st of None \<Rightarrow> False | Some o' \<Rightarrow> pg_readOnly o')"

definition manifest_validate :: "std_api \<Rightarrow> manifest \<Rightarrow> manifest_error option" where
  "manifest_validate std m =
     (let db = m_database m; st = m_storage m in first_of
       [ValidateRetention std m,
        ValidateLicenses std m,
        acl_store_check m,
        refuse (db_id db = []) IdRequired,
        refuse (\<not> dbIDRe (db_id db)) IdInvalid,
        refuse (length (db_tags db) > 16) TooManyTags,
        check_idx (tag_check (db_tags db)) 0 (db_tags db),
        map_option ModeInvalid (mode_validate (db_schemaMode db)),
        refuse (db_cacheTTL db \<noteq> [] \<and>
          (case parse_duration std (db_cacheTTL db) of None \<Rightarrow> True | Some ttl \<Rightarrow> \<not> cache_ttl_ok ttl)) CacheTTLInvalid,
        refuse (st_engine st = []) EngineRequired,
        refuse (st_path st = [] \<and> \<not> pathless st) PathRequired,
        ValidateHTTP std m,
        (if st_engine st = ''firestore''
         then refuse (case st_firestore st of None \<Rightarrow> True | Some o' \<Rightarrow> fs_project o' = []) FirestoreProject
         else refuse (st_firestore st \<noteq> None) FirestoreEngine),
        sqlite_check std st,
        refuse (st_postgres st \<noteq> None \<and> st_engine st \<noteq> ''postgres'') PostgresEngine,
        refuse (st_mysql st \<noteq> None \<and> st_engine st \<noteq> ''mysql'') MySQLEngine,
        refuse (case st_postgres st of None \<Rightarrow> False
          | Some o' \<Rightarrow> pg_dsnEnv o' \<noteq> [] \<and> \<not> ValidEnvVarName (pg_dsnEnv o')) PostgresDSNEnv,
        refuse (case st_mysql st of None \<Rightarrow> False
          | Some o' \<Rightarrow> my_dsnEnv o' \<noteq> [] \<and> \<not> ValidEnvVarName (my_dsnEnv o')) MySQLDSNEnv,
        ingitdb_check st,
        map_option SchemasInvalid (schemas_validate (m_schemas m)),
        CheckPostgresNames std m,
        refuse (db_schemaMode db = ModeStrict \<and> \<not> native_postgres_mount st \<and>
          (case m_schemas m of None \<Rightarrow> True | Some s \<Rightarrow> s = [])) StrictRequiresSchemas])"

section \<open>Lemmas\<close>

lemma dbIDRe_chars:
  "dbIDRe s \<Longrightarrow> s \<noteq> [] \<and> (\<forall>c \<in> set s. ascii_alnum c \<or> c = CHR ''_'' \<or> c = CHR ''-'')"
  by (cases s) (auto simp: dbIDRe_def list_all_iff)

lemma plain_identifier_chars:
  "plain_identifier s \<Longrightarrow> s \<noteq> [] \<and> (\<forall>c \<in> set s. ascii_alnum c \<or> c = CHR ''_'')"
  by (cases s) (auto simp: plain_identifier_def list_all_iff ascii_letter_def ascii_alnum_def Let_def)

text \<open>A non-empty name of plain characters is one path component and no relative one.\<close>

lemma plain_segment:
  assumes "s \<noteq> []" and "\<forall>c \<in> set s. 0x20 \<le> byte c \<and> byte c \<noteq> 0x7F \<and> \<not> path_sep c \<and> c \<noteq> CHR ''.''"
  shows "ValidateSegment s = None"
proof -
  have comps: "\<forall>c \<in> set t. \<not> path_sep c \<Longrightarrow> path_components acc t = [rev acc @ t]" for acc t
    by (induction t arbitrary: acc) auto
  have "path_components [] s = [s]" using assms(2) comps [of s "[]"] by simp
  moreover have "CHR ''.'' \<notin> set s" using assms(2) by blast
  then have "s \<noteq> ''.''" "s \<noteq> ''..''" by auto
  ultimately show ?thesis using assms by (simp add: ValidateSegment_None_iff)
qed

lemma id_char_plain:
  assumes "ascii_alnum c \<or> c = CHR ''_'' \<or> c = CHR ''-''"
  shows "0x20 \<le> byte c \<and> byte c \<noteq> 0x7F \<and> \<not> path_sep c \<and> c \<noteq> CHR ''.''"
  using assms by (auto simp: ascii_alnum_def path_sep_def Let_def)

lemmas manifest_checks = manifest_validate_def first_of_None refuse_None Let_def

text \<open>A manifest that passes, for the witnesses.\<close>

definition demo_std :: std_api where
  "demo_std = \<lparr> parse_duration = (\<lambda>s. if s = ''60s'' then Some 60000000000 else None),
     parse_url = (\<lambda>_. None), lower_other = id \<rparr>"

definition demo_pg_schemas :: schemas where
  "demo_pg_schemas = [(''orders'', \<lparr> c_fields = [(''total'', demo_total)], c_references = [], c_source = None \<rparr>)]"

definition demo_manifest :: manifest where
  "demo_manifest =
     \<lparr> m_recordsetLicenses = [],
       m_database = \<lparr> db_license = None, db_id = ''crm'', db_tags = [''sales'', ''eu-west''], db_schemaMode = ''strict'',
         db_cacheTTL = ''60s'', db_retention = [] \<rparr>,
       m_storage = \<lparr> st_http = None, st_sqlite = None, st_engine = ''postgres'', st_path = [], st_ingitdb = None,
         st_firestore = None,
         st_postgres = Some \<lparr> pg_dsnEnv = ''CRM_DSN'', pg_readOnly = False, pg_insecureTransport = False \<rparr>,
         st_mysql = None \<rparr>,
       m_schemas = Some demo_pg_schemas, m_aclStore = None, m_acl = None \<rparr>"

lemma demo_pg_names: "CheckPostgresNames demo_std demo_manifest = None"
  by (simp add: CheckPostgresNames_def demo_manifest_def demo_pg_schemas_def postgres_name_ok_def to_lower_def
      is_ascii_def plain_identifier_def ascii_letter_def ascii_alnum_def)

lemma demo_licenses: "ValidateLicenses demo_std demo_manifest = None"
  by (simp add: ValidateLicenses_def demo_manifest_def)

lemma demo_manifest_valid: "manifest_validate demo_std demo_manifest = None"
  unfolding manifest_validate_def Let_def first_of_None list.set ball_simps
  by (intro conjI demo_pg_names demo_licenses; code_simp)

definition demo_codes :: collection where
  "demo_codes = \<lparr> c_fields = [(''Value'', string_field), (''Description'', string_field), (''Reference'', string_field)],
     c_references = [], c_source = None \<rparr>"

definition demo_http :: manifest where
  "demo_http = demo_manifest\<lparr>m_database := (m_database demo_manifest)\<lparr>db_cacheTTL := []\<rparr>,
     m_storage := (m_storage demo_manifest)\<lparr>st_engine := ''http'', st_postgres := None,
       st_http := Some \<lparr> h_profile = ''iana-http-status/1'', h_collection = ''codes'' \<rparr>\<rparr>,
     m_schemas := Some [(''codes'', demo_codes)]\<rparr>"

section \<open>Properties\<close>

text \<open>
  Options belong to their engine: in a manifest that passes \<^verbatim>\<open>Validate\<close>, each block of engine
  options is present only with its own engine, and an engine that keeps its data in a path has one.
\<close>

theorem options_match_engine:
  assumes "manifest_validate std m = None"
  shows "(st_http (m_storage m) \<noteq> None \<longrightarrow> st_engine (m_storage m) = ''http'') \<and>
    (st_sqlite (m_storage m) \<noteq> None \<longrightarrow> st_engine (m_storage m) = ''sqlite'') \<and>
    (st_ingitdb (m_storage m) \<noteq> None \<longrightarrow> st_engine (m_storage m) = ''ingitdb'') \<and>
    (st_firestore (m_storage m) \<noteq> None \<longleftrightarrow> st_engine (m_storage m) = ''firestore'') \<and>
    (st_postgres (m_storage m) \<noteq> None \<longrightarrow> st_engine (m_storage m) = ''postgres'') \<and>
    (st_mysql (m_storage m) \<noteq> None \<longrightarrow> st_engine (m_storage m) = ''mysql'') \<and>
    (st_path (m_storage m) = [] \<longrightarrow> pathless (m_storage m))"
proof -
  from assms have "ValidateHTTP std m = None" "sqlite_check std (m_storage m) = None"
    "ingitdb_check (m_storage m) = None"
    and r: "st_path (m_storage m) = [] \<longrightarrow> pathless (m_storage m)"
    "st_postgres (m_storage m) \<noteq> None \<longrightarrow> st_engine (m_storage m) = ''postgres''"
    "st_mysql (m_storage m) \<noteq> None \<longrightarrow> st_engine (m_storage m) = ''mysql''"
    "st_firestore (m_storage m) \<noteq> None \<longleftrightarrow> st_engine (m_storage m) = ''firestore''"
    by (auto simp: manifest_checks split: if_splits option.splits)
  then show ?thesis
    by (auto simp: ValidateHTTP_def sqlite_check_def ingitdb_check_def check_simps Let_def
        split: if_splits option.splits)
qed

theorem options_match_engine_witness: "st_engine (m_storage demo_manifest) = ''postgres''"
proof -
  have "st_postgres (m_storage demo_manifest) \<noteq> None" by (simp add: demo_manifest_def)
  with options_match_engine [OF demo_manifest_valid] show ?thesis by blast
qed

text \<open>
  A manifest names environment variables and never holds what they hold: after \<^verbatim>\<open>Validate\<close> the
  variable names that the mounts read are plain identifiers, which no connection string and no
  URL is (they contain a colon, a slash, an at sign or an equals sign).
\<close>

theorem env_names_hold_no_secret:
  assumes "manifest_validate std m = None"
    and "name = PostgresDSNEnvVar (st_postgres (m_storage m)) \<or> name = MySQLDSNEnvVar (st_mysql (m_storage m)) \<or>
         (\<exists>o' gh. st_ingitdb (m_storage m) = Some o' \<and> ig_github o' = Some gh \<and> name = TokenEnvVar (Some gh))"
  shows "name \<noteq> [] \<and> (\<forall>c \<in> set name. ascii_alnum c \<or> c = CHR ''_'') \<and> set name \<inter> set '':/@= '' = {}"
proof -
  have defaults: "plain_identifier ''OVDB_POSTGRES_DSN''" "plain_identifier ''OVDB_MYSQL_DSN''"
    "plain_identifier ''OVDB_GITHUB_TOKEN''" by code_simp+
  from assms(1) have "ingitdb_check (m_storage m) = None"
    "case st_postgres (m_storage m) of None \<Rightarrow> True | Some o' \<Rightarrow> pg_dsnEnv o' = [] \<or> plain_identifier (pg_dsnEnv o')"
    "case st_mysql (m_storage m) of None \<Rightarrow> True | Some o' \<Rightarrow> my_dsnEnv o' = [] \<or> plain_identifier (my_dsnEnv o')"
    by (auto simp: manifest_checks ValidEnvVarName_def split: if_splits option.splits)
  with assms(2) defaults have "plain_identifier name"
    by (auto simp: ingitdb_check_def github_check_def check_simps ValidEnvVarName_def PostgresDSNEnvVar_def
        MySQLDSNEnvVar_def TokenEnvVar_def split: if_splits option.splits)
  then have c: "name \<noteq> [] \<and> (\<forall>c \<in> set name. ascii_alnum c \<or> c = CHR ''_'')" by (rule plain_identifier_chars)
  have "\<not> ascii_alnum x \<and> x \<noteq> CHR ''_''" if "x \<in> set '':/@= ''" for x
    using that by (auto simp: ascii_alnum_def Let_def)
  with c show ?thesis by blast
qed

theorem env_names_hold_no_secret_witness: "set ''CRM_DSN'' \<inter> set '':/@= '' = {}"
proof -
  have "PostgresDSNEnvVar (st_postgres (m_storage demo_manifest)) = ''CRM_DSN''" by code_simp
  then show ?thesis using env_names_hold_no_secret [OF demo_manifest_valid, of "''CRM_DSN''"] by simp
qed

text \<open>
  A source without retention is never cached: when \<^verbatim>\<open>Validate\<close> accepts a manifest whose
  effective retention is none (declared so, or an engine that is not one of the established five), its
  read cache duration is zero; and for every accepted manifest the duration is a whole number of seconds
  of at most 365 days.
\<close>

theorem no_retention_no_cache:
  assumes "manifest_validate std m = None" and "parse_duration std [] = None"
  shows "(EffectiveRetention m = RetentionNone \<longrightarrow> ReadCacheTTL std (m_database m) = 0) \<and>
    0 \<le> ReadCacheTTL std (m_database m) \<and> ReadCacheTTL std (m_database m) \<le> 365 * day_ns \<and>
    ReadCacheTTL std (m_database m) mod 1000000000 = 0"
proof -
  from assms(1) have "ValidateRetention std m = None" by (simp add: manifest_checks)
  then show ?thesis using assms(2)
    by (auto simp: ValidateRetention_def ReadCacheTTL_def cache_ttl_ok_def day_ns_def split: if_splits option.splits)
qed

theorem no_retention_no_cache_witness: "0 \<le> ReadCacheTTL demo_std (m_database demo_manifest)"
proof -
  have "parse_duration demo_std [] = None" by (simp add: demo_std_def)
  with no_retention_no_cache [OF demo_manifest_valid] show ?thesis by blast
qed

text \<open>
  A validated database id is safe wherever it is used: it is not empty, it is a valid key segment
  (no separator, no relative component, no control character), and percent-escaping leaves it as it is.
\<close>

theorem database_id_is_safe:
  assumes "ValidateID i = None"
  shows "ValidateSegment i = None \<and> path_escape i = i \<and> path_unescape i = Some i"
proof -
  from assms have "dbIDRe i" by (auto simp: ValidateID_def split: if_splits)
  then have c: "i \<noteq> []" "\<forall>c \<in> set i. ascii_alnum c \<or> c = CHR ''_'' \<or> c = CHR ''-''" using dbIDRe_chars by auto
  then have "ValidateSegment i = None" using id_char_plain by (intro plain_segment) blast+
  moreover have "path_safe c" if "ascii_alnum c \<or> c = CHR ''_'' \<or> c = CHR ''-''" for c
    using that by (auto simp: path_safe_def ascii_alnum_def Let_def)
  with c(2) have e: "path_escape i = i" by (induction i) (auto simp: path_escape_def)
  ultimately show ?thesis using path_unescape_escape [of i] by simp
qed

theorem database_id_is_safe_witness: "ValidateSegment ''crm-2_eu'' = None"
proof -
  have "ValidateID ''crm-2_eu'' = None" by code_simp
  from database_id_is_safe [OF this] show ?thesis by blast
qed

text \<open>
  A fixed HTTP source declares exactly its native rows: when \<^verbatim>\<open>ValidateHTTP\<close> accepts a manifest of
  the http engine, its only collection is the configured one, and that collection has exactly the three
  fields of the profile, each of string type, and no reference.
\<close>

theorem http_source_is_closed:
  assumes "ValidateHTTP std m = None" and "st_engine (m_storage m) = ''http''"
    and "m_schemas m = Some s" and "\<And>n c. mget s n = Some c \<Longrightarrow> wf_map (c_fields c)"
  shows "\<exists>o' c fields. st_http (m_storage m) = Some o' \<and> s = [(h_collection o', c)] \<and>
    native_fields (h_profile o') = Some fields \<and> set (mkeys (c_fields c)) = set fields \<and>
    (\<forall>n f. mget (c_fields c) n = Some f \<longrightarrow> f_type f = ''string'') \<and> c_references c = [] \<and>
    db_schemaMode (m_database m) = ModeStrict"
proof -
  from assms(1-3) obtain o' c fields where o': "st_http (m_storage m) = Some o'"
    and nf: "native_fields (h_profile o') = Some fields" and one: "length s = 1"
    and c: "mget s (h_collection o') = Some c" and three: "length (c_fields c) = 3" "c_references c = []"
    and mode: "db_schemaMode (m_database m) = ModeStrict"
    and chk: "check_all (http_field_check (h_profile o') c) fields = None"
    by (auto simp: ValidateHTTP_def Let_def split: if_splits option.splits)
  obtain n x where sx: "s = [(n, x)]" using one by (cases s) auto
  with c have s: "s = [(h_collection o', c)]" by (auto split: if_splits)
  have dist: "distinct fields" "length fields = 3" using nf by (auto simp: native_fields_def split: if_splits)
  have decl: "\<exists>f. mget (c_fields c) n = Some f \<and> f_type f = ''string''" if "n \<in> set fields" for n
    using chk that by (auto simp: check_simps http_field_check_def split: option.splits if_splits)
  then have sub: "set fields \<subseteq> set (mkeys (c_fields c))" using mget_keys by fastforce
  have "card (set fields) = 3" using dist by (simp add: distinct_card)
  moreover have "card (set (mkeys (c_fields c))) \<le> 3" using three(1) by (metis card_length length_map)
  ultimately have keys: "set (mkeys (c_fields c)) = set fields"
    using sub by (metis card_seteq List.finite_set)
  moreover have "f_type f = ''string''" if "mget (c_fields c) n = Some f" for n f
  proof -
    have "n \<in> set (mkeys (c_fields c))" using that mget_keys by (metis option.discI)
    with keys decl that show ?thesis by fastforce
  qed
  ultimately show ?thesis using o' nf s three(2) mode by blast
qed

theorem http_source_is_closed_witness:
  "\<exists>o' c fields. st_http (m_storage demo_http) = Some o' \<and> [(''codes'', demo_codes)] = [(h_collection o', c)] \<and>
    native_fields (h_profile o') = Some fields \<and> set (mkeys (c_fields c)) = set fields \<and>
    (\<forall>n f. mget (c_fields c) n = Some f \<longrightarrow> f_type f = ''string'') \<and> c_references c = [] \<and>
    db_schemaMode (m_database demo_http) = ModeStrict"
proof (rule http_source_is_closed [of demo_std])
  show "ValidateHTTP demo_std demo_http = None" by code_simp
  show "st_engine (m_storage demo_http) = ''http''" "m_schemas demo_http = Some [(''codes'', demo_codes)]"
    by (simp_all add: demo_http_def)
  show "mget [(''codes'', demo_codes)] n = Some c \<Longrightarrow> wf_map (c_fields c)" for n c
    by (auto simp: wf_map_def demo_codes_def split: if_splits)
qed

text \<open>
  PostgreSQL keeps every declared name whole: when a manifest of a writable PostgreSQL mount
  passes \<^verbatim>\<open>CheckPostgresNames\<close>, every collection and every field it declares is a plain identifier of at
  most 63 bytes, so truncation to 63 bytes cannot make two declared names one.
\<close>

theorem postgres_names_kept_whole:
  assumes "CheckPostgresNames std m = None" and "st_engine (m_storage m) = ''postgres''"
    and "\<not> native_postgres_mount (m_storage m)" and "m_schemas m = Some s"
    and "name \<in> set (mkeys s) \<or> (\<exists>c col. mget s c = Some col \<and> name \<in> set (mkeys (c_fields col)))"
  shows "plain_identifier name \<and> length name \<le> 63 \<and> take 63 name = name"
proof -
  let ?chk = "\<lambda>c. case mget s c of None \<Rightarrow> None
      | Some col \<Rightarrow> check_all (\<lambda>f. if postgres_name_ok std f then None
          else Some (PostgresFieldName c f)) (sort (mkeys (c_fields col)))"
  have "\<not> (st_engine (m_storage m) \<noteq> ''postgres'' \<or>
      (case st_postgres (m_storage m) of None \<Rightarrow> False | Some o' \<Rightarrow> pg_readOnly o'))"
    using assms(2,3) by (simp add: native_postgres_mount_def)
  with assms(1,4) have cs: "\<forall>c \<in> set (mkeys s). postgres_name_ok std c"
    and fs: "\<forall>c \<in> set (mkeys s). ?chk c = None"
    by (auto simp: CheckPostgresNames_def check_simps Let_def split: option.splits if_splits)
  have "postgres_name_ok std name"
    using assms(5)
  proof
    assume "\<exists>c col. mget s c = Some col \<and> name \<in> set (mkeys (c_fields col))"
    then obtain c col where c: "mget s c = Some col" "name \<in> set (mkeys (c_fields col))" by blast
    then have "c \<in> set (mkeys s)" using mget_keys [of s c] by simp
    with fs c show ?thesis by (fastforce simp: check_simps split: if_splits)
  qed (use cs in blast)
  then have p: "plain_identifier name" "length (to_lower std name) \<le> 63" by (auto simp: postgres_name_ok_def)
  have "byte c < 0x80" if "ascii_alnum c \<or> c = CHR ''_''" for c
    using that by (auto simp: ascii_alnum_def Let_def)
  then have "is_ascii name" using plain_identifier_chars [OF p(1)] by (auto simp: is_ascii_def)
  with p show ?thesis by (simp add: to_lower_def)
qed

theorem postgres_names_kept_whole_witness: "length ''orders'' \<le> 63"
proof -
  have e: "st_engine (m_storage demo_manifest) = ''postgres''" "m_schemas demo_manifest = Some demo_pg_schemas"
    by (simp_all add: demo_manifest_def)
  have n: "\<not> native_postgres_mount (m_storage demo_manifest)" by code_simp
  have "''orders'' \<in> set (mkeys demo_pg_schemas)" by (simp add: demo_pg_schemas_def)
  from postgres_names_kept_whole [OF demo_pg_names e(1) n e(2) disjI1 [OF this]] show ?thesis by simp
qed

end
