(* ===== verification/Collection_Names.thy ===== *)
theory Collection_Names
  imports Manifest
begin

text \<open>
  \<^verbatim>\<open>src/pkg/core/collection_names.go\<close> and \<^verbatim>\<open>SQLiteLogicalName\<close>: the table of the names a mount
  declares. The promise of the table is stated once as the locale \<open>name_table\<close> and discharged for the
  code's construction at the end of the theory.
\<close>

section \<open>SQL-quoted identifiers\<close>

text \<open>\<^verbatim>\<open>SQLiteLogicalName\<close>: the loop over the bytes between the quotes.\<close>

fun unquote_sql :: "string \<Rightarrow> string option" where
  "unquote_sql [] = Some []"
| "unquote_sql (c # cs) =
     (if c = CHR 0x22 then
        (case cs of
           [] \<Rightarrow> None
         | d # ds \<Rightarrow> if d \<noteq> CHR 0x22 then None else map_option ((#) d) (unquote_sql ds))
      else map_option ((#) c) (unquote_sql cs))"

definition SQLiteLogicalName :: "string \<Rightarrow> string option" where
  "SQLiteLogicalName name =
     (if length name < 2 \<or> name ! 0 \<noteq> CHR 0x22 \<or> last name \<noteq> CHR 0x22 then None
      else case unquote_sql (butlast (tl name)) of
          None \<Rightarrow> None
        | Some logical \<Rightarrow> if logical = [] then None else Some logical)"

section \<open>Building the table\<close>

record collection_names =
  n_canonical :: "(string, string) gomap"
  n_spellings :: "(string, string list) gomap"

datatype names_error = FieldsConflict string string string | SpellingConflict string string string

text \<open>\<^verbatim>\<open>equalSchemaField\<close>, and \<^verbatim>\<open>maps.EqualFunc\<close> with it.\<close>

definition equalSchemaField :: "field \<Rightarrow> field \<Rightarrow> bool" where
  "equalSchemaField a b =
     (if f_type a \<noteq> f_type b \<or> f_required a \<noteq> f_required b then False
      else if f_decimal a = None \<or> f_decimal b = None then f_decimal a = None \<and> f_decimal b = None
      else the (f_decimal a) = the (f_decimal b))"

definition equal_fields :: "collection \<Rightarrow> collection \<Rightarrow> bool" where
  "equal_fields a b \<longleftrightarrow> length (c_fields a) = length (c_fields b) \<and>
     list_all (\<lambda>(n, f). case mget (c_fields b) n of None \<Rightarrow> False | Some g \<Rightarrow> equalSchemaField f g) (c_fields a)"

text \<open>The maps of fields have no key twice.\<close>

definition wf_schemas :: "schemas \<Rightarrow> bool" where
  "wf_schemas s \<longleftrightarrow> (\<forall>k c. mget s k = Some c \<longrightarrow> wf_map (c_fields c))"

text \<open>The inner loop of \<^verbatim>\<open>newCollectionNames\<close>, for one spelling.\<close>

definition spellings_of :: "collection_names \<Rightarrow> string \<Rightarrow> string list" where
  "spellings_of names c = case_option [] id (mget (n_spellings names) c)"

definition add_spelling :: "string \<Rightarrow> string \<Rightarrow> collection_names \<Rightarrow> names_error + collection_names" where
  "add_spelling canonical spelling names =
     (if \<exists>other. mget (n_canonical names) spelling = Some other \<and> other \<noteq> canonical
      then Inl (SpellingConflict spelling (the (mget (n_canonical names) spelling)) canonical)
      else Inr \<lparr> n_canonical = mput spelling canonical (n_canonical names),
        n_spellings =
          (if spelling \<in> set (spellings_of names canonical) then n_spellings names
           else mput canonical (spellings_of names canonical @ [spelling]) (n_spellings names)) \<rparr>)"

lemma add_spelling_code [code]:
  "add_spelling canonical spelling names =
     (if (case mget (n_canonical names) spelling of None \<Rightarrow> False | Some other \<Rightarrow> other \<noteq> canonical)
      then Inl (SpellingConflict spelling (the (mget (n_canonical names) spelling)) canonical)
      else Inr \<lparr> n_canonical = mput spelling canonical (n_canonical names),
        n_spellings =
          (if spelling \<in> set (spellings_of names canonical) then n_spellings names
           else mput canonical (spellings_of names canonical @ [spelling]) (n_spellings names)) \<rparr>)"
  unfolding add_spelling_def by (simp split: option.splits)

definition canonical_of :: "string \<Rightarrow> string \<Rightarrow> string" where
  "canonical_of engine key =
     (if engine = ''sqlite'' then case_option key id (SQLiteLogicalName key) else key)"

text \<open>The outer loop, over the sorted keys; \<open>declaredBy\<close> is the first key of a canonical name.\<close>

definition add_key :: "string \<Rightarrow> schemas \<Rightarrow> string \<Rightarrow> (string, string) gomap \<times> collection_names \<Rightarrow>
    names_error + ((string, string) gomap \<times> collection_names)" where
  "add_key engine s key = (\<lambda>(declaredBy, names).
     (let canonical = canonical_of engine key in
      rbind (case mget declaredBy canonical of
               None \<Rightarrow> Inr (mput canonical key declaredBy)
             | Some fst_key \<Rightarrow>
                if equal_fields (the (mget s fst_key)) (the (mget s key)) then Inr declaredBy
                else Inl (FieldsConflict fst_key key canonical))
        (\<lambda>declaredBy'. rbind (add_spelling canonical canonical names) (\<lambda>names1.
           rbind (add_spelling canonical key names1) (\<lambda>names2. Inr (declaredBy', names2))))))"

fun add_keys :: "string \<Rightarrow> schemas \<Rightarrow> string list \<Rightarrow> (string, string) gomap \<times> collection_names \<Rightarrow>
    names_error + ((string, string) gomap \<times> collection_names)" where
  "add_keys engine s [] st = Inr st"
| "add_keys engine s (key # keys) st = rbind (add_key engine s key st) (add_keys engine s keys)"

definition no_names :: collection_names where
  "no_names = \<lparr> n_canonical = [], n_spellings = [] \<rparr>"

definition newCollectionNames :: "manifest \<Rightarrow> names_error + collection_names" where
  "newCollectionNames m =
     (case m_schemas m of
        None \<Rightarrow> Inr no_names
      | Some s \<Rightarrow> rbind (add_keys (st_engine (m_storage m)) s (sort (mkeys s)) ([], no_names)) (\<lambda>st. Inr (snd st)))"

text \<open>\<^verbatim>\<open>CanonicalCollection\<close> and \<^verbatim>\<open>CollectionSpellings\<close> on a table.\<close>

definition CanonicalCollection :: "collection_names \<Rightarrow> string \<Rightarrow> string option" where
  "CanonicalCollection names name = mget (n_canonical names) name"

definition CollectionSpellings :: "collection_names \<Rightarrow> string \<Rightarrow> string list" where
  "CollectionSpellings names name =
     (case mget (n_canonical names) name of
        Some canonical \<Rightarrow> spellings_of names canonical
      | None \<Rightarrow> [name])"

section \<open>What a name table promises\<close>

locale name_table =
  fixes build :: "'m \<Rightarrow> 'e + 'n"
    and canon :: "'n \<Rightarrow> string \<Rightarrow> string option"
    and spell :: "'n \<Rightarrow> string \<Rightarrow> string list"
  assumes spell_iff: "build m = Inr n \<Longrightarrow> canon n a = Some c \<Longrightarrow> b \<in> set (spell n a) \<longleftrightarrow> canon n b = Some c"
    and spell_first: "build m = Inr n \<Longrightarrow> canon n a = Some c \<Longrightarrow> hd (spell n a) = c \<and> spell n a \<noteq> []"
    and spell_undeclared: "build m = Inr n \<Longrightarrow> canon n a = None \<Longrightarrow> spell n a = [a]"
begin

lemma canon_idem: "build m = Inr n \<Longrightarrow> canon n a = Some c \<Longrightarrow> canon n c = Some c"
  using spell_first spell_iff by (metis hd_in_set)

lemma spell_self: "build m = Inr n \<Longrightarrow> a \<in> set (spell n a)"
  using spell_iff spell_undeclared by (cases "canon n a") auto

lemma spell_sym: "build m = Inr n \<Longrightarrow> b \<in> set (spell n a) \<Longrightarrow> a \<in> set (spell n b)"
  using spell_iff spell_undeclared by (cases "canon n a"; cases "canon n b") auto

lemma spell_trans: "build m = Inr n \<Longrightarrow> b \<in> set (spell n a) \<Longrightarrow> c \<in> set (spell n b) \<Longrightarrow> c \<in> set (spell n a)"
  using spell_iff spell_undeclared by (cases "canon n a"; cases "canon n b") auto

text \<open>
  A check that quantifies over the spellings of a name does not depend on which spelling the caller
  used.
\<close>

lemma spelling_invariant:
  "build m = Inr n \<Longrightarrow> b \<in> set (spell n a) \<Longrightarrow> (\<exists>x \<in> set (spell n a). P x) \<longleftrightarrow> (\<exists>x \<in> set (spell n b). P x)"
  using spell_sym spell_trans by blast

end

section \<open>Lemmas\<close>

definition quote_sql :: "string \<Rightarrow> string" where
  "quote_sql s = CHR 0x22 # concat (map (\<lambda>c. if c = CHR 0x22 then [c, c] else [c]) s) @ [CHR 0x22]"

lemma unquote_sql_iff: "unquote_sql q = Some s \<longleftrightarrow> q = concat (map (\<lambda>c. if c = CHR 0x22 then [c, c] else [c]) s)"
proof
  show "unquote_sql q = Some s \<Longrightarrow> q = concat (map (\<lambda>c. if c = CHR 0x22 then [c, c] else [c]) s)"
  proof (induction q arbitrary: s rule: unquote_sql.induct)
    case (2 c cs)
    show ?case
    proof (cases "c = CHR 0x22")
      case True
      with "2.prems" obtain ds s' where "cs = CHR 0x22 # ds" "unquote_sql ds = Some s'" "s = CHR 0x22 # s'"
        by (auto split: list.splits if_splits)
      with True "2.IH"(1) show ?thesis by simp
    next
      case False
      with "2.prems" obtain s' where "unquote_sql cs = Some s'" "s = c # s'" by auto
      with False "2.IH"(2) show ?thesis by simp
    qed
  qed simp
  show "q = concat (map (\<lambda>c. if c = CHR 0x22 then [c, c] else [c]) s) \<Longrightarrow> unquote_sql q = Some s"
    by (induction s arbitrary: q) auto
qed

lemma quoted_shape:
  "2 \<le> length name \<and> name ! 0 = q \<and> last name = q \<longleftrightarrow> (\<exists>mid. name = q # mid @ [q])"
proof
  assume a: "2 \<le> length name \<and> name ! 0 = q \<and> last name = q"
  then obtain r where r: "name = q # r" "r \<noteq> []" by (cases name; cases "tl name") auto
  with a have "r = butlast r @ [q]" by (metis append_butlast_last_id last_ConsR)
  with r show "\<exists>mid. name = q # mid @ [q]" by metis
qed auto

text \<open>What a comparison of declared fields sees of a collection.\<close>

definition field_view :: "collection \<Rightarrow> string \<Rightarrow> (string \<times> bool \<times> decimal option) option" where
  "field_view c n = map_option (\<lambda>f. (f_type f, f_required f, f_decimal f)) (mget (c_fields c) n)"

lemma equalSchemaField_iff:
  "equalSchemaField a b \<longleftrightarrow> (f_type a, f_required a, f_decimal a) = (f_type b, f_required b, f_decimal b)"
  by (cases "f_decimal a"; cases "f_decimal b") (auto simp: equalSchemaField_def)

lemma equal_fields_iff:
  assumes "wf_map (c_fields a)" and "wf_map (c_fields b)"
  shows "equal_fields a b \<longleftrightarrow> field_view a = field_view b"
proof
  assume e: "equal_fields a b"
  have sub: "field_view b n = field_view a n" if "mget (c_fields a) n = Some f" for n f
  proof -
    have "case mget (c_fields b) n of None \<Rightarrow> False | Some g \<Rightarrow> equalSchemaField f g"
      using e map_of_SomeD [OF that] by (auto simp: equal_fields_def list_all_iff)
    with that show ?thesis by (auto simp: field_view_def equalSchemaField_iff split: option.splits)
  qed
  have "set (mkeys (c_fields a)) \<subseteq> set (mkeys (c_fields b))"
  proof
    fix n
    assume "n \<in> set (mkeys (c_fields a))"
    then obtain f where "mget (c_fields a) n = Some f" using mget_keys [of "c_fields a" n] by auto
    then have "field_view b n \<noteq> None" using sub by (auto simp: field_view_def)
    then show "n \<in> set (mkeys (c_fields b))" using mget_keys [of "c_fields b" n] by (auto simp: field_view_def)
  qed
  moreover have "card (set (mkeys (c_fields a))) = card (set (mkeys (c_fields b)))"
    using e assms unfolding wf_map_def by (simp only: distinct_card equal_fields_def length_map)
  ultimately have keys: "set (mkeys (c_fields a)) = set (mkeys (c_fields b))" by (simp add: card_subset_eq)
  show "field_view a = field_view b"
  proof
    fix n
    show "field_view a n = field_view b n"
    proof (cases "mget (c_fields a) n")
      case None
      then have "n \<notin> set (mkeys (c_fields b))" using keys mget_keys [of "c_fields a" n] by simp
      then have "mget (c_fields b) n = None" using mget_keys [of "c_fields b" n] by simp
      with None show ?thesis by (simp add: field_view_def)
    qed (use sub in simp)
  qed
next
  assume v: "field_view a = field_view b"
  have dom: "mget (c_fields a) n \<noteq> None \<longleftrightarrow> mget (c_fields b) n \<noteq> None" for n
    using fun_cong [OF v, of n]
    by (cases "mget (c_fields a) n"; cases "mget (c_fields b) n") (simp_all add: field_view_def)
  then have "set (mkeys (c_fields a)) = set (mkeys (c_fields b))" unfolding mget_keys by (rule set_eqI)
  then have "length (c_fields a) = length (c_fields b)"
    using assms by (metis distinct_card length_map wf_map_def)
  moreover have "case mget (c_fields b) n of None \<Rightarrow> False | Some g \<Rightarrow> equalSchemaField f g"
    if "(n, f) \<in> set (c_fields a)" for n f
  proof -
    have "mget (c_fields a) n = Some f" using that assms(1) by (simp add: mget_in_set)
    with fun_cong [OF v, of n] show ?thesis
      by (cases "mget (c_fields b) n") (auto simp: field_view_def equalSchemaField_iff)
  qed
  ultimately show "equal_fields a b" by (auto simp: equal_fields_def list_all_iff)
qed

text \<open>The invariant of the table under construction.\<close>

definition names_inv :: "collection_names \<Rightarrow> bool" where
  "names_inv names \<longleftrightarrow>
     (\<forall>s c. mget (n_canonical names) s = Some c \<longleftrightarrow> s \<in> set (spellings_of names c)) \<and>
     (\<forall>c l. mget (n_spellings names) c = Some l \<longrightarrow> l \<noteq> [] \<and> hd l = c)"

lemma names_inv_empty: "names_inv no_names"
  by (simp add: names_inv_def no_names_def spellings_of_def)

lemma add_spelling_inv:
  assumes "add_spelling c s names = Inr names'" and "names_inv names"
    and "s = c \<or> mget (n_spellings names) c \<noteq> None"
  shows "names_inv names' \<and> mget (n_canonical names') s = Some c \<and>
    (\<forall>x y. mget (n_canonical names) x = Some y \<longrightarrow> mget (n_canonical names') x = Some y) \<and>
    mget (n_spellings names') c \<noteq> None"
proof -
  from assms(1) have free: "\<forall>other. mget (n_canonical names) s = Some other \<longrightarrow> other = c"
    and n': "names' = \<lparr> n_canonical = mput s c (n_canonical names),
        n_spellings = (if s \<in> set (spellings_of names c) then n_spellings names
           else mput c (spellings_of names c @ [s]) (n_spellings names)) \<rparr>"
    by (auto simp: add_spelling_def split: if_splits)
  have sp: "spellings_of names' x = (if x = c \<and> s \<notin> set (spellings_of names c)
      then spellings_of names c @ [s] else spellings_of names x)" for x
    by (auto simp: n' spellings_of_def)
  have "mget (n_canonical names') x = Some y \<longleftrightarrow> x \<in> set (spellings_of names' y)" for x y
    using assms(2) free unfolding names_inv_def sp by (auto simp: n' split: if_splits)
  moreover have "l \<noteq> [] \<and> hd l = x" if "mget (n_spellings names') x = Some l" for x l
    using that assms(2,3) by (auto simp: n' names_inv_def spellings_of_def hd_append split: if_splits option.splits)
  moreover have "\<forall>x y. mget (n_canonical names) x = Some y \<longrightarrow> mget (n_canonical names') x = Some y"
    using free by (auto simp: n')
  moreover have "mget (n_spellings names') c \<noteq> None"
    by (cases "mget (n_spellings names) c") (auto simp: n' spellings_of_def)
  ultimately show ?thesis by (simp add: names_inv_def n')
qed

text \<open>The invariant of the outer loop after the keys \<open>K\<close>.\<close>

definition keys_inv :: "string \<Rightarrow> schemas \<Rightarrow> string set \<Rightarrow> (string, string) gomap \<times> collection_names \<Rightarrow> bool" where
  "keys_inv engine s K = (\<lambda>(declaredBy, names).
     names_inv names \<and>
     (\<forall>k \<in> K. mget (n_canonical names) k = Some (canonical_of engine k)) \<and>
     (\<forall>x c. mget (n_canonical names) x = Some c \<longrightarrow> (\<exists>k \<in> K. canonical_of engine k = c \<and> (x = k \<or> x = c))) \<and>
     (\<forall>k \<in> K. \<exists>f. mget declaredBy (canonical_of engine k) = Some f \<and>
        field_view (the (mget s f)) = field_view (the (mget s k))))"

lemma add_key_inv:
  assumes "add_key engine s key st = Inr st'" and "keys_inv engine s K st"
    and "wf_schemas s"
    and "\<And>k f. mget (fst st) k = Some f \<Longrightarrow> mget s f \<noteq> None" and "mget s key \<noteq> None"
  shows "keys_inv engine s (insert key K) st' \<and> (\<forall>k f. mget (fst st') k = Some f \<longrightarrow> mget s f \<noteq> None)"
proof -
  obtain db names where st: "st = (db, names)" by (cases st)
  let ?c = "canonical_of engine key"
  from assms(1) obtain db' n1 n2 where s1: "add_spelling ?c ?c names = Inr n1" and s2: "add_spelling ?c key n1 = Inr n2"
    and st': "st' = (db', n2)"
    and d: "(mget db ?c = None \<and> db' = mput ?c key db) \<or>
      (\<exists>f. mget db ?c = Some f \<and> db' = db \<and> equal_fields (the (mget s f)) (the (mget s key)))"
    by (auto simp: add_key_def st Let_def split: option.splits if_splits)
  from assms(2) have inv: "names_inv names" by (simp add: keys_inv_def st)
  have a1: "names_inv n1 \<and> mget (n_canonical n1) ?c = Some ?c \<and>
      (\<forall>x y. mget (n_canonical names) x = Some y \<longrightarrow> mget (n_canonical n1) x = Some y) \<and> mget (n_spellings n1) ?c \<noteq> None"
    using add_spelling_inv [OF s1 inv] by blast
  have a2: "names_inv n2 \<and> mget (n_canonical n2) key = Some ?c \<and>
      (\<forall>x y. mget (n_canonical n1) x = Some y \<longrightarrow> mget (n_canonical n2) x = Some y)"
    using add_spelling_inv [OF s2] a1 by blast
  have new: "mget (n_canonical n2) x = Some y \<Longrightarrow> mget (n_canonical names) x = Some y \<or> ((x = ?c \<or> x = key) \<and> y = ?c)" for x y
  proof -
    have put: "n_canonical q = mput b c (n_canonical p)" if "add_spelling c b p = Inr q" for b c p q
      using that by (auto simp: add_spelling_def split: if_splits)
    assume "mget (n_canonical n2) x = Some y"
    then show ?thesis using put [OF s1] put [OF s2] by (auto split: if_splits)
  qed
  have wf: "wf_map (c_fields (the (mget s k)))" if "mget s k \<noteq> None" for k
    using assms(3) that by (auto simp: wf_schemas_def)
  have view: "\<exists>f. mget db' ?c = Some f \<and> field_view (the (mget s f)) = field_view (the (mget s key))"
    using d
  proof
    assume "\<exists>f. mget db ?c = Some f \<and> db' = db \<and> equal_fields (the (mget s f)) (the (mget s key))"
    then obtain f where f: "mget db ?c = Some f" "db' = db" "equal_fields (the (mget s f)) (the (mget s key))" by blast
    then have "mget s f \<noteq> None" using assms(4) st by simp
    with f wf assms(5) show ?thesis by (metis equal_fields_iff)
  qed simp
  have old: "\<exists>f. mget db' (canonical_of engine k) = Some f \<and> field_view (the (mget s f)) = field_view (the (mget s k))"
    if "k \<in> K" for k
  proof -
    from assms(2) that obtain f where f: "mget db (canonical_of engine k) = Some f"
      "field_view (the (mget s f)) = field_view (the (mget s k))" by (auto simp: keys_inv_def st)
    moreover from this d have "mget db' (canonical_of engine k) = Some f" by (auto simp: option.discI)
    ultimately show ?thesis by blast
  qed
  have "keys_inv engine s (insert key K) st'"
    unfolding keys_inv_def st' prod.case
  proof (intro conjI)
    show "names_inv n2" using a2 by blast
    show "\<forall>k \<in> insert key K. mget (n_canonical n2) k = Some (canonical_of engine k)"
      using a1 a2 assms(2) by (auto simp: keys_inv_def st)
    show "\<forall>x c. mget (n_canonical n2) x = Some c \<longrightarrow>
        (\<exists>k \<in> insert key K. canonical_of engine k = c \<and> (x = k \<or> x = c))"
      using new assms(2) by (auto simp: keys_inv_def st) blast+
    show "\<forall>k \<in> insert key K. \<exists>f. mget db' (canonical_of engine k) = Some f \<and>
        field_view (the (mget s f)) = field_view (the (mget s k))" using view old by blast
  qed
  moreover have "\<forall>k f. mget db' k = Some f \<longrightarrow> mget s f \<noteq> None" using d assms(4,5) by (auto simp: st split: if_splits)
  ultimately show ?thesis by (simp add: st')
qed

lemma add_keys_inv:
  assumes "add_keys engine s keys st = Inr st'" and "keys_inv engine s K st"
    and "wf_schemas s"
    and "\<And>k f. mget (fst st) k = Some f \<Longrightarrow> mget s f \<noteq> None" and "\<forall>k \<in> set keys. mget s k \<noteq> None"
  shows "keys_inv engine s (K \<union> set keys) st'"
  using assms
proof (induction keys arbitrary: st K)
  case (Cons key keys)
  from Cons.prems(1) obtain st1 where s1: "add_key engine s key st = Inr st1" and r: "add_keys engine s keys st1 = Inr st'"
    by auto
  from add_key_inv [OF s1 Cons.prems(2,3,4)] Cons.prems(5)
  have "keys_inv engine s (insert key K) st1" "\<forall>k f. mget (fst st1) k = Some f \<longrightarrow> mget s f \<noteq> None" by auto
  then have "keys_inv engine s (insert key K \<union> set keys) st'"
    using Cons.prems(5) by (intro Cons.IH [OF r] Cons.prems(3)) auto
  then show ?case by simp
qed simp

lemma newCollectionNames_inv:
  assumes "newCollectionNames m = Inr names" and "m_schemas m = Some s"
    and "wf_schemas s"
  shows "\<exists>declaredBy. keys_inv (st_engine (m_storage m)) s (set (mkeys s)) (declaredBy, names)"
proof -
  from assms(1,2) obtain db where a: "add_keys (st_engine (m_storage m)) s (sort (mkeys s)) ([], no_names) = Inr (db, names)"
    by (auto simp: newCollectionNames_def)
  have "keys_inv (st_engine (m_storage m)) s {} ([], no_names)"
    by (simp add: keys_inv_def names_inv_empty) (simp add: no_names_def)
  moreover have "\<forall>k \<in> set (sort (mkeys s)). mget s k \<noteq> None" using mget_keys [of s] by simp
  ultimately have "keys_inv (st_engine (m_storage m)) s ({} \<union> set (sort (mkeys s))) (db, names)"
    by (intro add_keys_inv [OF a] assms(3)) simp_all
  then show ?thesis by auto
qed

text \<open>The names invariant holds of every table, without any assumption on the maps.\<close>

lemma add_keys_names_inv: "add_keys engine s keys st = Inr st' \<Longrightarrow> names_inv (snd st) \<Longrightarrow> names_inv (snd st')"
proof (induction keys arbitrary: st)
  case (Cons key keys)
  let ?c = "canonical_of engine key"
  from Cons.prems(1) obtain st1 where k: "add_key engine s key st = Inr st1" and r: "add_keys engine s keys st1 = Inr st'"
    by auto
  obtain n1 where s1: "add_spelling ?c ?c (snd st) = Inr n1" and s2: "add_spelling ?c key n1 = Inr (snd st1)"
    using k by (cases st) (auto simp: add_key_def Let_def)
  have "names_inv n1 \<and> mget (n_spellings n1) ?c \<noteq> None" using add_spelling_inv [OF s1 Cons.prems(2)] by blast
  with add_spelling_inv [OF s2] have "names_inv (snd st1)" by blast
  with Cons.IH [OF r] show ?case .
qed simp

lemma newCollectionNames_names_inv: "newCollectionNames m = Inr names \<Longrightarrow> names_inv names"
  using add_keys_names_inv [of _ _ _ "([], no_names)"] names_inv_empty
  by (fastforce simp: newCollectionNames_def split: option.splits)

interpretation names: name_table newCollectionNames CanonicalCollection CollectionSpellings
proof
  fix m n a c b
  assume "newCollectionNames m = Inr n"
  then have inv: "names_inv n" by (rule newCollectionNames_names_inv)
  then have iff: "CanonicalCollection n x = Some y \<longleftrightarrow> x \<in> set (spellings_of n y)" for x y
    by (simp add: names_inv_def CanonicalCollection_def)
  have spell: "CollectionSpellings n a = spellings_of n c" if "CanonicalCollection n a = Some c"
    using that by (simp add: CanonicalCollection_def CollectionSpellings_def)
  show "CanonicalCollection n a = Some c \<Longrightarrow> b \<in> set (CollectionSpellings n a) \<longleftrightarrow> CanonicalCollection n b = Some c"
    by (simp only: spell iff)
  show "CanonicalCollection n a = Some c \<Longrightarrow> hd (CollectionSpellings n a) = c \<and> CollectionSpellings n a \<noteq> []"
  proof -
    assume a: "CanonicalCollection n a = Some c"
    then have "a \<in> set (spellings_of n c)" by (simp only: iff)
    then obtain l where "mget (n_spellings n) c = Some l" by (cases "mget (n_spellings n) c") (auto simp: spellings_of_def)
    with inv spell [OF a] show ?thesis by (simp add: names_inv_def spellings_of_def)
  qed
  show "CanonicalCollection n a = None \<Longrightarrow> CollectionSpellings n a = [a]"
    by (simp add: CanonicalCollection_def CollectionSpellings_def)
qed

section \<open>Properties\<close>

text \<open>
  Quoted names are unambiguous: \<^verbatim>\<open>SQLiteLogicalName\<close> accepts a key exactly when it is the SQL
  quotation of a non-empty name, every quote inside doubled, and returns that name.
\<close>

theorem sqlite_logical_name_iff: "SQLiteLogicalName q = Some s \<longleftrightarrow> s \<noteq> [] \<and> q = quote_sql s"
proof
  assume l: "SQLiteLogicalName q = Some s"
  then have shape: "\<exists>mid. q = CHR 0x22 # mid @ [CHR 0x22]"
    unfolding quoted_shape [symmetric] by (auto simp: SQLiteLogicalName_def not_less split: if_splits)
  then obtain mid where "q = CHR 0x22 # mid @ [CHR 0x22]" by blast
  with l show "s \<noteq> [] \<and> q = quote_sql s"
    by (auto simp: SQLiteLogicalName_def unquote_sql_iff quote_sql_def butlast_append split: if_splits option.splits)
next
  assume "s \<noteq> [] \<and> q = quote_sql s"
  moreover have "unquote_sql (concat (map (\<lambda>c. if c = CHR 0x22 then [c, c] else [c]) s)) = Some s"
    by (simp add: unquote_sql_iff)
  ultimately show "SQLiteLogicalName q = Some s"
    by (simp add: SQLiteLogicalName_def quote_sql_def butlast_append)
qed

text \<open>
  Every name a mount accepts designates one table: when \<^verbatim>\<open>newCollectionNames\<close> succeeds, each
  declared key resolves to its canonical name, resolving is idempotent, the spellings of a name are
  exactly the names with the same canonical name, canonical name first, a name nobody declared is its
  own only spelling, and two keys with the same canonical name declare the same fields.
\<close>

theorem names_designate_one_table:
  assumes "newCollectionNames m = Inr names" and "m_schemas m = Some s"
    and "wf_schemas s"
  shows "(\<forall>k \<in> set (mkeys s). CanonicalCollection names k = Some (canonical_of (st_engine (m_storage m)) k)) \<and>
    (\<forall>a c. CanonicalCollection names a = Some c \<longrightarrow>
       CanonicalCollection names c = Some c \<and> hd (CollectionSpellings names a) = c \<and>
       (\<forall>b. b \<in> set (CollectionSpellings names a) \<longleftrightarrow> CanonicalCollection names b = Some c)) \<and>
    (\<forall>a. CanonicalCollection names a = None \<longrightarrow> CollectionSpellings names a = [a]) \<and>
    (\<forall>a c. CanonicalCollection names a = Some c \<longrightarrow>
       (\<exists>k \<in> set (mkeys s). canonical_of (st_engine (m_storage m)) k = c \<and> (a = k \<or> a = c))) \<and>
    (\<forall>k l ck cl. mget s k = Some ck \<and> mget s l = Some cl \<and>
       CanonicalCollection names k = CanonicalCollection names l \<longrightarrow> field_view ck = field_view cl)"
proof -
  obtain db where inv: "keys_inv (st_engine (m_storage m)) s (set (mkeys s)) (db, names)"
    using newCollectionNames_inv assms by blast
  have keys: "\<forall>k \<in> set (mkeys s). CanonicalCollection names k = Some (canonical_of (st_engine (m_storage m)) k)"
    using inv by (simp add: keys_inv_def CanonicalCollection_def)
  have "field_view ck = field_view cl"
    if views: "mget s k = Some ck" "mget s l = Some cl" "CanonicalCollection names k = CanonicalCollection names l" for k l ck cl
  proof -
    have m: "k \<in> set (mkeys s)" "l \<in> set (mkeys s)" using views mget_keys by (metis option.discI)+
    with keys views(3) have "canonical_of (st_engine (m_storage m)) k = canonical_of (st_engine (m_storage m)) l"
      by (metis option.inject)
    moreover have decl: "\<forall>k \<in> set (mkeys s). \<exists>f. mget db (canonical_of (st_engine (m_storage m)) k) = Some f \<and>
        field_view (the (mget s f)) = field_view (the (mget s k))" using inv by (simp add: keys_inv_def)
    from bspec [OF decl m(1)] bspec [OF decl m(2)] calculation views(1,2) show ?thesis by auto
  qed
  moreover have "\<forall>a c. CanonicalCollection names a = Some c \<longrightarrow>
      (\<exists>k \<in> set (mkeys s). canonical_of (st_engine (m_storage m)) k = c \<and> (a = k \<or> a = c))"
    using inv by (simp add: keys_inv_def CanonicalCollection_def)
  ultimately show ?thesis
    using keys names.canon_idem [OF assms(1)] names.spell_first [OF assms(1)] names.spell_iff [OF assms(1)]
      names.spell_undeclared [OF assms(1)] by blast
qed

definition demo_names :: collection_names where
  "demo_names = \<lparr> n_canonical = [(''orders'', ''orders'')], n_spellings = [(''orders'', [''orders''])] \<rparr>"

lemma demo_names_built: "newCollectionNames demo_manifest = Inr demo_names"
  by (simp add: newCollectionNames_def demo_manifest_def demo_pg_schemas_def add_key_def canonical_of_def
      add_spelling_def no_names_def spellings_of_def demo_names_def Let_def)

theorem names_designate_one_table_witness: "CanonicalCollection demo_names ''orders'' = Some ''orders''"
proof -
  have s: "m_schemas demo_manifest = Some demo_pg_schemas" by (simp add: demo_manifest_def)
  have w: "wf_schemas demo_pg_schemas"
    by (auto simp: wf_schemas_def demo_pg_schemas_def wf_map_def split: if_splits)
  have "''orders'' \<in> set (mkeys demo_pg_schemas)" by (simp add: demo_pg_schemas_def)
  moreover have "canonical_of (st_engine (m_storage demo_manifest)) ''orders'' = ''orders''"
    by (simp add: canonical_of_def demo_manifest_def)
  ultimately show ?thesis using names_designate_one_table [OF demo_names_built s w] by metis
qed

end
