(* ===== verification/Native_Ids.thy ===== *)
theory Native_Ids
  imports Go_Strings
begin

text \<open>
  \<^verbatim>\<open>src/pkg/schema/native_postgres.go\<close>: the logical identifier of a native PostgreSQL relation,
  a base64 text of the length-prefixed pair (schema name, relation name). Of the standard library
  it uses \<^verbatim>\<open>base64.RawURLEncoding\<close> (whose decoder skips line breaks and does not look at the unused
  bits of the last character, so that it is not injective on its own) and big-endian 32-bit numbers.
\<close>

section \<open>Unpadded base64 with the URL alphabet\<close>

definition b64_alphabet :: string where
  "b64_alphabet = ''ABCDEFGHIJKLMNOPQRSTUVWXYZabcdefghijklmnopqrstuvwxyz0123456789-_''"

definition b64_char :: "nat \<Rightarrow> char" where
  "b64_char n = b64_alphabet ! n"

definition b64_value :: "char \<Rightarrow> nat option" where
  "b64_value c = map_of (zip b64_alphabet [0..<64]) c"

fun to_sextets :: "nat list \<Rightarrow> nat list" where
  "to_sextets [] = []"
| "to_sextets [a] = [a div 4, a mod 4 * 16]"
| "to_sextets [a, b] = [a div 4, a mod 4 * 16 + b div 16, b mod 16 * 4]"
| "to_sextets (a # b # c # bs) =
     a div 4 # (a mod 4 * 16 + b div 16) # (b mod 16 * 4 + c div 64) # c mod 64 # to_sextets bs"

fun from_sextets :: "nat list \<Rightarrow> nat list option" where
  "from_sextets [] = Some []"
| "from_sextets [a] = None"
| "from_sextets [a, b] = Some [a * 4 + b div 16]"
| "from_sextets [a, b, c] = Some [a * 4 + b div 16, b mod 16 * 16 + c div 4]"
| "from_sextets (a # b # c # d # ss) =
     map_option (\<lambda>bs. (a * 4 + b div 16) # (b mod 16 * 16 + c div 4) # (c mod 4 * 64 + d) # bs) (from_sextets ss)"

fun values_of :: "string \<Rightarrow> nat list option" where
  "values_of [] = Some []"
| "values_of (c # cs) =
     (case b64_value c of None \<Rightarrow> None | Some v \<Rightarrow> map_option ((#) v) (values_of cs))"

definition b64_encode :: "string \<Rightarrow> string" where
  "b64_encode s = map b64_char (to_sextets (map byte s))"

definition b64_decode :: "string \<Rightarrow> string option" where
  "b64_decode s =
     (case values_of (filter (\<lambda>c. byte c \<noteq> 0x0A \<and> byte c \<noteq> 0x0D) s) of
        None \<Rightarrow> None
      | Some vs \<Rightarrow> map_option (map char_of) (from_sextets vs))"

text \<open>\<^verbatim>\<open>binary.BigEndian.PutUint32\<close> of a non-negative length and \<^verbatim>\<open>binary.BigEndian.Uint32\<close>.\<close>

definition put_uint32 :: "nat \<Rightarrow> string" where
  "put_uint32 n = map char_of [n div 16777216 mod 256, n div 65536 mod 256, n div 256 mod 256, n mod 256]"

definition get_uint32 :: "string \<Rightarrow> nat" where
  "get_uint32 b =
     byte (b ! 0) * 16777216 + byte (b ! 1) * 65536 + byte (b ! 2) * 256 + byte (b ! 3)"

section \<open>Identifiers\<close>

definition nativePostgresCollectionPrefix :: string where
  "nativePostgresCollectionPrefix = ''pg1_''"

text \<open>\<^verbatim>\<open>containsNUL\<close> and \<^verbatim>\<open>validNativePostgresIdentifier\<close>.\<close>

definition containsNUL :: "string \<Rightarrow> bool" where
  "containsNUL v = list_ex (\<lambda>(r, bs). r = 0) (runes v)"

definition validNativePostgresIdentifier :: "string \<Rightarrow> bool" where
  "validNativePostgresIdentifier v \<longleftrightarrow> v \<noteq> [] \<and> length v \<le> 63 \<and> valid_utf8 v \<and> \<not> containsNUL v"

text \<open>\<^verbatim>\<open>NativePostgresCollectionID\<close>; the only error is \<open>None\<close>.\<close>

definition native_tuple :: "string \<Rightarrow> string \<Rightarrow> string" where
  "native_tuple sn rn = put_uint32 (length sn) @ sn @ put_uint32 (length rn) @ rn"

definition NativePostgresCollectionID :: "string \<Rightarrow> string \<Rightarrow> string option" where
  "NativePostgresCollectionID sn rn =
     (if \<not> validNativePostgresIdentifier sn \<or> \<not> validNativePostgresIdentifier rn then None
      else Some (nativePostgresCollectionPrefix @ b64_encode (native_tuple sn rn)))"

text \<open>\<^verbatim>\<open>ParseNativePostgresCollectionID\<close>.\<close>

definition split_native_tuple :: "string \<Rightarrow> (string \<times> string) option" where
  "split_native_tuple buf =
     (let schemaLength = get_uint32 (take 4 buf) in
      if schemaLength = 0 \<or> schemaLength > length buf - 8 then None
      else
        let nameOffset = 4 + schemaLength;
            nameLength = get_uint32 (take 4 (drop nameOffset buf)) in
        if nameLength = 0 \<or> length buf - nameOffset - 4 \<noteq> nameLength then None
        else
          let sn = take schemaLength (drop 4 buf); rn = drop (nameOffset + 4) buf in
          if \<not> validNativePostgresIdentifier sn \<or> \<not> validNativePostgresIdentifier rn then None
          else Some (sn, rn))"

definition ParseNativePostgresCollectionID :: "string \<Rightarrow> (string \<times> string) option" where
  "ParseNativePostgresCollectionID cid =
     (let n = length nativePostgresCollectionPrefix in
      if length cid \<le> n \<or> take n cid \<noteq> nativePostgresCollectionPrefix then None
      else case b64_decode (drop n cid) of
          None \<Rightarrow> None
        | Some buf \<Rightarrow>
           if length buf < 8 \<or> nativePostgresCollectionPrefix @ b64_encode buf \<noteq> cid then None
           else split_native_tuple buf)"

section \<open>Lemmas\<close>

lemma b64_table: "list_all (\<lambda>n. b64_value (b64_char n) = Some n \<and> byte (b64_char n) \<noteq> 0x0A \<and> byte (b64_char n) \<noteq> 0x0D) [0..<64]"
  by code_simp

lemma b64_char_value:
  assumes "n < 64"
  shows "b64_value (b64_char n) = Some n" "byte (b64_char n) \<noteq> 0x0A \<and> byte (b64_char n) \<noteq> 0x0D"
  using b64_table assms by (simp_all only: list_all_iff set_upt) simp_all

lemma to_sextets_bound: "\<forall>b \<in> set bs. b < 256 \<Longrightarrow> v \<in> set (to_sextets bs) \<Longrightarrow> v < 64"
  by (induction bs rule: to_sextets.induct) (auto simp: less_mult_imp_div_less)

lemma from_to_sextets: "\<forall>b \<in> set bs. b < 256 \<Longrightarrow> from_sextets (to_sextets bs) = Some bs"
  by (induction bs rule: to_sextets.induct) auto

lemma values_of_chars: "\<forall>v \<in> set vs. v < 64 \<Longrightarrow> values_of (map b64_char vs) = Some vs"
  by (induction vs) (simp_all add: b64_char_value)

lemma b64_decode_encode: "b64_decode (b64_encode s) = Some s"
proof -
  have b: "\<forall>b \<in> set (map byte s). b < 256" by simp
  have six: "\<forall>v \<in> set (to_sextets (map byte s)). v < 64" using to_sextets_bound [OF b] by blast
  then have "filter (\<lambda>c. byte c \<noteq> 0x0A \<and> byte c \<noteq> 0x0D) (b64_encode s) = b64_encode s"
    unfolding b64_encode_def by (simp add: filter_id_conv b64_char_value)
  then show ?thesis
    unfolding b64_decode_def b64_encode_def by (simp add: values_of_chars [OF six] from_to_sextets [OF b] comp_def)
qed

lemma length_put_uint32 [simp]: "length (put_uint32 n) = 4"
  by (simp add: put_uint32_def)

lemma get_put_uint32:
  assumes "n < 2 ^ 32"
  shows "get_uint32 (put_uint32 n) = n"
proof -
  define u v w where d: "u = n div 256" "v = u div 256" "w = v div 256"
  have c: "n = u * 256 + n mod 256" "u = v * 256 + u mod 256" "v = w * 256 + v mod 256" by (simp_all add: d)
  have q: "n div 65536 = v" "n div 16777216 = w" by (simp_all add: d div_mult2_eq [symmetric])
  have "w < 256" using assms by (simp add: q(2) [symmetric] less_mult_imp_div_less)
  then have "get_uint32 (put_uint32 n) = w * 16777216 + v mod 256 * 65536 + u mod 256 * 256 + n mod 256"
    by (simp add: put_uint32_def get_uint32_def q d(1) [symmetric])
  also have "\<dots> = n" using c by linarith
  finally show ?thesis .
qed

lemma list_of_4: "length b = 4 \<Longrightarrow> b = [b ! 0, b ! 1, b ! 2, b ! 3]"
  by (simp add: list_eq_iff_nth_eq less_Suc_eq numeral_eq_Suc)

lemma put_get_uint32:
  assumes "length b = 4"
  shows "put_uint32 (get_uint32 b) = b"
proof -
  define w x y z where d: "w = byte (b ! 0)" "x = byte (b ! 1)" "y = byte (b ! 2)" "z = byte (b ! 3)"
  have r: "w < 256" "x < 256" "y < 256" "z < 256" by (simp_all add: d)
  have n: "get_uint32 b = ((w * 256 + x) * 256 + y) * 256 + z" by (simp add: get_uint32_def d)
  have q: "(m * 256 + k) div 256 = m" "(m * 256 + k) mod 256 = k" if "k < 256" for m k :: nat
    using that by simp_all
  have "m div 65536 = m div 256 div 256" "m div 16777216 = m div 256 div 256 div 256" for m :: nat
    by (simp_all add: div_mult2_eq [symmetric])
  then have "put_uint32 (get_uint32 b) = map char_of [w, x, y, z]"
    unfolding put_uint32_def n by (simp only: q r mod_less)
  also have "\<dots> = [b ! 0, b ! 1, b ! 2, b ! 3]" by (simp add: d)
  finally show ?thesis using list_of_4 [OF assms] by simp
qed

lemma split_native_tuple_iff:
  assumes "8 \<le> length buf"
  shows "split_native_tuple buf = Some (sn, rn) \<longleftrightarrow>
    validNativePostgresIdentifier sn \<and> validNativePostgresIdentifier rn \<and> buf = native_tuple sn rn"
proof
  assume l: "split_native_tuple buf = Some (sn, rn)"
  define k where "k = get_uint32 (take 4 buf)"
  define n where "n = get_uint32 (take 4 (drop (4 + k) buf))"
  from l have v: "validNativePostgresIdentifier sn" "validNativePostgresIdentifier rn"
    and k: "k \<le> length buf - 8" and n: "length buf - (4 + k) - 4 = n"
    and sn: "sn = take k (drop 4 buf)" and rn: "rn = drop (4 + k + 4) buf"
    unfolding split_native_tuple_def Let_def k_def [symmetric] n_def [symmetric] by (auto split: if_splits)
  have "put_uint32 k = take 4 buf" unfolding k_def using assms by (intro put_get_uint32) simp
  moreover have "put_uint32 n = take 4 (drop (4 + k) buf)"
    unfolding n_def using assms k by (intro put_get_uint32) simp
  moreover have "length sn = k" "length rn = n" using assms k n by (simp_all add: sn rn)
  ultimately have "native_tuple sn rn = take 4 buf @ take k (drop 4 buf) @ take 4 (drop (4 + k) buf) @ drop (4 + k + 4) buf"
    by (simp add: native_tuple_def sn rn)
  also have "\<dots> = buf"
    by (metis add.commute append_take_drop_id drop_drop)
  finally show "validNativePostgresIdentifier sn \<and> validNativePostgresIdentifier rn \<and> buf = native_tuple sn rn"
    using v by simp
next
  assume r: "validNativePostgresIdentifier sn \<and> validNativePostgresIdentifier rn \<and> buf = native_tuple sn rn"
  then have l: "0 < length sn" "length sn \<le> 63" "0 < length rn" "length rn \<le> 63"
    by (auto simp: validNativePostgresIdentifier_def)
  then have "get_uint32 (put_uint32 (length sn)) = length sn" "get_uint32 (put_uint32 (length rn)) = length rn"
    by (simp_all add: get_put_uint32)
  with r l show "split_native_tuple buf = Some (sn, rn)"
    by (simp add: split_native_tuple_def native_tuple_def Let_def)
qed

text \<open>No two pairs of names share an identifier.\<close>

lemma native_id_inj:
  assumes "NativePostgresCollectionID sn rn = Some cid" and "NativePostgresCollectionID sn' rn' = Some cid"
  shows "sn = sn' \<and> rn = rn'"
proof -
  from assms have v: "validNativePostgresIdentifier sn" "validNativePostgresIdentifier rn"
      "validNativePostgresIdentifier sn'" "validNativePostgresIdentifier rn'"
    and e: "b64_encode (native_tuple sn rn) = b64_encode (native_tuple sn' rn')"
    by (auto simp: NativePostgresCollectionID_def split: if_splits)
  from e have t: "native_tuple sn rn = native_tuple sn' rn'"
    using b64_decode_encode by (metis option.inject)
  have "8 \<le> length (native_tuple sn rn)" by (simp add: native_tuple_def)
  from split_native_tuple_iff [OF this] v t
  have "split_native_tuple (native_tuple sn rn) = Some (sn, rn)"
    "split_native_tuple (native_tuple sn rn) = Some (sn', rn')" by auto
  then show ?thesis by simp
qed

section \<open>Properties\<close>

text \<open>
  Native collection identifiers are a bijection: parsing an identifier gives a pair of names
  exactly when encoding that pair gives the identifier. So every valid pair of names survives the
  round trip, no two pairs share an identifier, and no other text (a line break inside, stray bits
  at the end, a wrong length) is accepted for a pair.
\<close>

theorem native_id_bijective:
  "ParseNativePostgresCollectionID cid = Some (sn, rn) \<longleftrightarrow> NativePostgresCollectionID sn rn = Some cid"
proof
  assume p: "ParseNativePostgresCollectionID cid = Some (sn, rn)"
  then obtain buf where "8 \<le> length buf" "nativePostgresCollectionPrefix @ b64_encode buf = cid"
    "split_native_tuple buf = Some (sn, rn)"
    unfolding ParseNativePostgresCollectionID_def Let_def
    by (fastforce simp: not_less split: if_splits option.splits)
  then show "NativePostgresCollectionID sn rn = Some cid"
    by (auto simp: split_native_tuple_iff NativePostgresCollectionID_def)
next
  assume e: "NativePostgresCollectionID sn rn = Some cid"
  define buf where "buf = native_tuple sn rn"
  from e have v: "validNativePostgresIdentifier sn" "validNativePostgresIdentifier rn"
    and c: "cid = nativePostgresCollectionPrefix @ b64_encode buf"
    by (auto simp: NativePostgresCollectionID_def buf_def split: if_splits)
  have l: "8 \<le> length buf" by (simp add: buf_def native_tuple_def)
  then have "b64_encode buf \<noteq> []" using b64_decode_encode [of buf] by (auto simp: b64_decode_def)
  with l v c show "ParseNativePostgresCollectionID cid = Some (sn, rn)"
    by (simp add: ParseNativePostgresCollectionID_def Let_def b64_decode_encode split_native_tuple_iff buf_def)
qed

end
