(* ===== verification/Updates.thy ===== *)
theory Updates
  imports Go_Values "HOL-Library.Sublist"
begin

text \<open>
  \<^verbatim>\<open>src/pkg/core/updates.go\<close>: field updates. \<^verbatim>\<open>toDalUpdates\<close> converts the wire form to the form
  the driver is given; \<^verbatim>\<open>applyUpdates\<close> carries the updates out on a record in memory, to validate a
  batch before it is written.

  Records are values here. The code mutates maps in place: an update reaches the map that holds the
  last segment of its path and the maps above it show the change, which is what the recursion along
  the path computes. When an update fails the caller drops the record, so an error carries no record.
\<close>

section \<open>Wire and driver updates\<close>

record update_op =
  u_fieldName :: string
  u_fieldPath :: "string list"
  u_value :: gvalue
  u_delete :: bool
  u_transform :: string
  u_serverTimestamp :: bool

datatype dal_value = DalDeleteField | DalServerTimestamp | DalIncrement int | DalPlain gvalue

datatype dal_update = ByFieldName string dal_value | ByFieldPath "string list" dal_value

datatype update_fault =
    MutuallyExclusive
  | FieldRequired
  | EmptyPathSegment
  | IncrementNotNumber
  | UnknownTransform string
  | SegmentNotObject string
  | NonNumericField string

text \<open>An error is reported with the index of the update.\<close>

type_synonym update_error = "nat \<times> update_fault"

text \<open>\<^verbatim>\<open>toFloat\<close>: of the integer types only \<^verbatim>\<open>int\<close>, \<^verbatim>\<open>int64\<close> and \<^verbatim>\<open>uint64\<close> count as numbers.\<close>

fun toFloat :: "gvalue \<Rightarrow> float64 option" where
  "toFloat (VFloat f) = Some f"
| "toFloat (VInt k n) = (if k \<in> {Kint, Kint64, Kuint64} then Some (fl_round (of_int n)) else None)"
| "toFloat (VNumber r) = number_float r"
| "toFloat _ = None"

text \<open>
  The conversion \<^verbatim>\<open>int(n)\<close> of a \<^verbatim>\<open>float64\<close>: the integer part when it fits 64 bits; otherwise the
  language leaves the result to the implementation (\<open>conv\<close>).
\<close>

definition float_int :: "(float64 \<Rightarrow> int) \<Rightarrow> float64 \<Rightarrow> int" where
  "float_int conv f =
     (case f of
        Fin r \<Rightarrow> let t = (if 0 \<le> r then \<lfloor>r\<rfloor> else \<lceil>r\<rceil>) in
                 if - (2 ^ 63) \<le> t \<and> t < 2 ^ 63 then t else conv f
      | _ \<Rightarrow> conv f)"

text \<open>\<^verbatim>\<open>toDalUpdates\<close>: one update, then the loop.\<close>

definition to_dal_value :: "(float64 \<Rightarrow> int) \<Rightarrow> update_op \<Rightarrow> update_fault + dal_value" where
  "to_dal_value conv u =
     (if u_delete u then Inr DalDeleteField
      else if u_serverTimestamp u then Inr DalServerTimestamp
      else if u_transform u = ''increment'' then
        (case toFloat (u_value u) of
           None \<Rightarrow> Inl IncrementNotNumber
         | Some n \<Rightarrow> Inr (DalIncrement (float_int conv n)))
      else if u_transform u \<noteq> [] then Inl (UnknownTransform (u_transform u))
      else Inr (DalPlain (u_value u)))"

definition to_dal_update :: "(float64 \<Rightarrow> int) \<Rightarrow> update_op \<Rightarrow> update_fault + dal_update" where
  "to_dal_update conv u =
     (let byPath = (u_fieldPath u \<noteq> []) in
      if u_fieldName u \<noteq> [] \<and> byPath then Inl MutuallyExclusive
      else if u_fieldName u = [] \<and> \<not> byPath then Inl FieldRequired
      else rbind (to_dal_value conv u) (\<lambda>v.
        Inr (if byPath then ByFieldPath (u_fieldPath u) v else ByFieldName (u_fieldName u) v)))"

fun to_dal_from :: "(float64 \<Rightarrow> int) \<Rightarrow> nat \<Rightarrow> update_op list \<Rightarrow> update_error + dal_update list" where
  "to_dal_from conv i [] = Inr []"
| "to_dal_from conv i (u # us) =
     (case to_dal_update conv u of
        Inl f \<Rightarrow> Inl (i, f)
      | Inr d \<Rightarrow> rbind (to_dal_from conv (Suc i) us) (\<lambda>ds. Inr (d # ds)))"

definition toDalUpdates :: "(float64 \<Rightarrow> int) \<Rightarrow> update_op list \<Rightarrow> update_error + dal_update list" where
  "toDalUpdates conv ops = to_dal_from conv 0 ops"

section \<open>Applying updates to a record\<close>

text \<open>
  \<^verbatim>\<open>parentAtPath\<close> with \<open>create\<close>: an absent or nil segment becomes an empty object, and a value
  that is no object is an error. \<open>f\<close> is what the caller then does to the map that was reached.
\<close>

fun at_parent :: "(gobject \<Rightarrow> update_fault + gobject) \<Rightarrow> gobject \<Rightarrow> string list \<Rightarrow> update_fault + gobject" where
  "at_parent f data [] = f data"
| "at_parent f data (seg # segs) =
     (case mget data seg of
        None \<Rightarrow> rbind (at_parent f [] segs) (\<lambda>child. Inr (mput seg (VObj child) data))
      | Some VNil \<Rightarrow> rbind (at_parent f [] segs) (\<lambda>child. Inr (mput seg (VObj child) data))
      | Some (VObj m) \<Rightarrow> rbind (at_parent f m segs) (\<lambda>child. Inr (mput seg (VObj child) data))
      | Some _ \<Rightarrow> Inl (SegmentNotObject seg))"

definition setAtPath :: "gobject \<Rightarrow> string list \<Rightarrow> gvalue \<Rightarrow> update_fault + gobject" where
  "setAtPath data path v = at_parent (\<lambda>m. Inr (mput (last path) v m)) data (butlast path)"

text \<open>\<^verbatim>\<open>deleteAtPath\<close>, with \<^verbatim>\<open>parentAtPath\<close> without \<open>create\<close>: a path that leads nowhere changes nothing.\<close>

fun deleteAtPath :: "gobject \<Rightarrow> string list \<Rightarrow> gobject" where
  "deleteAtPath data [] = data"
| "deleteAtPath data [leaf] = mdel leaf data"
| "deleteAtPath data (seg # segs) =
     (case mget data seg of
        Some (VObj m) \<Rightarrow> mput seg (VObj (deleteAtPath m segs)) data
      | _ \<Rightarrow> data)"

definition increment_leaf :: "float64 \<Rightarrow> string \<Rightarrow> gobject \<Rightarrow> update_fault + gobject" where
  "increment_leaf d leaf m =
     (case mget m leaf of
        None \<Rightarrow> Inr (mput leaf (VFloat (fl_add (Fin 0) d)) m)
      | Some VNil \<Rightarrow> Inr (mput leaf (VFloat (fl_add (Fin 0) d)) m)
      | Some v \<Rightarrow>
         (case toFloat v of
            None \<Rightarrow> Inl (NonNumericField leaf)
          | Some current \<Rightarrow> Inr (mput leaf (VFloat (fl_add current d)) m)))"

definition incrementAtPath :: "gobject \<Rightarrow> string list \<Rightarrow> gvalue \<Rightarrow> update_fault + gobject" where
  "incrementAtPath data path delta =
     (case toFloat delta of
        None \<Rightarrow> Inl IncrementNotNumber
      | Some d \<Rightarrow> at_parent (increment_leaf d (last path)) data (butlast path))"

text \<open>\<^verbatim>\<open>applyUpdates\<close>: \<open>now\<close> is the formatted time of a server timestamp.\<close>

definition apply_update :: "string \<Rightarrow> gobject \<Rightarrow> update_op \<Rightarrow> update_fault + gobject" where
  "apply_update now data u =
     (if u_fieldName u \<noteq> [] \<and> u_fieldPath u \<noteq> [] then Inl MutuallyExclusive
      else
        let path = (if u_fieldName u \<noteq> [] then [u_fieldName u] else u_fieldPath u) in
        if path = [] then Inl FieldRequired
        else if [] \<in> set path then Inl EmptyPathSegment
        else if u_delete u then Inr (deleteAtPath data path)
        else if u_serverTimestamp u then setAtPath data path (VStr now)
        else if u_transform u = ''increment'' then incrementAtPath data path (u_value u)
        else if u_transform u \<noteq> [] then Inl (UnknownTransform (u_transform u))
        else setAtPath data path (u_value u))"

fun apply_from :: "string \<Rightarrow> nat \<Rightarrow> gobject \<Rightarrow> update_op list \<Rightarrow> update_error + gobject" where
  "apply_from now i data [] = Inr data"
| "apply_from now i data (u # us) =
     (case apply_update now data u of
        Inl f \<Rightarrow> Inl (i, f)
      | Inr data' \<Rightarrow> apply_from now (Suc i) data' us)"

definition applyUpdates :: "string \<Rightarrow> gobject \<Rightarrow> update_op list \<Rightarrow> update_error + gobject" where
  "applyUpdates now data updates = apply_from now 0 data updates"

section \<open>Lemmas\<close>

text \<open>Reading along a path, and paths that do not meet.\<close>

fun get_path :: "gobject \<Rightarrow> string list \<Rightarrow> gvalue option" where
  "get_path data [] = None"
| "get_path data [leaf] = mget data leaf"
| "get_path data (seg # segs) = (case mget data seg of Some (VObj m) \<Rightarrow> get_path m segs | _ \<Rightarrow> None)"

definition apart :: "string list \<Rightarrow> string list \<Rightarrow> bool" where
  "apart p q \<longleftrightarrow> \<not> prefix p q \<and> \<not> prefix q p"

lemma apart_Cons [simp]: "apart (x # p) (y # q) \<longleftrightarrow> x \<noteq> y \<or> apart p q"
  by (auto simp: apart_def)

lemma apart_Nil [simp]: "\<not> apart [] q" "\<not> apart p []"
  by (auto simp: apart_def)

text \<open>The object under a segment, empty when there is none, and whether a path may go through it.\<close>

definition child_map :: "gobject \<Rightarrow> string \<Rightarrow> gobject" where
  "child_map data seg = (case mget data seg of Some (VObj m) \<Rightarrow> m | _ \<Rightarrow> [])"

definition passable :: "gobject \<Rightarrow> string \<Rightarrow> bool" where
  "passable data seg \<longleftrightarrow> (\<forall>v. mget data seg = Some v \<longrightarrow> v = VNil \<or> (\<exists>m. v = VObj m))"

lemma child_map_put [simp]: "child_map (mput k (VObj m) data) seg = (if seg = k then m else child_map data seg)"
  by (simp add: child_map_def)

lemma at_parent_Cons:
  "at_parent f data (seg # segs) =
     (if passable data seg
      then rbind (at_parent f (child_map data seg) segs) (\<lambda>child. Inr (mput seg (VObj child) data))
      else Inl (SegmentNotObject seg))"
  by (auto simp: passable_def child_map_def split: option.splits gvalue.splits)

declare at_parent.simps(2) [simp del]

lemma get_path_empty [simp]: "get_path [] p = None"
  by (induction "[] :: gobject" p rule: get_path.induct) auto

lemma get_path_Cons: "segs \<noteq> [] \<Longrightarrow> get_path data (seg # segs) = get_path (child_map data seg) segs"
  by (cases segs) (auto simp: child_map_def split: option.splits gvalue.splits)

declare get_path.simps(3) [simp del]

text \<open>
  What \<open>at_parent\<close> reaches: if it succeeds, the function was applied to the map at the parent
  (empty when the path was not there), and only paths through the parent can change.
\<close>

fun map_at :: "gobject \<Rightarrow> string list \<Rightarrow> gobject" where
  "map_at data [] = data"
| "map_at data (seg # segs) = map_at (child_map data seg) segs"

lemma at_parent_reaches:
  "at_parent f data segs = Inr data' \<Longrightarrow> f (map_at data segs) = Inr (map_at data' segs)"
  by (induction segs arbitrary: data data') (auto simp: at_parent_Cons split: if_splits)

lemma get_path_map_at: "get_path data (segs @ [leaf]) = mget (map_at data segs) leaf"
  by (induction segs arbitrary: data) (auto simp: get_path_Cons)

lemma get_path_same_head:
  assumes "mget data' l = mget data l"
  shows "get_path data' (l # rest) = get_path data (l # rest)"
  using assms by (cases rest) (auto simp: child_map_def get_path_Cons)

lemma at_parent_apart:
  assumes "at_parent f data segs = Inr data'"
    and "\<And>m m' l. f m = Inr m' \<Longrightarrow> l \<noteq> leaf \<Longrightarrow> mget m' l = mget m l"
    and "apart (segs @ [leaf]) q"
  shows "get_path data' q = get_path data q"
  using assms(1,3)
proof (induction segs arbitrary: data data' q)
  case Nil
  then obtain l rest where q: "q = l # rest" "l \<noteq> leaf" by (cases q) auto
  from Nil assms(2) q(2) have "mget data' l = mget data l" by simp
  then show ?case unfolding q(1) by (rule get_path_same_head)
next
  case (Cons seg segs)
  from Cons.prems(1) obtain child where d: "data' = mput seg (VObj child) data"
    and c: "at_parent f (child_map data seg) segs = Inr child"
    by (auto simp: at_parent_Cons split: if_splits)
  from Cons.prems(2) obtain l rest where q: "q = l # rest" by (cases q) auto
  show ?case
  proof (cases "l = seg")
    case True
    with Cons.prems(2) q have a: "apart (segs @ [leaf]) rest" by simp
    then have "rest \<noteq> []" by auto
    with Cons.IH [OF c a] True show ?thesis by (simp add: q d get_path_Cons)
  next
    case False
    then show ?thesis unfolding q by (intro get_path_same_head) (simp add: d)
  qed
qed

text \<open>A path can be walked when no strict prefix of it holds a value that is neither nil nor an object.\<close>

fun walkable :: "gobject \<Rightarrow> string list \<Rightarrow> bool" where
  "walkable data [] = True"
| "walkable data (seg # segs) = (passable data seg \<and> walkable (child_map data seg) segs)"

lemma walkable_iff:
  "walkable data segs \<longleftrightarrow>
    (\<forall>p v. prefix p segs \<and> get_path data p = Some v \<longrightarrow> v = VNil \<or> (\<exists>m. v = VObj m))"
proof (induction segs arbitrary: data)
  case (Cons seg segs)
  have "(\<forall>p v. prefix p (seg # segs) \<and> get_path data p = Some v \<longrightarrow> v = VNil \<or> (\<exists>m. v = VObj m)) \<longleftrightarrow>
      (\<forall>p v. prefix p segs \<and> get_path data (seg # p) = Some v \<longrightarrow> v = VNil \<or> (\<exists>m. v = VObj m))"
    by (auto simp: prefix_Cons)
  also have "\<dots> \<longleftrightarrow> passable data seg \<and>
      (\<forall>p v. prefix p segs \<and> get_path (child_map data seg) p = Some v \<longrightarrow> v = VNil \<or> (\<exists>m. v = VObj m))"
  proof -
    have "get_path data (seg # p) = (if p = [] then mget data seg else get_path (child_map data seg) p)" for p
      by (cases p) (auto simp: get_path_Cons)
    then show ?thesis unfolding passable_def by (auto split: if_splits)
  qed
  finally show ?case using Cons.IH by simp
qed auto

lemma at_parent_total:
  assumes "\<And>m. \<exists>m'. f m = Inr m'"
  shows "(\<exists>data'. at_parent f data segs = Inr data') \<longleftrightarrow> walkable data segs"
  by (induction segs arbitrary: data) (auto simp: at_parent_Cons assms)

text \<open>\<open>butlast\<close> and \<open>last\<close> of a path as the code slices it.\<close>

lemma path_cases:
  assumes "path \<noteq> []"
  obtains segs leaf where "path = segs @ [leaf]" "butlast path = segs" "last path = leaf"
  using assms by (metis append_butlast_last_id)

lemma strict_prefix_snoc: "strict_prefix q (segs @ [leaf]) \<longleftrightarrow> prefix q segs"
  unfolding strict_prefix_def
  by (metis append_self_conv not_Cons_self2 prefix_order.dual_order.antisym prefixI prefix_snoc)

lemma increment_leaf_other: "increment_leaf d leaf m = Inr m' \<Longrightarrow> l \<noteq> leaf \<Longrightarrow> mget m' l = mget m l"
  by (auto simp: increment_leaf_def split: option.splits gvalue.splits)

lemma deleteAtPath_Cons:
  "segs \<noteq> [] \<Longrightarrow> deleteAtPath data (seg # segs) =
     (case mget data seg of Some (VObj m) \<Rightarrow> mput seg (VObj (deleteAtPath m segs)) data | _ \<Rightarrow> data)"
  by (cases segs) auto

lemma deleteAtPath_get:
  "path \<noteq> [] \<Longrightarrow> get_path (deleteAtPath data path) path = None"
proof (induction data path rule: deleteAtPath.induct)
  case (3 data seg s ss)
  then show ?case by (auto simp: get_path_Cons child_map_def split: option.splits gvalue.splits)
qed (simp_all add: delete_conv)

lemma deleteAtPath_apart:
  "apart path q \<Longrightarrow> get_path (deleteAtPath data path) q = get_path data q"
proof (induction data path arbitrary: q rule: deleteAtPath.induct)
  case (2 data leaf)
  then obtain l rest where q: "q = l # rest" "l \<noteq> leaf" by (cases q) auto
  then show ?case unfolding q(1) by (intro get_path_same_head) (simp add: delete_conv)
next
  case (3 data seg s ss)
  then obtain l rest where q: "q = l # rest" by (cases q) auto
  show ?case
  proof (cases "l = seg")
    case True
    with "3.prems" q have a: "apart (s # ss) rest" by simp
    then have "rest \<noteq> []" by auto
    with "3.IH" a True show ?thesis
      by (auto simp: q get_path_Cons child_map_def split: option.splits gvalue.splits)
  next
    case False
    then show ?thesis unfolding q
      by (intro get_path_same_head) (auto split: option.splits gvalue.splits)
  qed
qed simp

lemma apply_from_dal:
  "apply_from now i data us = Inr data' \<Longrightarrow> \<exists>ds. to_dal_from conv i us = Inr ds"
proof (induction us arbitrary: i data)
  case (Cons u us)
  then obtain d where a: "apply_update now data u = Inr d" and r: "apply_from now (Suc i) d us = Inr data'"
    by (auto split: sum.splits)
  from a have "\<exists>x. to_dal_update conv u = Inr x"
    by (auto simp: apply_update_def to_dal_update_def to_dal_value_def incrementAtPath_def Let_def
        split: if_splits option.splits)
  with Cons.IH [OF r] show ?case by auto
qed simp

section \<open>Properties\<close>

text \<open>
  Setting a field: \<^verbatim>\<open>setAtPath\<close> succeeds exactly when no strict prefix of the path holds a value
  that is neither nil nor an object; then reading the path gives the value, and every path that is
  neither a prefix nor an extension of it reads as before.
\<close>

theorem set_at_path_correct:
  assumes "path \<noteq> []"
  shows "((\<exists>data'. setAtPath data path v = Inr data') \<longleftrightarrow>
      (\<forall>p w. strict_prefix p path \<and> get_path data p = Some w \<longrightarrow> w = VNil \<or> (\<exists>m. w = VObj m))) \<and>
    (\<forall>data'. setAtPath data path v = Inr data' \<longrightarrow>
      get_path data' path = Some v \<and> (\<forall>q. apart path q \<longrightarrow> get_path data' q = get_path data q))"
proof -
  from assms obtain segs leaf where p: "path = segs @ [leaf]" "butlast path = segs" "last path = leaf"
    by (rule path_cases)
  have "strict_prefix q path \<longleftrightarrow> prefix q segs" for q
    by (simp add: p(1) strict_prefix_snoc)
  moreover have "(\<exists>data'. setAtPath data path v = Inr data') \<longleftrightarrow> walkable data segs"
    unfolding setAtPath_def p(2,3) by (rule at_parent_total) simp
  moreover have "get_path data' path = Some v \<and> (\<forall>q. apart path q \<longrightarrow> get_path data' q = get_path data q)"
    if s: "setAtPath data path v = Inr data'" for data'
  proof -
    note s' = s [unfolded setAtPath_def p(2,3)]
    from at_parent_reaches [OF s'] have "map_at data' segs = mput leaf v (map_at data segs)" by simp
    moreover from at_parent_apart [OF s'] have "apart path q \<Longrightarrow> get_path data' q = get_path data q" for q
      by (fastforce simp: p(1))
    ultimately show ?thesis by (simp add: p(1) get_path_map_at)
  qed
  ultimately show ?thesis by (simp add: walkable_iff)
qed

theorem set_at_path_correct_witness:
  "\<exists>data'. setAtPath [(''a'', VObj [(''x'', VBool True)])] [''a'', ''b''] (VStr ''v'') = Inr data' \<and>
     get_path data' [''a'', ''b''] = Some (VStr ''v'') \<and> get_path data' [''a'', ''x''] = Some (VBool True)"
proof -
  let ?d = "[(''a'', VObj [(''x'', VBool True)])]"
  obtain data' where s: "setAtPath ?d [''a'', ''b''] (VStr ''v'') = Inr data'"
    by (simp add: setAtPath_def at_parent_Cons passable_def)
  have "\<forall>data'. setAtPath ?d [''a'', ''b''] (VStr ''v'') = Inr data' \<longrightarrow>
      get_path data' [''a'', ''b''] = Some (VStr ''v'') \<and>
      (\<forall>q. apart [''a'', ''b''] q \<longrightarrow> get_path data' q = get_path ?d q)"
    using set_at_path_correct [of "[''a'', ''b'']" ?d "VStr ''v''"] by blast
  moreover have "apart [''a'', ''b''] [''a'', ''x'']" by simp
  moreover have "get_path ?d [''a'', ''x''] = Some (VBool True)" by (simp add: get_path_Cons child_map_def)
  ultimately show ?thesis using s by metis
qed

text \<open>
  Deleting a field removes it and nothing else, whether or not the path is there.
\<close>

theorem delete_at_path_correct:
  assumes "path \<noteq> []"
  shows "get_path (deleteAtPath data path) path = None \<and>
    (\<forall>q. apart path q \<longrightarrow> get_path (deleteAtPath data path) q = get_path data q)"
  using deleteAtPath_get [OF assms] deleteAtPath_apart by blast

theorem delete_at_path_correct_witness:
  "get_path (deleteAtPath [(''a'', VObj [(''x'', VBool True), (''y'', VNil)])] [''a'', ''y'']) [''a'', ''y''] = None"
  using delete_at_path_correct [of "[''a'', ''y'']"] by blast

text \<open>
  Increments are exact on integers: when the field is absent, nil or an integer (as a float64,
  an int, an int64 or a uint64), the increment is an integer, and both and their sum are of magnitude below
  \<open>2 ^ 53\<close>, the simulated increment stores exactly their sum, and leaves every other path alone.
\<close>

theorem increment_is_exact:
  assumes "path \<noteq> []" and "toFloat delta = Some (Fin (of_int d))"
    and "get_path data path \<in> {None, Some VNil} \<and> a = 0 \<or>
         (\<exists>v. get_path data path = Some v \<and> toFloat v = Some (Fin (of_int a)))"
    and "\<forall>p w. strict_prefix p path \<and> get_path data p = Some w \<longrightarrow> w = VNil \<or> (\<exists>m. w = VObj m)"
    and "\<bar>a + d\<bar> < 2 ^ 53"
  shows "\<exists>data'. incrementAtPath data path delta = Inr data' \<and>
    get_path data' path = Some (VFloat (Fin (of_int (a + d)))) \<and>
    (\<forall>q. apart path q \<longrightarrow> get_path data' q = get_path data q)"
proof -
  from assms(1) obtain segs leaf where p: "path = segs @ [leaf]" "butlast path = segs" "last path = leaf"
    by (rule path_cases)
  have sum: "fl_round (of_int a + of_int d) = Fin (of_int (a + d))" using fl_round_int [OF assms(5)] by simp
  have "increment_leaf (Fin (of_int d)) leaf (map_at data segs) =
      Inr (mput leaf (VFloat (Fin (of_int (a + d)))) (map_at data segs))"
    using assms(3) sum unfolding p(1) get_path_map_at increment_leaf_def
    by (auto split: option.splits gvalue.splits)
  moreover have "walkable data segs" using assms(4) by (auto simp: walkable_iff p(1) strict_prefix_snoc)
  then have "f (map_at data segs) = Inr m \<Longrightarrow> \<exists>data'. at_parent f data segs = Inr data'" for f m
    by (induction segs arbitrary: data) (auto simp: at_parent_Cons)
  ultimately obtain data' where "at_parent (increment_leaf (Fin (of_int d)) leaf) data segs = Inr data'" by blast
  moreover from this at_parent_reaches
  have "get_path data' path = Some (VFloat (Fin (of_int (a + d))))"
    using \<open>increment_leaf _ _ _ = _\<close> by (fastforce simp: p(1) get_path_map_at)
  moreover have "apart path q \<Longrightarrow> get_path data' q = get_path data q" for q
    using at_parent_apart [OF calculation(1) increment_leaf_other] by (simp add: p(1))
  ultimately show ?thesis by (auto simp: incrementAtPath_def assms(2) p(2,3))
qed

theorem increment_is_exact_witness:
  "\<exists>data'. incrementAtPath [(''n'', VInt Kint64 41)] [''n''] (VFloat (Fin 1)) = Inr data' \<and>
     get_path data' [''n''] = Some (VFloat (Fin 42))"
proof -
  have "fl_round (of_int 41) = Fin (of_int 41)" by (rule fl_round_int) simp
  moreover have "strict_prefix p [''n''] \<longleftrightarrow> p = []" for p
    using strict_prefix_snoc [of p "[]" "''n''"] by simp
  ultimately show ?thesis
    using increment_is_exact [of "[''n'']" "VFloat (Fin 1)" 1 "[(''n'', VInt Kint64 41)]" 41] by auto
qed

text \<open>
  No conversion error is lost: whenever the simulation of a list of updates succeeds, their
  conversion to driver updates succeeds too, so that the error which \<^verbatim>\<open>apply\<close> ignores inside the
  transaction cannot occur.
\<close>

theorem simulated_updates_convert:
  assumes "applyUpdates now data updates = Inr data'"
  shows "\<exists>ds. toDalUpdates conv updates = Inr ds \<and> length ds = length updates"
proof -
  have "to_dal_from conv i us = Inr ds \<Longrightarrow> length ds = length us" for i us ds
    by (induction us arbitrary: i ds) (auto split: sum.splits)
  with apply_from_dal assms show ?thesis unfolding applyUpdates_def toDalUpdates_def by blast
qed

theorem simulated_updates_convert_witness:
  "\<exists>ds. toDalUpdates (\<lambda>_. 0) [\<lparr> u_fieldName = ''a'', u_fieldPath = [], u_value = VBool True,
     u_delete = False, u_transform = [], u_serverTimestamp = False \<rparr>] = Inr ds \<and> length ds = 1"
proof -
  let ?u = "\<lparr> u_fieldName = ''a'', u_fieldPath = [], u_value = VBool True,
     u_delete = False, u_transform = [], u_serverTimestamp = False \<rparr>"
  have "applyUpdates [] [] [?u] = Inr [(''a'', VBool True)]" by code_simp
  from simulated_updates_convert [OF this] show ?thesis by simp
qed

end
