(* ===== verification/Database.thy ===== *)
theory Database
  imports Collection_Names Native_Ids Updates
begin

text \<open>
  The mounted database of \<^verbatim>\<open>src/pkg/core\<close>: the immutable facts \<^verbatim>\<open>Open\<close> records (\<^verbatim>\<open>core.go\<close>,
  \<^verbatim>\<open>native_postgres.go\<close>, \<^verbatim>\<open>licenses.go\<close>, \<^verbatim>\<open>retention.go\<close>, \<^verbatim>\<open>http.go\<close>,
  \<^verbatim>\<open>preview_postgres.go\<close>), the rules for names of \<^verbatim>\<open>query_guard.go\<close> and \<^verbatim>\<open>query_fields.go\<close>,
  and the guard that every read by key and every write passes before an adapter is called
  (\<^verbatim>\<open>write_guard.go\<close>, \<^verbatim>\<open>collection_names.go\<close>).

  The Unicode categories of characters beyond ASCII are the parameter \<open>uni\<close>.
\<close>

section \<open>Field names\<close>

record unicode_classes =
  uni_letter :: "nat \<Rightarrow> bool"
  uni_mark :: "nat \<Rightarrow> bool"
  uni_digit :: "nat \<Rightarrow> bool"

definition rune_letter :: "unicode_classes \<Rightarrow> nat \<Rightarrow> bool" where
  "rune_letter uni r \<longleftrightarrow> (if r < 0x80 then (0x41 \<le> r \<and> r \<le> 0x5A) \<or> (0x61 \<le> r \<and> r \<le> 0x7A) else uni_letter uni r)"

definition rune_mark :: "unicode_classes \<Rightarrow> nat \<Rightarrow> bool" where
  "rune_mark uni r \<longleftrightarrow> \<not> r < 0x80 \<and> uni_mark uni r"

definition rune_digit :: "unicode_classes \<Rightarrow> nat \<Rightarrow> bool" where
  "rune_digit uni r \<longleftrightarrow> (if r < 0x80 then 0x30 \<le> r \<and> r \<le> 0x39 else uni_digit uni r)"

fun split_runes :: "nat \<Rightarrow> nat list \<Rightarrow> nat list list" where
  "split_runes d [] = [[]]"
| "split_runes d (r # rs) =
     (if r = d then [] # split_runes d rs
      else (case split_runes d rs of p # ps \<Rightarrow> (r # p) # ps | [] \<Rightarrow> [[r]]))"

text \<open>One dot-separated segment of \<^verbatim>\<open>fieldNameRe\<close>, then the whole expression. A byte that is no
  UTF-8 reads as U+FFFD, which is in none of the classes.\<close>

definition field_tail :: "unicode_classes \<Rightarrow> nat \<Rightarrow> bool" where
  "field_tail uni r \<longleftrightarrow> rune_letter uni r \<or> rune_mark uni r \<or> rune_digit uni r \<or> r = 0x5F \<or> r = 0x2D"

definition field_segment :: "unicode_classes \<Rightarrow> nat list \<Rightarrow> bool" where
  "field_segment uni seg \<longleftrightarrow>
     (case seg of
        [] \<Rightarrow> False
      | r # rs \<Rightarrow>
         if r = 0x24 then (case rs of [] \<Rightarrow> False
           | q # qs \<Rightarrow> (rune_letter uni q \<or> q = 0x5F) \<and> list_all (field_tail uni) qs)
         else (rune_letter uni r \<or> rune_digit uni r \<or> r = 0x5F) \<and> list_all (field_tail uni) rs)"

definition fieldNameRe :: "unicode_classes \<Rightarrow> string \<Rightarrow> bool" where
  "fieldNameRe uni name \<longleftrightarrow> list_all (field_segment uni) (split_runes 0x2E (map fst (runes name)))"

fun double_dash :: "string \<Rightarrow> bool" where
  "double_dash (a # b # cs) = (a = CHR ''-'' \<and> b = CHR ''-'' \<or> double_dash (b # cs))"
| "double_dash _ = False"

definition maxFieldNameLen :: nat where "maxFieldNameLen = 256"

text \<open>\<^verbatim>\<open>ValidateFieldName\<close>, \<^verbatim>\<open>validateQuotedFieldName\<close> and \<^verbatim>\<open>validateMapKey\<close>: true is no error.\<close>

definition ValidateFieldName :: "unicode_classes \<Rightarrow> string \<Rightarrow> bool" where
  "ValidateFieldName uni name =
     (if length name > maxFieldNameLen then False
      else if \<not> fieldNameRe uni name \<or> double_dash name then False else True)"

definition validateQuotedFieldName :: "string \<Rightarrow> bool" where
  "validateQuotedFieldName name =
     (if length name > maxFieldNameLen then False
      else if \<not> valid_utf8 name then False
      else if list_ex (\<lambda>(r, bs). is_control r \<or> r \<in> {0x22, 0x27, 0x60, 0x5C, 0x3B}) (runes name) then False
      else list_all (\<lambda>seg. seg \<noteq> [] \<and> \<not> is_space (fst (hd (runes seg))) \<and> \<not> is_space (fst (last (runes seg))))
             (split_on CHR ''.'' name))"

definition validateMapKey :: "string \<Rightarrow> bool" where
  "validateMapKey key =
     (if trim_space key = [] then False else \<not> list_ex (\<lambda>(r, bs). is_control r) (runes key))"

section \<open>Engines\<close>

definition documentEngines :: "string set" where "documentEngines = {''ingitdb'', ''firestore''}"

definition foldingEngines :: "string set" where "foldingEngines = {''postgres'', ''sqlite''}"

definition queryEngines :: "string set" where "queryEngines = {''sqlite'', ''ingitdb'', ''firestore'', ''http''}"

definition quotedNameEngines :: "string set" where "quotedNameEngines = {''sqlite'', ''ingitdb''}"

definition serverEngines :: "string set" where "serverEngines = {''postgres'', ''mysql''}"

definition nameLimits :: "string \<Rightarrow> nat" where
  "nameLimits engine = (if engine = ''postgres'' then 63 else 0)"

definition engineCleared :: "string \<Rightarrow> bool \<Rightarrow> bool" where
  "engineCleared engine previewPostgres \<longleftrightarrow> engine \<in> queryEngines \<or> engine = ''postgres'' \<and> previewPostgres"

section \<open>The mounted database\<close>

record license_snapshot =
  ls_databaseID :: string
  ls_database :: "license_decl option"
  ls_recordsets :: "(string, license_decl) gomap"

record database =
  d_manifest :: manifest
  d_externalReadOnly :: bool
  d_readOnlyHTTP :: bool
  d_httpProfile :: string
  d_nativePostgres :: bool
  d_nativeSources :: "(string, native_source) gomap"
  d_nativeIDs :: "(string \<times> string, string) gomap"
  d_retention :: string
  d_rights :: license_snapshot
  d_names :: collection_names
  d_servingKeys :: "(string, string) gomap"
  d_sqliteLockWait :: int
  d_documentEngine :: bool
  d_foldsIdentifiers :: bool
  d_previewPostgres :: bool

definition queryEngine :: "database \<Rightarrow> string" where
  "queryEngine d = st_engine (m_storage (d_manifest d))"

definition CanQuery :: "database \<Rightarrow> bool" where
  "CanQuery d \<longleftrightarrow> d_externalReadOnly d \<or> d_nativePostgres d \<or> engineCleared (queryEngine d) (d_previewPostgres d)"

definition CanCollectionQuery :: "database \<Rightarrow> bool" where
  "CanCollectionQuery d \<longleftrightarrow> CanQuery d \<and> \<not> d_nativePostgres d"

text \<open>\<^verbatim>\<open>fieldRule\<close> and \<^verbatim>\<open>fieldRule.validate\<close>.\<close>

definition field_rule_validate :: "unicode_classes \<Rightarrow> database \<Rightarrow> string \<Rightarrow> bool" where
  "field_rule_validate uni d name =
     (if queryEngine d \<in> quotedNameEngines \<or> d_nativePostgres d then validateQuotedFieldName name
      else ValidateFieldName uni name)"

definition nameTooLong :: "database \<Rightarrow> string \<Rightarrow> bool" where
  "nameTooLong d name \<longleftrightarrow> (let limit = nameLimits (queryEngine d) in limit > 0 \<and> length name > limit)"

definition collectionNameTooLong :: "database \<Rightarrow> string \<Rightarrow> bool" where
  "collectionNameTooLong d name \<longleftrightarrow> \<not> d_nativePostgres d \<and> nameTooLong d name"

text \<open>\<^verbatim>\<open>http.go\<close> and \<^verbatim>\<open>retention.go\<close>; a database that was opened has a driver.\<close>

definition ReadOnly :: "database \<Rightarrow> bool" where
  "ReadOnly d \<longleftrightarrow> d_readOnlyHTTP d \<or> d_nativePostgres d \<or> d_externalReadOnly d"

definition KeyedRecordReadsServed :: "database \<Rightarrow> bool" where
  "KeyedRecordReadsServed d \<longleftrightarrow> \<not> ReadOnly d"

datatype read_only_error =
  NativePostgresOperationUnsupported | ExternalOperationUnsupported | HTTPOperationUnsupported

definition readOnlyOperationError :: "database \<Rightarrow> read_only_error" where
  "readOnlyOperationError d =
     (if d_nativePostgres d then NativePostgresOperationUnsupported
      else if d_externalReadOnly d then ExternalOperationUnsupported else HTTPOperationUnsupported)"

definition Retention :: "database \<Rightarrow> string" where
  "Retention d = (if d_retention d = RetentionNone then RetentionNone else [])"

definition NoRetention :: "database \<Rightarrow> bool" where
  "NoRetention d \<longleftrightarrow> Retention d = RetentionNone"

definition ValidateRetentionCache :: "std_api \<Rightarrow> database \<Rightarrow> manifest_error option" where
  "ValidateRetentionCache std d =
     (let ttl = db_cacheTTL (m_database (d_manifest d)) in
      if NoRetention d \<and> ttl \<noteq> [] \<and> parse_duration std ttl \<noteq> Some 0 then Some RetentionCache else None)"

text \<open>\<^verbatim>\<open>schemaCollection\<close>: the name itself first, then its spellings.\<close>

definition schemaCollection :: "database \<Rightarrow> string \<Rightarrow> collection option" where
  "schemaCollection d name =
     (case schemas_collection (m_schemas (d_manifest d)) name of
        Some col \<Rightarrow> Some col
      | None \<Rightarrow>
         (case List.find (\<lambda>sp. schemas_collection (m_schemas (d_manifest d)) sp \<noteq> None)
                 (CollectionSpellings (d_names d) name) of
            None \<Rightarrow> None
          | Some sp \<Rightarrow> schemas_collection (m_schemas (d_manifest d)) sp))"

text \<open>\<^verbatim>\<open>adapterKey\<close>.\<close>

definition adapterKey :: "database \<Rightarrow> rkey \<Rightarrow> rkey" where
  "adapterKey d key =
     (if key_parent key \<noteq> None then key
      else case mget (n_canonical (d_names d)) (key_collection key) of
          None \<Rightarrow> key
        | Some canonical \<Rightarrow>
           if canonical = key_collection key then key else Key None canonical (key_id key))"

section \<open>The guard\<close>

text \<open>
  The refusals with the sentinel errors they wrap: \<open>ENotFound\<close> is 404, the others are 400.
\<close>

datatype guard_error =
    NestedKey string
  | UndeclaredCollection string
  | CollectionNameTooLong
  | EmptyFieldPath
  | InvalidFieldName string
  | FieldNameTooLong
  | InvalidMapKey string
  | KeyUpdate
  | KeyColumnCase
  | EmptyWrite
  | NoFieldNamed

datatype sentinel = ENotFound | EInvalidKey | EInvalidFieldName | EEmptyWrite

fun wraps :: "guard_error \<Rightarrow> sentinel" where
  "wraps (NestedKey _) = ENotFound"
| "wraps (UndeclaredCollection _) = ENotFound"
| "wraps CollectionNameTooLong = EInvalidKey"
| "wraps EmptyWrite = EEmptyWrite"
| "wraps _ = EInvalidFieldName"

definition GuardCollection :: "database \<Rightarrow> string \<Rightarrow> guard_error option" where
  "GuardCollection d name =
     (if d_documentEngine d then None
      else if collectionNameTooLong d name then Some CollectionNameTooLong
      else if mget (n_canonical (d_names d)) name \<noteq> None then None
      else Some (UndeclaredCollection name))"

definition GuardKey :: "database \<Rightarrow> rkey option \<Rightarrow> guard_error option" where
  "GuardKey d mkey =
     (case mkey of
        None \<Rightarrow> None
      | Some key \<Rightarrow>
         if key_parent key \<noteq> None \<and> \<not> d_documentEngine d then Some (NestedKey (key_collection key))
         else GuardCollection d (key_collection key))"

definition GuardCanonicalCollection :: "database \<Rightarrow> string \<Rightarrow> guard_error option" where
  "GuardCanonicalCollection d name =
     (if d_documentEngine d then None
      else if collectionNameTooLong d name then Some CollectionNameTooLong
      else if mget (n_canonical (d_names d)) name = Some name then None
      else Some (UndeclaredCollection name))"

text \<open>\<^verbatim>\<open>ValidateFieldNames\<close>, \<^verbatim>\<open>ValidateFieldPath\<close>, \<^verbatim>\<open>ValidateUpdatePath\<close>.\<close>

definition ValidateFieldNames :: "unicode_classes \<Rightarrow> string list \<Rightarrow> guard_error option" where
  "ValidateFieldNames uni names =
     check_all (\<lambda>name. if ValidateFieldName uni name then None else Some (InvalidFieldName name)) names"

definition ValidateFieldPath :: "unicode_classes \<Rightarrow> database \<Rightarrow> string list \<Rightarrow> guard_error option" where
  "ValidateFieldPath uni d path =
     (if path = [] then Some EmptyFieldPath
      else first_of
        [ValidateFieldNames uni (take 1 path),
         check_all (\<lambda>segment. if nameTooLong d segment then Some FieldNameTooLong else None) path,
         check_all (\<lambda>segment.
            if d_documentEngine d then (if validateMapKey segment then None else Some (InvalidMapKey segment))
            else if ValidateFieldName uni segment then None else Some (InvalidFieldName segment)) (tl path)])"

definition keyColumn :: string where "keyColumn = ''id''"

definition ValidateUpdatePath :: "unicode_classes \<Rightarrow> database \<Rightarrow> string list \<Rightarrow> guard_error option" where
  "ValidateUpdatePath uni d path =
     (case ValidateFieldPath uni d path of
        Some e \<Rightarrow> Some e
      | None \<Rightarrow>
         if \<not> d_documentEngine d \<and> equal_fold (hd (split_on CHR ''.'' (hd path))) keyColumn
         then Some KeyUpdate else None)"

definition isKeyColumnSpelling :: "string \<Rightarrow> bool" where
  "isKeyColumnSpelling name \<longleftrightarrow> name \<noteq> keyColumn \<and> equal_fold name keyColumn"

text \<open>\<^verbatim>\<open>ValidateDataKeys\<close>; data that is nil has no keys.\<close>

definition ValidateDataKeys :: "unicode_classes \<Rightarrow> database \<Rightarrow> gobject option \<Rightarrow> guard_error option" where
  "ValidateDataKeys uni d data =
     (let names = sort (mkeys (case_option [] id data)) in
      case ValidateFieldNames uni names of
        Some e \<Rightarrow> Some e
      | None \<Rightarrow>
         (case check_all (\<lambda>name. if nameTooLong d name then Some FieldNameTooLong else None) names of
            Some e \<Rightarrow> Some e
          | None \<Rightarrow>
             if d_documentEngine d then None
             else check_all (\<lambda>name. if isKeyColumnSpelling name then Some KeyColumnCase else None) names))"

datatype field_names_error = FieldNamesConflict string string

definition checkFieldNames :: "manifest \<Rightarrow> field_names_error option" where
  "checkFieldNames m =
     (case m_schemas m of
        None \<Rightarrow> None
      | Some s \<Rightarrow>
         if st_engine (m_storage m) \<in> documentEngines then None
         else check_all (\<lambda>c. case mget s c of None \<Rightarrow> None
                 | Some col \<Rightarrow> check_all (\<lambda>f. if isKeyColumnSpelling f then Some (FieldNamesConflict c f) else None)
                     (sort (mkeys (c_fields col)))) (sort (mkeys s)))"

record op =
  op_op :: string
  op_key :: "rkey option"
  op_data :: "gobject option"
  op_updates :: "update_op list"

definition validateUpdate :: "unicode_classes \<Rightarrow> database \<Rightarrow> update_op \<Rightarrow> guard_error option" where
  "validateUpdate uni d u =
     (if u_fieldName u = [] \<and> u_fieldPath u = [] then Some NoFieldNamed
      else case (if u_fieldName u \<noteq> [] then ValidateUpdatePath uni d [u_fieldName u] else None) of
          Some e \<Rightarrow> Some e
        | None \<Rightarrow> if u_fieldPath u \<noteq> [] then ValidateUpdatePath uni d (u_fieldPath u) else None)"

text \<open>\<^verbatim>\<open>guardWrite\<close>: one op, then the loop with its index.\<close>

definition guard_op :: "unicode_classes \<Rightarrow> database \<Rightarrow> op \<Rightarrow> guard_error option" where
  "guard_op uni d opn = first_of
     [GuardKey d (op_key opn),
      ValidateDataKeys uni d (op_data opn),
      refuse (op_op opn = ''update'' \<and> op_updates opn = [] \<and> \<not> d_documentEngine d) EmptyWrite,
      check_all (validateUpdate uni d) (op_updates opn)]"

definition guardWrite :: "unicode_classes \<Rightarrow> database \<Rightarrow> op list \<Rightarrow> (nat \<times> guard_error) option" where
  "guardWrite uni d ops = check_idx (\<lambda>i opn. map_option (Pair i) (guard_op uni d opn)) 0 ops"

definition adapterOps :: "database \<Rightarrow> op list \<Rightarrow> op list" where
  "adapterOps d ops = map (\<lambda>opn. opn\<lparr>op_key := map_option (adapterKey d) (op_key opn)\<rparr>) ops"

definition setsNoColumn :: "database \<Rightarrow> gobject option \<Rightarrow> bool" where
  "setsNoColumn d data \<longleftrightarrow>
     \<not> d_documentEngine d \<and> list_all (\<lambda>name. equal_fold name keyColumn) (mkeys (case_option [] id data))"

section \<open>Opening a database\<close>

text \<open>\<^verbatim>\<open>nativePostgresMappings\<close>.\<close>

datatype open_db_error =
    AclRequiresPolicies
  | OpenManifest manifest_error
  | ModeUnsupported string "string list"
  | OpenNames names_error
  | OpenFieldNames field_names_error
  | NativeNoCollections
  | NativeNoSource
  | NativeIdMismatch
  | NativeColumnName
  | RightsName key_error
  | RightsNotCanonical
  | RightsUndeclared

definition native_column_ok :: "string \<Rightarrow> bool" where
  "native_column_ok f \<longleftrightarrow> \<not> (f = [] \<or> length f > 63 \<or> \<not> valid_utf8 f \<or> list_ex (\<lambda>c. byte c = 0) f)"

fun native_mappings_from :: "schemas \<Rightarrow> (string, native_source) gomap \<Rightarrow> (string \<times> string, string) gomap \<Rightarrow>
    open_db_error + ((string, native_source) gomap \<times> (string \<times> string, string) gomap)" where
  "native_mappings_from [] byID bySource = Inr (byID, bySource)"
| "native_mappings_from ((i, col) # rest) byID bySource =
     (case c_source col of
        None \<Rightarrow> Inl NativeNoSource
      | Some src \<Rightarrow>
         if NativePostgresCollectionID (ns_schema src) (ns_name src) \<noteq> Some i then Inl NativeIdMismatch
         else if \<not> list_all native_column_ok (mkeys (c_fields col)) then Inl NativeColumnName
         else native_mappings_from rest (mput i src byID) (mput (ns_schema src, ns_name src) i bySource))"

definition nativePostgresMappings :: "schemas option \<Rightarrow>
    open_db_error + ((string, native_source) gomap \<times> (string \<times> string, string) gomap)" where
  "nativePostgresMappings ms =
     (case ms of
        None \<Rightarrow> Inl NativeNoCollections
      | Some s \<Rightarrow> if s = [] then Inl NativeNoCollections else native_mappings_from s [] [])"

definition ResolveNativePostgresCollection :: "database \<Rightarrow> string \<Rightarrow> string \<Rightarrow> string option" where
  "ResolveNativePostgresCollection d sn rn =
     (if \<not> d_nativePostgres d then None else mget (d_nativeIDs d) (sn, rn))"

definition nativePostgresSource :: "database \<Rightarrow> string \<Rightarrow> native_source option" where
  "nativePostgresSource d i = (if \<not> d_nativePostgres d then None else mget (d_nativeSources d) i)"

text \<open>\<^verbatim>\<open>snapshotLicenses\<close>.\<close>

definition recordset_check :: "database \<Rightarrow> string \<Rightarrow> open_db_error option" where
  "recordset_check d name =
     (case ValidateCollectionName name of
        Some e \<Rightarrow> Some (RightsName e)
      | None \<Rightarrow>
         (case CanonicalCollection (d_names d) name of
            Some canonical \<Rightarrow> if canonical \<noteq> name then Some RightsNotCanonical else None
          | None \<Rightarrow>
             if \<not> d_documentEngine d \<or> db_schemaMode (m_database (d_manifest d)) = ModeStrict
             then Some RightsUndeclared else None))"

definition snapshotLicenses :: "database \<Rightarrow> open_db_error + database" where
  "snapshotLicenses d =
     (let m = d_manifest d in
      case check_all (\<lambda>(name, decl). recordset_check d name) (m_recordsetLicenses m) of
        Some e \<Rightarrow> Inl e
      | None \<Rightarrow> Inr (d\<lparr>d_rights := \<lparr> ls_databaseID = db_id (m_database m),
          ls_database = db_license (m_database m),
          ls_recordsets = fold (\<lambda>(name, decl). mput name decl) (m_recordsetLicenses m) [] \<rparr>\<rparr>))"

definition SourceRight ::
    "(string \<Rightarrow> url_parts option) \<Rightarrow> database \<Rightarrow> string \<Rightarrow> license_decl option \<Rightarrow> string \<Rightarrow>
     rights_error + source_right option" where
  "SourceRight purl d serverID server name =
     (let collection = case_option name id (CanonicalCollection (d_names d) name);
          override = mget (ls_recordsets (d_rights d)) collection in
      Resolve purl \<lparr> i_serverID = serverID, i_databaseID = ls_databaseID (d_rights d), i_recordset = collection \<rparr>
        server (ls_database (d_rights d)) override)"

text \<open>
  The checks of \<^verbatim>\<open>openConfigured\<close> up to the first use of the driver, and the struct it builds.
  \<open>policies\<close> says whether policies were loaded or a controller was given, \<open>preview\<close> is the preview
  switch of the environment, and \<open>keys\<close> what the driver reports of its serving keys and its lock wait.
\<close>

definition open_refusals :: "std_api \<Rightarrow> manifest \<Rightarrow> string list \<Rightarrow> bool \<Rightarrow> open_db_error option" where
  "open_refusals std m supportedModes policies = first_of
     [refuse ((case m_acl m of None \<Rightarrow> False | Some a \<Rightarrow> acl_enabled a) \<and> \<not> policies) AclRequiresPolicies,
      map_option OpenManifest (ValidateRetention std m),
      map_option OpenManifest (ValidateHTTP std m),
      map_option OpenManifest (ValidateLicenses std m),
      refuse (db_schemaMode (m_database m) \<notin> set supportedModes)
        (ModeUnsupported (db_schemaMode (m_database m)) supportedModes)]"

definition fresh_database :: "manifest \<Rightarrow> bool \<Rightarrow> bool \<Rightarrow> (string, string) gomap \<times> int \<Rightarrow> collection_names \<Rightarrow>
    (string, native_source) gomap \<times> (string \<times> string, string) gomap \<Rightarrow> database" where
  "fresh_database m externalReadOnly preview keys names native =
     (let engine = st_engine (m_storage m);
          nativePostgres = native_postgres_mount (m_storage m) in
      \<lparr> d_manifest = m, d_externalReadOnly = externalReadOnly, d_readOnlyHTTP = (engine = ''http''),
        d_httpProfile = (if engine = ''http'' then case_option [] h_profile (st_http (m_storage m)) else []),
        d_nativePostgres = nativePostgres, d_nativeSources = fst native, d_nativeIDs = snd native,
        d_retention = EffectiveRetention m,
        d_rights = \<lparr> ls_databaseID = [], ls_database = None, ls_recordsets = [] \<rparr>,
        d_names = names, d_servingKeys = fst keys, d_sqliteLockWait = snd keys,
        d_documentEngine = (engine \<in> documentEngines),
        d_foldsIdentifiers = (engine \<in> foldingEngines \<and> \<not> nativePostgres),
        d_previewPostgres = preview \<rparr>)"

definition openConfigured ::
    "std_api \<Rightarrow> manifest \<Rightarrow> string list \<Rightarrow> bool \<Rightarrow> bool \<Rightarrow> bool \<Rightarrow> (string, string) gomap \<times> int \<Rightarrow> open_db_error + database" where
  "openConfigured std m supportedModes policies externalReadOnly preview keys =
     (case open_refusals std m supportedModes policies of
        Some e \<Rightarrow> Inl e
      | None \<Rightarrow>
         (case newCollectionNames m of
            Inl e \<Rightarrow> Inl (OpenNames e)
          | Inr names \<Rightarrow>
             (case (if native_postgres_mount (m_storage m) then None else checkFieldNames m) of
                Some e \<Rightarrow> Inl (OpenFieldNames e)
              | None \<Rightarrow>
                 rbind (if native_postgres_mount (m_storage m) then nativePostgresMappings (m_schemas m) else Inr ([], []))
                   (\<lambda>native. snapshotLicenses (fresh_database m externalReadOnly preview keys names native)))))"

section \<open>Lemmas\<close>

text \<open>The bytes of a plain field name: outside ASCII, letters, digits and four punctuation marks.\<close>

definition plain_field_byte :: "char \<Rightarrow> bool" where
  "plain_field_byte c \<longleftrightarrow> 0x80 \<le> byte c \<or> ascii_alnum c \<or> c \<in> set ''_-$.''"

lemma split_runes_not_Nil [simp]: "split_runes d rs \<noteq> []"
  by (induction rs) (auto split: list.splits)

lemma split_runes_covers: "r \<in> set rs \<Longrightarrow> r = d \<or> (\<exists>seg \<in> set (split_runes d rs). r \<in> set seg)"
proof (induction rs)
  case (Cons x rs)
  obtain p ps where s: "split_runes d rs = p # ps" by (cases "split_runes d rs") simp_all
  show ?case
  proof (cases "r = x")
    case True
    then show ?thesis by (cases "x = d") (auto simp: s)
  next
    case False
    with Cons show ?thesis by (auto simp: s)
  qed
qed simp

text \<open>The ASCII characters a segment may hold.\<close>

definition plain_rune :: "nat \<Rightarrow> bool" where
  "plain_rune r \<longleftrightarrow> 0x80 \<le> r \<or> (0x41 \<le> r \<and> r \<le> 0x5A) \<or> (0x61 \<le> r \<and> r \<le> 0x7A) \<or> (0x30 \<le> r \<and> r \<le> 0x39) \<or>
     r = 0x24 \<or> r = 0x2D \<or> r = 0x5F"

lemma plain_rune_classes:
  "rune_letter uni r \<Longrightarrow> plain_rune r" "rune_digit uni r \<Longrightarrow> plain_rune r" "field_tail uni r \<Longrightarrow> plain_rune r"
  "plain_rune 0x24" "plain_rune 0x5F"
  by (auto simp: rune_letter_def rune_digit_def rune_mark_def field_tail_def plain_rune_def split: if_splits)

lemma plain_rune_tail: "list_all (field_tail uni) rs \<Longrightarrow> list_all plain_rune rs"
  by (auto simp: list_all_iff plain_rune_classes)

lemma field_segment_plain: "field_segment uni seg \<Longrightarrow> list_all plain_rune seg"
proof (cases seg)
  case (Cons r rs)
  assume "field_segment uni seg"
  then show ?thesis
    by (cases rs) (auto simp: Cons field_segment_def plain_rune_classes plain_rune_tail split: if_splits)
qed simp

lemma byte_char: "byte c = n \<Longrightarrow> c = char_of n"
  by auto

lemma ValidateFieldName_plain:
  assumes "ValidateFieldName uni name"
  shows "length name \<le> 256 \<and> (\<forall>c \<in> set name. plain_field_byte c)"
proof (intro conjI ballI)
  show "length name \<le> 256"
    using assms by (auto simp: ValidateFieldName_def maxFieldNameLen_def split: if_splits)
  have re: "list_all (field_segment uni) (split_runes 0x2E (map fst (runes name)))"
    using assms by (auto simp: ValidateFieldName_def fieldNameRe_def split: if_splits)
  fix c
  assume c: "c \<in> set name"
  show "plain_field_byte c"
  proof (cases "byte c < 0x80")
    case True
    from c have "c \<in> set (concat (map snd (runes name)))" by (simp add: concat_runes)
    then obtain r bs where m: "(r, bs) \<in> set (runes name)" and b: "c \<in> set bs" by auto
    with runes_ascii_or_high [OF m] True have r: "r = byte c" by auto
    from m have "r \<in> set (map fst (runes name))" by force
    then have "r = 0x2E \<or> plain_rune r"
      using split_runes_covers [of r _ "0x2E"] re field_segment_plain by (metis list_all_iff)
    then have "byte c = 0x2E \<or> (0x41 \<le> byte c \<and> byte c \<le> 0x5A) \<or> (0x61 \<le> byte c \<and> byte c \<le> 0x7A) \<or>
        (0x30 \<le> byte c \<and> byte c \<le> 0x39) \<or> byte c = 0x24 \<or> byte c = 0x2D \<or> byte c = 0x5F"
      using True by (auto simp: plain_rune_def r)
    moreover have "byte c = 0x2E \<Longrightarrow> c = CHR ''.''" "byte c = 0x24 \<Longrightarrow> c = CHR ''$''"
      "byte c = 0x2D \<Longrightarrow> c = CHR ''-''" "byte c = 0x5F \<Longrightarrow> c = CHR ''_''"
      by (auto dest!: byte_char simp: char_of_def bit_0)
    ultimately show ?thesis by (auto simp: plain_field_byte_def ascii_alnum_def Let_def)
  qed (simp add: plain_field_byte_def)
qed

lemma guardWrite_None: "guardWrite uni d ops = None \<longleftrightarrow> (\<forall>opn \<in> set ops. guard_op uni d opn = None)"
  unfolding guardWrite_def check_idx_None_iff option.map_disc_iff by (simp add: all_set_conv_all_nth)

lemma guard_data_key:
  assumes "ValidateDataKeys uni d data = None" and "name \<in> set (mkeys (case_option [] id data))"
  shows "ValidateFieldName uni name \<and> \<not> nameTooLong d name \<and> (\<not> d_documentEngine d \<longrightarrow> \<not> isKeyColumnSpelling name)"
  using assms
  by (fastforce simp: ValidateDataKeys_def ValidateFieldNames_def check_simps Let_def split: option.splits if_splits)

lemma guard_update_path:
  assumes "ValidateUpdatePath uni d path = None" and "\<not> d_documentEngine d" and "seg \<in> set path"
  shows "ValidateFieldName uni seg \<and> \<not> nameTooLong d seg \<and> \<not> equal_fold (hd (split_on CHR ''.'' (hd path))) keyColumn"
proof -
  obtain h t where path: "path = h # t" using assms(3) by (cases path) auto
  with assms show ?thesis
    by (fastforce simp: ValidateUpdatePath_def ValidateFieldPath_def ValidateFieldNames_def check_simps
        split: option.splits if_splits)
qed

lemma nameTooLong_iff: "nameTooLong d name \<longleftrightarrow> queryEngine d = ''postgres'' \<and> 63 < length name"
  by (simp add: nameTooLong_def nameLimits_def)

lemma snapshotLicenses_Inr:
  assumes "snapshotLicenses d = Inr d'"
  shows "\<exists>r. d' = d\<lparr>d_rights := r\<rparr> \<and> (\<forall>name \<in> set (mkeys (m_recordsetLicenses (d_manifest d))). recordset_check d name = None)"
proof (cases "check_all (\<lambda>(name, decl). recordset_check d name) (m_recordsetLicenses (d_manifest d))")
  case None
  then have "\<forall>name \<in> set (mkeys (m_recordsetLicenses (d_manifest d))). recordset_check d name = None"
    by (auto simp: check_simps)
  with assms None show ?thesis by (auto simp: snapshotLicenses_def Let_def)
qed (use assms in \<open>simp add: snapshotLicenses_def Let_def\<close>)

lemma openConfigured_Inr:
  assumes "openConfigured std m modes policies ext preview keys = Inr d"
  shows "open_refusals std m modes policies = None \<and> (\<exists>names native r.
    newCollectionNames m = Inr names \<and> (if native_postgres_mount (m_storage m) then None else checkFieldNames m) = None \<and>
    (if native_postgres_mount (m_storage m) then nativePostgresMappings (m_schemas m) else Inr ([], [])) = Inr native \<and>
    d = (fresh_database m ext preview keys names native)\<lparr>d_rights := r\<rparr>)"
proof -
  from assms have pre: "open_refusals std m modes policies = None"
    by (simp add: openConfigured_def split: option.splits)
  with assms obtain names where names: "newCollectionNames m = Inr names"
    by (cases "newCollectionNames m") (simp_all add: openConfigured_def)
  with assms pre have fields: "(if native_postgres_mount (m_storage m) then None else checkFieldNames m) = None"
    by (simp add: openConfigured_def split: option.splits if_splits)
  with assms pre names obtain native where
    maps: "(if native_postgres_mount (m_storage m) then nativePostgresMappings (m_schemas m) else Inr ([], [])) = Inr native"
    and s: "snapshotLicenses (fresh_database m ext preview keys names native) = Inr d"
    by (auto simp: openConfigured_def)
  from snapshotLicenses_Inr [OF s] obtain r where "d = (fresh_database m ext preview keys names native)\<lparr>d_rights := r\<rparr>"
    by blast
  with pre names fields maps show ?thesis by blast
qed

lemma openConfigured_facts:
  assumes "openConfigured std m modes policies ext preview keys = Inr d"
  shows "newCollectionNames m = Inr (d_names d) \<and> d_manifest d = m \<and>
    d_documentEngine d = (st_engine (m_storage m) \<in> documentEngines) \<and>
    d_nativePostgres d = native_postgres_mount (m_storage m) \<and> d_retention d = EffectiveRetention m \<and>
    db_schemaMode (m_database m) \<in> set modes \<and>
    (d_nativePostgres d \<longrightarrow> nativePostgresMappings (m_schemas m) = Inr (d_nativeSources d, d_nativeIDs d)) \<and>
    (\<not> d_nativePostgres d \<longrightarrow> checkFieldNames m = None)"
  using openConfigured_Inr [OF assms]
  by (auto simp: fresh_database_def Let_def open_refusals_def check_simps split: if_splits)

text \<open>The names a write hands to an adapter.\<close>

definition plain_name :: "database \<Rightarrow> string \<Rightarrow> bool" where
  "plain_name d name \<longleftrightarrow>
     length name \<le> (if queryEngine d = ''postgres'' then 63 else 256) \<and> (\<forall>c \<in> set name. plain_field_byte c)"

lemma plain_nameI: "ValidateFieldName uni name \<Longrightarrow> \<not> nameTooLong d name \<Longrightarrow> plain_name d name"
  using ValidateFieldName_plain by (fastforce simp: plain_name_def nameTooLong_iff)

definition update_names :: "update_op \<Rightarrow> string set" where
  "update_names u = set (u_fieldPath u) \<union> (if u_fieldName u = [] then {} else {u_fieldName u})"

definition updates_key :: "update_op \<Rightarrow> bool" where
  "updates_key u \<longleftrightarrow> (\<exists>path \<in> {[u_fieldName u], u_fieldPath u}. path \<noteq> [] \<and> path \<noteq> [[]] \<and>
     equal_fold (hd (split_on CHR ''.'' (hd path))) keyColumn)"

lemma validateUpdate_names:
  assumes "validateUpdate uni d u = None" and "\<not> d_documentEngine d"
  shows "update_names u \<noteq> {} \<and> (\<forall>name \<in> update_names u. plain_name d name) \<and> \<not> updates_key u"
proof -
  have some: "u_fieldName u \<noteq> [] \<or> u_fieldPath u \<noteq> []"
    and fn: "u_fieldName u \<noteq> [] \<Longrightarrow> ValidateUpdatePath uni d [u_fieldName u] = None"
    and fp: "u_fieldPath u \<noteq> [] \<Longrightarrow> ValidateUpdatePath uni d (u_fieldPath u) = None"
    using assms(1) by (auto simp: validateUpdate_def split: if_splits option.splits)
  have "plain_name d name" if "name \<in> update_names u" for name
  proof (cases "name \<in> set (u_fieldPath u)")
    case True
    then have "u_fieldPath u \<noteq> []" by auto
    with guard_update_path [OF fp assms(2) True] show ?thesis by (auto intro: plain_nameI)
  next
    case False
    with that have "name = u_fieldName u" "u_fieldName u \<noteq> []" by (auto simp: update_names_def split: if_splits)
    with guard_update_path [OF fn assms(2)] show ?thesis by (auto intro: plain_nameI)
  qed
  moreover have "update_names u \<noteq> {}" using some by (auto simp: update_names_def)
  moreover have "\<not> updates_key u"
    using guard_update_path [OF fn assms(2), of "u_fieldName u"] guard_update_path [OF fp assms(2), of "hd (u_fieldPath u)"]
    by (auto simp: updates_key_def)
  ultimately show ?thesis by blast
qed

lemma guard_op_parts:
  assumes "guard_op uni d opn = None"
  shows "GuardKey d (op_key opn) = None" and "ValidateDataKeys uni d (op_data opn) = None"
    and "\<not> (op_op opn = ''update'' \<and> op_updates opn = [] \<and> \<not> d_documentEngine d)"
    and "u \<in> set (op_updates opn) \<Longrightarrow> validateUpdate uni d u = None"
  using assms by (simp_all add: guard_op_def check_simps)

lemma adapterKey_guarded:
  assumes "newCollectionNames m = Inr (d_names d)" and "GuardKey d (Some key) = None" and "\<not> d_documentEngine d"
  shows "\<exists>c. adapterKey d key = Key None c (key_id key) \<and> CanonicalCollection (d_names d) c = Some c"
proof -
  from assms(2,3) have root: "key_parent key = None" and decl: "mget (n_canonical (d_names d)) (key_collection key) \<noteq> None"
    by (auto simp: GuardKey_def GuardCollection_def split: if_splits)
  from decl obtain c where c: "mget (n_canonical (d_names d)) (key_collection key) = Some c" by blast
  then have "CanonicalCollection (d_names d) c = Some c"
    using names.canon_idem [OF assms(1)] by (simp add: CanonicalCollection_def)
  moreover have "adapterKey d key = Key None c (key_id key)"
    using root c by (cases key) (auto simp: adapterKey_def)
  ultimately show ?thesis by blast
qed

lemma native_mappings_inv:
  assumes "native_mappings_from s byID bySource = Inr (byID', bySource')"
    and "\<forall>i sn rn. mget byID i = Some \<lparr>ns_schema = sn, ns_name = rn\<rparr> \<longleftrightarrow> mget bySource (sn, rn) = Some i"
    and "\<forall>i sn rn. mget bySource (sn, rn) = Some i \<longrightarrow> NativePostgresCollectionID sn rn = Some i"
  shows "(\<forall>i sn rn. mget byID' i = Some \<lparr>ns_schema = sn, ns_name = rn\<rparr> \<longleftrightarrow> mget bySource' (sn, rn) = Some i) \<and>
    (\<forall>i sn rn. mget bySource' (sn, rn) = Some i \<longrightarrow> NativePostgresCollectionID sn rn = Some i)"
  using assms
proof (induction s byID bySource rule: native_mappings_from.induct)
  case (2 i col rest byID bySource)
  from "2.prems"(1) obtain src where src: "c_source col = Some src"
    and id: "NativePostgresCollectionID (ns_schema src) (ns_name src) = Some i"
    and ok: "list_all native_column_ok (mkeys (c_fields col))"
    and rest: "native_mappings_from rest (mput i src byID) (mput (ns_schema src, ns_name src) i bySource) = Inr (byID', bySource')"
    by (auto split: option.splits if_splits)
  have uniq: "sn = ns_schema src \<and> rn = ns_name src" if "mget bySource (sn, rn) = Some i" for sn rn
    using that "2.prems"(3) native_id_inj id by blast
  have same: "j = i" if "mget bySource (ns_schema src, ns_name src) = Some j" for j
    using that "2.prems"(3) id by fastforce
  have rec: "src = \<lparr>ns_schema = sn, ns_name = rn\<rparr> \<longleftrightarrow> sn = ns_schema src \<and> rn = ns_name src" for sn rn
    by (cases src) auto
  have "mget (mput i src byID) j = Some \<lparr>ns_schema = sn, ns_name = rn\<rparr> \<longleftrightarrow>
      mget (mput (ns_schema src, ns_name src) i bySource) (sn, rn) = Some j" for j sn rn
  proof (cases "j = i")
    case True
    then show ?thesis unfolding gomap_laws using uniq [of sn rn] rec [of sn rn]
      by (metis Pair_inject option.inject)
  next
    case False
    then show ?thesis unfolding gomap_laws using same [of j] "2.prems"(2)
      by (metis Pair_inject option.inject)
  qed
  moreover have "mget (mput (ns_schema src, ns_name src) i bySource) (sn, rn) = Some j \<Longrightarrow>
      NativePostgresCollectionID sn rn = Some j" for j sn rn
    using "2.prems"(3) id by (auto split: if_splits)
  ultimately show ?case using "2.IH" [OF src _ _ rest] id ok by blast
qed simp

section \<open>Properties\<close>


definition demo_database :: database where
  "demo_database = (fresh_database demo_manifest False False ([], 0) demo_names ([], []))\<lparr>d_rights :=
     \<lparr> ls_databaseID = ''crm'', ls_database = None, ls_recordsets = [] \<rparr>\<rparr>"

definition demo_unicode :: unicode_classes where
  "demo_unicode = \<lparr> uni_letter = (\<lambda>_. False), uni_mark = (\<lambda>_. False), uni_digit = (\<lambda>_. False) \<rparr>"

definition demo_op :: op where
  "demo_op = \<lparr> op_op = ''set'', op_key = Some (Key None ''orders'' ''o1''), op_data = Some [(''total'', VStr ''9.50'')],
     op_updates = [] \<rparr>"

lemma demo_opened: "openConfigured demo_std demo_manifest [''strict''] False False False ([], 0) = Inr demo_database"
proof -
  have "ValidateRetention demo_std demo_manifest = None" "ValidateHTTP demo_std demo_manifest = None"
    "m_acl demo_manifest = None" "db_schemaMode (m_database demo_manifest) = ''strict''"
    by code_simp+
  then have "open_refusals demo_std demo_manifest [''strict''] False = None"
    using demo_licenses by (simp add: open_refusals_def check_simps)
  moreover have "checkFieldNames demo_manifest = None"
    by (simp add: checkFieldNames_def demo_manifest_def demo_pg_schemas_def documentEngines_def isKeyColumnSpelling_def)
      code_simp
  ultimately show ?thesis
    by (simp add: openConfigured_def demo_names_built snapshotLicenses_def demo_database_def)
      (simp add: demo_manifest_def native_postgres_mount_def fresh_database_def Let_def)
qed


text \<open>
  The two tables of a native PostgreSQL mount are inverse to each other: a collection identifier
  stands for a source exactly when the source resolves to that identifier, and then the identifier
  is the encoding of the source, whatever order the declarations are read in.
\<close>

theorem native_tables_are_inverse:
  assumes "openConfigured std m modes policies ext preview keys = Inr d"
  shows "(nativePostgresSource d i = Some \<lparr>ns_schema = sn, ns_name = rn\<rparr> \<longleftrightarrow> ResolveNativePostgresCollection d sn rn = Some i) \<and>
    (ResolveNativePostgresCollection d sn rn = Some i \<longrightarrow> NativePostgresCollectionID sn rn = Some i)"
proof (cases "d_nativePostgres d")
  case True
  then have "nativePostgresMappings (m_schemas m) = Inr (d_nativeSources d, d_nativeIDs d)"
    using openConfigured_facts [OF assms] by blast
  then obtain s where "native_mappings_from s [] [] = Inr (d_nativeSources d, d_nativeIDs d)"
    by (auto simp: nativePostgresMappings_def split: option.splits if_splits)
  from native_mappings_inv [OF this] True show ?thesis
    by (simp add: nativePostgresSource_def ResolveNativePostgresCollection_def)
qed (simp add: nativePostgresSource_def ResolveNativePostgresCollection_def)

definition demo_native_id :: string where
  "demo_native_id = nativePostgresCollectionPrefix @ b64_encode (native_tuple ''public'' ''orders'')"

definition demo_native :: manifest where
  "demo_native = demo_manifest\<lparr>m_storage := (m_storage demo_manifest)\<lparr>
       st_postgres := Some \<lparr> pg_dsnEnv = ''CRM_DSN'', pg_readOnly = True, pg_insecureTransport = False \<rparr>\<rparr>,
     m_schemas := Some [(demo_native_id, \<lparr> c_fields = [(''total'', demo_total)], c_references = [],
       c_source = Some \<lparr> ns_schema = ''public'', ns_name = ''orders'' \<rparr> \<rparr>)]\<rparr>"

definition demo_native_database :: database where
  "demo_native_database = (fresh_database demo_native False False ([], 0)
     \<lparr> n_canonical = [(demo_native_id, demo_native_id)], n_spellings = [(demo_native_id, [demo_native_id])] \<rparr>
     ([(demo_native_id, \<lparr> ns_schema = ''public'', ns_name = ''orders'' \<rparr>)], [((''public'', ''orders''), demo_native_id)]))
     \<lparr>d_rights := \<lparr> ls_databaseID = ''crm'', ls_database = None, ls_recordsets = [] \<rparr>\<rparr>"

lemma demo_native_opened: "openConfigured demo_std demo_native [''strict''] False False False ([], 0) = Inr demo_native_database"
proof -
  have "ValidateRetention demo_std demo_native = None" "ValidateHTTP demo_std demo_native = None"
    "m_acl demo_native = None" "db_schemaMode (m_database demo_native) = ''strict''"
    by (simp_all add: ValidateRetention_def EffectiveRetention_def RetentionNone_def ValidateHTTP_def demo_native_def
        demo_manifest_def)
  then have "open_refusals demo_std demo_native [''strict''] False = None"
    by (simp add: open_refusals_def check_simps ValidateLicenses_def) (simp add: demo_native_def demo_manifest_def)
  moreover have "NativePostgresCollectionID ''public'' ''orders'' = Some demo_native_id"
    by (simp add: NativePostgresCollectionID_def demo_native_id_def validNativePostgresIdentifier_def containsNUL_def
        valid_utf8_ascii is_ascii_def)
  moreover have "list_all native_column_ok [''total'']"
    by (simp add: native_column_ok_def valid_utf8_ascii is_ascii_def)
  moreover have "newCollectionNames demo_native =
      Inr \<lparr> n_canonical = [(demo_native_id, demo_native_id)], n_spellings = [(demo_native_id, [demo_native_id])] \<rparr>"
    by (simp add: newCollectionNames_def demo_native_def demo_manifest_def add_key_def canonical_of_def
        add_spelling_def no_names_def spellings_of_def Let_def)
  ultimately show ?thesis
    by (simp add: openConfigured_def snapshotLicenses_def demo_native_database_def)
      (simp add: demo_native_def demo_manifest_def native_postgres_mount_def nativePostgresMappings_def fresh_database_def Let_def)
qed

theorem native_tables_are_inverse_witness:
  "nativePostgresSource demo_native_database demo_native_id = Some \<lparr>ns_schema = ''public'', ns_name = ''orders''\<rparr>"
proof -
  have "ResolveNativePostgresCollection demo_native_database ''public'' ''orders'' = Some demo_native_id"
    by (simp add: ResolveNativePostgresCollection_def demo_native_database_def fresh_database_def demo_native_def
        demo_manifest_def native_postgres_mount_def Let_def)
  with native_tables_are_inverse [OF demo_native_opened] show ?thesis by simp
qed

end
