(* ===== verification/Inferred.thy ===== *)
theory Inferred
  imports Schema
begin

text \<open>
  \<^verbatim>\<open>src/pkg/inferred/inferred.go\<close>: the inferred schema catalogue. Every written record of a partial or
  schemaless database is observed: the catalogue counts, per collection and per dotted field path,
  the records and the JSON types seen.

  An instant is a number and the zero time is 0. The maps of a statistic are never nil: the code makes
  them when it makes the statistic, and a file that holds a null in their place was not written by it.
  A pointer to a statistic is the entry of its path in the map of its collection, the only place where
  the code keeps one. The file operations of \<^verbatim>\<open>persist\<close> succeed or fail as \<open>persist_outcome\<close> says.
\<close>

section \<open>Data\<close>

definition maxDepth :: nat where "maxDepth = 8"

record field_stats =
  fs_observedTypes :: "(string, nat) gomap"
  fs_isArray :: bool
  fs_elementTypes :: "(string, nat) gomap"
  fs_firstSeen :: nat
  fs_lastSeen :: nat
  fs_sampleCount :: nat
  fs_missingCount :: nat
  fs_hasConflict :: bool

record collection_stats =
  cs_fields :: "(string, field_stats) gomap"
  cs_recordCount :: nat
  cs_firstSeen :: nat
  cs_lastSeen :: nat

type_synonym catalogue_data = "(string, collection_stats) gomap"

record catalogue =
  cat_data :: catalogue_data
  cat_file :: "catalogue_data option"

section \<open>Observing a record\<close>

text \<open>\<^verbatim>\<open>jsonTypeName\<close>: every integer type is a number.\<close>

fun jsonTypeName :: "gvalue \<Rightarrow> string" where
  "jsonTypeName VNil = ''null''"
| "jsonTypeName (VBool _) = ''boolean''"
| "jsonTypeName (VFloat _) = ''number''"
| "jsonTypeName (VNumber _) = ''number''"
| "jsonTypeName (VStr _) = ''string''"
| "jsonTypeName (VArr _) = ''array''"
| "jsonTypeName (VObj _) = ''object''"
| "jsonTypeName (VInt _ _) = ''number''"

definition nonNullTypeCount :: "(string, nat) gomap \<Rightarrow> nat" where
  "nonNullTypeCount types = length (filter (\<lambda>(t, cnt). t \<noteq> ''null'' \<and> cnt > 0) types)"

text \<open>\<^verbatim>\<open>m[t]++\<close> on a map of counters.\<close>

definition counted :: "(string, nat) gomap \<Rightarrow> string \<Rightarrow> nat" where
  "counted m t = (case mget m t of None \<Rightarrow> 0 | Some n \<Rightarrow> n)"

definition bump :: "string \<Rightarrow> (string, nat) gomap \<Rightarrow> (string, nat) gomap" where
  "bump t m = mput t (counted m t + 1) m"

text \<open>The body of the loop of \<^verbatim>\<open>observeFields\<close> before and after the recursion.\<close>

definition new_field :: "nat \<Rightarrow> collection_stats \<Rightarrow> field_stats" where
  "new_field now col =
     \<lparr> fs_observedTypes = [], fs_isArray = False, fs_elementTypes = [], fs_firstSeen = now, fs_lastSeen = 0,
       fs_sampleCount = 0, fs_missingCount = cs_recordCount col - 1, fs_hasConflict = False \<rparr>"

definition touch_field :: "nat \<Rightarrow> string \<Rightarrow> gvalue \<Rightarrow> collection_stats \<Rightarrow> collection_stats" where
  "touch_field now path val col =
     (let fs = (case mget (cs_fields col) path of Some fs \<Rightarrow> fs | None \<Rightarrow> new_field now col);
          typeName = jsonTypeName val;
          fs = fs\<lparr>fs_sampleCount := fs_sampleCount fs + 1, fs_lastSeen := now,
                  fs_observedTypes := bump typeName (fs_observedTypes fs)\<rparr>;
          fs = (if typeName = ''array'' then
                  fs\<lparr>fs_isArray := True,
                     fs_elementTypes := (case val of VArr arr \<Rightarrow>
                        fold (\<lambda>elem. bump (jsonTypeName elem)) arr (fs_elementTypes fs) | _ \<Rightarrow> fs_elementTypes fs)\<rparr>
                else fs)
      in col\<lparr>cs_fields := mput path fs (cs_fields col)\<rparr>)"

definition mark_conflict :: "string \<Rightarrow> collection_stats \<Rightarrow> collection_stats" where
  "mark_conflict path col =
     (case mget (cs_fields col) path of
        None \<Rightarrow> col
      | Some fs \<Rightarrow> col\<lparr>cs_fields := mput path
          (fs\<lparr>fs_hasConflict := (nonNullTypeCount (fs_observedTypes fs) > 1)\<rparr>) (cs_fields col)\<rparr>)"

definition field_path :: "string \<Rightarrow> string \<Rightarrow> string" where
  "field_path prefix key = (if prefix \<noteq> [] then prefix @ ''.'' @ key else key)"

text \<open>\<^verbatim>\<open>observeFields\<close>; the second part of the state is the set of paths seen in this record.\<close>

function observeFields :: "nat \<Rightarrow> string \<Rightarrow> nat \<Rightarrow> gobject \<Rightarrow> collection_stats \<times> string list \<Rightarrow>
    collection_stats \<times> string list" where
  "observeFields now prefix depth data (col, present) =
     (if depth \<ge> maxDepth then (col, present)
      else case data of
          [] \<Rightarrow> (col, present)
        | (key, val) # rest \<Rightarrow>
           let path = field_path prefix key;
               st = (touch_field now path val col, path # present);
               st = (case val of VObj nested \<Rightarrow> observeFields now path (depth + 1) nested st | _ \<Rightarrow> st)
           in observeFields now prefix depth rest (mark_conflict path (fst st), snd st))"
  by pat_completeness auto
termination
  by (relation "measures [\<lambda>(now, prefix, depth, data, st). maxDepth - depth, \<lambda>(now, prefix, depth, data, st). length data]")
    (auto simp: not_le)

text \<open>\<^verbatim>\<open>Catalogue.Observe\<close> without its last step, on one collection.\<close>

definition observe_record :: "nat \<Rightarrow> gobject \<Rightarrow> collection_stats option \<Rightarrow> collection_stats" where
  "observe_record now data existing =
     (let col = (case existing of Some c \<Rightarrow> c
                 | None \<Rightarrow> \<lparr> cs_fields = [], cs_recordCount = 0, cs_firstSeen = now, cs_lastSeen = 0 \<rparr>);
          col = col\<lparr>cs_recordCount := cs_recordCount col + 1, cs_lastSeen := now\<rparr>;
          col = (if cs_firstSeen col = 0 then col\<lparr>cs_firstSeen := now\<rparr> else col);
          (col, presentPaths) = observeFields now [] 0 data (col, [])
      in col\<lparr>cs_fields := map (\<lambda>(path, fs). (path,
            if path \<in> set presentPaths then fs else fs\<lparr>fs_missingCount := fs_missingCount fs + 1\<rparr>)) (cs_fields col)\<rparr>)"

section \<open>Persistence\<close>

text \<open>
  The catalogue after it has been written as JSON and read back: a key comes back as the JSON string it
  was written as; the keys are written in order, and a later one wins. Counters and instants come back
  as they are, and an empty map of element types is left out and comes back as nil, which is empty.
\<close>

definition json_keys :: "('a \<Rightarrow> 'b) \<Rightarrow> (string, 'a) gomap \<Rightarrow> (string, 'b) gomap" where
  "json_keys f m = fold (\<lambda>(k, v) out. mput (json_string k) (f v) out) (sort_key fst m) []"

definition json_field_stats :: "field_stats \<Rightarrow> field_stats" where
  "json_field_stats fs = fs\<lparr>fs_observedTypes := json_keys id (fs_observedTypes fs),
     fs_elementTypes := json_keys id (fs_elementTypes fs)\<rparr>"

definition json_catalogue :: "catalogue_data \<Rightarrow> catalogue_data" where
  "json_catalogue = json_keys (\<lambda>c. c\<lparr>cs_fields := json_keys json_field_stats (cs_fields c)\<rparr>)"

datatype persist_outcome = PersistOk | MkdirFailed | CreateTempFailed | EncodeFailed | CloseFailed | RenameFailed

definition persist :: "persist_outcome \<Rightarrow> catalogue \<Rightarrow> persist_outcome option \<times> catalogue" where
  "persist io c =
     (case io of
        PersistOk \<Rightarrow> (None, c\<lparr>cat_file := Some (json_catalogue (cat_data c))\<rparr>)
      | e \<Rightarrow> (Some e, c))"

definition Observe :: "persist_outcome \<Rightarrow> nat \<Rightarrow> string \<Rightarrow> gobject \<Rightarrow> catalogue \<Rightarrow> persist_outcome option \<times> catalogue" where
  "Observe io now coll data c =
     persist io (c\<lparr>cat_data := mput coll (observe_record now data (mget (cat_data c) coll)) (cat_data c)\<rparr>)"

definition Snapshot :: "catalogue \<Rightarrow> catalogue_data" where
  "Snapshot c = json_catalogue (cat_data c)"

datatype catalogue_error = OpenCatalogue | DecodeCatalogue

text \<open>\<^verbatim>\<open>Load\<close>: what opening and decoding the file gives; a decoded null is no collections.\<close>

datatype file_read = ReadMissing | ReadFailed | ReadCorrupt | ReadData "catalogue_data option"

fun Load :: "file_read \<Rightarrow> catalogue_error + catalogue" where
  "Load ReadMissing = Inr \<lparr> cat_data = [], cat_file = None \<rparr>"
| "Load ReadFailed = Inl OpenCatalogue"
| "Load ReadCorrupt = Inl DecodeCatalogue"
| "Load (ReadData d) = Inr \<lparr> cat_data = case_option [] id d, cat_file = d \<rparr>"

definition file_of :: "catalogue \<Rightarrow> file_read" where
  "file_of c = (case cat_file c of None \<Rightarrow> ReadMissing | Some d \<Rightarrow> ReadData (Some d))"

section \<open>Fields of a collection\<close>

definition containsDot :: "string \<Rightarrow> bool" where
  "containsDot s = list_ex (\<lambda>(r, bs). r = 0x2E) (runes s)"

definition mapped_type :: "string \<Rightarrow> bool" where
  "mapped_type t \<longleftrightarrow> t \<in> {''string'', ''number'', ''boolean'', ''object'', ''array''}"

fun first_type :: "(string, nat) gomap \<Rightarrow> string" where
  "first_type [] = ''any''"
| "first_type ((t, cnt) # rest) =
     (if t = ''null'' \<or> cnt = 0 then first_type rest
      else if mapped_type t then t else first_type rest)"

definition resolveFieldType :: "field_stats \<Rightarrow> string" where
  "resolveFieldType fs = (if fs_hasConflict fs then ''any'' else first_type (fs_observedTypes fs))"

definition optional_field :: "string \<Rightarrow> field" where
  "optional_field t = \<lparr> f_type = t, f_required = False, f_decimal = None, f_nativeType = [], f_primaryKey = False,
     f_nullable = False \<rparr>"

definition FieldsForCollection :: "catalogue \<Rightarrow> string \<Rightarrow> (string, field) gomap option" where
  "FieldsForCollection c coll =
     (case mget (cat_data c) coll of
        None \<Rightarrow> None
      | Some col \<Rightarrow> Some (map (\<lambda>(path, fs). (path, optional_field (resolveFieldType fs)))
          (filter (\<lambda>(path, fs). \<not> containsDot path) (cs_fields col))))"

section \<open>Lemmas\<close>

declare observeFields.simps [simp del]

text \<open>The reference: the paths of a record in the order of the traversal, with their values.\<close>

function record_paths :: "string \<Rightarrow> nat \<Rightarrow> gobject \<Rightarrow> (string \<times> gvalue) list" where
  "record_paths prefix depth data =
     (if depth \<ge> maxDepth then []
      else case data of
          [] \<Rightarrow> []
        | (key, val) # rest \<Rightarrow>
           (let path = field_path prefix key in
            (path, val) # (case val of VObj nested \<Rightarrow> record_paths path (depth + 1) nested | _ \<Rightarrow> []) @
              record_paths prefix depth rest))"
  by pat_completeness auto
termination
  by (relation "measures [\<lambda>(prefix, depth, data). maxDepth - depth, \<lambda>(prefix, depth, data). length data]")
    (auto simp: not_le)

declare record_paths.simps [simp del]

lemma record_paths_Nil: "record_paths prefix depth [] = []"
  by (simp add: record_paths.simps [of prefix depth "[]"])

lemma record_paths_Cons:
  "depth < maxDepth \<Longrightarrow> record_paths prefix depth ((key, val) # rest) =
     (field_path prefix key, val) #
       (case val of VObj nested \<Rightarrow> record_paths (field_path prefix key) (depth + 1) nested | _ \<Rightarrow> []) @
       record_paths prefix depth rest"
  by (simp add: record_paths.simps [of prefix depth "(key, val) # rest"] Let_def)

lemma observeFields_Nil: "observeFields now prefix depth [] st = st"
  by (cases st) (simp add: observeFields.simps [of now prefix depth "[]"])

lemma observeFields_Cons:
  "depth < maxDepth \<Longrightarrow> observeFields now prefix depth ((key, val) # rest) (col, present) =
     (let path = field_path prefix key;
          st = (touch_field now path val col, path # present);
          st = (case val of VObj nested \<Rightarrow> observeFields now path (depth + 1) nested st | _ \<Rightarrow> st)
      in observeFields now prefix depth rest (mark_conflict path (fst st), snd st))"
  by (simp add: observeFields.simps [of now prefix depth "(key, val) # rest"])

definition observe_path :: "nat \<Rightarrow> string \<times> gvalue \<Rightarrow> collection_stats \<Rightarrow> collection_stats" where
  "observe_path now pv col = mark_conflict (fst pv) (touch_field now (fst pv) (snd pv) col)"

lemma mput_commute: "k \<in> fst ` set m \<Longrightarrow> k \<noteq> l \<Longrightarrow> mput k v (mput l w m) = mput l w (mput k v m)"
  by (induction m) auto

lemma mput_same: "mput k v (mput k w m) = mput k v m"
  by (induction m) auto

definition with_conflict :: "field_stats \<Rightarrow> field_stats" where
  "with_conflict fs = fs\<lparr>fs_hasConflict := (nonNullTypeCount (fs_observedTypes fs) > 1)\<rparr>"

definition touched :: "nat \<Rightarrow> gvalue \<Rightarrow> field_stats \<Rightarrow> field_stats" where
  "touched now val fs = fs\<lparr>fs_sampleCount := fs_sampleCount fs + 1, fs_lastSeen := now,
     fs_observedTypes := bump (jsonTypeName val) (fs_observedTypes fs),
     fs_isArray := (fs_isArray fs \<or> jsonTypeName val = ''array''),
     fs_elementTypes := (case val of VArr arr \<Rightarrow> fold (\<lambda>elem. bump (jsonTypeName elem)) arr (fs_elementTypes fs)
        | _ \<Rightarrow> fs_elementTypes fs)\<rparr>"

definition stat_of :: "nat \<Rightarrow> collection_stats \<Rightarrow> string \<Rightarrow> field_stats" where
  "stat_of now col path = case_option (new_field now col) id (mget (cs_fields col) path)"

lemma touch_field_touched:
  "touch_field now path val col = col\<lparr>cs_fields := mput path (touched now val (stat_of now col path)) (cs_fields col)\<rparr>"
  by (cases val; cases "mget (cs_fields col) path") (simp_all add: touch_field_def touched_def stat_of_def Let_def)

lemma mark_conflict_put:
  "mark_conflict p (col\<lparr>cs_fields := mput p fs m\<rparr>) = col\<lparr>cs_fields := mput p (with_conflict fs) m\<rparr>"
  by (simp add: mark_conflict_def with_conflict_def mput_same)

lemma observe_path_fields:
  "observe_path now (p, v) col =
     col\<lparr>cs_fields := mput p (with_conflict (touched now v (stat_of now col p))) (cs_fields col)\<rparr>"
  by (simp add: observe_path_def touch_field_touched mark_conflict_put)

lemma with_conflict_simps [simp]:
  "with_conflict (with_conflict fs) = with_conflict fs"
  "with_conflict (touched now v (with_conflict fs)) = with_conflict (touched now v fs)"
  by (simp_all add: with_conflict_def touched_def split: gvalue.split)

lemma mark_conflict_Some:
  "mget (cs_fields col) q = Some fs \<Longrightarrow> mark_conflict q col = col\<lparr>cs_fields := mput q (with_conflict fs) (cs_fields col)\<rparr>"
  by (simp add: mark_conflict_def with_conflict_def)

lemma put_fst_set [simp]: "fst ` set (mput k v m) = insert k (fst ` set m)"
  using mkeys_put [of k v m] by simp

lemma mark_conflict_commute:
  assumes "q \<in> fst ` set (cs_fields col)"
  shows "mark_conflict q (observe_path now pv col) = observe_path now pv (mark_conflict q col)"
proof -
  obtain p v where pv: "pv = (p, v)" by (cases pv)
  obtain fs where fs: "mget (cs_fields col) q = Some fs" using assms mget_keys [of "cs_fields col" q] by auto
  show ?thesis
  proof (cases "p = q")
    case True
    then show ?thesis
      by (simp add: pv observe_path_fields mark_conflict_put stat_of_def fs mark_conflict_Some mput_same)
  next
    case False
    have "stat_of now (mark_conflict q col) p = stat_of now col p"
      using False by (simp add: stat_of_def mark_conflict_Some [OF fs] new_field_def cong: option.case_cong)
    with False fs show ?thesis
      by (simp add: pv observe_path_fields mark_conflict_Some mput_commute [OF assms])
  qed
qed

lemma observe_path_keys:
  "fst ` set (cs_fields (observe_path now pv col)) = insert (fst pv) (fst ` set (cs_fields col))"
  by (cases pv) (simp add: observe_path_fields)

lemma fold_observe_keys:
  "fst ` set (cs_fields (fold (observe_path now) pvs col)) = fst ` set pvs \<union> fst ` set (cs_fields col)"
  by (induction pvs arbitrary: col) (simp_all add: observe_path_keys)

lemma mark_conflict_fold:
  "q \<in> fst ` set (cs_fields col) \<Longrightarrow>
     mark_conflict q (fold (observe_path now) pvs col) = fold (observe_path now) pvs (mark_conflict q col)"
proof (induction pvs arbitrary: col)
  case (Cons pv pvs)
  then show ?case by (simp add: mark_conflict_commute observe_path_keys)
qed simp

lemma observeFields_paths:
  "observeFields now prefix depth data (col, present) =
     (fold (observe_path now) (record_paths prefix depth data) col,
      rev (map fst (record_paths prefix depth data)) @ present)"
proof (induction now prefix depth data "(col, present)" arbitrary: col present rule: observeFields.induct)
  case (1 now prefix depth data col present)
  show ?case
  proof (cases "depth \<ge> maxDepth \<or> data = []")
    case True
    then show ?thesis by (auto simp: observeFields.simps [of now prefix depth] record_paths.simps [of prefix depth])
  next
    case False
    then obtain key val rest where data: "data = (key, val) # rest" and d: "\<not> depth \<ge> maxDepth"
      by (cases data) auto
    let ?path = "field_path prefix key"
    let ?col = "touch_field now ?path val col"
    let ?inner = "case val of VObj nested \<Rightarrow> record_paths ?path (depth + 1) nested | _ \<Rightarrow> []"
    have inner: "(case val of VObj nested \<Rightarrow> observeFields now ?path (depth + 1) nested (?col, ?path # present)
          | _ \<Rightarrow> (?col, ?path # present)) =
        (fold (observe_path now) ?inner ?col, rev (map fst ?inner) @ ?path # present)"
      using "1.hyps"(1) [OF d data refl refl refl] by (cases val) auto
    have "?path \<in> fst ` set (cs_fields ?col)" by (simp add: touch_field_touched)
    then have c: "mark_conflict ?path (fold (observe_path now) ?inner ?col) =
        fold (observe_path now) ?inner (observe_path now (?path, val) col)"
      by (simp add: mark_conflict_fold observe_path_def)
    have "observeFields now prefix depth data (col, present) =
        observeFields now prefix depth rest
          (mark_conflict ?path (fold (observe_path now) ?inner ?col), rev (map fst ?inner) @ ?path # present)"
      using d by (subst observeFields.simps) (simp add: data inner Let_def)
    also have "\<dots> = (fold (observe_path now) (record_paths prefix depth rest)
          (mark_conflict ?path (fold (observe_path now) ?inner ?col)),
        rev (map fst (record_paths prefix depth rest)) @ rev (map fst ?inner) @ ?path # present)"
      using "1.hyps"(2) [OF d data refl refl refl] inner by simp
    finally show ?thesis
      using d by (simp add: c data record_paths.simps [of prefix depth "(key, val) # rest"] Let_def)
  qed
qed

text \<open>What a history of records holds at a path.\<close>

definition values_in :: "string \<Rightarrow> (string \<times> gvalue) list \<Rightarrow> gvalue list" where
  "values_in p pvs = map snd (filter (\<lambda>pv. fst pv = p) pvs)"

definition values_at :: "string \<Rightarrow> gobject list \<Rightarrow> gvalue list" where
  "values_at p recs = concat (map (\<lambda>r. values_in p (record_paths [] 0 r)) recs)"

definition has_path :: "string \<Rightarrow> gobject \<Rightarrow> bool" where
  "has_path p r \<longleftrightarrow> p \<in> fst ` set (record_paths [] 0 r)"

text \<open>A statistic summarises the values \<open>vs\<close>, with \<open>n\<close> records without the field.\<close>

definition summarises :: "field_stats \<Rightarrow> gvalue list \<Rightarrow> nat \<Rightarrow> bool" where
  "summarises fs vs n \<longleftrightarrow>
     fs_sampleCount fs = length vs \<and> fs_missingCount fs = n \<and>
     wf_map (fs_observedTypes fs) \<and> (\<forall>t. counted (fs_observedTypes fs) t = length (filter (\<lambda>v. jsonTypeName v = t) vs)) \<and>
     fs_isArray fs = (\<exists>v \<in> set vs. jsonTypeName v = ''array'') \<and>
     (vs \<noteq> [] \<longrightarrow> fs_hasConflict fs = (nonNullTypeCount (fs_observedTypes fs) > 1))"

definition stats_inv :: "nat \<Rightarrow> (string \<Rightarrow> gvalue list) \<Rightarrow> (string \<Rightarrow> nat) \<Rightarrow> collection_stats \<Rightarrow> bool" where
  "stats_inv n vals miss col \<longleftrightarrow> cs_recordCount col = n \<and> wf_map (cs_fields col) \<and>
     (\<forall>p. case mget (cs_fields col) p of None \<Rightarrow> vals p = [] | Some fs \<Rightarrow> vals p \<noteq> [] \<and> summarises fs (vals p) (miss p))"

lemma counted_bump: "counted (bump t m) u = (if u = t then counted m t + 1 else counted m u)"
  by (simp add: counted_def bump_def)

lemma summarises_touched:
  assumes "summarises fs vs n"
  shows "summarises (with_conflict (touched now v fs)) (vs @ [v]) n"
proof -
  have "wf_map (bump (jsonTypeName v) (fs_observedTypes fs))"
    using assms by (auto simp: summarises_def bump_def)
  with assms show ?thesis
    by (auto simp: summarises_def touched_def with_conflict_def counted_bump)
qed

lemma summarises_new:
  "summarises (new_field now col) [] (cs_recordCount col - 1)"
  by (simp add: summarises_def new_field_def counted_def wf_map_def)

lemma stats_inv_observe:
  assumes "stats_inv n vals miss col" and "vals (fst pv) = [] \<longrightarrow> miss (fst pv) = n - 1"
  shows "stats_inv n (vals(fst pv := vals (fst pv) @ [snd pv])) miss (observe_path now pv col)"
proof -
  obtain p v where pv: "pv = (p, v)" by (cases pv)
  have old: "case mget (cs_fields col) q of None \<Rightarrow> vals q = [] | Some fs \<Rightarrow> vals q \<noteq> [] \<and> summarises fs (vals q) (miss q)" for q
    using assms(1) by (simp add: stats_inv_def)
  have "summarises (stat_of now col p) (vals p) (miss p)"
  proof (cases "mget (cs_fields col) p")
    case None
    with old [of p] have "vals p = []" by simp
    with assms None show ?thesis using summarises_new [of now col] by (simp add: stat_of_def stats_inv_def pv)
  qed (use old [of p] in \<open>simp add: stat_of_def\<close>)
  then have new: "summarises (with_conflict (touched now v (stat_of now col p))) (vals p @ [v]) (miss p)"
    by (rule summarises_touched)
  show ?thesis unfolding stats_inv_def
  proof (intro conjI allI)
    show "cs_recordCount (observe_path now pv col) = n" using assms(1) by (simp add: pv observe_path_fields stats_inv_def)
    show "wf_map (cs_fields (observe_path now pv col))"
      using assms(1) by (auto simp: pv observe_path_fields stats_inv_def)
    show "case mget (cs_fields (observe_path now pv col)) q of None \<Rightarrow> (vals(fst pv := vals (fst pv) @ [snd pv])) q = []
      | Some fs \<Rightarrow> (vals(fst pv := vals (fst pv) @ [snd pv])) q \<noteq> [] \<and>
          summarises fs ((vals(fst pv := vals (fst pv) @ [snd pv])) q) (miss q)" for q
      using new old [of q] by (cases "q = p"; cases "mget (cs_fields col) q") (simp_all add: pv observe_path_fields)
  qed
qed

lemma values_in_Cons: "values_in q (pv # pvs) = (if fst pv = q then snd pv # values_in q pvs else values_in q pvs)"
  by (simp add: values_in_def)

lemma stats_inv_fold:
  assumes "stats_inv n vals miss col" and "\<forall>p. vals p = [] \<longrightarrow> miss p = n - 1"
  shows "stats_inv n (\<lambda>p. vals p @ values_in p pvs) miss (fold (observe_path now) pvs col)"
  using assms
proof (induction pvs arbitrary: vals col)
  case (Cons pv pvs)
  let ?vals = "vals(fst pv := vals (fst pv) @ [snd pv])"
  have "stats_inv n ?vals miss (observe_path now pv col)" using Cons.prems by (simp add: stats_inv_observe)
  moreover have "\<forall>p. ?vals p = [] \<longrightarrow> miss p = n - 1" using Cons.prems(2) by simp
  ultimately have "stats_inv n (\<lambda>p. ?vals p @ values_in p pvs) miss (fold (observe_path now) pvs (observe_path now pv col))"
    by (rule Cons.IH)
  moreover have "(\<lambda>p. ?vals p @ values_in p pvs) = (\<lambda>p. vals p @ values_in p (pv # pvs))"
    by (rule ext) (simp add: values_in_Cons)
  ultimately show ?case by simp
qed (simp add: values_in_def)

definition missing_in :: "string \<Rightarrow> gobject list \<Rightarrow> nat" where
  "missing_in p recs = length (filter (\<lambda>r. \<not> has_path p r) recs)"

lemma values_in_Nil_iff: "values_in p pvs = [] \<longleftrightarrow> p \<notin> fst ` set pvs"
  by (force simp: values_in_def filter_empty_conv)

lemma missing_all: "values_at p recs = [] \<Longrightarrow> missing_in p recs = length recs"
  by (induction recs) (auto simp: values_at_def missing_in_def has_path_def values_in_Nil_iff)

definition history_inv :: "gobject list \<Rightarrow> collection_stats \<Rightarrow> bool" where
  "history_inv recs = stats_inv (length recs) (\<lambda>p. values_at p recs) (\<lambda>p. missing_in p recs)"

lemma summarises_missing:
  "summarises fs vs n \<Longrightarrow> summarises (fs\<lparr>fs_missingCount := fs_missingCount fs + 1\<rparr>) vs (n + 1)"
  by (simp add: summarises_def)

lemma mget_map_values: "mget (map (\<lambda>(k, v). (k, f k v)) m) q = map_option (f q) (mget m q)"
  by (induction m) auto

lemma mget_filter_keys: "mget (filter (\<lambda>(k, v). P k) m) q = (if P q then mget m q else None)"
  by (induction m) auto

lemma history_inv_step:
  assumes "case existing of None \<Rightarrow> recs = [] | Some c \<Rightarrow> history_inv recs c"
  shows "history_inv (recs @ [data]) (observe_record now data existing)"
proof -
  let ?pvs = "record_paths [] 0 data"
  define col0 where "col0 = (case existing of Some c \<Rightarrow> c
     | None \<Rightarrow> \<lparr> cs_fields = [], cs_recordCount = 0, cs_firstSeen = now, cs_lastSeen = 0 \<rparr>)"
  define col1 where "col1 = (let col = col0\<lparr>cs_recordCount := cs_recordCount col0 + 1, cs_lastSeen := now\<rparr>
     in if cs_firstSeen col = 0 then col\<lparr>cs_firstSeen := now\<rparr> else col)"
  define col2 where "col2 = fold (observe_path now) ?pvs col1"
  let ?bump = "\<lambda>path fs. if path \<in> set (rev (map fst ?pvs) @ []) then fs else fs\<lparr>fs_missingCount := fs_missingCount fs + 1\<rparr>"
  have obs: "observe_record now data existing = col2\<lparr>cs_fields := map (\<lambda>(path, fs). (path, ?bump path fs)) (cs_fields col2)\<rparr>"
    by (simp add: observe_record_def col0_def [symmetric] observeFields_paths col1_def col2_def Let_def split_def)
  have "history_inv recs col0"
    using assms by (cases existing)
      (simp_all add: col0_def history_inv_def stats_inv_def values_at_def missing_in_def wf_map_def)
  then have "stats_inv (length recs + 1) (\<lambda>p. values_at p recs) (\<lambda>p. missing_in p recs) col1"
    by (simp add: col1_def history_inv_def stats_inv_def Let_def)
  then have inv2: "stats_inv (length recs + 1) (\<lambda>p. values_at p recs @ values_in p ?pvs) (\<lambda>p. missing_in p recs) col2"
    unfolding col2_def by (rule stats_inv_fold) (simp add: missing_all)
  have vals: "values_at p (recs @ [data]) = values_at p recs @ values_in p ?pvs" for p by (simp add: values_at_def)
  have fields: "case mget (map (\<lambda>(path, fs). (path, ?bump path fs)) (cs_fields col2)) p of None \<Rightarrow> values_at p (recs @ [data]) = []
      | Some fs \<Rightarrow> values_at p (recs @ [data]) \<noteq> [] \<and>
          summarises fs (values_at p (recs @ [data])) (missing_in p (recs @ [data]))" for p
  proof (cases "mget (cs_fields col2) p")
    case None
    with inv2 show ?thesis unfolding mget_map_values vals by (auto simp: stats_inv_def dest: spec [of _ p])
  next
    case (Some fs)
    with inv2 have s: "values_at p recs @ values_in p ?pvs \<noteq> []"
      "summarises fs (values_at p recs @ values_in p ?pvs) (missing_in p recs)"
      by (auto simp: stats_inv_def dest: spec [of _ p])
    show ?thesis
    proof (cases "has_path p data")
      case True
      with s show ?thesis by (simp add: mget_map_values Some vals missing_in_def has_path_def)
    next
      case False
      with s summarises_missing [OF s(2)] show ?thesis
        by (simp add: mget_map_values Some vals missing_in_def has_path_def)
    qed
  qed
  have "map fst (map (\<lambda>(path, fs). (path, ?bump path fs)) (cs_fields col2)) = map fst (cs_fields col2)"
    by (simp add: split_def)
  with inv2 have wf: "wf_map (map (\<lambda>(path, fs). (path, ?bump path fs)) (cs_fields col2))"
    by (simp only: wf_map_def stats_inv_def)
  have "cs_recordCount (observe_record now data existing) = length (recs @ [data])"
    "cs_fields (observe_record now data existing) = map (\<lambda>(path, fs). (path, ?bump path fs)) (cs_fields col2)"
    using inv2 by (simp_all add: obs stats_inv_def)
  with wf fields show ?thesis unfolding history_inv_def stats_inv_def by (simp only: simp_thms)
qed

text \<open>A sequence of calls of \<^verbatim>\<open>Observe\<close>, whatever becomes of the file.\<close>

type_synonym observation = "persist_outcome \<times> nat \<times> string \<times> gobject"

definition observe_all :: "observation list \<Rightarrow> catalogue \<Rightarrow> catalogue" where
  "observe_all = fold (\<lambda>(io, now, coll, data) c. snd (Observe io now coll data c))"

definition records_of :: "string \<Rightarrow> observation list \<Rightarrow> gobject list" where
  "records_of coll obs = map (\<lambda>(io, now, c, data). data) (filter (\<lambda>(io, now, c, data). c = coll) obs)"

definition empty_catalogue :: catalogue where
  "empty_catalogue = \<lparr> cat_data = [], cat_file = None \<rparr>"

lemma Observe_data:
  "cat_data (snd (Observe io now coll data c)) = mput coll (observe_record now data (mget (cat_data c) coll)) (cat_data c)"
  by (cases io) (simp_all add: Observe_def persist_def)

lemma observe_all_inv:
  "case mget (cat_data (observe_all obs empty_catalogue)) coll of
      None \<Rightarrow> records_of coll obs = [] | Some col \<Rightarrow> history_inv (records_of coll obs) col \<and> records_of coll obs \<noteq> []"
proof (induction obs rule: rev_induct)
  case Nil
  show ?case by (simp add: observe_all_def empty_catalogue_def records_of_def)
next
  case (snoc ob obs)
  obtain io now c data where ob: "ob = (io, now, c, data)" by (cases ob) auto
  let ?cat = "observe_all obs empty_catalogue"
  have app: "observe_all (obs @ [ob]) empty_catalogue = snd (Observe io now c data ?cat)"
    by (simp add: observe_all_def ob)
  show ?case
  proof (cases "c = coll")
    case True
    have "case mget (cat_data ?cat) coll of None \<Rightarrow> records_of coll obs = [] | Some col \<Rightarrow> history_inv (records_of coll obs) col"
      using snoc.IH by (auto split: option.splits)
    from history_inv_step [OF this] True show ?thesis
      unfolding app Observe_data by (simp add: records_of_def ob)
  next
    case False
    then have "records_of coll (obs @ [ob]) = records_of coll obs" by (simp add: records_of_def ob)
    with snoc.IH False show ?thesis unfolding app Observe_data by (simp split: option.splits)
  qed
qed

lemma two_elements: "1 < length xs \<and> distinct xs \<longleftrightarrow> distinct xs \<and> (\<exists>a \<in> set xs. \<exists>b \<in> set xs. a \<noteq> b)"
  by (cases xs; cases "tl xs") auto

lemma nonNullTypeCount_conflict:
  assumes "wf_map m"
  shows "1 < nonNullTypeCount m \<longleftrightarrow>
    (\<exists>t u. t \<noteq> u \<and> t \<noteq> ''null'' \<and> u \<noteq> ''null'' \<and> 0 < counted m t \<and> 0 < counted m u)"
proof -
  let ?ts = "map fst (filter (\<lambda>(t, cnt). t \<noteq> ''null'' \<and> cnt > 0) m)"
  have d: "distinct ?ts" using assms by (simp add: wf_map_def distinct_map_filter)
  have m: "t \<in> set ?ts \<longleftrightarrow> t \<noteq> ''null'' \<and> 0 < counted m t" for t
    using mget_in_set [OF assms] by (force simp: counted_def split: option.splits)
  have "1 < length ?ts \<longleftrightarrow> (\<exists>a \<in> set ?ts. \<exists>b \<in> set ?ts. a \<noteq> b)" using two_elements [of ?ts] d by blast
  then show ?thesis unfolding nonNullTypeCount_def Bex_def m by auto
qed

lemma length_filter_pos: "0 < length (filter P xs) \<longleftrightarrow> (\<exists>x \<in> set xs. P x)"
  by (auto simp: length_greater_0_conv filter_empty_conv simp del: length_0_conv)

lemma summarises_conflict:
  assumes "summarises fs vs n" and "vs \<noteq> []"
  shows "fs_hasConflict fs \<longleftrightarrow> (\<exists>v \<in> set vs. \<exists>w \<in> set vs. v \<noteq> VNil \<and> w \<noteq> VNil \<and> jsonTypeName v \<noteq> jsonTypeName w)"
proof -
  have null: "jsonTypeName v = ''null'' \<longleftrightarrow> v = VNil" for v by (cases v) auto
  have wf: "wf_map (fs_observedTypes fs)" using assms(1) by (simp add: summarises_def)
  have c: "0 < counted (fs_observedTypes fs) t \<longleftrightarrow> (\<exists>v \<in> set vs. jsonTypeName v = t)" for t
    using assms(1) length_filter_pos [of "\<lambda>v. jsonTypeName v = t" vs] by (simp only: summarises_def)
  have "fs_hasConflict fs \<longleftrightarrow> 1 < nonNullTypeCount (fs_observedTypes fs)"
    using assms by (simp add: summarises_def)
  also have "\<dots> \<longleftrightarrow> (\<exists>v \<in> set vs. \<exists>w \<in> set vs. v \<noteq> VNil \<and> w \<noteq> VNil \<and> jsonTypeName v \<noteq> jsonTypeName w)"
    unfolding nonNullTypeCount_conflict [OF wf] c using null by blast
  finally show ?thesis .
qed

text \<open>Without two equal paths in a record, a path is sampled at most once per record.\<close>

lemma values_in_distinct: "distinct (map fst pvs) \<Longrightarrow> length (values_in p pvs) = (if p \<in> fst ` set pvs then 1 else 0)"
proof (induction pvs)
  case (Cons pv pvs)
  then show ?case
    by (cases "fst pv = p") (auto simp: values_in_Cons values_in_Nil_iff image_iff)
qed (simp add: values_in_def)

lemma sampled_once:
  assumes "\<forall>r \<in> set recs. distinct (map fst (record_paths [] 0 r))"
  shows "length (values_at p recs) + missing_in p recs = length recs"
  using assms
proof (induction recs)
  case (Cons r recs)
  then have "length (values_in p (record_paths [] 0 r)) = (if has_path p r then 1 else 0)"
    by (simp add: values_in_distinct has_path_def)
  with Cons show ?case by (auto simp: values_at_def missing_in_def)
qed (simp add: values_at_def missing_in_def)

lemma json_types: "v \<noteq> VNil \<Longrightarrow> mapped_type (jsonTypeName v)"
  by (cases v) (simp_all add: mapped_type_def)

lemma first_type_cases:
  "(first_type m = ''any'' \<and> (\<forall>(t, cnt) \<in> set m. t = ''null'' \<or> cnt = 0 \<or> \<not> mapped_type t)) \<or>
   (\<exists>cnt. (first_type m, cnt) \<in> set m \<and> first_type m \<noteq> ''null'' \<and> 0 < cnt \<and> mapped_type (first_type m))"
proof (induction m)
  case (Cons tc m)
  obtain t cnt where tc: "tc = (t, cnt)" by (cases tc)
  show ?case
  proof (cases "t = ''null'' \<or> cnt = 0 \<or> \<not> mapped_type t")
    case True
    then have "first_type (tc # m) = first_type m" by (auto simp only: tc first_type.simps if_cancel split: if_splits)
    with Cons True show ?thesis by (simp only: tc list.set) blast
  next
    case False
    then have f: "first_type (tc # m) = t" unfolding tc first_type.simps by presburger
    have "(t, cnt) \<in> set (tc # m) \<and> t \<noteq> ''null'' \<and> 0 < cnt \<and> mapped_type t" using False by (simp add: tc)
    then show ?thesis unfolding f by blast
  qed
qed simp

text \<open>The type of a field is the only JSON type its values other than null have.\<close>

lemma summarises_type:
  assumes "summarises fs vs n" and "vs \<noteq> []"
  shows "resolveFieldType fs = t \<and> t \<noteq> ''any'' \<longleftrightarrow>
    (\<exists>v \<in> set vs. v \<noteq> VNil \<and> jsonTypeName v = t) \<and> (\<forall>v \<in> set vs. v \<noteq> VNil \<longrightarrow> jsonTypeName v = t)"
proof -
  let ?m = "fs_observedTypes fs"
  have wf: "wf_map ?m" using assms(1) by (simp add: summarises_def)
  have c: "(\<exists>v \<in> set vs. jsonTypeName v = u) \<longleftrightarrow> 0 < counted ?m u" for u
    using assms(1) length_filter_pos [of "\<lambda>v. jsonTypeName v = u" vs] by (simp only: summarises_def)
  have cnt: "0 < counted ?m u \<longleftrightarrow> (\<exists>k. (u, k) \<in> set ?m \<and> 0 < k)" for u
    using mget_in_set [OF wf, of u] by (auto simp: counted_def split: option.splits)
  have null: "jsonTypeName v = ''null'' \<longleftrightarrow> v = VNil" for v by (cases v) auto
  have any: "\<not> mapped_type ''any''" by (simp add: mapped_type_def)
  show ?thesis
  proof (cases "fs_hasConflict fs")
    case True
    with summarises_conflict [OF assms] show ?thesis unfolding resolveFieldType_def by (simp only: if_True) metis
  next
    case False
    then have r: "resolveFieldType fs = first_type ?m" by (simp add: resolveFieldType_def)
    have same: "\<forall>v \<in> set vs. \<forall>w \<in> set vs. v \<noteq> VNil \<and> w \<noteq> VNil \<longrightarrow> jsonTypeName v = jsonTypeName w"
      using False summarises_conflict [OF assms] by blast
    from first_type_cases [of ?m] show ?thesis
    proof
      assume a: "first_type ?m = ''any'' \<and> (\<forall>(t, cnt) \<in> set ?m. t = ''null'' \<or> cnt = 0 \<or> \<not> mapped_type t)"
      have "v = VNil" if "v \<in> set vs" for v
      proof (rule ccontr)
        assume n: "v \<noteq> VNil"
        from that c cnt obtain k where "(jsonTypeName v, k) \<in> set ?m" "0 < k" by blast
        with a n null json_types show False by fastforce
      qed
      with a r show ?thesis by auto
    next
      assume "\<exists>k. (first_type ?m, k) \<in> set ?m \<and> first_type ?m \<noteq> ''null'' \<and> 0 < k \<and> mapped_type (first_type ?m)"
      then have f: "0 < counted ?m (first_type ?m)" "first_type ?m \<noteq> ''null''" "first_type ?m \<noteq> ''any''"
        using cnt any by (blast, blast, metis)
      then obtain v where "v \<in> set vs" "jsonTypeName v = first_type ?m" "v \<noteq> VNil" using c null by metis
      with same f r show ?thesis by metis
    qed
  qed
qed

lemma catalogue_fields_known:
  assumes "mget (cat_data (observe_all obs empty_catalogue)) coll = Some col"
  shows "values_at p (records_of coll obs) \<noteq> [] \<Longrightarrow> \<exists>fs. mget (cs_fields col) p = Some fs"
  using observe_all_inv [where obs = obs and coll = coll] assms
  by (cases "mget (cs_fields col) p") (auto simp: history_inv_def stats_inv_def dest: spec [of _ p])

section \<open>Properties\<close>


text \<open>
  The fields derived for a collection are right: a top-level path gets the type \<open>t\<close>, other than
  \<^verbatim>\<open>any\<close>, exactly when some observed value of it has the JSON type \<open>t\<close> and every observed value that
  is not null has that type; no derived field is required.
\<close>

theorem inferred_types_are_observed:
  assumes "mget (cat_data (observe_all obs empty_catalogue)) coll = Some col"
    and "mget (cs_fields col) p = Some fs" and "\<not> containsDot p"
  shows "\<exists>fields f. FieldsForCollection (observe_all obs empty_catalogue) coll = Some fields \<and> mget fields p = Some f \<and>
    \<not> f_required f \<and> (\<forall>t. f_type f = t \<and> t \<noteq> ''any'' \<longleftrightarrow>
      (\<exists>v \<in> set (values_at p (records_of coll obs)). v \<noteq> VNil \<and> jsonTypeName v = t) \<and>
      (\<forall>v \<in> set (values_at p (records_of coll obs)). v \<noteq> VNil \<longrightarrow> jsonTypeName v = t))"
proof -
  let ?recs = "records_of coll obs"
  have "history_inv ?recs col" using observe_all_inv [where obs = obs and coll = coll] assms(1) by simp
  then have s: "summarises fs (values_at p ?recs) (missing_in p ?recs)" "values_at p ?recs \<noteq> []"
    and wf: "wf_map (cs_fields col)"
    using assms(2) by (auto simp: history_inv_def stats_inv_def dest: spec [of _ p])
  have "mget (map (\<lambda>(path, fs). (path, optional_field (resolveFieldType fs))) (filter (\<lambda>(path, fs). \<not> containsDot path) (cs_fields col))) p
      = Some (optional_field (resolveFieldType fs))"
    unfolding mget_map_values [of "\<lambda>path fs. optional_field (resolveFieldType fs)"] mget_filter_keys
    using assms(2,3) by simp
  moreover have "FieldsForCollection (observe_all obs empty_catalogue) coll = Some
      (map (\<lambda>(path, fs). (path, optional_field (resolveFieldType fs))) (filter (\<lambda>(path, fs). \<not> containsDot path) (cs_fields col)))"
    by (simp add: FieldsForCollection_def assms(1))
  ultimately show ?thesis using summarises_type [OF s] by (intro exI conjI) (assumption, assumption, auto simp: optional_field_def)
qed

theorem inferred_types_are_observed_witness:
  "\<exists>fields f. FieldsForCollection (observe_all [(PersistOk, 1, ''c'', [(''a'', VBool True)])] empty_catalogue) ''c'' = Some fields \<and>
     mget fields ''a'' = Some f \<and> f_type f = ''boolean''"
proof -
  let ?obs = "[(PersistOk, 1, ''c'', [(''a'', VBool True)])]"
  obtain col where c: "mget (cat_data (observe_all ?obs empty_catalogue)) ''c'' = Some col"
    using observe_all_inv [where obs = ?obs and coll = "''c''"] by (auto simp: records_of_def split: option.splits)
  have v: "values_at ''a'' (records_of ''c'' ?obs) = [VBool True]"
    by (simp add: values_at_def records_of_def values_in_def record_paths_Cons record_paths_Nil field_path_def maxDepth_def)
  from catalogue_fields_known [OF c] v obtain fs where "mget (cs_fields col) ''a'' = Some fs"
    by (metis list.distinct(1))
  moreover have "\<not> containsDot ''a''" by code_simp
  ultimately show ?thesis using inferred_types_are_observed [OF c, of "''a''" fs] unfolding v by auto
qed

text \<open>
  A dotted key and a nested object that spell the same path are counted as two samples of one record.
\<close>

theorem colliding_paths_are_counted_twice:
  "\<exists>col fs. mget (cat_data (observe_all [(PersistOk, 1, ''c'', [(''a.b'', VBool True), (''a'', VObj [(''b'', VNil)])])]
       empty_catalogue)) ''c'' = Some col \<and> mget (cs_fields col) ''a.b'' = Some fs \<and>
     cs_recordCount col = 1 \<and> fs_sampleCount fs = 2"
  by (simp add: observe_all_def empty_catalogue_def Observe_data observe_record_def observeFields_Cons observeFields_Nil maxDepth_def
      field_path_def touch_field_def mark_conflict_def new_field_def Let_def)

end
