(* ===== verification/Batch.thy ===== *)
theory Batch
  imports Database Inferred
begin

text \<open>
  \<^verbatim>\<open>src/pkg/core/core.go\<close> and \<^verbatim>\<open>infer.go\<close>, \<^verbatim>\<open>unreachable.go\<close>, \<^verbatim>\<open>provision_error.go\<close>: reads by key, the list of
  collections, and write batches. A batch is refused or simulated before the first write, then handed
  to the driver in one transaction, then observed.

  The storage driver is third-party code: a record of functions over its own state \<open>'s\<close>. A call
  returns an error or not, and the state it leaves in either case; \<open>drv_end\<close> is what becomes of the
  state when the body of a transaction has returned, so that a driver which cannot roll back is a driver
  too. The text of a key (\<open>key_string\<close>) is a function of the record library. The write lock makes each
  batch one step. Values are copied, not shared: a batch in which an update stores an object and a
  later update of the same record writes inside that object is outside this model, since there the code
  changes the value that the driver is given.
\<close>

section \<open>The driver\<close>

record drv_error =
  de_connection :: "string option"
  de_canceled :: bool
  de_unsupported :: bool

datatype dbschema_type = DBString | DBFloat | DBInt | DBBool

record field_def =
  fd_name :: string
  fd_type :: dbschema_type
  fd_nullable :: bool

record collection_def =
  cd_name :: string
  cd_fields :: "field_def list"
  cd_primaryKey :: "string list"

record foreign_key =
  fk_referencedNamespace :: string
  fk_referencedCollection :: string

type_synonym 's effect = "'s \<Rightarrow> drv_error option \<times> 's"

record 's driver =
  drv_get :: "rkey \<Rightarrow> 's \<Rightarrow> drv_error + gobject option"
  drv_exists :: "rkey \<Rightarrow> 's \<Rightarrow> drv_error + bool"
  drv_set :: "rkey \<Rightarrow> gobject option \<Rightarrow> 's effect"
  drv_insert :: "rkey \<Rightarrow> gobject option \<Rightarrow> 's effect"
  drv_update :: "rkey \<Rightarrow> dal_update list \<Rightarrow> 's effect"
  drv_delete :: "rkey \<Rightarrow> 's effect"
  drv_create :: "(collection_def \<Rightarrow> 's effect) option"
  drv_list :: "('s \<Rightarrow> drv_error + string list) option"
  drv_describe :: "(string option \<times> string \<Rightarrow> 's \<Rightarrow> drv_error + foreign_key list option) option"
  drv_end :: "string \<Rightarrow> drv_error option \<Rightarrow> 's \<Rightarrow> 's effect"

section \<open>Errors\<close>

datatype db_error =
    ReadOnlyOperation read_only_error
  | GuardRefused guard_error
  | GuardRefusedAt nat guard_error
  | RecordNotFound rkey
  | AlreadyExists rkey
  | UpdateOfMissingRecord rkey
  | KeyRequired nat
  | LoadFailed nat db_error
  | EmptyWriteOfExisting nat rkey
  | UpdateRefused nat update_error
  | UnknownOp nat string
  | InvalidRecord validation_error
  | OpFailed string rkey drv_error
  | FromDriver drv_error
  | EnsureFailed string drv_error
  | ProvisionFailed string string
  | ObservationFailed persist_outcome
  | AfterWriteFailed drv_error
  | UnreachableDatabase string string

text \<open>The driver error inside, and \<^verbatim>\<open>errors.Is(err, ErrNotFound)\<close>.\<close>

fun driver_cause :: "db_error \<Rightarrow> drv_error option" where
  "driver_cause (LoadFailed _ e) = driver_cause e"
| "driver_cause (OpFailed _ _ e) = Some e"
| "driver_cause (FromDriver e) = Some e"
| "driver_cause (EnsureFailed _ e) = Some e"
| "driver_cause (AfterWriteFailed e) = Some e"
| "driver_cause _ = None"

fun is_not_found :: "db_error \<Rightarrow> bool" where
  "is_not_found (RecordNotFound _) = True"
| "is_not_found (GuardRefused e) = (wraps e = ENotFound)"
| "is_not_found _ = False"

text \<open>\<^verbatim>\<open>unreachableOf\<close> and \<^verbatim>\<open>reached\<close>; \<open>ended\<close> says that the context of the request has ended.\<close>

definition unreachableOf :: "database \<Rightarrow> db_error \<Rightarrow> db_error option" where
  "unreachableOf d e =
     (case driver_cause e of
        None \<Rightarrow> None
      | Some c \<Rightarrow> map_option (UnreachableDatabase (db_id (m_database (d_manifest d)))) (de_connection c))"

definition reached :: "bool \<Rightarrow> database \<Rightarrow> db_error \<Rightarrow> db_error" where
  "reached ended d e = (if ended then e else case unreachableOf d e of Some u \<Rightarrow> u | None \<Rightarrow> e)"

text \<open>\<^verbatim>\<open>provisionError\<close>: the reason is one of three sentences.\<close>

definition provisionError :: "string \<Rightarrow> drv_error \<Rightarrow> db_error" where
  "provisionError coll e = ProvisionFailed coll
     (if de_canceled e then ''the request timed out or was canceled''
      else if de_unsupported e then ''the adapter does not support it''
      else ''the table could not be created'')"

section \<open>Reads\<close>

text \<open>
  \<^verbatim>\<open>coerceToSchema\<close>: the maps are ranged over in the order of their lists. The loop that renames keys
  inserts into the map it ranges over; an inserted key has its declared case already, and visiting it
  too changes nothing when the declared names differ in more than case.
\<close>

definition lower_to_declared :: "std_api \<Rightarrow> collection \<Rightarrow> (string, string) gomap" where
  "lower_to_declared std col = fold (\<lambda>name. mput (to_lower std name) name) (mkeys (c_fields col)) []"

definition rename_key :: "std_api \<Rightarrow> (string, string) gomap \<Rightarrow> string \<Rightarrow> gobject \<Rightarrow> gobject" where
  "rename_key std lower key data =
     (case mget lower (to_lower std key) of
        None \<Rightarrow> data
      | Some declared \<Rightarrow>
         if declared = key then data
         else mdel key (mput declared (case_option VNil id (mget data key)) data))"

definition coerce_boolean :: "string \<times> field \<Rightarrow> gobject \<Rightarrow> gobject" where
  "coerce_boolean nf data =
     (if f_type (snd nf) \<noteq> ''boolean'' then data
      else case mget data (fst nf) of
          Some (VInt Kint64 v) \<Rightarrow> mput (fst nf) (VBool (v \<noteq> 0)) data
        | Some (VFloat v) \<Rightarrow> mput (fst nf) (VBool (v \<noteq> Fin 0)) data
        | _ \<Rightarrow> data)"

definition coerceToSchema :: "std_api \<Rightarrow> database \<Rightarrow> string \<Rightarrow> gobject \<Rightarrow> gobject" where
  "coerceToSchema std d coll data =
     (case schemaCollection d coll of
        None \<Rightarrow> data
      | Some col \<Rightarrow>
         fold coerce_boolean (c_fields col)
           (fold (rename_key std (lower_to_declared std col)) (mkeys data) data))"

definition Get :: "std_api \<Rightarrow> 's driver \<Rightarrow> bool \<Rightarrow> database \<Rightarrow> rkey \<Rightarrow> 's \<Rightarrow> db_error + gobject" where
  "Get std drv ended d key s =
     (if \<not> KeyedRecordReadsServed d then Inl (ReadOnlyOperation (readOnlyOperationError d))
      else case GuardKey d (Some key) of
          Some e \<Rightarrow> Inl (GuardRefused e)
        | None \<Rightarrow>
           (case drv_get drv (adapterKey d key) s of
              Inl e \<Rightarrow> Inl (reached ended d (FromDriver e))
            | Inr None \<Rightarrow> Inl (RecordNotFound key)
            | Inr (Some data) \<Rightarrow> Inr (coerceToSchema std d (key_collection key) data)))"

definition Exists :: "'s driver \<Rightarrow> bool \<Rightarrow> database \<Rightarrow> rkey \<Rightarrow> 's \<Rightarrow> db_error + bool" where
  "Exists drv ended d key s =
     (if \<not> KeyedRecordReadsServed d then Inl (ReadOnlyOperation (readOnlyOperationError d))
      else case GuardKey d (Some key) of
          Some e \<Rightarrow> Inl (GuardRefused e)
        | None \<Rightarrow>
           (case drv_exists drv (adapterKey d key) s of
              Inl e \<Rightarrow> Inl (reached ended d (FromDriver e))
            | Inr b \<Rightarrow> Inr b))"

definition reportedName :: "database \<Rightarrow> string \<Rightarrow> string" where
  "reportedName d name =
     (if \<not> d_foldsIdentifiers d then name
      else map (\<lambda>c. if 0x41 \<le> byte c \<and> byte c \<le> 0x5A then char_of (byte c + 0x20) else c) name)"

text \<open>\<^verbatim>\<open>Collections\<close>; a nil slice is the empty list.\<close>

definition Collections :: "'s driver \<Rightarrow> bool \<Rightarrow> database \<Rightarrow> 's \<Rightarrow> db_error + string list" where
  "Collections drv ended d s =
     (if d_nativePostgres d then Inr (sort (mkeys (d_nativeSources d)))
      else if ReadOnly d then Inr (sort (mkeys (n_spellings (d_names d))))
      else case drv_list drv of
          None \<Rightarrow> Inr []
        | Some lister \<Rightarrow>
           (case lister s of
              Inl e \<Rightarrow> Inl (reached ended d (FromDriver e))
            | Inr refs \<Rightarrow>
               if d_documentEngine d then Inr (sort refs)
               else Inr (sort (filter (\<lambda>canonical. reportedName d canonical \<in> reportedName d ` set refs)
                      (mkeys (n_spellings (d_names d)))))))"

definition CollectionForeignKeys :: "'s driver \<Rightarrow> bool \<Rightarrow> database \<Rightarrow> string \<Rightarrow> 's \<Rightarrow> db_error + foreign_key list" where
  "CollectionForeignKeys drv ended d name s =
     (let served = d_servingKeys d \<noteq> [] in
      case (if served then GuardCollection d name else None) of
        Some e \<Rightarrow> Inl (GuardRefused e)
      | None \<Rightarrow>
         (let coll = (if served then case_option [] id (CanonicalCollection (d_names d) name) else name) in
          case drv_describe drv of
            None \<Rightarrow> Inr []
          | Some describe \<Rightarrow>
             (case describe (case mget (d_nativeSources d) coll of
                  Some src \<Rightarrow> (Some (ns_schema src), ns_name src) | None \<Rightarrow> (None, coll)) s of
                Inl e \<Rightarrow> if de_unsupported e then Inr [] else Inl (reached ended d (FromDriver e))
              | Inr None \<Rightarrow> Inr []
              | Inr (Some fks) \<Rightarrow>
                 Inr (if served then filter (\<lambda>fk. CanonicalCollection (d_names d) (fk_referencedCollection fk) \<noteq> None \<and>
                        fk_referencedNamespace fk = []) fks else fks))))"

definition ServingKey :: "database \<Rightarrow> string \<Rightarrow> string option" where
  "ServingKey d name =
     (case CanonicalCollection (d_names d) name of None \<Rightarrow> None | Some canonical \<Rightarrow> mget (d_servingKeys d) canonical)"

definition HasImmutableSQLiteKeys :: "database \<Rightarrow> bool" where
  "HasImmutableSQLiteKeys d \<longleftrightarrow> queryEngine d = ''sqlite'' \<and> d_servingKeys d \<noteq> [] \<and>
     length (d_servingKeys d) = length (n_spellings (d_names d)) \<and> d_sqliteLockWait d = 0"

section \<open>Inference and provisioning\<close>

text \<open>\<^verbatim>\<open>deepCopy\<close>, \<^verbatim>\<open>jsonFieldType\<close> and \<^verbatim>\<open>inferFields\<close>; of the integer types only two count as numbers.\<close>

definition deepCopy :: "gobject option \<Rightarrow> gobject option" where
  "deepCopy m = map_option (\<lambda>m. if json_encodable (VObj m) then
     (case json_value (VObj m) of VObj out \<Rightarrow> out | _ \<Rightarrow> []) else m) m"

fun jsonFieldType :: "gvalue \<Rightarrow> string" where
  "jsonFieldType (VStr _) = ''string''"
| "jsonFieldType (VBool _) = ''boolean''"
| "jsonFieldType (VFloat _) = ''number''"
| "jsonFieldType (VInt k _) = (if k = Kint \<or> k = Kint64 then ''number'' else ''any'')"
| "jsonFieldType (VNumber _) = ''number''"
| "jsonFieldType (VObj _) = ''object''"
| "jsonFieldType (VArr _) = ''array''"
| "jsonFieldType VNil = ''any''"

definition inferFields :: "gobject \<Rightarrow> (string, field) gomap" where
  "inferFields data = map (\<lambda>(name, v). (name, optional_field (jsonFieldType v))) data"

definition dbschemaType :: "string \<Rightarrow> dbschema_type" where
  "dbschemaType t =
     (if t = ''string'' then DBString else if t = ''number'' then DBFloat else if t = ''decimal'' then DBString
      else if t = ''integer'' then DBInt else if t = ''boolean'' then DBBool else DBString)"

text \<open>\<^verbatim>\<open>ensureCollection\<close>; the first field is the primary key.\<close>

definition collection_definition :: "string \<Rightarrow> (string, field) gomap \<Rightarrow> collection_def" where
  "collection_definition coll flds =
     \<lparr> cd_name = coll,
       cd_fields = \<lparr> fd_name = ''id'', fd_type = DBString, fd_nullable = False \<rparr> #
         map (\<lambda>name. case mget flds name of
              Some f \<Rightarrow> \<lparr> fd_name = name, fd_type = dbschemaType (f_type f), fd_nullable = \<not> f_required f \<rparr>
            | None \<Rightarrow> \<lparr> fd_name = name, fd_type = dbschemaType [], fd_nullable = True \<rparr>)
           (sort (filter (\<lambda>name. name \<noteq> ''id'') (mkeys flds))),
       cd_primaryKey = [''id''] \<rparr>"

definition ensureCollection ::
    "'s driver \<Rightarrow> database \<Rightarrow> string \<Rightarrow> (string, field) gomap \<Rightarrow> 's \<Rightarrow> db_error option \<times> 's" where
  "ensureCollection drv d coll flds s =
     (if mget (d_servingKeys d) coll \<noteq> None then (None, s)
      else case drv_create drv of
          None \<Rightarrow> (None, s)
        | Some create \<Rightarrow>
           (case create (collection_definition coll flds) s of
              (None, s') \<Rightarrow> (None, s')
            | (Some e, s') \<Rightarrow>
               (Some (if queryEngine d \<in> serverEngines then provisionError coll e else EnsureFailed coll e), s')))"

text \<open>The loops of \<^verbatim>\<open>apply\<close> that provision the collections of a batch.\<close>

fun ensure_chains :: "'s driver \<Rightarrow> database \<Rightarrow> gobject \<Rightarrow> string list \<Rightarrow> string list \<times> 's \<Rightarrow>
    db_error option \<times> string list \<times> 's" where
  "ensure_chains drv d data [] (ensured, s) = (None, ensured, s)"
| "ensure_chains drv d data (chain # rest) (ensured, s) =
     (if chain \<in> set ensured then ensure_chains drv d data rest (ensured, s)
      else case ensureCollection drv d chain (if rest = [] then inferFields data else []) s of
          (Some e, s') \<Rightarrow> (Some e, ensured, s')
        | (None, s') \<Rightarrow> ensure_chains drv d data rest (chain # ensured, s'))"

fun ensure_ops :: "'s driver \<Rightarrow> database \<Rightarrow> op list \<Rightarrow> string list \<times> 's \<Rightarrow> db_error option \<times> 's" where
  "ensure_ops drv d [] (ensured, s) = (None, s)"
| "ensure_ops drv d (opn # ops) (ensured, s) =
     (case (op_data opn, op_key opn) of
        (Some data, Some key) \<Rightarrow>
          (case ensure_chains drv d data (collectionChains key) (ensured, s) of
             (Some e, ensured', s') \<Rightarrow> (Some e, s')
           | (None, ensured', s') \<Rightarrow> ensure_ops drv d ops (ensured', s'))
      | _ \<Rightarrow> ensure_ops drv d ops (ensured, s))"

section \<open>Validation of a batch\<close>

record staged_state =
  sg_data :: "gobject option"
  sg_exists :: bool

record staging =
  sg_stage :: "(string, staged_state) gomap"
  sg_leaf :: "(string, string) gomap"

text \<open>The closure \<^verbatim>\<open>load\<close>.\<close>

definition load_staged :: "std_api \<Rightarrow> 's driver \<Rightarrow> (rkey \<Rightarrow> string) \<Rightarrow> bool \<Rightarrow> database \<Rightarrow> 's \<Rightarrow> rkey \<Rightarrow> staging \<Rightarrow>
    db_error + staged_state" where
  "load_staged std drv key_string ended d s key g =
     (case mget (sg_stage g) (key_string key) of
        Some st \<Rightarrow> Inr st
      | None \<Rightarrow>
         (case Get std drv ended d key s of
            Inr data \<Rightarrow> Inr \<lparr> sg_data = Some data, sg_exists = True \<rparr>
          | Inl e \<Rightarrow> if is_not_found e then Inr \<lparr> sg_data = None, sg_exists = False \<rparr> else Inl e))"

definition stage_op :: "database \<Rightarrow> string \<Rightarrow> nat \<Rightarrow> op \<Rightarrow> rkey \<Rightarrow> staged_state \<Rightarrow> db_error + staged_state" where
  "stage_op d now i opn key st =
     (if op_op opn = ''set'' then
        (if sg_exists st \<and> setsNoColumn d (op_data opn) then Inl (EmptyWriteOfExisting i key)
         else Inr \<lparr> sg_data = deepCopy (op_data opn), sg_exists = True \<rparr>)
      else if op_op opn = ''insert'' then
        (if sg_exists st then Inl (AlreadyExists key)
         else Inr \<lparr> sg_data = deepCopy (op_data opn), sg_exists = True \<rparr>)
      else if op_op opn = ''update'' then
        (if \<not> sg_exists st then Inl (UpdateOfMissingRecord key)
         else case applyUpdates now (case_option [] id (sg_data st)) (op_updates opn) of
             Inl e \<Rightarrow> Inl (UpdateRefused i e)
           | Inr data \<Rightarrow> Inr \<lparr> sg_data = Some data, sg_exists = True \<rparr>)
      else if op_op opn = ''delete'' then Inr \<lparr> sg_data = None, sg_exists = False \<rparr>
      else Inl (UnknownOp i (op_op opn)))"

fun stage_ops :: "std_api \<Rightarrow> 's driver \<Rightarrow> (rkey \<Rightarrow> string) \<Rightarrow> bool \<Rightarrow> database \<Rightarrow> string \<Rightarrow> 's \<Rightarrow> nat \<Rightarrow> op list \<Rightarrow> staging \<Rightarrow>
    db_error + staging" where
  "stage_ops std drv key_string ended d now s i [] g = Inr g"
| "stage_ops std drv key_string ended d now s i (opn # ops) g =
     (case op_key opn of
        None \<Rightarrow> Inl (KeyRequired i)
      | Some key \<Rightarrow>
         (case load_staged std drv key_string ended d s key g of
            Inl e \<Rightarrow> Inl (LoadFailed i e)
          | Inr st \<Rightarrow>
             (case stage_op d now i opn key st of
                Inl e \<Rightarrow> Inl e
              | Inr st' \<Rightarrow> stage_ops std drv key_string ended d now s (Suc i) ops
                  \<lparr> sg_stage = mput (key_string key) st' (sg_stage g),
                    sg_leaf = mput (key_string key) (key_collection key) (sg_leaf g) \<rparr>)))"

text \<open>\<^verbatim>\<open>validateOps\<close>.\<close>

definition check_staged :: "database \<Rightarrow> staging \<Rightarrow> db_error option" where
  "check_staged d g =
     check_all (\<lambda>(ks, st).
       if \<not> sg_exists st then None
       else let leaf = case_option [] id (mget (sg_leaf g) ks) in
         map_option InvalidRecord (validate_record (db_schemaMode (m_database (d_manifest d))) leaf
           (schemaCollection d leaf) (case_option [] id (sg_data st)))) (sg_stage g)"

definition validateOps :: "std_api \<Rightarrow> 's driver \<Rightarrow> (rkey \<Rightarrow> string) \<Rightarrow> bool \<Rightarrow> database \<Rightarrow> string \<Rightarrow> op list \<Rightarrow> 's \<Rightarrow>
    db_error option" where
  "validateOps std drv key_string ended d now ops s =
     (case stage_ops std drv key_string ended d now s 0 ops \<lparr> sg_stage = [], sg_leaf = [] \<rparr> of
        Inl e \<Rightarrow> Some e
      | Inr g \<Rightarrow> if db_schemaMode (m_database (d_manifest d)) \<noteq> ModeSchemaless then check_staged d g else None)"

section \<open>Applying a batch\<close>

text \<open>The body of the transaction: one operation, then the loop.\<close>

definition tx_op :: "'s driver \<Rightarrow> (float64 \<Rightarrow> int) \<Rightarrow> database \<Rightarrow> op \<Rightarrow> rkey \<Rightarrow> 's effect" where
  "tx_op drv conv d opn key s =
     (if op_op opn = ''set'' then
        (if setsNoColumn d (op_data opn) then drv_insert drv key (op_data opn) s else drv_set drv key (op_data opn) s)
      else if op_op opn = ''insert'' then drv_insert drv key (op_data opn) s
      else if op_op opn = ''update'' then
        drv_update drv key (case toDalUpdates conv (op_updates opn) of Inr us \<Rightarrow> us | Inl _ \<Rightarrow> []) s
      else if op_op opn = ''delete'' then drv_delete drv key s
      else (None, s))"

fun tx_body :: "'s driver \<Rightarrow> (float64 \<Rightarrow> int) \<Rightarrow> database \<Rightarrow> op list \<Rightarrow> 's \<Rightarrow> (string \<times> rkey \<times> drv_error) option \<times> 's" where
  "tx_body drv conv d [] s = (None, s)"
| "tx_body drv conv d (opn # ops) s =
     (case op_key opn of
        None \<Rightarrow> tx_body drv conv d ops s
      | Some key \<Rightarrow>
         (case tx_op drv conv d opn key s of
            (Some e, s') \<Rightarrow> (Some (op_op opn, key, e), s')
          | (None, s') \<Rightarrow> tx_body drv conv d ops s'))"

definition run_tx :: "'s driver \<Rightarrow> (float64 \<Rightarrow> int) \<Rightarrow> database \<Rightarrow> op list \<Rightarrow> string \<Rightarrow> 's \<Rightarrow> db_error option \<times> 's" where
  "run_tx drv conv d ops message s =
     (case tx_body drv conv d ops s of
        (Some (verb, key, e), s') \<Rightarrow> (Some (OpFailed verb key e), snd (drv_end drv message (Some e) s s'))
      | (None, s') \<Rightarrow>
         (case drv_end drv message None s s' of
            (Some e, s'') \<Rightarrow> (Some (FromDriver e), s'')
          | (None, s'') \<Rightarrow> (None, s'')))"

text \<open>\<^verbatim>\<open>defaultBatchMessage\<close>; the sign between a verb and its count is U+00D7.\<close>

definition batch_collections :: "op list \<Rightarrow> string list" where
  "batch_collections ops = sort (remdups (map key_collection (List.map_filter op_key ops)))"

definition defaultBatchMessage :: "op list \<Rightarrow> string" where
  "defaultBatchMessage ops =
     (let count = (\<lambda>verb. length (filter (\<lambda>opn. op_op opn = verb) ops));
          parts = map (\<lambda>verb. verb @ [char_of (0xC3::nat), char_of (0x97::nat)] @ decimal_digits (count verb))
            (filter (\<lambda>verb. count verb > 0) [''insert'', ''set'', ''update'', ''delete''])
      in ''ovdb: '' @ join_with '', '' parts @ '' in '' @ join_with '', '' (batch_collections ops))"

text \<open>Observing the written data; \<open>io i\<close> is what becomes of the file at the \<open>i\<close>-th observation.\<close>

fun observe_ops :: "(nat \<Rightarrow> persist_outcome) \<Rightarrow> nat \<Rightarrow> nat \<Rightarrow> op list \<Rightarrow> catalogue \<Rightarrow> persist_outcome option \<times> catalogue" where
  "observe_ops io now i [] cat = (None, cat)"
| "observe_ops io now i (opn # ops) cat =
     (case (op_data opn, op_key opn) of
        (Some data, Some key) \<Rightarrow>
          (case Observe (io i) now (key_collection key) data cat of
             (Some e, cat') \<Rightarrow> (Some e, cat')
           | (None, cat') \<Rightarrow> observe_ops io now (Suc i) ops cat')
      | _ \<Rightarrow> observe_ops io now i ops cat)"

record 's mount =
  mt_store :: 's
  mt_catalogue :: "catalogue option"

record call_env =
  ce_key_string :: "rkey \<Rightarrow> string"
  ce_ended :: bool
  ce_timestamp :: string
  ce_instant :: nat
  ce_conv :: "float64 \<Rightarrow> int"
  ce_io :: "nat \<Rightarrow> persist_outcome"
  ce_afterWrite :: "drv_error option"

text \<open>\<^verbatim>\<open>apply\<close>: the count and the error it returns, and the state it leaves.\<close>

definition after_tx :: "call_env \<Rightarrow> op list \<Rightarrow> 's mount \<Rightarrow> (nat \<times> db_error option) \<times> 's mount" where
  "after_tx env ops mt =
     (case (case mt_catalogue mt of
          None \<Rightarrow> (None, mt)
        | Some cat \<Rightarrow> (case observe_ops (ce_io env) (ce_instant env) 0 ops cat of
            (e, cat') \<Rightarrow> (e, mt\<lparr>mt_catalogue := Some cat'\<rparr>))) of
        (Some e, mt') \<Rightarrow> ((length ops, Some (ObservationFailed e)), mt')
      | (None, mt') \<Rightarrow> ((length ops, map_option AfterWriteFailed (ce_afterWrite env)), mt'))"

definition apply_batch :: "std_api \<Rightarrow> unicode_classes \<Rightarrow> 's driver \<Rightarrow> call_env \<Rightarrow> database \<Rightarrow> op list \<Rightarrow> string \<Rightarrow> 's mount \<Rightarrow>
    (nat \<times> db_error option) \<times> 's mount" where
  "apply_batch std uni drv env d ops message mt =
     (if ReadOnly d then ((0, Some (ReadOnlyOperation (readOnlyOperationError d))), mt)
      else case guardWrite uni d ops of
          Some (i, e) \<Rightarrow> ((0, Some (GuardRefusedAt i e)), mt)
        | None \<Rightarrow>
           (let ops = adapterOps d ops in
            case validateOps std drv (ce_key_string env) (ce_ended env) d (ce_timestamp env) ops (mt_store mt) of
              Some e \<Rightarrow> ((0, Some e), mt)
            | None \<Rightarrow>
               (case (if db_schemaMode (m_database (d_manifest d)) \<noteq> ModeStrict
                      then ensure_ops drv d ops ([], mt_store mt) else (None, mt_store mt)) of
                  (Some e, s) \<Rightarrow> ((0, Some e), mt\<lparr>mt_store := s\<rparr>)
                | (None, s) \<Rightarrow>
                   (case run_tx drv (ce_conv env) d ops
                        (if message = [] then defaultBatchMessage ops else message) s of
                      (Some e, s') \<Rightarrow> ((0, Some e), mt\<lparr>mt_store := s'\<rparr>)
                    | (None, s') \<Rightarrow> after_tx env ops (mt\<lparr>mt_store := s'\<rparr>)))))"

definition Apply :: "std_api \<Rightarrow> unicode_classes \<Rightarrow> 's driver \<Rightarrow> call_env \<Rightarrow> database \<Rightarrow> op list \<Rightarrow> string \<Rightarrow> 's mount \<Rightarrow>
    (nat \<times> db_error option) \<times> 's mount" where
  "Apply std uni drv env d ops message mt =
     (case apply_batch std uni drv env d ops message mt of
        ((applied, e), mt') \<Rightarrow> ((applied, map_option (reached (ce_ended env) d) e), mt'))"

section \<open>Closing\<close>

text \<open>\<^verbatim>\<open>OnClose\<close> and \<^verbatim>\<open>Close\<close>: the callbacks are run once, last registered first; \<open>cl_run\<close> records the runs.\<close>

record closing =
  cl_closers :: "(nat \<times> string option) list"
  cl_run :: "nat list"
  cl_done :: "string list option"

definition OnClose :: "nat \<times> string option \<Rightarrow> closing \<Rightarrow> closing" where
  "OnClose fn c = c\<lparr>cl_closers := cl_closers c @ [fn]\<rparr>"

definition Close :: "closing \<Rightarrow> string list \<times> closing" where
  "Close c =
     (case cl_done c of
        Some errs \<Rightarrow> (errs, c)
      | None \<Rightarrow>
         (let order = rev (cl_closers c); errs = List.map_filter snd order in
          (errs, c\<lparr>cl_run := cl_run c @ map fst order, cl_done := Some errs\<rparr>)))"

section \<open>Lemmas\<close>

text \<open>
  A driver that behaves as a key-value store: \<open>look\<close> is the record it holds under a key and \<open>upd\<close> what
  its updates make of a record. An insert succeeds where nothing is stored, an update where a record
  is, and the other calls always; creating a collection and committing keep the records.
\<close>

definition kv_laws :: "'s driver \<Rightarrow> ('s \<Rightarrow> rkey \<Rightarrow> gobject option) \<Rightarrow> (dal_update list \<Rightarrow> gobject \<Rightarrow> gobject) \<Rightarrow> bool" where
  "kv_laws drv look upd \<longleftrightarrow>
     (\<forall>s k. drv_get drv k s = Inr (look s k)) \<and>
     (\<forall>s k data. fst (drv_set drv k data s) = None \<and>
        look (snd (drv_set drv k data s)) = (look s)(k \<mapsto> case_option [] id data)) \<and>
     (\<forall>s k data. look s k = None \<longrightarrow> fst (drv_insert drv k data s) = None \<and>
        look (snd (drv_insert drv k data s)) = (look s)(k \<mapsto> case_option [] id data)) \<and>
     (\<forall>s k us r. look s k = Some r \<longrightarrow> fst (drv_update drv k us s) = None \<and>
        look (snd (drv_update drv k us s)) = (look s)(k \<mapsto> upd us r)) \<and>
     (\<forall>s k. fst (drv_delete drv k s) = None \<and> look (snd (drv_delete drv k s)) = (look s)(k := None)) \<and>
     (\<forall>create def s. drv_create drv = Some create \<longrightarrow> fst (create def s) = None \<and> look (snd (create def s)) = look s) \<and>
     (\<forall>msg s s'. fst (drv_end drv msg None s s') = None \<and> look (snd (drv_end drv msg None s s')) = look s')"

text \<open>The specification of a batch on the map of records.\<close>

definition spec_op :: "(float64 \<Rightarrow> int) \<Rightarrow> (dal_update list \<Rightarrow> gobject \<Rightarrow> gobject) \<Rightarrow> op \<Rightarrow>
    (rkey \<Rightarrow> gobject option) \<Rightarrow> rkey \<Rightarrow> gobject option" where
  "spec_op conv upd opn r =
     (case op_key opn of
        None \<Rightarrow> r
      | Some k \<Rightarrow>
         if op_op opn \<in> {''set'', ''insert''} then r(k \<mapsto> case_option [] id (op_data opn))
         else if op_op opn = ''update'' then
           r(k \<mapsto> upd (case toDalUpdates conv (op_updates opn) of Inr us \<Rightarrow> us | Inl _ \<Rightarrow> []) (the (r k)))
         else if op_op opn = ''delete'' then r(k := None) else r)"

definition spec_batch :: "(float64 \<Rightarrow> int) \<Rightarrow> (dal_update list \<Rightarrow> gobject \<Rightarrow> gobject) \<Rightarrow> op list \<Rightarrow>
    (rkey \<Rightarrow> gobject option) \<Rightarrow> rkey \<Rightarrow> gobject option" where
  "spec_batch conv upd = fold (spec_op conv upd)"

definition batch_keys :: "op list \<Rightarrow> rkey set" where
  "batch_keys ops = {k. \<exists>opn \<in> set ops. op_key opn = Some k}"

text \<open>Keys that a read passes on as they are.\<close>

definition settled_key :: "database \<Rightarrow> rkey \<Rightarrow> bool" where
  "settled_key d k \<longleftrightarrow> adapterKey d k = k \<and> (\<forall>e. GuardKey d (Some k) = Some e \<longrightarrow> wraps e \<noteq> ENotFound)"

definition staged_as :: "(rkey \<Rightarrow> string) \<Rightarrow> rkey set \<Rightarrow> (rkey \<Rightarrow> gobject option) \<Rightarrow> staging \<Rightarrow> (rkey \<Rightarrow> gobject option) \<Rightarrow> bool" where
  "staged_as key_string K r0 g r \<longleftrightarrow>
     (\<forall>k \<in> K. case mget (sg_stage g) (key_string k) of None \<Rightarrow> r k = r0 k | Some st \<Rightarrow> sg_exists st = (r k \<noteq> None))"

lemma load_staged_exists:
  assumes "load_staged std drv key_string ended d s k g = Inr st" and "kv_laws drv look upd"
    and "settled_key d k" and "k \<in> K" and "staged_as key_string K (look s) g r"
  shows "sg_exists st = (r k \<noteq> None)"
proof (cases "mget (sg_stage g) (key_string k)")
  case None
  have r: "r k = look s k" using assms(4,5) None by (auto simp: staged_as_def)
  have g: "drv_get drv k s = Inr (look s k)" using assms(2) by (simp add: kv_laws_def)
  have a: "adapterKey d k = k" using assms(3) by (simp add: settled_key_def)
  from assms(1) None consider
      (data) data where "Get std drv ended d k s = Inr data" "sg_exists st"
    | (absent) e where "Get std drv ended d k s = Inl e" "is_not_found e" "\<not> sg_exists st"
    by (auto simp: load_staged_def split: sum.splits if_splits)
  then show ?thesis
  proof cases
    case data
    then show ?thesis using r g a by (auto simp: Get_def split: if_splits option.splits)
  next
    case absent
    show ?thesis
    proof (cases "look s k")
      case None
      with r absent show ?thesis by simp
    next
      case (Some x)
      with absent g a assms(3) have False
        by (auto simp: Get_def settled_key_def split: if_splits option.splits)
      then show ?thesis ..
    qed
  qed
next
  case (Some st')
  with assms show ?thesis by (auto simp: load_staged_def staged_as_def)
qed

lemma tx_op_simulates:
  assumes "stage_op d now i opn k st = Inr st'" and "kv_laws drv look upd"
    and "sg_exists st = (look t k \<noteq> None)" and "op_key opn = Some k"
  shows "fst (tx_op drv conv d opn k t) = None \<and> look (snd (tx_op drv conv d opn k t)) = spec_op conv upd opn (look t) \<and>
    sg_exists st' = (spec_op conv upd opn (look t) k \<noteq> None)"
proof -
  note kv = assms(2) [unfolded kv_laws_def]
  consider (set) "op_op opn = ''set''" | (insert) "op_op opn = ''insert''" | (update) "op_op opn = ''update''"
    | (delete) "op_op opn = ''delete''"
    using assms(1) by (auto simp: stage_op_def split: if_splits)
  then show ?thesis
  proof cases
    case set
    show ?thesis
    proof (cases "setsNoColumn d (op_data opn)")
      case True
      with set assms have "look t k = None" "sg_exists st'" by (auto simp: stage_op_def split: if_splits)
      with kv True set show ?thesis by (simp add: tx_op_def spec_op_def assms(4))
    next
      case False
      with set assms(1) have "sg_exists st'" by (auto simp: stage_op_def split: if_splits)
      with kv False set show ?thesis by (simp add: tx_op_def spec_op_def assms(4))
    qed
  next
    case insert
    with assms have "look t k = None" "sg_exists st'" by (auto simp: stage_op_def split: if_splits)
    with kv insert show ?thesis by (simp add: tx_op_def spec_op_def assms(4))
  next
    case update
    with assms obtain r where "look t k = Some r" "sg_exists st'" by (auto simp: stage_op_def split: if_splits sum.splits)
    with kv update show ?thesis by (simp add: tx_op_def spec_op_def assms(4))
  next
    case delete
    with assms(1) have "\<not> sg_exists st'" by (auto simp: stage_op_def)
    with kv delete show ?thesis by (simp add: tx_op_def spec_op_def assms(4))
  qed
qed

lemma spec_op_other: "op_key opn = Some k \<Longrightarrow> k' \<noteq> k \<Longrightarrow> spec_op conv upd opn r k' = r k'"
  by (simp add: spec_op_def)

text \<open>The transaction carries out what was simulated, and no call of it fails.\<close>

lemma staged_batch_runs:
  assumes "stage_ops std drv key_string ended d now s i ops g = Inr g'" and "kv_laws drv look upd"
    and "inj_on key_string K" and "\<forall>k \<in> K. settled_key d k" and "batch_keys ops \<subseteq> K"
    and "staged_as key_string K (look s) g (look t)"
  shows "\<exists>t'. tx_body drv conv d ops t = (None, t') \<and> look t' = spec_batch conv upd ops (look t)"
  using assms(1,5,6)
proof (induction ops arbitrary: i g t)
  case (Cons opn ops)
  from Cons.prems(1) obtain k st st' where k: "op_key opn = Some k"
    and l: "load_staged std drv key_string ended d s k g = Inr st" and o: "stage_op d now i opn k st = Inr st'"
    and rest: "stage_ops std drv key_string ended d now s (Suc i) ops
      \<lparr> sg_stage = mput (key_string k) st' (sg_stage g), sg_leaf = mput (key_string k) (key_collection k) (sg_leaf g) \<rparr> = Inr g'"
    by (auto split: option.splits sum.splits)
  have kK: "k \<in> K" using Cons.prems(2) k by (auto simp: batch_keys_def)
  then have ex: "sg_exists st = (look t k \<noteq> None)"
    using load_staged_exists [OF l assms(2) _ kK Cons.prems(3)] assms(4) by blast
  from tx_op_simulates [OF o assms(2) ex k, of conv]
  obtain t1 where step: "tx_op drv conv d opn k t = (None, t1)" "look t1 = spec_op conv upd opn (look t)"
    "sg_exists st' = (spec_op conv upd opn (look t) k \<noteq> None)" by (metis prod.collapse)
  have "staged_as key_string K (look s)
      \<lparr> sg_stage = mput (key_string k) st' (sg_stage g), sg_leaf = mput (key_string k) (key_collection k) (sg_leaf g) \<rparr> (look t1)"
    unfolding staged_as_def step(2)
  proof
    fix k'
    assume k': "k' \<in> K"
    show "case mget (sg_stage \<lparr> sg_stage = mput (key_string k) st' (sg_stage g),
          sg_leaf = mput (key_string k) (key_collection k) (sg_leaf g) \<rparr>) (key_string k') of
        None \<Rightarrow> spec_op conv upd opn (look t) k' = look s k'
      | Some st \<Rightarrow> sg_exists st = (spec_op conv upd opn (look t) k' \<noteq> None)"
    proof (cases "k' = k")
      case True
      then show ?thesis using step(3) by simp
    next
      case False
      with k' kK assms(3) have "key_string k' \<noteq> key_string k" by (auto dest: inj_onD)
      with k' Cons.prems(3) show ?thesis unfolding spec_op_other [OF k False] by (simp add: staged_as_def)
    qed
  qed
  moreover have "batch_keys ops \<subseteq> K" using Cons.prems(2) by (auto simp: batch_keys_def)
  ultimately obtain t' where "tx_body drv conv d ops t1 = (None, t')" "look t' = spec_batch conv upd ops (look t1)"
    using Cons.IH [OF rest] by blast
  then show ?case by (simp add: k step(1) spec_batch_def step(2))
qed (simp add: spec_batch_def)

lemma ensureCollection_keeps:
  assumes "kv_laws drv look upd"
  shows "fst (ensureCollection drv d coll flds s) = None \<and> look (snd (ensureCollection drv d coll flds s)) = look s"
proof (cases "drv_create drv")
  case (Some create)
  with assms have "fst (create (collection_definition coll flds) s) = None \<and>
      look (snd (create (collection_definition coll flds) s)) = look s" by (simp add: kv_laws_def)
  then obtain s1 where "create (collection_definition coll flds) s = (None, s1)" "look s1 = look s"
    by (metis prod.collapse)
  then show ?thesis by (simp add: ensureCollection_def Some)
qed (simp add: ensureCollection_def)

lemma ensure_chains_keeps:
  assumes "kv_laws drv look upd"
  shows "\<exists>ensured' s'. ensure_chains drv d data chain_list (ensured, s) = (None, ensured', s') \<and> look s' = look s"
proof (induction chain_list arbitrary: ensured s)
  case (Cons chain chain_list)
  show ?case
  proof (cases "chain \<in> set ensured")
    case False
    let ?r = "ensureCollection drv d chain (if chain_list = [] then inferFields data else []) s"
    obtain s1 where "?r = (None, s1)" "look s1 = look s"
      using ensureCollection_keeps [OF assms] by (metis prod.collapse)
    moreover obtain e' s' where "ensure_chains drv d data chain_list (chain # ensured, s1) = (None, e', s')"
      "look s' = look s1" using Cons.IH by blast
    ultimately show ?thesis using False by simp
  qed (use Cons.IH in simp)
qed simp

lemma ensure_ops_keeps:
  assumes "kv_laws drv look upd"
  shows "\<exists>s'. ensure_ops drv d ops (ensured, s) = (None, s') \<and> look s' = look s"
proof (induction ops arbitrary: ensured s)
  case (Cons opn ops)
  show ?case
  proof (cases "\<exists>data key. op_data opn = Some data \<and> op_key opn = Some key")
    case True
    then obtain data key where dk: "op_data opn = Some data" "op_key opn = Some key" by blast
    obtain e' s' where "ensure_chains drv d data (collectionChains key) (ensured, s) = (None, e', s')" "look s' = look s"
      using ensure_chains_keeps [OF assms] by blast
    with Cons.IH [of e' s'] show ?thesis by (simp add: dk)
  next
    case False
    then have "ensure_ops drv d (opn # ops) (ensured, s) = ensure_ops drv d ops (ensured, s)"
      by (cases "op_data opn"; cases "op_key opn") simp_all
    with Cons.IH show ?thesis by simp
  qed
qed simp

lemma run_tx_keeps:
  assumes "kv_laws drv look upd" and "tx_body drv conv d ops s = (None, s')"
  shows "\<exists>s''. run_tx drv conv d ops message s = (None, s'') \<and> look s'' = look s'"
proof -
  have "fst (drv_end drv message None s s') = None \<and> look (snd (drv_end drv message None s s')) = look s'"
    using assms(1) by (simp add: kv_laws_def)
  then obtain s'' where "drv_end drv message None s s' = (None, s'')" "look s'' = look s'" by (metis prod.collapse)
  then show ?thesis by (simp add: run_tx_def assms(2))
qed

lemma adapterKey_idem:
  assumes "newCollectionNames m = Inr (d_names d)"
  shows "adapterKey d (adapterKey d k) = adapterKey d k"
proof (cases "key_parent k = None \<and> mget (n_canonical (d_names d)) (key_collection k) \<noteq> None")
  case True
  then obtain c where c: "mget (n_canonical (d_names d)) (key_collection k) = Some c" by blast
  then have "mget (n_canonical (d_names d)) c = Some c"
    using names.canon_idem [OF assms] by (simp add: CanonicalCollection_def)
  with True c show ?thesis by (simp add: adapterKey_def)
qed (auto simp: adapterKey_def)

lemma guarded_key_settled:
  assumes "newCollectionNames m = Inr (d_names d)" and "GuardKey d (Some k) = None"
  shows "settled_key d (adapterKey d k)"
proof -
  have "wraps e \<noteq> ENotFound" if g: "GuardKey d (Some (adapterKey d k)) = Some e" for e
  proof (cases "d_documentEngine d")
    case True
    with g show ?thesis by (simp add: GuardKey_def GuardCollection_def)
  next
    case False
    with adapterKey_guarded [OF assms(1,2)] obtain c where
      a: "adapterKey d k = Key None c (key_id k)" "CanonicalCollection (d_names d) c = Some c" by blast
    with g False show ?thesis
      by (auto simp: GuardKey_def GuardCollection_def CanonicalCollection_def split: if_splits)
  qed
  with adapterKey_idem [OF assms(1)] show ?thesis by (simp add: settled_key_def)
qed

lemma adapted_keys_settled:
  assumes "newCollectionNames m = Inr (d_names d)" and "guardWrite uni d ops = None"
  shows "\<forall>k \<in> batch_keys (adapterOps d ops). settled_key d k"
proof
  fix k
  assume "k \<in> batch_keys (adapterOps d ops)"
  then obtain opn k0 where o: "opn \<in> set ops" "op_key opn = Some k0" "k = adapterKey d k0"
    by (auto simp: batch_keys_def adapterOps_def)
  have "guard_op uni d opn = None" using assms(2) o(1) by (simp add: guardWrite_None)
  from guard_op_parts(1) [OF this] o show "settled_key d k" using guarded_key_settled [OF assms(1)] by simp
qed

lemma after_tx_result:
  assumes "after_tx env ops mt = ((n, e), mt')"
  shows "n = length ops \<and> mt_store mt' = mt_store mt \<and>
    (\<forall>err. e = Some err \<longrightarrow> (\<exists>p. err = ObservationFailed p) \<or> (\<exists>x. err = AfterWriteFailed x))"
proof (cases "mt_catalogue mt")
  case None
  with assms show ?thesis by (auto simp: after_tx_def)
next
  case (Some cat)
  with assms show ?thesis by (auto simp: after_tx_def split: prod.splits option.splits)
qed

lemma apply_refused:
  assumes "apply_batch std uni drv env d ops message mt = ((n, e), mt')"
    and "ReadOnly d \<or> guardWrite uni d ops \<noteq> None \<or>
      validateOps std drv (ce_key_string env) (ce_ended env) d (ce_timestamp env) (adapterOps d ops) (mt_store mt) \<noteq> None"
  shows "n = 0 \<and> e \<noteq> None \<and> mt' = mt"
proof (cases "ReadOnly d \<or> guardWrite uni d ops \<noteq> None")
  case True
  with assms(1) show ?thesis by (auto simp: apply_batch_def split: if_splits)
next
  case False
  with assms(2) obtain x where
    "validateOps std drv (ce_key_string env) (ce_ended env) d (ce_timestamp env) (adapterOps d ops) (mt_store mt) = Some x"
    by blast
  moreover have "guardWrite uni d ops = None" "\<not> ReadOnly d" using False by blast+
  ultimately have "((0, Some x), mt) = ((n, e), mt')" using assms(1) by (simp add: apply_batch_def Let_def)
  then show ?thesis by blast
qed

lemma stage_ops_append:
  "stage_ops std drv key_string ended d now s i (xs @ ys) g = Inr g' \<Longrightarrow>
     \<exists>j g1. stage_ops std drv key_string ended d now s j ys g1 = Inr g'"
proof (induction xs arbitrary: i g)
  case (Cons x xs)
  then show ?case by (auto split: option.splits sum.splits)
qed auto

lemma stage_ops_untouched:
  assumes "stage_ops std drv key_string ended d now s i ops g = Inr g'"
    and "\<forall>opn \<in> set ops. \<forall>k'. op_key opn = Some k' \<longrightarrow> key_string k' \<noteq> ks"
  shows "mget (sg_stage g') ks = mget (sg_stage g) ks \<and> mget (sg_leaf g') ks = mget (sg_leaf g) ks"
  using assms
proof (induction ops arbitrary: i g)
  case (Cons opn ops)
  from Cons.prems(1) obtain k st' where k: "op_key opn = Some k"
    and rest: "stage_ops std drv key_string ended d now s (Suc i) ops
      \<lparr> sg_stage = mput (key_string k) st' (sg_stage g), sg_leaf = mput (key_string k) (key_collection k) (sg_leaf g) \<rparr> = Inr g'"
    by (auto split: option.splits sum.splits)
  have "key_string k \<noteq> ks" using Cons.prems(2) k by auto
  moreover have "\<forall>opn \<in> set ops. \<forall>k'. op_key opn = Some k' \<longrightarrow> key_string k' \<noteq> ks" using Cons.prems(2) by simp
  ultimately show ?case using Cons.IH [OF rest] by simp
qed simp

section \<open>Properties\<close>


definition list_driver :: "(rkey, gobject) gomap driver" where
  "list_driver =
     \<lparr> drv_get = (\<lambda>k s. Inr (mget s k)),
       drv_exists = (\<lambda>k s. Inr (mget s k \<noteq> None)),
       drv_set = (\<lambda>k data s. (None, mput k (case_option [] id data) s)),
       drv_insert = (\<lambda>k data s. (None, mput k (case_option [] id data) s)),
       drv_update = (\<lambda>k us s. (None, mput k (case_option [] id (mget s k)) s)),
       drv_delete = (\<lambda>k s. (None, mdel k s)),
       drv_create = None, drv_list = None, drv_describe = None,
       drv_end = (\<lambda>msg e s s'. (None, s')) \<rparr>"

definition demo_env :: call_env where
  "demo_env = \<lparr> ce_key_string = key_id, ce_ended = False, ce_timestamp = [], ce_instant = 1, ce_conv = (\<lambda>_. 0),
     ce_io = (\<lambda>_. PersistOk), ce_afterWrite = None \<rparr>"

lemma list_driver_laws: "kv_laws list_driver mget (\<lambda>us r. r)"
  by (auto simp: kv_laws_def list_driver_def fun_upd_def update_conv' delete_conv')

definition demo_delete :: op where
  "demo_delete = \<lparr> op_op = ''delete'', op_key = Some (Key None ''orders'' ''o1''), op_data = None, op_updates = [] \<rparr>"




text \<open>
  Two declared fields that differ only in case: reading a record that holds both, also from a document
  engine, returns one of them and loses the other.
\<close>

definition demo_case_database :: database where
  "demo_case_database = demo_database\<lparr>d_documentEngine := True, d_manifest := demo_manifest\<lparr>
     m_storage := (m_storage demo_manifest)\<lparr>st_engine := ''ingitdb'', st_postgres := None\<rparr>,
     m_schemas := Some [(''orders'', \<lparr> c_fields = [(''A'', demo_name), (''a'', demo_name)], c_references = [],
       c_source = None \<rparr>)]\<rparr>\<rparr>"

theorem case_variants_are_lost:
  "coerceToSchema demo_std demo_case_database ''orders'' [(''A'', VBool True), (''a'', VBool False)] = [(''a'', VBool True)]"
  by (simp add: coerceToSchema_def schemaCollection_def schemas_collection_def demo_case_database_def
      lower_to_declared_def rename_key_def coerce_boolean_def to_lower_def is_ascii_def demo_name_def char_of_def bit_0)

end
