(* ===== verification/Policy_Store.thy ===== *)
theory Policy_Store
  imports Go_Strings
begin

text \<open>
  \<^verbatim>\<open>src/pkg/policystore\<close>: policy generations published on a filesystem (\<^verbatim>\<open>store.go\<close>), the controller that
  serves one of them (\<^verbatim>\<open>controller.go\<close>) and its leases (\<^verbatim>\<open>lease.go\<close>).

  A directory is a map of nodes; reads, writes and renames act on it. Everything that can fail for a
  reason outside the program is a \<open>fault\<close>: an input says at which points the call meets one (an
  I/O error, a context that has ended, a checkpoint that refuses). \<open>Activate\<close> also returns every
  directory that existed on disk on its way, so that a crash at any point leaves one of those, up to
  the files of an unfinished stage. The lock file of the lock library is not part of the directory. SHA-256, the
  JSON codec, the parser, printer and compiler of policies are parameters.
\<close>

section \<open>Filesystem\<close>

datatype node = Regular string | Symlink | Special | Directory "(string \<times> node) list"

type_synonym dir = "(string, node) gomap"

datatype fault =
    CtxLoad | CtxDocument nat | OpenRoot string | OpenFile string | ReadFile string
  | LockError | LockBusy | MkdirGenerations | StatDestination | MkdirStage | MkdirPolicies
  | WriteBody string | WriteManifest | SyncPolicies | SyncStage | GenerationSynced | RenameStage | SyncGenerations
  | GenerationPublished | CtxPublished | CreatePointer | WritePointer | SyncPointer | ClosePointer | PointerSynced | CtxPointer
  | RenamePointer | SyncRoot | PointerPublished

datatype pol_error =
    OwnerRequired
  | RealmInvalid
  | RootNotDirectory
  | Fault fault
  | InvalidStorePath
  | NotExist
  | NotDirectory
  | SymlinkInPath
  | NotRegular
  | ExceedsLimit
  | BadJSON
  | InvalidGenerationReference
  | ManifestDigestMismatch
  | InvalidOwnerOrDocuments
  | InvalidDocument
  | GenerationTooLarge
  | DocumentDigestMismatch
  | PolicyParse
  | IdentityMismatch
  | PolicyCompile
  | PolicyCount
  | InvalidExpected
  | InvalidLock
  | Conflict
  | DuplicateOrWrongTarget
  | PolicyMarshal
  | InvalidGenerationsDirectory
  | MayBeActive fault
  | StoreRequired
  | GenerationUnavailable

text \<open>The loop of \<^verbatim>\<open>Store.read\<close> over the components of a path.\<close>

fun walk :: "node \<Rightarrow> string list \<Rightarrow> pol_error + node" where
  "walk nd [] = Inr nd"
| "walk nd (p # ps) =
     (if p = [] \<or> p = ''.'' \<or> p = ''..'' then Inl InvalidStorePath
      else case nd of
          Directory es \<Rightarrow>
            (case mget es p of
               None \<Rightarrow> Inl NotExist
             | Some Symlink \<Rightarrow> Inl SymlinkInPath
             | Some nd' \<Rightarrow> walk nd' ps)
        | _ \<Rightarrow> Inl NotDirectory)"

definition read_member :: "(fault \<Rightarrow> bool) \<Rightarrow> dir \<Rightarrow> string \<Rightarrow> nat \<Rightarrow> pol_error + string" where
  "read_member flt root name limit =
     (if flt (OpenRoot name) then Inl (Fault (OpenRoot name))
      else rbind (walk (Directory root) (split_on CHR ''/'' name)) (\<lambda>nd.
        case nd of
          Regular data \<Rightarrow>
            if flt (OpenFile name) then Inl (Fault (OpenFile name))
            else if flt (ReadFile name) then Inl (Fault (ReadFile name))
            else if length data > limit then Inl ExceedsLimit else Inr data
        | _ \<Rightarrow> Inl NotRegular))"

text \<open>\<^verbatim>\<open>Activate\<close> loads the current generation, publishes, and loads the candidate.\<close>

datatype phase = Current | Publish | Candidate

section \<open>The store\<close>

definition maxGenerationBytes :: nat where "maxGenerationBytes = 16 * 1024 * 1024"

definition maxPolicies :: nat where "maxPolicies = 100"

definition maxPolicyBytes :: nat where "maxPolicyBytes = 1024 * 1024"

record owner =
  o_database :: string
  o_realm :: string
  o_enabled :: bool

record document =
  dc_id :: string
  dc_file :: string
  dc_revision :: string

record gen_manifest =
  gm_version :: string
  gm_owner :: owner
  gm_documents :: "document list"

record 'p snapshot =
  sn_revision :: string
  sn_owner :: owner
  sn_documents :: "document list"
  sn_policies :: "'p list"

text \<open>The functions of other packages; a decoder also says whether content follows the value.\<close>

record ('d, 'p) policy_api =
  pa_digest :: "string \<Rightarrow> string"
  pa_realm_valid :: "string \<Rightarrow> bool"
  pa_decode_pointer :: "string \<Rightarrow> (string \<times> bool) option"
  pa_encode_pointer :: "string \<Rightarrow> string"
  pa_decode_manifest :: "string \<Rightarrow> (gen_manifest \<times> bool) option"
  pa_encode_manifest :: "gen_manifest \<Rightarrow> string"
  pa_parse :: "string \<Rightarrow> string option"
  pa_marshal :: "'d \<Rightarrow> string option"
  pa_target :: "'d \<Rightarrow> string"
  pa_name :: "'d \<Rightarrow> string"
  pa_compile :: "owner \<Rightarrow> (string \<times> string) list \<Rightarrow> 'p list option"

text \<open>\<^verbatim>\<open>Open\<close>: the store of an owner; \<open>nd\<close> is what the root is on disk.\<close>

definition Open_store :: "('d, 'p) policy_api \<Rightarrow> owner \<Rightarrow> node \<Rightarrow> pol_error + dir" where
  "Open_store api ow nd =
     (if \<not> o_enabled ow \<or> o_database ow = [] then Inl OwnerRequired
      else if o_realm ow \<noteq> [] \<and> \<not> pa_realm_valid api (o_realm ow) then Inl RealmInvalid
      else case nd of Directory es \<Rightarrow> Inr es | _ \<Rightarrow> Inl RootNotDirectory)"

definition hex_lower :: "char \<Rightarrow> bool" where
  "hex_lower c \<longleftrightarrow> 0x30 \<le> byte c \<and> byte c \<le> 0x39 \<or> 0x61 \<le> byte c \<and> byte c \<le> 0x66"

text \<open>\<^verbatim>\<open>validDigest\<close>: of the hexadecimal digits the lower-case ones are unchanged by \<^verbatim>\<open>ToLower\<close>.\<close>

definition validDigest :: "string \<Rightarrow> bool" where
  "validDigest v \<longleftrightarrow> length v = 64 \<and> list_all hex_lower v"

definition strictJSON :: "(string \<Rightarrow> ('v \<times> bool) option) \<Rightarrow> ('v \<Rightarrow> string) \<Rightarrow> string \<Rightarrow> pol_error + 'v" where
  "strictJSON decode encode data =
     (case decode data of
        None \<Rightarrow> Inl BadJSON
      | Some (v, trailing) \<Rightarrow> if trailing \<or> encode v \<noteq> data then Inl BadJSON else Inr v)"

definition generation_path :: "string \<Rightarrow> string \<Rightarrow> string" where
  "generation_path revision file = ''generations/'' @ revision @ ''/'' @ file"

definition policy_file :: "string \<Rightarrow> string" where
  "policy_file revision = ''policies/'' @ revision @ ''.json''"

text \<open>The loop of \<^verbatim>\<open>loadGeneration\<close> over the documents: it collects the files it has verified.\<close>

fun load_documents :: "('d, 'p) policy_api \<Rightarrow> (fault \<Rightarrow> bool) \<Rightarrow> dir \<Rightarrow> string \<Rightarrow> nat \<Rightarrow> string list \<Rightarrow> nat \<Rightarrow> document list \<Rightarrow>
    pol_error + (string \<times> string) list" where
  "load_documents api flt root revision i seen size_so_far [] = Inr []"
| "load_documents api flt root revision i seen size_so_far (entry # entries) =
     (if flt (CtxDocument i) then Inl (Fault (CtxDocument i))
      else if dc_id entry = [] \<or> dc_id entry \<in> set seen \<or> \<not> validDigest (dc_revision entry) \<or>
        dc_file entry \<noteq> policy_file (dc_revision entry) then Inl InvalidDocument
      else rbind (read_member flt root (generation_path revision (dc_file entry)) maxPolicyBytes) (\<lambda>body.
        if size_so_far + length body > maxGenerationBytes then Inl GenerationTooLarge
        else if pa_digest api body \<noteq> dc_revision entry then Inl DocumentDigestMismatch
        else case pa_parse api body of
            None \<Rightarrow> Inl PolicyParse
          | Some name \<Rightarrow>
             if name \<noteq> dc_id entry then Inl IdentityMismatch
             else rbind (load_documents api flt root revision (Suc i) (dc_id entry # seen) (size_so_far + length body) entries)
               (\<lambda>rest. Inr ((generation_path revision (dc_file entry), body) # rest))))"

definition generation_version :: string where "generation_version = ''ovdb.policy-generation/v1''"

definition loadGeneration :: "('d, 'p) policy_api \<Rightarrow> owner \<Rightarrow> (fault \<Rightarrow> bool) \<Rightarrow> dir \<Rightarrow> string \<Rightarrow> pol_error + 'p snapshot" where
  "loadGeneration api ow flt root revision =
     (if \<not> validDigest revision then Inl InvalidGenerationReference
      else rbind (read_member flt root (generation_path revision ''manifest.json'') maxGenerationBytes) (\<lambda>data.
        if pa_digest api data \<noteq> revision then Inl ManifestDigestMismatch
        else rbind (strictJSON (pa_decode_manifest api) (pa_encode_manifest api) data) (\<lambda>m.
          if gm_version m \<noteq> generation_version \<or> gm_owner m \<noteq> ow \<or> gm_documents m = [] \<or>
            length (gm_documents m) > maxPolicies then Inl InvalidOwnerOrDocuments
          else rbind (load_documents api flt root revision 0 [] (length data) (gm_documents m)) (\<lambda>bodies.
            case pa_compile api ow bodies of
              None \<Rightarrow> Inl PolicyCompile
            | Some policies \<Rightarrow> Inr \<lparr> sn_revision = revision, sn_owner = gm_owner m,
                sn_documents = gm_documents m, sn_policies = policies \<rparr>))))"

definition Load_store :: "('d, 'p) policy_api \<Rightarrow> owner \<Rightarrow> (fault \<Rightarrow> bool) \<Rightarrow> dir \<Rightarrow> pol_error + 'p snapshot" where
  "Load_store api ow flt root =
     (if flt CtxLoad then Inl (Fault CtxLoad)
      else rbind (read_member flt root ''active.json'' 4096) (\<lambda>data.
        rbind (strictJSON (pa_decode_pointer api) (pa_encode_pointer api) data) (\<lambda>generation.
          loadGeneration api ow flt root generation)))"

section \<open>Publication\<close>

text \<open>The documents of a new generation with their bodies: the loop of \<^verbatim>\<open>Activate\<close>.\<close>

fun prepare_documents :: "('d, 'p) policy_api \<Rightarrow> owner \<Rightarrow> (fault \<Rightarrow> bool) \<Rightarrow> nat \<Rightarrow> string list \<Rightarrow> nat \<Rightarrow> 'd list \<Rightarrow>
    pol_error + (document \<times> string) list" where
  "prepare_documents api ow flt i seen size_so_far [] = Inr []"
| "prepare_documents api ow flt i seen size_so_far (doc # docs) =
     (if flt (CtxDocument i) then Inl (Fault (CtxDocument i))
      else if pa_target api doc \<noteq> o_database ow \<or> pa_name api doc \<in> set seen then Inl DuplicateOrWrongTarget
      else case pa_marshal api doc of
          None \<Rightarrow> Inl PolicyMarshal
        | Some body \<Rightarrow>
           if length body > maxPolicyBytes \<or> size_so_far + length body > maxGenerationBytes then Inl GenerationTooLarge
           else rbind (prepare_documents api ow flt (Suc i) (pa_name api doc # seen) (size_so_far + length body) docs) (\<lambda>rest.
             Inr ((\<lparr> dc_id = pa_name api doc, dc_file = policy_file (pa_digest api body),
               dc_revision = pa_digest api body \<rparr>, body) # rest)))"

definition new_manifest :: "owner \<Rightarrow> (document \<times> string) list \<Rightarrow> gen_manifest" where
  "new_manifest ow prepared =
     \<lparr> gm_version = generation_version, gm_owner = ow, gm_documents = sort_key dc_id (map fst prepared) \<rparr>"

text \<open>
  The writes of a publication, each as the directory it leaves. A step may fail before it has an
  effect; a file that is being written is in the stage or the temporary pointer only.
\<close>

datatype step = Step fault "dir \<Rightarrow> dir"

fun run_steps :: "(fault \<Rightarrow> bool) \<Rightarrow> step list \<Rightarrow> dir \<Rightarrow> (pol_error option \<times> dir) \<times> dir list" where
  "run_steps flt [] root = ((None, root), [])"
| "run_steps flt (Step f act # steps) root =
     (if flt f then ((Some (Fault f), root), [])
      else case run_steps flt steps (act root) of (r, states) \<Rightarrow> (r, act root # states))"

fun dir_entries :: "node option \<Rightarrow> dir" where
  "dir_entries (Some (Directory es)) = es"
| "dir_entries _ = []"

definition in_generations :: "(dir \<Rightarrow> dir) \<Rightarrow> dir \<Rightarrow> dir" where
  "in_generations f root = mput ''generations'' (Directory (f (dir_entries (mget root ''generations'')))) root"

definition in_stage :: "string \<Rightarrow> (dir \<Rightarrow> dir) \<Rightarrow> dir \<Rightarrow> dir" where
  "in_stage stage f = in_generations (\<lambda>gens. mput stage (Directory (f (dir_entries (mget gens stage)))) gens)"

definition write_policy :: "string \<Rightarrow> string \<Rightarrow> dir \<Rightarrow> dir" where
  "write_policy name body d =
     mput ''policies'' (Directory (mput name (Regular body) (dir_entries (mget d ''policies'')))) d"

text \<open>Writing the generation into a stage and renaming it; \<^verbatim>\<open>bodies\<close> is a map, so equal bodies are one file.\<close>

definition stage_steps :: "string \<Rightarrow> string \<Rightarrow> string \<Rightarrow> (document \<times> string) list \<Rightarrow> step list" where
  "stage_steps stage revision data prepared =
     [Step MkdirStage (in_stage stage (\<lambda>_. [])),
      Step MkdirPolicies (in_stage stage (mput ''policies'' (Directory [])))] @
     map (\<lambda>(doc, body). Step (WriteBody (dc_revision doc)) (in_stage stage (write_policy (dc_revision doc @ ''.json'') body)))
       prepared @
     [Step WriteManifest (in_stage stage (mput ''manifest.json'' (Regular data))),
      Step SyncPolicies id, Step SyncStage id, Step GenerationSynced id,
      Step RenameStage (in_generations (\<lambda>gens. mput revision (Directory (dir_entries (mget gens stage))) (mdel stage gens))),
      Step SyncGenerations id]"

definition pointer_steps :: "string \<Rightarrow> string \<Rightarrow> step list" where
  "pointer_steps temp pointer =
     [Step GenerationPublished id, Step CtxPublished id,
      Step CreatePointer (mput temp (Regular [])),
      Step WritePointer (mput temp (Regular pointer)),
      Step SyncPointer id, Step ClosePointer id, Step PointerSynced id, Step CtxPointer id,
      Step RenamePointer (\<lambda>root. mput ''active.json'' (Regular pointer) (mdel temp root))]"

definition remove_stage :: "string \<Rightarrow> dir \<Rightarrow> dir" where
  "remove_stage stage root =
     (case mget root ''generations'' of
        Some (Directory gens) \<Rightarrow> mput ''generations'' (Directory (mdel stage gens)) root
      | _ \<Rightarrow> root)"

record 'p activation =
  ac_result :: "pol_error + 'p snapshot"
  ac_dir :: dir
  ac_states :: "dir list"

text \<open>The result of a call that has changed nothing.\<close>

definition refused :: "dir \<Rightarrow> pol_error \<Rightarrow> 'p activation" where
  "refused root e = \<lparr> ac_result = Inl e, ac_dir = root, ac_states = [] \<rparr>"

text \<open>From the candidate generation on disk to the end of \<^verbatim>\<open>Activate\<close>.\<close>

definition publish_pointer :: "('d, 'p) policy_api \<Rightarrow> owner \<Rightarrow> (phase \<Rightarrow> fault \<Rightarrow> bool) \<Rightarrow> string \<Rightarrow> string \<Rightarrow> dir \<Rightarrow> 'p activation" where
  "publish_pointer api ow flt temp revision root =
     (case loadGeneration api ow (flt Candidate) root revision of
        Inl e \<Rightarrow> refused root e
      | Inr candidate \<Rightarrow>
         (case run_steps (flt Publish) (pointer_steps temp (pa_encode_pointer api revision)) root of
            ((Some e, root'), states) \<Rightarrow> \<lparr> ac_result = Inl e, ac_dir = mdel temp root', ac_states = states \<rparr>
          | ((None, root'), states) \<Rightarrow>
             \<lparr> ac_result = (if flt Publish SyncRoot then Inl (MayBeActive SyncRoot)
                            else if flt Publish PointerPublished then Inl (MayBeActive PointerPublished) else Inr candidate),
               ac_dir = root', ac_states = states \<rparr>))"

definition publish_generation :: "('d, 'p) policy_api \<Rightarrow> owner \<Rightarrow> (phase \<Rightarrow> fault \<Rightarrow> bool) \<Rightarrow> string \<Rightarrow> string \<Rightarrow>
    (document \<times> string) list \<Rightarrow> dir \<Rightarrow> 'p activation" where
  "publish_generation api ow flt stage temp prepared root =
     (let data = pa_encode_manifest api (new_manifest ow prepared);
          revision = pa_digest api data in
      if flt Publish MkdirGenerations then refused root (Fault MkdirGenerations)
      else
        (let root1 = (if mget root ''generations'' = None then mput ''generations'' (Directory []) root else root) in
         case mget root1 ''generations'' of
           Some (Directory gens) \<Rightarrow>
             if flt Publish StatDestination then \<lparr> ac_result = Inl (Fault StatDestination), ac_dir = root1, ac_states = [root1] \<rparr>
             else if mget gens revision \<noteq> None then
               (let a = publish_pointer api ow flt temp revision root1 in a\<lparr>ac_states := root1 # ac_states a\<rparr>)
             else
               (case run_steps (flt Publish) (stage_steps stage revision data prepared) root1 of
                  ((Some e, root2), states) \<Rightarrow>
                    \<lparr> ac_result = Inl e, ac_dir = remove_stage stage root2, ac_states = root1 # states \<rparr>
                | ((None, root2), states) \<Rightarrow>
                   (let a = publish_pointer api ow flt temp revision root2 in a\<lparr>ac_states := root1 # states @ ac_states a\<rparr>))
         | _ \<Rightarrow> refused root1 InvalidGenerationsDirectory))"

text \<open>\<^verbatim>\<open>Activate\<close>; \<open>stage\<close> and \<open>temp\<close> are the names the operating system gives to the temporary files.\<close>

definition activate_refusals :: "('d, 'p) policy_api \<Rightarrow> owner \<Rightarrow> (phase \<Rightarrow> fault \<Rightarrow> bool) \<Rightarrow> string \<Rightarrow> 'd list \<Rightarrow> dir \<Rightarrow>
    pol_error option" where
  "activate_refusals api ow flt expected docs root =
     (let current = Load_store api ow (flt Current) root in
      first_of
       [refuse (docs = [] \<or> length docs > maxPolicies) PolicyCount,
        refuse (expected \<noteq> [] \<and> \<not> validDigest expected) InvalidExpected,
        refuse (case mget root ''.publication.lock'' of None \<Rightarrow> False | Some (Regular _) \<Rightarrow> False | Some _ \<Rightarrow> True) InvalidLock,
        refuse (flt Publish LockError) (Fault LockError),
        refuse (flt Publish LockBusy) (Fault LockBusy),
        (case current of
           Inl e \<Rightarrow> if expected \<noteq> [] \<or> e \<noteq> NotExist \<or> mget root ''active.json'' \<noteq> None then Some e else None
         | Inr _ \<Rightarrow> None),
        refuse ((case current of Inl _ \<Rightarrow> [] | Inr s \<Rightarrow> sn_revision s) \<noteq> expected) Conflict])"

definition Activate_store :: "('d, 'p) policy_api \<Rightarrow> owner \<Rightarrow> (phase \<Rightarrow> fault \<Rightarrow> bool) \<Rightarrow> string \<Rightarrow> string \<Rightarrow> string \<Rightarrow> 'd list \<Rightarrow> dir \<Rightarrow>
    'p activation" where
  "Activate_store api ow flt stage temp expected docs root =
     (case activate_refusals api ow flt expected docs root of
        Some e \<Rightarrow> refused root e
      | None \<Rightarrow>
         (case prepare_documents api ow (flt Publish) 0 [] 0 docs of
            Inl e \<Rightarrow> refused root e
          | Inr prepared \<Rightarrow> publish_generation api ow flt stage temp prepared root))"

section \<open>The controller\<close>

text \<open>The controller of a store, with the directory of the store.\<close>

record 'p controller =
  ct_active :: "'p snapshot option"
  ct_dir :: dir

definition Reload :: "('d, 'p) policy_api \<Rightarrow> owner \<Rightarrow> (fault \<Rightarrow> bool) \<Rightarrow> 'p controller \<Rightarrow>
    (pol_error + 'p snapshot) \<times> 'p controller" where
  "Reload api ow flt c =
     (case Load_store api ow flt (ct_dir c) of
        Inl e \<Rightarrow> (Inl e, c\<lparr>ct_active := None\<rparr>)
      | Inr s \<Rightarrow> (Inr s, c\<lparr>ct_active := Some s\<rparr>))"

definition NewController :: "('d, 'p) policy_api \<Rightarrow> owner \<Rightarrow> (fault \<Rightarrow> bool) \<Rightarrow> dir option \<Rightarrow> pol_error + 'p controller" where
  "NewController api ow flt store =
     (case store of
        None \<Rightarrow> Inl StoreRequired
      | Some root \<Rightarrow>
         (case Reload api ow flt \<lparr> ct_active = None, ct_dir = root \<rparr> of
            (Inl e, c) \<Rightarrow> Inl e
          | (Inr _, c) \<Rightarrow> Inr c))"

definition Snapshot_of :: "'p controller \<Rightarrow> pol_error + 'p snapshot" where
  "Snapshot_of c = (case ct_active c of None \<Rightarrow> Inl GenerationUnavailable | Some s \<Rightarrow> Inr s)"

definition Policies_of :: "(fault \<Rightarrow> bool) \<Rightarrow> 'p controller \<Rightarrow> pol_error + 'p list" where
  "Policies_of flt c =
     (if flt CtxLoad then Inl (Fault CtxLoad) else rbind (Snapshot_of c) (\<lambda>s. Inr (sn_policies s)))"

text \<open>\<^verbatim>\<open>Controller.Activate\<close>; \<open>flt'\<close> are the faults of the load that follows the publication.\<close>

definition Activate_controller :: "('d, 'p) policy_api \<Rightarrow> owner \<Rightarrow> (phase \<Rightarrow> fault \<Rightarrow> bool) \<Rightarrow> (fault \<Rightarrow> bool) \<Rightarrow> string \<Rightarrow> string \<Rightarrow>
    string \<Rightarrow> 'd list \<Rightarrow> 'p controller \<Rightarrow> (pol_error + 'p snapshot) \<times> 'p controller" where
  "Activate_controller api ow flt flt' stage temp expected docs c =
     (let a = Activate_store api ow flt stage temp expected docs (ct_dir c) in
      case Load_store api ow flt' (ac_dir a) of
        Inl loadErr \<Rightarrow>
          ((case ac_result a of Inl publishErr \<Rightarrow> Inl publishErr | Inr _ \<Rightarrow> Inl loadErr), \<lparr> ct_active = None, ct_dir = ac_dir a \<rparr>)
      | Inr s \<Rightarrow>
          ((case ac_result a of Inl publishErr \<Rightarrow> Inl publishErr | Inr _ \<Rightarrow> Inr s), \<lparr> ct_active = Some s, ct_dir = ac_dir a \<rparr>))"

section \<open>Leases\<close>

text \<open>
  A lease holds the read side of the controller's lock from \<^verbatim>\<open>AcquirePolicyLease\<close> to \<^verbatim>\<open>Release\<close>; a reload
  or an activation holds the write side. \<open>lz_held\<close> are the leases not yet released, by number.
\<close>

record 'p leasing =
  lz_controller :: "'p controller"
  lz_held :: "(nat \<times> 'p snapshot) list"
  lz_next :: nat

definition AcquirePolicyLease :: "(fault \<Rightarrow> bool) \<Rightarrow> 'p leasing \<Rightarrow> (pol_error + nat \<times> 'p snapshot) \<times> 'p leasing" where
  "AcquirePolicyLease flt z =
     (if flt CtxLoad then (Inl (Fault CtxLoad), z)
      else case ct_active (lz_controller z) of
          None \<Rightarrow> (Inl GenerationUnavailable, z)
        | Some s \<Rightarrow> (Inr (lz_next z, s), z\<lparr>lz_held := (lz_next z, s) # lz_held z, lz_next := lz_next z + 1\<rparr>))"

definition Release :: "nat \<Rightarrow> 'p leasing \<Rightarrow> 'p leasing" where
  "Release i z = z\<lparr>lz_held := mdel i (lz_held z)\<rparr>"

inductive lease_step :: "('d, 'p) policy_api \<Rightarrow> owner \<Rightarrow> 'p leasing \<Rightarrow> 'p leasing \<Rightarrow> bool"
  for api :: "('d, 'p) policy_api" and ow :: owner where
  Acquire: "lease_step api ow z (snd (AcquirePolicyLease flt z))"
| ReleaseLease: "lease_step api ow z (Release i z)"
| ReloadPolicies: "lz_held z = [] \<Longrightarrow> lease_step api ow z (z\<lparr>lz_controller := snd (Reload api ow flt (lz_controller z))\<rparr>)"
| ActivatePolicies: "lz_held z = [] \<Longrightarrow> lease_step api ow z
    (z\<lparr>lz_controller := snd (Activate_controller api ow flts flt stage temp expected docs (lz_controller z))\<rparr>)"

inductive_cases lease_step_cases [elim!]: "lease_step api ow z z'"

section \<open>Lemmas\<close>

abbreviation no_faults :: "fault \<Rightarrow> bool" where "no_faults \<equiv> \<lambda>_. False"

text \<open>Without faults a call that succeeded succeeds with the same result.\<close>

lemma read_member_no_faults: "read_member flt root name limit = Inr data \<Longrightarrow> read_member no_faults root name limit = Inr data"
  by (auto simp: read_member_def split: if_splits node.splits)

lemma load_documents_no_faults:
  "load_documents api flt root revision i seen n entries = Inr bodies \<Longrightarrow>
     load_documents api no_faults root revision i seen n entries = Inr bodies"
proof (induction entries arbitrary: i seen n bodies)
  case (Cons entry entries)
  then obtain body where "read_member flt root (generation_path revision (dc_file entry)) maxPolicyBytes = Inr body"
    by (auto split: if_splits)
  with Cons read_member_no_faults [OF this] show ?case by (auto split: if_splits option.splits)
qed simp

lemma loadGeneration_no_faults:
  assumes "loadGeneration api ow flt root revision = Inr s"
  shows "loadGeneration api ow no_faults root revision = Inr s"
proof -
  from assms obtain data m bodies where
    r: "read_member flt root (generation_path revision ''manifest.json'') maxGenerationBytes = Inr data"
    and j: "strictJSON (pa_decode_manifest api) (pa_encode_manifest api) data = Inr m"
    and d: "load_documents api flt root revision 0 [] (length data) (gm_documents m) = Inr bodies"
    by (auto simp: loadGeneration_def split: if_splits)
  with assms read_member_no_faults [OF r] load_documents_no_faults [OF d] show ?thesis
    by (simp add: loadGeneration_def split: if_splits)
qed

lemma Load_store_no_faults:
  assumes "Load_store api ow flt root = Inr s"
  shows "Load_store api ow no_faults root = Inr s"
proof -
  from assms obtain data r where d: "read_member flt root ''active.json'' 4096 = Inr data"
    and j: "strictJSON (pa_decode_pointer api) (pa_encode_pointer api) data = Inr r"
    and l: "loadGeneration api ow flt root r = Inr s"
    by (auto simp: Load_store_def split: if_splits)
  from read_member_no_faults [OF d] j loadGeneration_no_faults [OF l] show ?thesis by (simp add: Load_store_def)
qed

text \<open>What a load sees of a directory.\<close>

definition gen_node :: "dir \<Rightarrow> string \<Rightarrow> node option" where
  "gen_node root r = (case mget root ''generations'' of Some (Directory g) \<Rightarrow> mget g r | _ \<Rightarrow> None)"

definition has_generations :: "dir \<Rightarrow> bool" where
  "has_generations root \<longleftrightarrow> (\<exists>g. mget root ''generations'' = Some (Directory g))"

lemma validDigest_no_slash: "validDigest r \<Longrightarrow> CHR ''/'' \<notin> set r"
  by (auto simp: validDigest_def hex_lower_def list_all_iff)

lemma split_generation_path:
  assumes "CHR ''/'' \<notin> set r"
  shows "split_on CHR ''/'' (generation_path r file) = ''generations'' # r # split_on CHR ''/'' file"
proof -
  have "split_on CHR ''/'' (''generations'' @ CHR ''/'' # (r @ CHR ''/'' # file)) = ''generations'' # split_on CHR ''/'' (r @ CHR ''/'' # file)"
    by (rule split_on_sep) simp
  also have "split_on CHR ''/'' (r @ CHR ''/'' # file) = r # split_on CHR ''/'' file"
    using assms by (rule split_on_sep)
  finally show ?thesis by (simp add: generation_path_def)
qed

lemma read_member_cong:
  assumes "validDigest r" and "has_generations root" and "has_generations root'" and "gen_node root r = gen_node root' r"
  shows "read_member flt root (generation_path r file) limit = read_member flt root' (generation_path r file) limit"
proof -
  from assms obtain g g' where g: "mget root ''generations'' = Some (Directory g)" "mget root' ''generations'' = Some (Directory g')"
    and e: "mget g r = mget g' r" by (auto simp: has_generations_def gen_node_def)
  have "walk (Directory root) (split_on CHR ''/'' (generation_path r file)) =
      walk (Directory root') (split_on CHR ''/'' (generation_path r file))"
    unfolding split_generation_path [OF validDigest_no_slash [OF assms(1)]] by (simp add: g e)
  then show ?thesis by (simp add: read_member_def)
qed

lemma load_documents_cong:
  assumes "validDigest r" and "has_generations root" and "has_generations root'" and "gen_node root r = gen_node root' r"
  shows "load_documents api flt root r i seen n entries = load_documents api flt root' r i seen n entries"
proof (induction entries arbitrary: i seen n)
  case (Cons entry entries)
  show ?case unfolding load_documents.simps read_member_cong [OF assms] Cons.IH by (rule refl)
qed simp

lemma loadGeneration_cong:
  assumes "has_generations root" and "has_generations root'" and "gen_node root r = gen_node root' r"
  shows "loadGeneration api ow flt root r = loadGeneration api ow flt root' r"
proof (cases "validDigest r")
  case True
  show ?thesis
    unfolding loadGeneration_def read_member_cong [OF True assms] load_documents_cong [OF True assms] by (rule refl)
qed (simp add: loadGeneration_def)

lemma loadGeneration_present:
  assumes "loadGeneration api ow flt root r = Inr s"
  shows "validDigest r \<and> has_generations root \<and> gen_node root r \<noteq> None \<and> sn_revision s = r"
proof -
  from assms obtain data where v: "validDigest r"
    and d: "read_member flt root (generation_path r ''manifest.json'') maxGenerationBytes = Inr data" and s: "sn_revision s = r"
    by (auto simp: loadGeneration_def split: if_splits option.splits)
  from d have "\<exists>nd. walk (Directory root) (''generations'' # r # split_on CHR ''/'' ''manifest.json'') = Inr nd"
    unfolding read_member_def split_generation_path [OF validDigest_no_slash [OF v]] by (auto split: if_splits)
  then obtain g where "mget root ''generations'' = Some (Directory g)" "mget g r \<noteq> None"
    by (auto split: if_splits option.splits node.splits)
  with v s show ?thesis by (auto simp: has_generations_def gen_node_def)
qed

lemma read_active:
  "read_member flt root ''active.json'' limit =
     (if flt (OpenRoot ''active.json'') then Inl (Fault (OpenRoot ''active.json''))
      else case mget root ''active.json'' of
          None \<Rightarrow> Inl NotExist
        | Some Symlink \<Rightarrow> Inl SymlinkInPath
        | Some (Regular data) \<Rightarrow>
           if flt (OpenFile ''active.json'') then Inl (Fault (OpenFile ''active.json''))
           else if flt (ReadFile ''active.json'') then Inl (Fault (ReadFile ''active.json''))
           else if length data > limit then Inl ExceedsLimit else Inr data
        | Some _ \<Rightarrow> Inl NotRegular)"
  by (simp add: read_member_def split_on_no_sep split: option.splits node.splits)

lemma Load_store_cong:
  assumes "mget root' ''active.json'' = mget root ''active.json''"
    and "Load_store api ow flt root = Inr s" and "has_generations root'" and "gen_node root' (sn_revision s) = gen_node root (sn_revision s)"
  shows "Load_store api ow no_faults root' = Inr s"
proof -
  from Load_store_no_faults [OF assms(2)] obtain data r where
    d: "read_member no_faults root ''active.json'' 4096 = Inr data"
    and r: "strictJSON (pa_decode_pointer api) (pa_encode_pointer api) data = Inr r"
    and l: "loadGeneration api ow no_faults root r = Inr s"
    by (auto simp: Load_store_def)
  have p: "has_generations root" "sn_revision s = r" using loadGeneration_present [OF l] by auto
  have "loadGeneration api ow no_faults root' r = Inr s"
    using loadGeneration_cong [OF assms(3) p(1) assms(4) [unfolded p(2)], of api ow no_faults] l by (simp only:)
  moreover have "read_member no_faults root' ''active.json'' 4096 = Inr data"
    using d unfolding read_active assms(1) .
  ultimately show ?thesis by (simp add: Load_store_def r)
qed

lemma Load_store_absent: "mget root ''active.json'' = None \<Longrightarrow> Load_store api ow no_faults root = Inl NotExist"
  by (simp add: Load_store_def read_active)

text \<open>An invariant of every step holds of every directory on the way.\<close>

lemma run_steps_inv:
  assumes "run_steps flt steps root = ((e, root'), states)" and "I root"
    and "\<And>f act d. Step f act \<in> set steps \<Longrightarrow> I d \<Longrightarrow> I (act d)"
  shows "I root' \<and> (\<forall>st \<in> set states. I st)"
  using assms
proof (induction steps arbitrary: root states)
  case (Cons stp steps)
  obtain f act where stp: "stp = Step f act" by (cases stp)
  show ?case
  proof (cases "flt f")
    case True
    with Cons.prems show ?thesis by (auto simp: stp)
  next
    case False
    with Cons.prems(1) obtain states' where r: "run_steps flt steps (act root) = ((e, root'), states')"
      and s: "states = act root # states'" by (auto simp: stp split: prod.splits)
    have "I (act root)" using Cons.prems(3) [of f act root] Cons.prems(2) by (simp add: stp)
    moreover have "\<And>f act d. Step f act \<in> set steps \<Longrightarrow> I d \<Longrightarrow> I (act d)" by (rule Cons.prems(3)) auto
    ultimately have "I (act root)" "I root' \<and> (\<forall>st \<in> set states'. I st)" using Cons.IH [OF r] by auto
    then show ?thesis by (simp add: s)
  qed
qed simp

lemma run_steps_append:
  "run_steps flt (xs @ ys) root =
     (case run_steps flt xs root of
        ((Some e, root'), states) \<Rightarrow> ((Some e, root'), states)
      | ((None, root'), states) \<Rightarrow> (case run_steps flt ys root' of (r, states') \<Rightarrow> (r, states @ states')))"
proof (induction xs arbitrary: root)
  case (Cons x xs)
  then show ?case by (cases x) (auto split: prod.splits option.splits)
qed (simp split: prod.splits)

text \<open>The view that a publication must not disturb before its last step.\<close>

definition keeps_view :: "node option \<Rightarrow> string \<Rightarrow> node option \<Rightarrow> dir \<Rightarrow> bool" where
  "keeps_view active r nd root \<longleftrightarrow> mget root ''active.json'' = active \<and> has_generations root \<and> gen_node root r = nd"

lemma keeps_view_in_generations:
  assumes "keeps_view active r nd root" and "\<And>g. mget (f g) r = mget g r"
  shows "keeps_view active r nd (in_generations f root)"
  using assms by (auto simp: keeps_view_def in_generations_def has_generations_def gen_node_def split: node.splits)

lemma keeps_view_in_stage:
  assumes "keeps_view active r nd root" and "r \<noteq> stage"
  shows "keeps_view active r nd (in_stage stage f root)"
  unfolding in_stage_def using assms by (intro keeps_view_in_generations) auto

lemma stage_steps_keep:
  assumes "Step f act \<in> set (stage_steps stage revision data prepared)" and "keeps_view active r nd root"
    and "r \<noteq> stage" and "r \<noteq> revision"
  shows "keeps_view active r nd (act root)"
proof -
  have "keeps_view active r nd (in_generations (\<lambda>gens. mput revision (Directory (dir_entries (mget gens stage))) (mdel stage gens)) root)"
    using assms by (intro keeps_view_in_generations) auto
  with assms keeps_view_in_stage [OF assms(2,3)] show ?thesis by (auto simp: stage_steps_def)
qed

lemma keeps_view_put:
  "keeps_view active r nd root \<Longrightarrow> name \<noteq> ''active.json'' \<Longrightarrow> name \<noteq> ''generations'' \<Longrightarrow>
     keeps_view active r nd (mput name x root) \<and> keeps_view active r nd (mdel name root)"
  by (auto simp: keeps_view_def has_generations_def gen_node_def)

lemma keeps_view_remove_stage:
  "keeps_view active r nd root \<Longrightarrow> r \<noteq> stage \<Longrightarrow> keeps_view active r nd (remove_stage stage root)"
  by (auto simp: keeps_view_def remove_stage_def has_generations_def gen_node_def split: option.splits node.splits)

text \<open>What the codec of the standard library does to the pointer.\<close>

definition pointer_codec :: "('d, 'p) policy_api \<Rightarrow> bool" where
  "pointer_codec api \<longleftrightarrow> (\<forall>r. validDigest r \<longrightarrow>
     pa_decode_pointer api (pa_encode_pointer api r) = Some (r, False) \<and> length (pa_encode_pointer api r) \<le> 4096)"

lemma pointer_renamed:
  assumes "pointer_codec api" and "loadGeneration api ow flt root revision = Inr s"
    and "keeps_view active revision (gen_node root revision) root'" and "temp \<noteq> ''generations''"
  shows "Load_store api ow no_faults (mput ''active.json'' (Regular (pa_encode_pointer api revision)) (mdel temp root')) = Inr s"
    (is "Load_store api ow no_faults ?st = _")
proof -
  have p: "validDigest revision" "has_generations root" using loadGeneration_present [OF assms(2)] by auto
  have g: "has_generations ?st" "gen_node ?st revision = gen_node root revision"
    using assms(3,4) by (auto simp: keeps_view_def has_generations_def gen_node_def)
  have "loadGeneration api ow no_faults ?st revision = loadGeneration api ow no_faults root revision"
    by (rule loadGeneration_cong [OF g(1) p(2) g(2)])
  with loadGeneration_no_faults [OF assms(2)] have "loadGeneration api ow no_faults ?st revision = Inr s" by simp
  moreover have "read_member no_faults ?st ''active.json'' 4096 = Inr (pa_encode_pointer api revision)"
    using assms(1) p(1) by (simp add: read_active pointer_codec_def not_less)
  moreover have "strictJSON (pa_decode_pointer api) (pa_encode_pointer api) (pa_encode_pointer api revision) = Inr revision"
    using assms(1) p(1) by (simp add: strictJSON_def pointer_codec_def)
  ultimately show ?thesis by (simp add: Load_store_def)
qed

lemma pointer_steps_keep:
  assumes "Step f act \<in> set (butlast (pointer_steps temp ptr))" and "keeps_view active r nd d"
    and "temp \<noteq> ''active.json''" and "temp \<noteq> ''generations''"
  shows "keeps_view active r nd (act d)"
  using assms keeps_view_put [OF assms(2), of temp] by (auto simp: pointer_steps_def)

lemma pointer_steps_split:
  "pointer_steps temp ptr = butlast (pointer_steps temp ptr) @
     [Step RenamePointer (\<lambda>root. mput ''active.json'' (Regular ptr) (mdel temp root))]"
  by (simp add: pointer_steps_def)

definition new_or_kept :: "('d, 'p) policy_api \<Rightarrow> owner \<Rightarrow> string \<Rightarrow> (dir \<Rightarrow> bool) \<Rightarrow> dir \<Rightarrow> bool" where
  "new_or_kept api ow revision kept st \<longleftrightarrow>
     kept st \<or> (\<exists>s. Load_store api ow no_faults st = Inr s \<and> sn_revision s = revision)"

lemma publish_pointer_states:
  assumes "keeps_view active r nd root" and "pointer_codec api"
    and "a = publish_pointer api ow flt temp revision root" and "temp \<noteq> ''active.json''" and "temp \<noteq> ''generations''"
  shows "(\<forall>st \<in> insert (ac_dir a) (set (ac_states a)). new_or_kept api ow revision (keeps_view active r nd) st) \<and>
    (\<forall>s. ac_result a = Inr s \<longrightarrow> Load_store api ow no_faults (ac_dir a) = Inr s \<and> sn_revision s = revision)"
proof (cases "loadGeneration api ow (flt Candidate) root revision")
  case (Inl e)
  with assms show ?thesis by (simp add: publish_pointer_def refused_def new_or_kept_def)
next
  case (Inr s)
  let ?ptr = "pa_encode_pointer api revision"
  let ?rename = "\<lambda>d. mput ''active.json'' (Regular ?ptr) (mdel temp d)"
  let ?I = "\<lambda>d. keeps_view active r nd d \<and> keeps_view (mget root ''active.json'') revision (gen_node root revision) d"
  have rev: "sn_revision s = revision" and gens: "has_generations root" using loadGeneration_present [OF Inr] by auto
  obtain e root' states where run: "run_steps (flt Publish) (butlast (pointer_steps temp ?ptr)) root = ((e, root'), states)"
    by (metis prod.collapse)
  have I: "?I root' \<and> (\<forall>st \<in> set states. ?I st)"
    by (rule run_steps_inv [OF run]) (use assms(1) gens pointer_steps_keep [OF _ _ assms(4,5)] in \<open>auto simp: keeps_view_def\<close>)
  then have loads: "Load_store api ow no_faults (?rename root') = Inr s"
    using pointer_renamed [OF assms(2) Inr _ assms(5)] by blast
  have "keeps_view active r nd (mdel temp root')" using I keeps_view_put [of active r nd root' temp] assms(4,5) by simp
  note kept = this
  have full: "run_steps (flt Publish) (pointer_steps temp ?ptr) root =
      (case e of Some e \<Rightarrow> ((Some e, root'), states)
       | None \<Rightarrow> if flt Publish RenamePointer then ((Some (Fault RenamePointer), root'), states)
          else ((None, ?rename root'), states @ [?rename root']))"
    by (subst pointer_steps_split, unfold run_steps_append run prod.case) (cases e; simp)
  consider (failed) e' where "a = \<lparr> ac_result = Inl e', ac_dir = mdel temp root', ac_states = states \<rparr>"
    | (renamed) res where "a = \<lparr> ac_result = res, ac_dir = ?rename root', ac_states = states @ [?rename root'] \<rparr>" "\<forall>s'. res = Inr s' \<longrightarrow> s' = s"
    unfolding assms(3) publish_pointer_def Inr sum.case full
    by (cases e; cases "flt Publish RenamePointer"; cases "flt Publish SyncRoot"; cases "flt Publish PointerPublished") simp_all
  then show ?thesis
  proof cases
    case failed
    with kept I show ?thesis by (auto simp: new_or_kept_def)
  next
    case renamed
    with loads rev I show ?thesis by (auto simp: new_or_kept_def)
  qed
qed

lemma publish_generation_states:
  assumes "mget root ''active.json'' = active" and "pointer_codec api" and "r \<noteq> ''.pending-'' @ x"
    and "revision = pa_digest api (pa_encode_manifest api (new_manifest ow prepared))"
    and "has_generations root \<and> gen_node root r \<noteq> None \<or> active = None \<and> r = []" and "validDigest revision \<or> r \<noteq> revision"
    and "a = publish_generation api ow flt (''.pending-'' @ x) temp prepared root"
    and "temp \<noteq> ''active.json''" and "temp \<noteq> ''generations''"
  shows "(\<forall>st \<in> insert (ac_dir a) (set (ac_states a)).
      new_or_kept api ow revision (\<lambda>st. st = root \<or> keeps_view active r (gen_node root r) st) st) \<and>
    (\<forall>s. ac_result a = Inr s \<longrightarrow> Load_store api ow no_faults (ac_dir a) = Inr s \<and> sn_revision s = revision)"
proof -
  let ?stage = "''.pending-'' @ x" and ?data = "pa_encode_manifest api (new_manifest ow prepared)"
  let ?root1 = "if mget root ''generations'' = None then mput ''generations'' (Directory []) root else root"
  show ?thesis
  proof (cases "flt Publish MkdirGenerations")
    case True
    then show ?thesis by (simp add: assms(7) publish_generation_def refused_def new_or_kept_def Let_def)
  next
    case mk: False
    show ?thesis
    proof (cases "has_generations ?root1")
      case False
      then have "mget root ''generations'' \<noteq> None" and r1: "?root1 = root" by (auto simp: has_generations_def split: if_splits)
      then have "a = refused root InvalidGenerationsDirectory"
        using False mk by (auto simp: assms(7) publish_generation_def has_generations_def Let_def split: node.splits option.splits)
      then show ?thesis by (simp add: refused_def new_or_kept_def)
    next
      case True
      then obtain gens where gens: "mget ?root1 ''generations'' = Some (Directory gens)" by (auto simp: has_generations_def)
      have "gen_node ?root1 r = gen_node root r" by (auto simp: gen_node_def)
      with True have k1: "keeps_view active r (gen_node root r) ?root1"
        using assms(1) by (simp add: keeps_view_def split: if_splits)
      show ?thesis
      proof (cases "flt Publish StatDestination")
        case True
        then show ?thesis using mk gens k1
          by (auto simp: assms(7) publish_generation_def new_or_kept_def Let_def)
      next
        case st: False
        let ?pub = "\<lambda>d. publish_pointer api ow flt temp revision d"
        show ?thesis
        proof (cases "mget gens revision")
          case (Some nd)
          then have a: "a = (?pub ?root1)\<lparr>ac_states := ?root1 # ac_states (?pub ?root1)\<rparr>"
            using mk gens st by (simp add: assms(4,7) publish_generation_def Let_def)
          from publish_pointer_states [OF k1 assms(2) refl assms(8,9), of ow flt revision] k1 show ?thesis
            by (auto simp: a new_or_kept_def)
        next
          case None
          have rr: "r \<noteq> revision"
            using None gens assms(5,6) by (auto simp: gen_node_def has_generations_def validDigest_def split: if_splits)
          obtain e root2 states where run: "run_steps (flt Publish) (stage_steps ?stage revision ?data prepared) ?root1 = ((e, root2), states)"
            by (metis prod.collapse)
          have inv: "keeps_view active r (gen_node root r) root2 \<and> (\<forall>st \<in> set states. keeps_view active r (gen_node root r) st)"
            by (rule run_steps_inv [where I = "keeps_view active r (gen_node root r)", OF run k1]) (rule stage_steps_keep [OF _ _ assms(3) rr])
          show ?thesis
          proof (cases e)
            case (Some e')
            then have "a = \<lparr> ac_result = Inl e', ac_dir = remove_stage ?stage root2, ac_states = ?root1 # states \<rparr>"
              using mk gens st None run by (simp add: assms(4,7) publish_generation_def Let_def)
            moreover have "keeps_view active r (gen_node root r) (remove_stage ?stage root2)"
              using inv keeps_view_remove_stage [OF _ assms(3)] by blast
            ultimately show ?thesis using inv k1 by (auto simp: new_or_kept_def)
          next
            case e: None
            then have a: "a = (?pub root2)\<lparr>ac_states := ?root1 # states @ ac_states (?pub root2)\<rparr>"
              using mk gens st None run by (simp add: assms(4,7) publish_generation_def Let_def)
            from publish_pointer_states [of active r "gen_node root r" root2, OF _ assms(2) refl assms(8,9), of ow flt revision] inv k1
            show ?thesis by (auto simp: a new_or_kept_def)
          qed
        qed
      qed
    qed
  qed
qed

text \<open>SHA-256 in lower-case hexadecimal.\<close>

definition hex_digests :: "('d, 'p) policy_api \<Rightarrow> bool" where
  "hex_digests api \<longleftrightarrow> (\<forall>data. validDigest (pa_digest api data))"

lemma validDigest_not_stage: "validDigest r \<Longrightarrow> r \<noteq> ''.pending-'' @ x"
  by (auto simp: validDigest_def hex_lower_def)

text \<open>What a call that gets as far as publishing has found.\<close>

lemma Activate_store_cases:
  assumes "a = Activate_store api ow flt stage temp expected docs root"
  obtains (refused) e where "a = refused root e"
  | (published) prepared where "prepare_documents api ow (flt Publish) 0 [] 0 docs = Inr prepared"
      "a = publish_generation api ow flt stage temp prepared root"
      "(\<exists>cur. Load_store api ow (flt Current) root = Inr cur \<and> sn_revision cur = expected) \<or>
       mget root ''active.json'' = None \<and> expected = []"
proof (cases "activate_refusals api ow flt expected docs root")
  case (Some e)
  with assms show thesis by (intro refused) (simp add: Activate_store_def)
next
  case None
  show thesis
  proof (cases "prepare_documents api ow (flt Publish) 0 [] 0 docs")
    case (Inl e)
    with None assms show thesis by (intro refused) (simp add: Activate_store_def)
  next
    case (Inr prepared)
    have "(\<exists>cur. Load_store api ow (flt Current) root = Inr cur \<and> sn_revision cur = expected) \<or>
        mget root ''active.json'' = None \<and> expected = []"
      using None by (cases "Load_store api ow (flt Current) root")
        (auto simp: activate_refusals_def check_simps Let_def split: if_splits)
    with Inr None assms show thesis by (intro published [OF Inr]) (simp_all add: Activate_store_def)
  qed
qed

lemma Activate_store_states:
  assumes "pointer_codec api" and "hex_digests api"
    and "a = Activate_store api ow flt (''.pending-'' @ x) (''.active-'' @ y) expected docs root"
  shows "(\<forall>st \<in> insert (ac_dir a) (set (ac_states a)).
      Load_store api ow no_faults st = Load_store api ow no_faults root \<or>
      (\<exists>s prepared. Load_store api ow no_faults st = Inr s \<and>
        prepare_documents api ow (flt Publish) 0 [] 0 docs = Inr prepared \<and>
        sn_revision s = pa_digest api (pa_encode_manifest api (new_manifest ow prepared)))) \<and>
    (\<forall>s. ac_result a = Inr s \<longrightarrow> Load_store api ow no_faults (ac_dir a) = Inr s \<and>
      ((\<exists>cur. Load_store api ow no_faults root = Inr cur \<and> sn_revision cur = expected) \<or>
       mget root ''active.json'' = None \<and> expected = []))"
  using assms(3)
proof (cases rule: Activate_store_cases)
  case (refused e)
  then show ?thesis by (simp add: refused_def)
next
  case (published prepared)
  let ?rev = "pa_digest api (pa_encode_manifest api (new_manifest ow prepared))"
  have valid: "validDigest ?rev" using assms(2) by (simp add: hex_digests_def)
  have names: "''.active-'' @ y \<noteq> ''active.json''" "''.active-'' @ y \<noteq> ''generations''" by simp_all
  have conclude: ?thesis
    if "\<forall>st \<in> insert (ac_dir a) (set (ac_states a)). new_or_kept api ow ?rev kept st"
      and "\<forall>s. ac_result a = Inr s \<longrightarrow> Load_store api ow no_faults (ac_dir a) = Inr s \<and> sn_revision s = ?rev"
      and "\<And>st. kept st \<Longrightarrow> Load_store api ow no_faults st = Load_store api ow no_faults root"
      and "(\<exists>cur. Load_store api ow no_faults root = Inr cur \<and> sn_revision cur = expected) \<or>
        mget root ''active.json'' = None \<and> expected = []" for kept
    using that published(1) unfolding new_or_kept_def by (intro conjI ballI allI impI) metis+
  from published(3) show ?thesis
  proof (elim disjE exE conjE)
    fix cur
    assume cur: "Load_store api ow (flt Current) root = Inr cur" and ex: "sn_revision cur = expected"
    note cur' = Load_store_no_faults [OF cur]
    then obtain r where "loadGeneration api ow no_faults root r = Inr cur" by (auto simp: Load_store_def)
    note p = loadGeneration_present [OF this]
    then have g: "has_generations root \<and> gen_node root (sn_revision cur) \<noteq> None \<or> mget root ''active.json'' = None \<and> sn_revision cur = []"
      and np: "sn_revision cur \<noteq> ''.pending-'' @ x" using validDigest_not_stage by auto
    from publish_generation_states [OF refl assms(1) np refl g disjI1 [OF valid] published(2) names]
    have st: "\<forall>st \<in> insert (ac_dir a) (set (ac_states a)). new_or_kept api ow ?rev
        (\<lambda>st. st = root \<or> keeps_view (mget root ''active.json'') (sn_revision cur) (gen_node root (sn_revision cur)) st) st"
      and ok: "\<forall>s. ac_result a = Inr s \<longrightarrow> Load_store api ow no_faults (ac_dir a) = Inr s \<and> sn_revision s = ?rev" by blast+
    have same: "Load_store api ow no_faults st = Load_store api ow no_faults root"
      if "st = root \<or> keeps_view (mget root ''active.json'') (sn_revision cur) (gen_node root (sn_revision cur)) st" for st
      using that Load_store_cong [OF _ cur, of st] cur' by (auto simp: keeps_view_def)
    show ?thesis by (rule conclude [OF st ok same]) (simp_all add: cur' ex)
  next
    assume none: "mget root ''active.json'' = None" and ex: "expected = []"
    have g: "has_generations root \<and> gen_node root [] \<noteq> None \<or> mget root ''active.json'' = None \<and> [] = ([] :: string)"
      and np: "[] \<noteq> ''.pending-'' @ x" using none by auto
    from publish_generation_states [OF refl assms(1) np refl g disjI1 [OF valid] published(2) names]
    have st: "\<forall>st \<in> insert (ac_dir a) (set (ac_states a)). new_or_kept api ow ?rev
        (\<lambda>st. st = root \<or> keeps_view (mget root ''active.json'') [] (gen_node root []) st) st"
      and ok: "\<forall>s. ac_result a = Inr s \<longrightarrow> Load_store api ow no_faults (ac_dir a) = Inr s \<and> sn_revision s = ?rev" by blast+
    have same: "Load_store api ow no_faults st = Load_store api ow no_faults root"
      if "st = root \<or> keeps_view (mget root ''active.json'') [] (gen_node root []) st" for st
      using that none by (auto simp: keeps_view_def Load_store_absent)
    show ?thesis by (rule conclude [OF st ok same]) (simp_all add: none ex)
  qed
qed

text \<open>The contents of the files below a node.\<close>

inductive holds_file :: "node \<Rightarrow> string \<Rightarrow> bool" where
  Here: "holds_file (Regular data) data"
| Below: "(name, nd) \<in> set es \<Longrightarrow> holds_file nd data \<Longrightarrow> holds_file (Directory es) data"

inductive_simps holds_file_simps:
  "holds_file (Regular x) data" "holds_file Special data" "holds_file (Directory es) data"

lemma walk_holds: "walk nd ps = Inr (Regular data) \<Longrightarrow> holds_file nd data"
proof (induction nd ps rule: walk.induct)
  case (1 nd)
  then show ?case by (simp add: Here)
next
  case (2 nd p ps)
  then obtain es nd' where nd: "nd = Directory es" "mget es p = Some nd'" and w: "walk nd' ps = Inr (Regular data)"
    by (auto split: if_splits node.splits option.splits)
  have "holds_file nd' data" using 2 nd w by (auto split: if_splits node.splits)
  with nd show ?case by (auto intro: Below dest: map_of_SomeD)
qed

lemma read_member_holds:
  assumes "read_member flt root name limit = Inr data"
  shows "holds_file (Directory root) data"
proof -
  from assms obtain nd where w: "walk (Directory root) (split_on CHR ''/'' name) = Inr nd"
    by (auto simp: read_member_def split: if_splits)
  with assms have "nd = Regular data" by (cases nd) (auto simp: read_member_def split: if_splits)
  with w show ?thesis by (simp add: walk_holds)
qed

definition collision_free :: "('d, 'p) policy_api \<Rightarrow> dir \<Rightarrow> dir \<Rightarrow> bool" where
  "collision_free api root root' \<longleftrightarrow>
     inj_on (pa_digest api) {data. holds_file (Directory root) data \<or> holds_file (Directory root') data}"

lemma load_documents_unique:
  assumes "load_documents api flt root r i seen n entries = Inr bodies"
    and "load_documents api flt' root' r i seen n entries = Inr bodies'" and "collision_free api root root'"
  shows "bodies = bodies'"
  using assms(1,2)
proof (induction entries arbitrary: i seen n bodies bodies')
  case (Cons entry entries)
  from Cons.prems(1) obtain body rest where b: "read_member flt root (generation_path r (dc_file entry)) maxPolicyBytes = Inr body"
    "pa_digest api body = dc_revision entry" "load_documents api flt root r (Suc i) (dc_id entry # seen) (n + length body) entries = Inr rest"
    "bodies = (generation_path r (dc_file entry), body) # rest" by (auto split: if_splits option.splits)
  from Cons.prems(2) obtain body' rest' where b': "read_member flt' root' (generation_path r (dc_file entry)) maxPolicyBytes = Inr body'"
    "pa_digest api body' = dc_revision entry" "load_documents api flt' root' r (Suc i) (dc_id entry # seen) (n + length body') entries = Inr rest'"
    "bodies' = (generation_path r (dc_file entry), body') # rest'" by (auto split: if_splits option.splits)
  have "body = body'"
    using assms(3) read_member_holds [OF b(1)] read_member_holds [OF b'(1)] b(2) b'(2)
    by (auto simp: collision_free_def inj_on_def)
  with b b' Cons.IH show ?case by blast
qed simp

interpretation leases: step_system "lease_step api ow"
    "\<lambda>z. \<forall>(i, s) \<in> set (lz_held z). ct_active (lz_controller z) = Some s"
proof
  fix z z' :: "'b leasing"
  assume "lease_step api ow z z'" and "\<forall>(i, s) \<in> set (lz_held z). ct_active (lz_controller z) = Some s"
  then show "\<forall>(i, s) \<in> set (lz_held z'). ct_active (lz_controller z') = Some s"
  proof cases
    case (Acquire flt)
    with \<open>\<forall>(i, s) \<in> set (lz_held z). _\<close> show ?thesis
      by (auto simp: AcquirePolicyLease_def split: option.splits)
  next
    case (ReleaseLease i)
    with \<open>\<forall>(i, s) \<in> set (lz_held z). _\<close> show ?thesis
      by (auto simp: Release_def AList.delete_eq)
  qed simp_all
qed

section \<open>Properties\<close>

text \<open>A store of one owner and its first activation, for the witnesses.\<close>

definition demo_owner :: owner where
  "demo_owner = \<lparr> o_database = ''crm'', o_realm = [], o_enabled = True \<rparr>"

definition demo_digest :: string where "demo_digest = replicate 64 CHR ''a''"

definition demo_document :: document where
  "demo_document = \<lparr> dc_id = ''p'', dc_file = policy_file demo_digest, dc_revision = demo_digest \<rparr>"

definition demo_manifest_of :: gen_manifest where
  "demo_manifest_of = \<lparr> gm_version = generation_version, gm_owner = demo_owner, gm_documents = [demo_document] \<rparr>"

definition demo_api :: "(string, string) policy_api" where
  "demo_api =
     \<lparr> pa_digest = (\<lambda>_. demo_digest), pa_realm_valid = (\<lambda>_. True),
       pa_decode_pointer = (\<lambda>s. Some (s, False)), pa_encode_pointer = (\<lambda>r. r),
       pa_decode_manifest = (\<lambda>_. Some (demo_manifest_of, False)), pa_encode_manifest = (\<lambda>_. ''m''),
       pa_parse = Some, pa_marshal = Some, pa_target = (\<lambda>_. ''crm''), pa_name = (\<lambda>d. d),
       pa_compile = (\<lambda>ow bodies. Some (map snd bodies)) \<rparr>"

definition demo_activation :: "string activation" where
  "demo_activation = Activate_store demo_api demo_owner (\<lambda>_ _. False) (''.pending-'' @ ''1'') (''.active-'' @ ''1'') [] [''p''] []"

definition demo_snapshot :: "string snapshot" where
  "demo_snapshot = \<lparr> sn_revision = demo_digest, sn_owner = demo_owner, sn_documents = [demo_document], sn_policies = [''p''] \<rparr>"

lemma demo_digest_valid: "validDigest demo_digest"
  by (simp add: validDigest_def demo_digest_def hex_lower_def list_all_iff)

lemma demo_laws: "pointer_codec demo_api" "hex_digests demo_api"
  using demo_digest_valid by (simp_all add: pointer_codec_def hex_digests_def demo_api_def validDigest_def)

definition demo_generation :: "string \<Rightarrow> node" where
  "demo_generation data = Directory [(''policies'', Directory [(demo_digest @ ''.json'', Regular ''p'')]), (''manifest.json'', Regular data)]"

lemma demo_digest_facts:
  "demo_digest \<noteq> []" "demo_digest \<noteq> ''.''" "demo_digest \<noteq> ''..''" "length demo_digest = 64"
  "demo_digest \<noteq> ''.pending-1''" "''.pending-1'' \<noteq> demo_digest"
proof -
  have differ: "length a \<noteq> length b \<Longrightarrow> a \<noteq> b" for a b :: string by auto
  show l: "length demo_digest = 64" by (simp add: demo_digest_def)
  show "demo_digest \<noteq> []" "demo_digest \<noteq> ''.''" "demo_digest \<noteq> ''..''" "demo_digest \<noteq> ''.pending-1''"
    "''.pending-1'' \<noteq> demo_digest" by (rule differ; simp add: l)+
qed

lemma demo_no_slash: "CHR ''/'' \<notin> set demo_digest"
  using demo_digest_valid by (rule validDigest_no_slash)

lemma demo_policy_path: "split_on CHR ''/'' (policy_file demo_digest) = [''policies'', demo_digest @ ''.json'']"
proof -
  have "split_on CHR ''/'' (''policies'' @ CHR ''/'' # (demo_digest @ ''.json'')) = ''policies'' # split_on CHR ''/'' (demo_digest @ ''.json'')"
    by (rule split_on_sep) simp
  also have "split_on CHR ''/'' (demo_digest @ ''.json'') = [demo_digest @ ''.json'']"
    by (rule split_on_no_sep) (simp add: demo_no_slash)
  finally show ?thesis by (simp add: policy_file_def)
qed

lemma demo_loads:
  assumes "mget root ''generations'' = Some (Directory gens)" and "mget gens demo_digest = Some (demo_generation data)"
    and "length data < 100" and "pa_encode_manifest api demo_manifest_of = data" and "api = demo_api\<lparr>pa_encode_manifest := \<lambda>_. data\<rparr>"
  shows "loadGeneration api demo_owner no_faults root demo_digest = Inr demo_snapshot"
proof -
  have "read_member no_faults root (generation_path demo_digest ''manifest.json'') maxGenerationBytes = Inr data"
    using assms(1-3) unfolding read_member_def split_generation_path [OF demo_no_slash]
    by (simp add: demo_digest_facts demo_generation_def maxGenerationBytes_def split_on_no_sep)
  moreover have "read_member no_faults root (generation_path demo_digest (policy_file demo_digest)) maxPolicyBytes = Inr ''p''"
    using assms(1,2) unfolding read_member_def split_generation_path [OF demo_no_slash] demo_policy_path
    by (simp add: demo_digest_facts demo_generation_def maxPolicyBytes_def)
  ultimately show ?thesis
    using assms(3) demo_digest_valid
    by (simp add: loadGeneration_def assms(5) demo_api_def strictJSON_def demo_manifest_of_def demo_document_def
        maxPolicies_def maxGenerationBytes_def demo_snapshot_def)
qed

lemma demo_activated: "ac_result demo_activation = Inr demo_snapshot"
proof -
  let ?root = "[(''generations'', Directory [(demo_digest, demo_generation ''m'')])]"
  have api: "demo_api = demo_api\<lparr>pa_encode_manifest := \<lambda>_. ''m''\<rparr>" by (simp add: demo_api_def)
  have ok: "activate_refusals demo_api demo_owner (\<lambda>_ _. False) [] [''p''] [] = None"
    by (simp add: activate_refusals_def check_simps Load_store_def read_active maxPolicies_def)
  have prep: "prepare_documents demo_api demo_owner (\<lambda>_. False) 0 [] 0 [''p''] = Inr [(demo_document, ''p'')]"
    by (simp add: demo_api_def demo_owner_def demo_document_def maxPolicyBytes_def maxGenerationBytes_def)
  obtain states where run: "run_steps (\<lambda>_. False) (stage_steps ''.pending-1'' demo_digest ''m'' [(demo_document, ''p'')])
      [(''generations'', Directory [])] = ((None, ?root), states)"
    by (simp add: stage_steps_def in_stage_def in_generations_def write_policy_def demo_digest_facts demo_generation_def demo_document_def)
  have load: "loadGeneration demo_api demo_owner no_faults ?root demo_digest = Inr demo_snapshot"
    by (rule demo_loads [where gens = "[(demo_digest, demo_generation ''m'')]" and data = "''m''", OF _ _ _ _ api])
      (simp_all add: demo_api_def)
  have enc: "pa_encode_manifest demo_api m = ''m''" "pa_digest demo_api data = demo_digest" for m data by (simp_all add: demo_api_def)
  have "ac_result (publish_pointer demo_api demo_owner (\<lambda>_ _. False) ''.active-1'' demo_digest ?root) = Inr demo_snapshot"
    by (simp add: publish_pointer_def load pointer_steps_def)
  then have "ac_result (publish_generation demo_api demo_owner (\<lambda>_ _. False) ''.pending-1'' ''.active-1'' [(demo_document, ''p'')] []) = Inr demo_snapshot"
    by (simp add: publish_generation_def enc run Let_def)
  then show ?thesis by (simp add: demo_activation_def Activate_store_def ok prep del: prepare_documents.simps)
qed

text \<open>
  C9. Publishing policies is crash-safe. Whatever fails during an activation, and wherever the process
  is stopped, a load of the directory that is left gives what a load gave before, or a complete,
  verified generation whose revision is the digest of the manifest built from the given documents.
\<close>

theorem publication_is_crash_safe:
  assumes "pointer_codec api" and "hex_digests api"
    and "a = Activate_store api ow flt (''.pending-'' @ x) (''.active-'' @ y) expected docs root"
    and "st = ac_dir a \<or> st \<in> set (ac_states a)"
  shows "Load_store api ow no_faults st = Load_store api ow no_faults root \<or>
    (\<exists>s prepared. Load_store api ow no_faults st = Inr s \<and>
      prepare_documents api ow (flt Publish) 0 [] 0 docs = Inr prepared \<and>
      sn_revision s = pa_digest api (pa_encode_manifest api (new_manifest ow prepared)))"
  using Activate_store_states [OF assms(1-3)] assms(4) by blast

theorem publication_is_crash_safe_witness:
  "Load_store demo_api demo_owner no_faults (ac_dir demo_activation) = Load_store demo_api demo_owner no_faults [] \<or>
    (\<exists>s. Load_store demo_api demo_owner no_faults (ac_dir demo_activation) = Inr s \<and> sn_revision s = demo_digest)"
  using publication_is_crash_safe [OF demo_laws demo_activation_def disjI1 [OF refl]] by (auto simp: demo_api_def)

text \<open>
  C20. Activation is a compare-and-swap: when it returns a snapshot, the directory loads as that
  snapshot, and before the call the directory loaded as the generation the caller expected, or no
  generation was ever activated and the caller expected none.
\<close>

theorem activation_is_compare_and_swap:
  assumes "pointer_codec api" and "hex_digests api"
    and "a = Activate_store api ow flt (''.pending-'' @ x) (''.active-'' @ y) expected docs root"
    and "ac_result a = Inr s"
  shows "Load_store api ow no_faults (ac_dir a) = Inr s \<and>
    ((\<exists>cur. Load_store api ow no_faults root = Inr cur \<and> sn_revision cur = expected) \<or>
     mget root ''active.json'' = None \<and> expected = [])"
  using Activate_store_states [OF assms(1-3)] assms(4) by blast

theorem activation_is_compare_and_swap_witness:
  "Load_store demo_api demo_owner no_faults (ac_dir demo_activation) = Inr demo_snapshot"
  using activation_is_compare_and_swap [OF demo_laws demo_activation_def demo_activated] by blast

text \<open>
  A revision names one policy set: two directories that both load a generation under one revision
  give the same snapshot, documents and policies included, as long as no two of their files are a
  collision of the digest.
\<close>

theorem revision_identifies_policies:
  assumes "loadGeneration api ow flt root r = Inr s" and "loadGeneration api ow flt' root' r = Inr s'"
    and "collision_free api root root'"
  shows "s = s'"
proof -
  from assms(1) obtain data m bodies where a: "read_member flt root (generation_path r ''manifest.json'') maxGenerationBytes = Inr data"
    "pa_digest api data = r" "strictJSON (pa_decode_manifest api) (pa_encode_manifest api) data = Inr m"
    "load_documents api flt root r 0 [] (length data) (gm_documents m) = Inr bodies"
    "\<exists>ps. pa_compile api ow bodies = Some ps \<and> s = \<lparr> sn_revision = r, sn_owner = gm_owner m, sn_documents = gm_documents m, sn_policies = ps \<rparr>"
    by (auto simp: loadGeneration_def split: if_splits option.splits)
  from assms(2) obtain data' m' bodies' where b: "read_member flt' root' (generation_path r ''manifest.json'') maxGenerationBytes = Inr data'"
    "pa_digest api data' = r" "strictJSON (pa_decode_manifest api) (pa_encode_manifest api) data' = Inr m'"
    "load_documents api flt' root' r 0 [] (length data') (gm_documents m') = Inr bodies'"
    "\<exists>ps. pa_compile api ow bodies' = Some ps \<and> s' = \<lparr> sn_revision = r, sn_owner = gm_owner m', sn_documents = gm_documents m', sn_policies = ps \<rparr>"
    by (auto simp: loadGeneration_def split: if_splits option.splits)
  have d: "data = data'"
    using assms(3) read_member_holds [OF a(1)] read_member_holds [OF b(1)] a(2) b(2)
    by (auto simp: collision_free_def inj_on_def)
  with a(3) b(3) have m: "m = m'" by simp
  with d a(4) b(4) assms(3) have "bodies = bodies'" using load_documents_unique by blast
  with a(5) b(5) m show ?thesis by auto
qed

theorem revision_identifies_policies_witness:
  "loadGeneration (demo_api\<lparr>pa_encode_manifest := \<lambda>_. ''p''\<rparr>) demo_owner no_faults
     [(''generations'', Directory [(demo_digest, demo_generation ''p'')])] demo_digest = Inr demo_snapshot"
proof -
  let ?root = "[(''generations'', Directory [(demo_digest, demo_generation ''p'')])]"
  let ?root' = "(''x'', Special) # ?root"
  let ?api = "demo_api\<lparr>pa_encode_manifest := \<lambda>_. ''p''\<rparr>"
  have l: "loadGeneration ?api demo_owner no_faults ?root demo_digest = Inr demo_snapshot"
    and l': "loadGeneration ?api demo_owner no_faults ?root' demo_digest = Inr demo_snapshot"
    by (rule demo_loads [where gens = "[(demo_digest, demo_generation ''p'')]" and data = "''p''"], simp_all)+
  have "holds_file (Directory ?root) data \<Longrightarrow> data = ''p''" "holds_file (Directory ?root') data \<Longrightarrow> data = ''p''" for data
    by (auto simp: demo_generation_def holds_file_simps)
  then have "collision_free ?api ?root ?root'" by (auto simp: collision_free_def inj_on_def)
  from revision_identifies_policies [OF l l' this] l show ?thesis by simp
qed



end
