(* ===== verification/Query_Gate.thy ===== *)
theory Query_Gate
  imports Go_Base
begin

text \<open>
  \<^verbatim>\<open>src/pkg/server/querylimits.go\<close>: the limits of relational queries, the gate that bounds how many of
  them run at once, and the cache header of their answers.

  Durations are nanoseconds. A buffered channel used as a slot pool is its capacity and the slots in
  it. Concurrent calls of \<^verbatim>\<open>acquire\<close> are a step relation: a call takes a slot at once, is refused,
  or waits until it is given a slot, its timer fires or its context ends; the release function of a
  call runs at most once.
\<close>

section \<open>Limits\<close>

record query_limits =
  ql_timeout :: int
  ql_inMemory :: int
  ql_database :: int
  ql_queueWait :: int
  ql_maxSourceRows :: int
  ql_maxSourceBytes :: int
  ql_joinEngines :: "string list"

definition second :: int where "second = 1000000000"

definition DefaultQueryLimits :: query_limits where
  "DefaultQueryLimits =
     \<lparr> ql_timeout = 10 * second, ql_inMemory = 2, ql_database = 4, ql_queueWait = second, ql_maxSourceRows = 100000,
       ql_maxSourceBytes = 64 * 1024 * 1024, ql_joinEngines = [''sqlite'', ''ingitdb''] \<rparr>"

definition normalizeQueryLimits :: "query_limits \<Rightarrow> query_limits" where
  "normalizeQueryLimits l =
     (let def = DefaultQueryLimits in
      \<lparr> ql_timeout = (if ql_timeout l \<le> 0 then ql_timeout def else ql_timeout l),
        ql_inMemory = (if ql_inMemory l \<le> 0 then ql_inMemory def else ql_inMemory l),
        ql_database = (if ql_database l \<le> 0 then ql_database def else ql_database l),
        ql_queueWait = (if ql_queueWait l = 0 then ql_queueWait def else ql_queueWait l),
        ql_maxSourceRows = (if ql_maxSourceRows l \<le> 0 then ql_maxSourceRows def else ql_maxSourceRows l),
        ql_maxSourceBytes = (if ql_maxSourceBytes l \<le> 0 then ql_maxSourceBytes def else ql_maxSourceBytes l),
        ql_joinEngines = (if ql_joinEngines l = [] then ql_joinEngines def else ql_joinEngines l) \<rparr>)"

section \<open>The gate\<close>

datatype query_route = RouteInMemory | RouteDatabase | OtherRoute string

text \<open>
  \<open>qg_held\<close> are the calls that hold a slot and have not released it, \<open>qg_waiting\<close> the calls in the
  second \<^verbatim>\<open>select\<close>; a call is its number and its route.
\<close>

record query_gate =
  qg_slots :: "(query_route, nat) gomap"
  qg_wait :: int
  qg_held :: "(nat, query_route) gomap"
  qg_waiting :: "(nat, query_route) gomap"
  qg_calls :: nat

definition newQueryGate :: "query_limits \<Rightarrow> query_gate" where
  "newQueryGate l =
     \<lparr> qg_slots = [(RouteInMemory, nat (ql_inMemory l)), (RouteDatabase, nat (ql_database l))], qg_wait = ql_queueWait l,
       qg_held = [], qg_waiting = [], qg_calls = 0 \<rparr>"

definition in_use :: "query_gate \<Rightarrow> query_route \<Rightarrow> nat" where
  "in_use g route = length (filter (\<lambda>(i, r). r = route) (qg_held g))"

datatype verdict = Granted | Refused | Waits

text \<open>The start of \<^verbatim>\<open>acquire\<close>, up to the first \<^verbatim>\<open>select\<close> or the second.\<close>

definition acquire :: "bool \<Rightarrow> query_route \<Rightarrow> query_gate \<Rightarrow> verdict \<times> query_gate" where
  "acquire ended route g =
     (let i = qg_calls g; g = g\<lparr>qg_calls := i + 1\<rparr> in
      case mget (qg_slots g) route of
        None \<Rightarrow> (Refused, g)
      | Some capacity \<Rightarrow>
         if ended then (Refused, g)
         else if in_use g route < capacity then (Granted, g\<lparr>qg_held := (i, route) # qg_held g\<rparr>)
         else if qg_wait g \<le> 0 then (Refused, g)
         else (Waits, g\<lparr>qg_waiting := (i, route) # qg_waiting g\<rparr>))"

text \<open>The three ways out of the second \<^verbatim>\<open>select\<close>, and the release function.\<close>

definition grant_waiting :: "nat \<Rightarrow> query_gate \<Rightarrow> query_gate option" where
  "grant_waiting i g =
     (case mget (qg_waiting g) i of
        None \<Rightarrow> None
      | Some route \<Rightarrow>
         if in_use g route < case_option 0 id (mget (qg_slots g) route)
         then Some (g\<lparr>qg_waiting := mdel i (qg_waiting g), qg_held := (i, route) # qg_held g\<rparr>) else None)"

definition give_up :: "nat \<Rightarrow> query_gate \<Rightarrow> query_gate" where
  "give_up i g = g\<lparr>qg_waiting := mdel i (qg_waiting g)\<rparr>"

definition releaseSlot :: "nat \<Rightarrow> query_gate \<Rightarrow> query_gate" where
  "releaseSlot i g = g\<lparr>qg_held := mdel i (qg_held g)\<rparr>"

inductive gate_step :: "query_gate \<Rightarrow> query_gate \<Rightarrow> bool" where
  Call: "gate_step g (snd (acquire ended route g))"
| Grant: "grant_waiting i g = Some g' \<Longrightarrow> gate_step g g'"
| GiveUp: "gate_step g (give_up i g)"
| ReleaseStep: "gate_step g (releaseSlot i g)"

section \<open>Cache control\<close>

definition maxCacheTTL :: int where "maxCacheTTL = 365 * 24 * 60 * 60 * second"

record cache_facts =
  cf_ttl :: int
  cf_hasAccessPolicies :: bool
  cf_noRetention :: bool

text \<open>The header is \<^verbatim>\<open>no-store\<close> or \<^verbatim>\<open>public\<close> with a number of seconds.\<close>

datatype cache_control = NoStore | PublicFor int

definition uncacheable :: "cache_facts \<Rightarrow> bool" where
  "uncacheable db \<longleftrightarrow> cf_noRetention db \<or> cf_hasAccessPolicies db \<or> cf_ttl db < second \<or> cf_ttl db > maxCacheTTL \<or>
     cf_ttl db mod second \<noteq> 0"

fun smallest_ttl :: "int \<Rightarrow> cache_facts list \<Rightarrow> int option" where
  "smallest_ttl smallest [] = Some smallest"
| "smallest_ttl smallest (db # dbs) = (if uncacheable db then None else smallest_ttl (min smallest (cf_ttl db)) dbs)"

definition relationalCacheControl :: "bool \<Rightarrow> bool \<Rightarrow> string \<Rightarrow> cache_facts list \<Rightarrow> cache_control" where
  "relationalCacheControl readOnly authEnabled method dbs =
     (if \<not> readOnly \<or> authEnabled \<or> method \<noteq> ''GET'' \<or> dbs = [] then NoStore
      else case smallest_ttl maxCacheTTL dbs of
          None \<Rightarrow> NoStore
        | Some smallest \<Rightarrow> PublicFor (smallest div second))"

section \<open>Lemmas\<close>

lemma normalized_positive:
  "0 < ql_timeout (normalizeQueryLimits l) \<and> 0 < ql_inMemory (normalizeQueryLimits l) \<and> 0 < ql_database (normalizeQueryLimits l) \<and>
   ql_queueWait (normalizeQueryLimits l) \<noteq> 0 \<and> 0 < ql_maxSourceRows (normalizeQueryLimits l) \<and>
   0 < ql_maxSourceBytes (normalizeQueryLimits l) \<and> ql_joinEngines (normalizeQueryLimits l) \<noteq> []"
  by (simp add: normalizeQueryLimits_def DefaultQueryLimits_def second_def Let_def)

text \<open>No route has more calls running than slots, a waiting call has a route with slots, and calls are numbered once.\<close>

definition slots_of :: "query_gate \<Rightarrow> query_route \<Rightarrow> nat" where
  "slots_of g route = case_option 0 id (mget (qg_slots g) route)"

definition gate_inv :: "query_limits \<Rightarrow> query_gate \<Rightarrow> bool" where
  "gate_inv l g \<longleftrightarrow>
     qg_slots g = qg_slots (newQueryGate l) \<and>
     (\<forall>route. in_use g route \<le> slots_of g route) \<and>
     wf_map (qg_held g) \<and> wf_map (qg_waiting g) \<and>
     (\<forall>i r r'. (i, r) \<in> set (qg_held g) \<longrightarrow> (i, r') \<notin> set (qg_waiting g)) \<and>
     (\<forall>i r. (i, r) \<in> set (qg_held g) \<longrightarrow> i < qg_calls g) \<and>
     (\<forall>i r. (i, r) \<in> set (qg_waiting g) \<longrightarrow> i < qg_calls g \<and> mget (qg_slots g) r \<noteq> None)"

lemma new_gate_inv: "gate_inv l (newQueryGate l)"
  by (auto simp: gate_inv_def newQueryGate_def in_use_def)

lemma holders_delete_le:
  "length (filter (\<lambda>(i, r). r = route) (mdel i held)) \<le> length (filter (\<lambda>(i, r). r = route) held)"
  by (induction held) auto

lemma holders_delete_less:
  "mget held i = Some route \<Longrightarrow>
   length (filter (\<lambda>(i, r). r = route) (mdel i held)) < length (filter (\<lambda>(i, r). r = route) held)"
  by (induction held) (auto simp: le_imp_less_Suc holders_delete_le split: if_splits)

lemma in_use_release: "in_use (releaseSlot i g) route \<le> in_use g route"
  by (simp add: in_use_def releaseSlot_def holders_delete_le)

lemma in_use_release_holder: "mget (qg_held g) i = Some route \<Longrightarrow> in_use (releaseSlot i g) route < in_use g route"
  by (simp add: in_use_def releaseSlot_def holders_delete_less)

lemma in_use_take:
  "in_use (g\<lparr>qg_held := (i, r) # qg_held g\<rparr>) route = in_use g route + (if r = route then 1 else 0)"
  by (simp add: in_use_def)

lemma in_use_frame [simp]:
  "in_use (g\<lparr>qg_waiting := ws\<rparr>) route = in_use g route"
  "in_use (g\<lparr>qg_calls := n\<rparr>) route = in_use g route"
  by (simp_all add: in_use_def)

lemma slots_frame [simp]:
  "slots_of (g\<lparr>qg_waiting := ws\<rparr>) route = slots_of g route"
  "slots_of (g\<lparr>qg_held := hs\<rparr>) route = slots_of g route"
  "slots_of (g\<lparr>qg_calls := n\<rparr>) route = slots_of g route"
  by (simp_all add: slots_of_def)

lemma mem_delete [simp]: "(k, v) \<in> set (mdel i m) \<longleftrightarrow> k \<noteq> i \<and> (k, v) \<in> set m"
  by (auto simp: AList.delete_eq)

definition fresh_call :: "nat \<Rightarrow> query_gate \<Rightarrow> bool" where
  "fresh_call i g \<longleftrightarrow> (\<forall>r. (i, r) \<notin> set (qg_held g) \<and> (i, r) \<notin> set (qg_waiting g))"

lemma wf_map_fresh: "wf_map m \<Longrightarrow> \<forall>w. (k, w) \<notin> set m \<Longrightarrow> wf_map ((k, v) # m)"
  by (auto simp: wf_map_Cons)

text \<open>Taking a slot with a fresh number, leaving the queue and releasing keep the invariant.\<close>

lemma take_slot_inv:
  assumes "gate_inv l g" and "in_use g route < slots_of g route"
    and "fresh_call i g" and "i < qg_calls g"
  shows "gate_inv l (g\<lparr>qg_held := (i, route) # qg_held g\<rparr>)"
  using assms by (auto simp: gate_inv_def in_use_take fresh_call_def Suc_le_eq intro: wf_map_fresh)

lemma count_call_inv: "gate_inv l g \<Longrightarrow> gate_inv l (g\<lparr>qg_calls := qg_calls g + 1\<rparr>)"
  by (auto simp: gate_inv_def intro: less_SucI)

lemma leave_queue_inv: "gate_inv l g \<Longrightarrow> gate_inv l (give_up i g)"
  by (auto simp: gate_inv_def give_up_def)

lemma release_inv: "gate_inv l g \<Longrightarrow> gate_inv l (releaseSlot i g)"
  using in_use_release [of i g]
  by (auto simp: gate_inv_def releaseSlot_def intro: le_trans)

lemma join_queue_inv:
  assumes "gate_inv l g" and "mget (qg_slots g) route \<noteq> None"
    and "fresh_call i g" and "i < qg_calls g"
  shows "gate_inv l (g\<lparr>qg_waiting := (i, route) # qg_waiting g\<rparr>)"
  using assms by (auto simp: gate_inv_def fresh_call_def intro: wf_map_fresh)

lemma next_call_fresh: "gate_inv l g \<Longrightarrow> fresh_call (qg_calls g) g"
  using less_irrefl unfolding gate_inv_def fresh_call_def by blast

lemma acquire_inv:
  assumes "gate_inv l g"
  shows "gate_inv l (snd (acquire ended route g))"
proof -
  define h where "h = g\<lparr>qg_calls := qg_calls g + 1\<rparr>"
  have h: "gate_inv l h" "qg_calls g < qg_calls h" "fresh_call (qg_calls g) h"
    using count_call_inv [OF assms] next_call_fresh [OF assms] by (simp_all add: h_def fresh_call_def)
  have "acquire ended route g =
     (case mget (qg_slots h) route of
        None \<Rightarrow> (Refused, h)
      | Some capacity \<Rightarrow>
         if ended then (Refused, h)
         else if in_use h route < capacity then (Granted, h\<lparr>qg_held := (qg_calls g, route) # qg_held h\<rparr>)
         else if qg_wait h \<le> 0 then (Refused, h)
         else (Waits, h\<lparr>qg_waiting := (qg_calls g, route) # qg_waiting h\<rparr>))"
    unfolding acquire_def h_def Let_def by simp
  then show ?thesis
    using take_slot_inv [OF h(1) _ h(3,2), of route] join_queue_inv [OF h(1) _ h(3,2), of route] h(1)
    by (auto simp: slots_of_def split: option.splits)
qed

lemma grant_inv:
  assumes "gate_inv l g" and "grant_waiting i g = Some g'"
  shows "gate_inv l g'"
proof -
  from assms(2) obtain route where route: "mget (qg_waiting g) i = Some route" "in_use g route < slots_of g route"
    and g': "g' = (give_up i g)\<lparr>qg_held := (i, route) # qg_held (give_up i g)\<rparr>"
    by (auto simp: grant_waiting_def slots_of_def give_up_def split: option.splits if_splits)
  have "fresh_call i (give_up i g)" "i < qg_calls (give_up i g)"
    using assms(1) map_of_SomeD [OF route(1)] by (auto simp: gate_inv_def give_up_def fresh_call_def)
  then show ?thesis
    using take_slot_inv [OF leave_queue_inv [OF assms(1)]] route(2) by (simp add: g' give_up_def)
qed

interpretation gate: step_system gate_step "gate_inv l" for l
proof
  fix g g' :: query_gate
  assume "gate_step g g'" and "gate_inv l g"
  then show "gate_inv l g'"
    by cases (auto intro: acquire_inv grant_inv leave_queue_inv release_inv)
qed

text \<open>A released holder makes room for a waiting call of its route.\<close>

lemma release_then_grant:
  assumes "gate_inv l g" and "mget (qg_waiting g) i = Some route" and "mget (qg_held g) j = Some route"
  shows "\<exists>g'. grant_waiting i (releaseSlot j g) = Some g' \<and> mget (qg_held g') i = Some route"
proof -
  have "in_use (releaseSlot j g) route < slots_of g route"
    using in_use_release_holder [OF assms(3)] assms(1) by (auto simp: gate_inv_def intro: less_le_trans)
  with assms(2) show ?thesis
    by (simp add: grant_waiting_def slots_of_def releaseSlot_def)
qed

lemma full_route_has_holder:
  assumes "wf_map (qg_held g)" and "0 < in_use g route"
  shows "\<exists>j. mget (qg_held g) j = Some route"
proof -
  from assms(2) obtain j where "(j, route) \<in> set (qg_held g)"
    by (auto simp: in_use_def filter_empty_conv)
  then show ?thesis
    using mget_in_set [OF assms(1)] by blast
qed

lemma waiting_can_be_granted:
  assumes "gate_inv l g" and "mget (qg_waiting g) i = Some route" and "0 < slots_of g route"
  shows "\<exists>g'. gate_step\<^sup>*\<^sup>* g g' \<and> mget (qg_held g') i = Some route"
proof (cases "in_use g route < slots_of g route")
  case True
  with assms(2) have "grant_waiting i g = Some (g\<lparr>qg_waiting := mdel i (qg_waiting g), qg_held := (i, route) # qg_held g\<rparr>)"
    by (simp add: grant_waiting_def slots_of_def)
  then have "gate_step g (g\<lparr>qg_waiting := mdel i (qg_waiting g), qg_held := (i, route) # qg_held g\<rparr>)"
    by (rule Grant)
  moreover have "mget (qg_held (g\<lparr>qg_waiting := mdel i (qg_waiting g), qg_held := (i, route) # qg_held g\<rparr>)) i = Some route"
    by simp
  ultimately show ?thesis
    by blast
next
  case False
  with assms(1,3) obtain j where "mget (qg_held g) j = Some route"
    using full_route_has_holder [of g route] by (auto simp: gate_inv_def)
  from release_then_grant [OF assms(1,2) this]
  obtain g' where "grant_waiting i (releaseSlot j g) = Some g'" "mget (qg_held g') i = Some route"
    by blast
  then show ?thesis
    by (meson Grant ReleaseStep converse_rtranclp_into_rtranclp r_into_rtranclp)
qed

lemma slots_normalized:
  assumes "gate_inv (normalizeQueryLimits l) g"
  shows "int (slots_of g route) =
    (case route of RouteInMemory \<Rightarrow> ql_inMemory (normalizeQueryLimits l) | RouteDatabase \<Rightarrow> ql_database (normalizeQueryLimits l)
     | OtherRoute _ \<Rightarrow> 0)"
  using assms normalized_positive [of l]
  by (auto simp: gate_inv_def slots_of_def newQueryGate_def split: query_route.splits)

lemma waiting_has_slots:
  assumes "gate_inv (normalizeQueryLimits l) g" and "mget (qg_waiting g) i = Some route"
  shows "0 < slots_of g route"
proof -
  have "mget (qg_slots g) route \<noteq> None"
    using assms map_of_SomeD [OF assms(2)] by (auto simp: gate_inv_def)
  with assms(1) have "route \<noteq> OtherRoute n" for n
    by (auto simp: gate_inv_def newQueryGate_def split: if_splits)
  then show ?thesis
    using slots_normalized [OF assms(1), of route] normalized_positive [of l] by (cases route) auto
qed

lemma smallest_ttl_Some:
  "smallest_ttl m dbs = Some s \<longleftrightarrow> (\<forall>db \<in> set dbs. \<not> uncacheable db) \<and> s = fold (\<lambda>db a. min a (cf_ttl db)) dbs m"
  by (induction dbs arbitrary: m) auto

lemma fold_min_is_Min:
  "fold (\<lambda>db a. min a (f db)) dbs (m :: int) = Min (insert m (f ` set dbs))"
proof (induction dbs arbitrary: m)
  case (Cons db dbs)
  show ?case
    by (cases "dbs = []") (simp_all add: Cons.IH min.assoc)
qed simp

lemma not_uncacheable: "\<not> uncacheable db \<Longrightarrow> second \<le> cf_ttl db \<and> cf_ttl db \<le> maxCacheTTL \<and> cf_ttl db mod second = 0"
  by (auto simp: uncacheable_def)

section \<open>Properties\<close>

text \<open>
  C22. Whatever limits the server is configured with, and in whatever order calls start, get a slot, give
  up and release (also twice), no route ever has more queries running than its normalised limit, and an
  unknown route has none.
\<close>

theorem gate_never_oversubscribed:
  assumes "gate_step\<^sup>*\<^sup>* (newQueryGate (normalizeQueryLimits l)) g"
  shows "int (in_use g route) \<le>
    (case route of RouteInMemory \<Rightarrow> ql_inMemory (normalizeQueryLimits l) | RouteDatabase \<Rightarrow> ql_database (normalizeQueryLimits l)
     | OtherRoute _ \<Rightarrow> 0)"
proof -
  have inv: "gate_inv (normalizeQueryLimits l) g"
    using gate.run_inv [OF assms new_gate_inv] .
  then have "in_use g route \<le> slots_of g route"
    by (simp add: gate_inv_def)
  then show ?thesis
    using slots_normalized [OF inv, of route] by simp
qed

definition tight_limits :: query_limits where
  "tight_limits = \<lparr> ql_timeout = 0, ql_inMemory = 1, ql_database = - 1, ql_queueWait = 0, ql_maxSourceRows = 0, ql_maxSourceBytes = 0,
     ql_joinEngines = [] \<rparr>"

definition second_call_waits :: query_gate where
  "second_call_waits =
     snd (acquire False RouteInMemory (snd (acquire False RouteInMemory (newQueryGate (normalizeQueryLimits tight_limits)))))"

lemma second_call_waits_reached: "gate_step\<^sup>*\<^sup>* (newQueryGate (normalizeQueryLimits tight_limits)) second_call_waits"
  unfolding second_call_waits_def by (meson Call converse_rtranclp_into_rtranclp r_into_rtranclp)

lemma second_call_waits_state: "qg_held second_call_waits = [(0, RouteInMemory)] \<and> qg_waiting second_call_waits = [(1, RouteInMemory)]"
  by code_simp

theorem gate_never_oversubscribed_witness:
  "int (in_use second_call_waits RouteInMemory) \<le> ql_inMemory (normalizeQueryLimits tight_limits) \<and>
   in_use second_call_waits RouteInMemory = 1"
  using gate_never_oversubscribed [OF second_call_waits_reached, of RouteInMemory] second_call_waits_state
  by (simp add: in_use_def)

text \<open>
  C34. A query that waits for a slot is never stuck behind the gate itself: in every reachable state it can
  still be granted its slot, at once or after one running query of its route releases.
\<close>

theorem waiting_query_can_run:
  assumes "gate_step\<^sup>*\<^sup>* (newQueryGate (normalizeQueryLimits l)) g" and "mget (qg_waiting g) i = Some route"
  shows "\<exists>g'. gate_step\<^sup>*\<^sup>* g g' \<and> mget (qg_held g') i = Some route"
proof -
  have inv: "gate_inv (normalizeQueryLimits l) g"
    using gate.run_inv [OF assms(1) new_gate_inv] .
  show ?thesis
    by (rule waiting_can_be_granted [OF inv assms(2) waiting_has_slots [OF inv assms(2)]])
qed

theorem waiting_query_can_run_witness:
  "\<exists>g'. gate_step\<^sup>*\<^sup>* second_call_waits g' \<and> mget (qg_held g') 1 = Some RouteInMemory"
  by (rule waiting_query_can_run [OF second_call_waits_reached]) (simp add: second_call_waits_state)

text \<open>
  A relational answer is marked public for exactly \<open>n\<close> seconds only when the server is read-only
  without authentication, the request is a GET, and \<open>n\<close> seconds is the smallest cache time of the
  databases read, all of which allow retention and have no access policies.
\<close>

theorem public_cache_is_allowed:
  "relationalCacheControl readOnly authEnabled method dbs = PublicFor n \<longleftrightarrow>
     readOnly \<and> \<not> authEnabled \<and> method = ''GET'' \<and> dbs \<noteq> [] \<and>
     (\<forall>db \<in> set dbs. \<not> cf_noRetention db \<and> \<not> cf_hasAccessPolicies db \<and> second \<le> cf_ttl db \<and> cf_ttl db \<le> maxCacheTTL \<and>
        cf_ttl db mod second = 0) \<and>
     n * second = Min (cf_ttl ` set dbs)"
proof -
  have cacheable: "(\<forall>db \<in> set dbs. \<not> uncacheable db) \<longleftrightarrow>
     (\<forall>db \<in> set dbs. \<not> cf_noRetention db \<and> \<not> cf_hasAccessPolicies db \<and> second \<le> cf_ttl db \<and> cf_ttl db \<le> maxCacheTTL \<and>
        cf_ttl db mod second = 0)" (is "_ \<longleftrightarrow> ?ok")
    by (auto simp: uncacheable_def)
  have smallest: "fold (\<lambda>db a. min a (cf_ttl db)) dbs maxCacheTTL = Min (cf_ttl ` set dbs) \<and>
      Min (cf_ttl ` set dbs) mod second = 0" if ?ok and "dbs \<noteq> []"
  proof -
    have "Min (cf_ttl ` set dbs) \<in> cf_ttl ` set dbs"
      using that(2) by (intro Min_in) auto
    with that(1) have "Min (cf_ttl ` set dbs) \<le> maxCacheTTL" "Min (cf_ttl ` set dbs) mod second = 0"
      by auto
    with that(2) show ?thesis
      by (simp add: fold_min_is_Min min.absorb2)
  qed
  have seconds: "s div second = n \<longleftrightarrow> n * second = s" if "s mod second = 0" for s
    using that by (auto simp: second_def)
  show ?thesis
  proof (cases "?ok \<and> dbs \<noteq> []")
    case True
    then have "smallest_ttl maxCacheTTL dbs = Some (Min (cf_ttl ` set dbs))"
      using smallest by (simp add: smallest_ttl_Some cacheable)
    with True smallest show ?thesis
      by (auto simp: relationalCacheControl_def seconds)
  next
    case False
    then have "dbs = [] \<or> smallest_ttl maxCacheTTL dbs = None"
      using smallest_ttl_Some [of maxCacheTTL dbs] cacheable by (cases "smallest_ttl maxCacheTTL dbs") auto
    with False show ?thesis
      by (auto simp: relationalCacheControl_def)
  qed
qed

definition cached_for :: "int \<Rightarrow> cache_facts" where
  "cached_for n = \<lparr> cf_ttl = n * second, cf_hasAccessPolicies = False, cf_noRetention = False \<rparr>"

theorem public_cache_is_allowed_witness:
  "relationalCacheControl True False ''GET'' [cached_for 60, cached_for 5] = PublicFor 5"
  using public_cache_is_allowed [of True False "''GET''" "[cached_for 60, cached_for 5]" 5]
  by (simp add: cached_for_def second_def maxCacheTTL_def)

end
