(* ===== verification/Paging.thy ===== *)
theory Paging
  imports Native_Ids
begin

text \<open>
  \<^verbatim>\<open>src/pkg/server/tugql_pages.go\<close>, and the paging headers of \<^verbatim>\<open>src/pkg/server/retention.go\<close>: consistent
  result paging. The whole result of a query is spooled to a file, a snapshot of it occupies one of a
  bounded number of slots, and a signed token names a byte offset in the file.

  The keyed hash of the server (\<open>mac\<close>, HMAC-SHA-256) and the JSON encoder of a row (\<open>marshal\<close>) are
  parameters; what the reader of the database delivered, the name of the temporary file, the random
  identity, the clock and the faults of the file system are inputs. A database is known by the address
  of its handle and its id. Removing a file is taken to succeed. The atomic sections of concurrent
  requests, timers and unmounting are a step relation.
\<close>

section \<open>Limits and state\<close>

record snapshot_limits =
  sl_slots :: int
  sl_bytes :: int
  sl_rows :: int

definition maxPageBytes :: int where "maxPageBytes = 7 * 1048576"

definition snapshotLifetime :: int where "snapshotLifetime = 300"

definition DefaultSnapshotLimits :: snapshot_limits where
  "DefaultSnapshotLimits = \<lparr> sl_slots = 2, sl_bytes = 512 * 1048576, sl_rows = 1000000 \<rparr>"

text \<open>\<^verbatim>\<open>WithSnapshotLimits\<close> panics on limits that are not positive.\<close>

definition WithSnapshotLimits :: "snapshot_limits \<Rightarrow> snapshot_limits option" where
  "WithSnapshotLimits l = (if sl_slots l \<le> 0 \<or> sl_bytes l \<le> 0 \<or> sl_rows l \<le> 0 then None else Some l)"

record query_snapshot =
  qs_reserved :: int
  qs_path :: string
  qs_bytes :: int
  qs_db :: nat
  qs_queryHash :: string
  qs_actorHash :: string
  qs_pageSize :: int
  qs_id :: string
  qs_expiresAt :: int

record db_facts =
  df_handle :: nat
  df_id :: string
  df_noRetention :: bool
  df_hasPolicies :: bool

record page_server =
  pg_limits :: snapshot_limits
  pg_snapshots :: "(string, query_snapshot) gomap"
  pg_slots :: int
  pg_files :: "(string, string) gomap"
  pg_dbs :: "(string, nat) gomap"
  pg_dirErr :: bool

section \<open>Tokens\<close>

definition newSnapshotIdentity :: "string option \<Rightarrow> string option" where
  "newSnapshotIdentity rnd = map_option b64_encode rnd"

definition page_message :: "string \<Rightarrow> int \<Rightarrow> string \<Rightarrow> string \<Rightarrow> string \<Rightarrow> int \<Rightarrow> string" where
  "page_message i offset dbID queryHash actorHash pageSize =
     i @ ''.'' @ format_int offset @ ''.'' @ dbID @ ''.'' @ format_int pageSize @ queryHash @ actorHash"

definition pageToken :: "(string \<Rightarrow> string) \<Rightarrow> string \<Rightarrow> int \<Rightarrow> string \<Rightarrow> string \<Rightarrow> string \<Rightarrow> int \<Rightarrow> string" where
  "pageToken mac i offset dbID queryHash actorHash pageSize =
     i @ ''.'' @ format_int offset @ ''.'' @
       b64_encode (take 16 (mac (page_message i offset dbID queryHash actorHash pageSize)))"

definition pageOffset :: "(string \<Rightarrow> string) \<Rightarrow> page_server \<Rightarrow> string \<Rightarrow> string \<Rightarrow> string \<Rightarrow> string \<Rightarrow> int \<Rightarrow> (string \<times> int) option" where
  "pageOffset mac s token dbID queryHash actorHash pageSize =
     (let parts = split_on CHR ''.'' token in
      if length parts \<noteq> 3 then None
      else case b64_decode (parts ! 0) of
          None \<Rightarrow> None
        | Some idBytes \<Rightarrow>
           if length idBytes \<noteq> 32 then None
           else case parse_int64 (parts ! 1) of
               None \<Rightarrow> None
             | Some offset \<Rightarrow>
                if offset < 0 \<or> offset > sl_bytes (pg_limits s) then None
                else if pageToken mac (parts ! 0) offset dbID queryHash actorHash pageSize \<noteq> token then None
                else Some (parts ! 0, offset))"

section \<open>Spooling a result\<close>

datatype spool_error = RetentionNotAuthorized | CreateFailed | MarshalFailed | RowTooLarge | SnapshotTooLarge
  | WriteFailed | StreamFailed | FlushFailed | CloseFailed

record 'r capture_run =
  cr_collections :: bool
  cr_rights :: "int option"
  cr_temp :: "string option"
  cr_records :: "'r list"
  cr_streamFails :: bool
  cr_writeFails :: "nat \<Rightarrow> bool"
  cr_flushFails :: bool
  cr_closeFails :: bool
  cr_random :: "string option"
  cr_now :: int

definition newline :: char where "newline = char_of (10 :: nat)"

definition row_budget :: "int \<Rightarrow> int" where
  "row_budget metadataBytes = (if metadataBytes > 0 then maxPageBytes - (metadataBytes + 2048) else maxPageBytes)"

text \<open>The callback of \<^verbatim>\<open>spoolTugQL\<close> on the records of the reader: file content, size and number of rows.\<close>

fun spool_rows :: "('r \<Rightarrow> string option) \<Rightarrow> (nat \<Rightarrow> bool) \<Rightarrow> snapshot_limits \<Rightarrow> int \<Rightarrow> 'r list \<Rightarrow> string \<times> int \<times> nat \<Rightarrow>
    spool_error + string \<times> int \<times> nat" where
  "spool_rows marshal fails limits metadataBytes [] acc = Inr acc"
| "spool_rows marshal fails limits metadataBytes (rec # recs) (content, used, rows) =
     (case marshal rec of
        None \<Rightarrow> Inl MarshalFailed
      | Some row \<Rightarrow>
         if int (length row) > row_budget metadataBytes then Inl RowTooLarge
         else if int rows \<ge> sl_rows limits \<or> used + int (length row) + 1 > sl_bytes limits then Inl SnapshotTooLarge
         else if fails rows then Inl WriteFailed
         else spool_rows marshal fails limits metadataBytes recs
           (content @ row @ [newline], used + int (length row) + 1, rows + 1))"

definition spoolTugQL :: "('r \<Rightarrow> string option) \<Rightarrow> 'r capture_run \<Rightarrow> db_facts \<Rightarrow> snapshot_limits \<Rightarrow> int \<Rightarrow> (string, string) gomap \<Rightarrow>
    (spool_error + string \<times> int) \<times> (string, string) gomap" where
  "spoolTugQL marshal run db limits metadataBytes files =
     (if df_noRetention db then (Inl RetentionNotAuthorized, files)
      else case cr_temp run of
          None \<Rightarrow> (Inl CreateFailed, files)
        | Some path \<Rightarrow>
           (case spool_rows marshal (cr_writeFails run) limits metadataBytes (cr_records run) ([], 0, 0) of
              Inl e \<Rightarrow> (Inl e, mdel path files)
            | Inr (content, used, rows) \<Rightarrow>
               if cr_streamFails run then (Inl StreamFailed, mdel path files)
               else if cr_flushFails run then (Inl FlushFailed, mdel path files)
               else if cr_closeFails run then (Inl CloseFailed, mdel path files)
               else (Inr (path, used), mput path content files)))"

section \<open>Slots and removal\<close>

definition reserveSnapshotSlot :: "page_server \<Rightarrow> page_server option" where
  "reserveSnapshotSlot s = (if pg_slots s \<ge> sl_slots (pg_limits s) then None else Some (s\<lparr>pg_slots := pg_slots s + 1\<rparr>))"

definition releaseSnapshotSlot :: "page_server \<Rightarrow> page_server" where
  "releaseSnapshotSlot s = s\<lparr>pg_slots := pg_slots s - 1\<rparr>"

definition removeSnapshotLocked :: "query_snapshot \<Rightarrow> page_server \<Rightarrow> page_server" where
  "removeSnapshotLocked snap s =
     s\<lparr>pg_snapshots := mdel (qs_id snap) (pg_snapshots s), pg_slots := pg_slots s - 1,
       pg_files := mdel (qs_path snap) (pg_files s)\<rparr>"

definition CloseSnapshots :: "page_server \<Rightarrow> page_server" where
  "CloseSnapshots s = fold (\<lambda>(i, snap). removeSnapshotLocked snap) (pg_snapshots s) s"

definition expireSnapshotsForDB :: "nat \<Rightarrow> page_server \<Rightarrow> page_server" where
  "expireSnapshotsForDB db s =
     fold (\<lambda>(i, snap) s. if qs_db snap = db then removeSnapshotLocked snap s else s) (pg_snapshots s) s"

definition expireSnapshot :: "query_snapshot \<Rightarrow> page_server \<Rightarrow> page_server" where
  "expireSnapshot snap s =
     (if mget (pg_snapshots s) (qs_id snap) = Some snap then removeSnapshotLocked snap s else s)"

text \<open>
  \<^verbatim>\<open>prepareSnapshotDir\<close> of a new server: the entries left after it removed the files of a crashed one; the
  directory must be private.
\<close>

record dir_entry =
  de_name :: string
  de_regular :: bool
  de_modTime :: "int option"

definition stale_entry :: "int \<Rightarrow> dir_entry \<Rightarrow> bool" where
  "stale_entry cutoff e \<longleftrightarrow> has_prefix (de_name e) ''snapshot-'' \<and> de_regular e \<and>
     (case de_modTime e of None \<Rightarrow> False | Some t \<Rightarrow> t < cutoff)"

definition prepareSnapshotDir :: "bool \<Rightarrow> bool \<Rightarrow> bool \<Rightarrow> int \<Rightarrow> dir_entry list \<Rightarrow> dir_entry list option" where
  "prepareSnapshotDir mkdirFails isPrivate readFails now entries =
     (if mkdirFails \<or> \<not> isPrivate \<or> readFails then None
      else Some (filter (\<lambda>e. \<not> stale_entry (now - snapshotLifetime - 60) e) entries))"

section \<open>Serving and closing\<close>

datatype page_response =
    PError string
  | Mapped spool_error
  | TooLargeResult
  | Closed
  | Page "string list" string int "string option"

record page_faults =
  pf_open :: bool
  pf_seek :: bool
  pf_read :: "nat \<Rightarrow> bool"

text \<open>\<^verbatim>\<open>ReadBytes\<close> with the line feed as delimiter.\<close>

fun read_line :: "string \<Rightarrow> (string \<times> string) option" where
  "read_line [] = None"
| "read_line (c # cs) =
     (if c = newline then Some ([c], cs) else map_option (\<lambda>(row, rest). (c # row, rest)) (read_line cs))"

lemma read_line_shorter [termination_simp]: "read_line s = Some (row, rest) \<Longrightarrow> length rest < length s"
  by (induction s arbitrary: row) (auto split: if_splits)

datatype page_error = Damaged | FirstRowTooLarge

fun read_page :: "(nat \<Rightarrow> bool) \<Rightarrow> int \<Rightarrow> int \<Rightarrow> string \<Rightarrow> string list \<Rightarrow> int \<Rightarrow> int \<Rightarrow> page_error + string list \<times> int" where
  "read_page fails pageSize bytes rest rows pageBytes offset =
     (if int (length rows) < pageSize \<and> offset < bytes then
        (if fails (length rows) then Inl Damaged
         else case read_line rest of
           None \<Rightarrow> Inl Damaged
         | Some (row, rest') \<Rightarrow>
            if pageBytes + int (length row) > maxPageBytes then
              (if rows \<noteq> [] then Inr (rows, offset) else Inl FirstRowTooLarge)
            else read_page fails pageSize bytes rest' (rows @ [butlast row]) (pageBytes + int (length row)) (offset + int (length row)))
      else Inr (rows, offset))"

declare read_page.simps [simp del]

definition writeRightsResult :: "(page_response \<Rightarrow> nat) \<Rightarrow> query_snapshot \<Rightarrow> page_response \<Rightarrow> page_response" where
  "writeRightsResult encoded_length snap response =
     (if qs_reserved snap > 0 \<and> int (encoded_length response) + 1 > maxPageBytes then TooLargeResult else response)"

definition closeSnapshot :: "(string \<Rightarrow> string) \<Rightarrow> string \<Rightarrow> db_facts \<Rightarrow> string \<Rightarrow> string \<Rightarrow> int \<Rightarrow> page_server \<Rightarrow> page_response \<times> page_server" where
  "closeSnapshot mac token db queryHash actorHash pageSize s =
     (if df_noRetention db then (PError ''retention_not_authorized'', s)
      else case pageOffset mac s token (df_id db) queryHash actorHash pageSize of
          None \<Rightarrow> (PError ''invalid_page_token'', s)
        | Some (i, _) \<Rightarrow>
           (case mget (pg_snapshots s) i of
              None \<Rightarrow> (Closed, s)
            | Some snap \<Rightarrow>
               if qs_db snap \<noteq> df_handle db \<or> qs_queryHash snap \<noteq> queryHash \<or> qs_actorHash snap \<noteq> actorHash \<or>
                  qs_pageSize snap \<noteq> pageSize
               then (PError ''forbidden'', s)
               else (Closed, removeSnapshotLocked snap s)))"

definition first_page_bytes :: "query_snapshot \<Rightarrow> int" where
  "first_page_bytes snap = (if qs_reserved snap > 0 then qs_reserved snap + 2048 else qs_reserved snap)"

text \<open>The part of \<^verbatim>\<open>serveSnapshotPage\<close> after the snapshot has been found and checked.\<close>

definition serve_checked :: "(string \<Rightarrow> string) \<Rightarrow> (page_response \<Rightarrow> nat) \<Rightarrow> page_faults \<Rightarrow> string \<Rightarrow> db_facts \<Rightarrow> string \<Rightarrow> string \<Rightarrow> int \<Rightarrow>
    query_snapshot \<Rightarrow> page_server \<Rightarrow> page_response \<times> page_server" where
  "serve_checked mac encoded_length flt token db queryHash actorHash pageSize snap s =
     (case pageOffset mac s token (df_id db) queryHash actorHash pageSize of
        None \<Rightarrow> (PError ''snapshot_expired'', s)
      | Some (_, offset) \<Rightarrow>
         if offset > qs_bytes snap then (PError ''snapshot_expired'', s)
         else case mget (pg_files s) (qs_path snap) of
             None \<Rightarrow> (PError ''snapshot_expired'', removeSnapshotLocked snap s)
           | Some content \<Rightarrow>
              if pf_open flt \<or> pf_seek flt then (PError ''snapshot_expired'', removeSnapshotLocked snap s)
              else case read_page (pf_read flt) pageSize (qs_bytes snap) (drop (nat offset) content) [] (first_page_bytes snap) offset of
                  Inl Damaged \<Rightarrow> (PError ''snapshot_expired'', removeSnapshotLocked snap s)
                | Inl FirstRowTooLarge \<Rightarrow> (TooLargeResult, removeSnapshotLocked snap s)
                | Inr (rows, next) \<Rightarrow>
                   (writeRightsResult encoded_length snap
                      (Page rows (pageToken mac (qs_id snap) 0 (df_id db) queryHash actorHash pageSize) (qs_expiresAt snap)
                        (if next < qs_bytes snap then Some (pageToken mac (qs_id snap) next (df_id db) queryHash actorHash pageSize)
                         else None)), s))"

definition serveSnapshotPage :: "(string \<Rightarrow> string) \<Rightarrow> (page_response \<Rightarrow> nat) \<Rightarrow> page_faults \<Rightarrow> int \<Rightarrow> string \<Rightarrow> db_facts \<Rightarrow> string \<Rightarrow> string \<Rightarrow>
    int \<Rightarrow> page_server \<Rightarrow> page_response \<times> page_server" where
  "serveSnapshotPage mac encoded_length flt now token db queryHash actorHash pageSize s =
     (if df_noRetention db then (PError ''retention_not_authorized'', s)
      else
        let parts = split_on CHR ''.'' token;
            found = (if length parts = 3 then mget (pg_snapshots s) (parts ! 0) else None)
        in case found of
             None \<Rightarrow> (PError ''snapshot_expired'', s)
           | Some snap \<Rightarrow>
              if now > qs_expiresAt snap then (PError ''snapshot_expired'', removeSnapshotLocked snap s)
              else if qs_db snap \<noteq> df_handle db \<or> qs_actorHash snap \<noteq> actorHash then (PError ''forbidden'', s)
              else if qs_queryHash snap \<noteq> queryHash \<or> qs_pageSize snap \<noteq> pageSize then (PError ''bad_request'', s)
              else serve_checked mac encoded_length flt token db queryHash actorHash pageSize snap s)"

section \<open>The handler\<close>

type_synonym headers = "(string, string list) gomap"

definition header_get :: "headers \<Rightarrow> string \<Rightarrow> string" where
  "header_get hs name = (case mget hs name of Some (v # _) \<Rightarrow> v | _ \<Rightarrow> [])"

text \<open>Names of HTTP fields are ASCII tokens, stored in canonical case.\<close>

definition lower :: "string \<Rightarrow> string" where
  "lower = map (\<lambda>c. if 0x41 \<le> byte c \<and> byte c \<le> 0x5A then char_of (byte c + 0x20) else c)"

definition pagingHeaders :: "string list" where
  "pagingHeaders = [''OVDB-Page-Size'', ''OVDB-Page-Token'', ''OVDB-Page-Close'']"

definition valid_paging_header :: "headers \<Rightarrow> string \<times> string list \<Rightarrow> bool" where
  "valid_paging_header hs = (\<lambda>(name, vals).
     let known = list_ex (equal_fold name) pagingHeaders;
         count = sum_list (map (\<lambda>(other, entries). if equal_fold name other then length entries else 0) hs)
     in known \<and> count = 1 \<and> length vals = 1 \<and> trim_space (hd vals) \<noteq> [] \<and> CHR '','' \<notin> set (hd vals))"

definition validPagingHeaders :: "headers \<Rightarrow> bool" where
  "validPagingHeaders hs =
     list_all (\<lambda>(name, vals). has_prefix (lower name) ''ovdb-page-'' \<longrightarrow> valid_paging_header hs (name, vals)) hs"

record page_request =
  rq_headers :: headers
  rq_limit :: int
  rq_offset :: int
  rq_doc :: string

definition publish_snapshot :: "query_snapshot \<Rightarrow> db_facts \<Rightarrow> page_server \<Rightarrow> page_server option" where
  "publish_snapshot snap db s =
     (if mget (pg_dbs s) (df_id db) \<noteq> Some (df_handle db) then None
      else Some (s\<lparr>pg_snapshots := mput (qs_id snap) snap (pg_snapshots s)\<rparr>))"

definition new_snapshot :: "'r capture_run \<Rightarrow> int \<Rightarrow> string \<Rightarrow> int \<Rightarrow> db_facts \<Rightarrow> string \<Rightarrow> string \<Rightarrow> int \<Rightarrow> string \<Rightarrow> query_snapshot" where
  "new_snapshot run reserved path used db queryHash actorHash pageSize i =
     \<lparr> qs_reserved = reserved, qs_path = path, qs_bytes = used, qs_db = df_handle db, qs_queryHash = queryHash,
       qs_actorHash = actorHash, qs_pageSize = pageSize, qs_id = i, qs_expiresAt = cr_now run + snapshotLifetime \<rparr>"

text \<open>
  The capture after the slot has been reserved: the snapshot it publishes, or the answer that refuses it
  with the state before the deferred release of the slot.
\<close>

definition capture_snapshot :: "('r \<Rightarrow> string option) \<Rightarrow> 'r capture_run \<Rightarrow> db_facts \<Rightarrow> string \<Rightarrow> string \<Rightarrow> int \<Rightarrow> page_server \<Rightarrow>
    (page_response + query_snapshot) \<times> page_server" where
  "capture_snapshot marshal run db queryHash actorHash pageSize s =
     (if pg_dirErr s then (Inl (PError ''internal''), s)
      else if \<not> cr_collections run then (Inl (PError ''unclassified''), s)
      else case cr_rights run of
          None \<Rightarrow> (Inl (PError ''source_rights_invalid''), s)
        | Some reserved \<Rightarrow>
           let limits = (pg_limits s)\<lparr>sl_bytes := sl_bytes (pg_limits s) - reserved\<rparr> in
           if sl_bytes limits \<le> 0 then (Inl (PError ''source_rights_invalid''), s)
           else case spoolTugQL marshal run db limits reserved (pg_files s) of
               (Inl e, files) \<Rightarrow>
                 (Inl (if e = RowTooLarge \<or> e = SnapshotTooLarge then PError ''snapshot_too_large'' else Mapped e), s\<lparr>pg_files := files\<rparr>)
             | (Inr (path, used), files) \<Rightarrow>
                (case newSnapshotIdentity (cr_random run) of
                   None \<Rightarrow> (Inl (PError ''internal''), s\<lparr>pg_files := mdel path files\<rparr>)
                 | Some i \<Rightarrow>
                    let snap = new_snapshot run reserved path used db queryHash actorHash pageSize i in
                    case publish_snapshot snap db (s\<lparr>pg_files := files\<rparr>) of
                      None \<Rightarrow> (Inl (PError ''snapshot_expired''), s\<lparr>pg_files := mdel path files\<rparr>)
                    | Some s' \<Rightarrow> (Inr snap, s')))"

definition handlePagedTugQL :: "(string \<Rightarrow> string) \<Rightarrow> (string \<Rightarrow> string) \<Rightarrow> ('r \<Rightarrow> string option) \<Rightarrow> (page_response \<Rightarrow> nat) \<Rightarrow> 'r capture_run \<Rightarrow>
    page_faults \<Rightarrow> int \<Rightarrow> page_request \<Rightarrow> db_facts \<Rightarrow> page_server \<Rightarrow> page_response \<times> page_server" where
  "handlePagedTugQL mac sha marshal encoded_length run flt now req db s =
     (let hs = rq_headers req; token = header_get hs ''Ovdb-Page-Token''; closeHeader = header_get hs ''Ovdb-Page-Close'';
          queryHash = sha (rq_doc req); actorHash = sha (header_get hs ''Authorization'')
      in
      if df_noRetention db then (PError ''retention_not_authorized'', s)
      else if \<not> validPagingHeaders hs then (PError ''bad_request'', s)
      else if df_hasPolicies db then (PError ''snapshot_unsupported'', s)
      else case parse_int64 (header_get hs ''Ovdb-Page-Size'') of
          None \<Rightarrow> (PError ''bad_request'', s)
        | Some pageSize \<Rightarrow>
           if pageSize < 1 \<or> pageSize > 1000 then (PError ''bad_request'', s)
           else if rq_limit req \<noteq> 0 \<or> rq_offset req \<noteq> 0 then (PError ''invalid_tugql'', s)
           else if closeHeader \<noteq> [] \<and> closeHeader \<noteq> ''true'' then (PError ''bad_request'', s)
           else if closeHeader = ''true'' then
             (if token = [] then (PError ''bad_request'', s) else closeSnapshot mac token db queryHash actorHash pageSize s)
           else if token \<noteq> [] then serveSnapshotPage mac encoded_length flt now token db queryHash actorHash pageSize s
           else case reserveSnapshotSlot s of
               None \<Rightarrow> (PError ''snapshot_capacity'', s)
             | Some s1 \<Rightarrow>
                (case capture_snapshot marshal run db queryHash actorHash pageSize s1 of
                   (Inl refusal, s2) \<Rightarrow> (refusal, releaseSnapshotSlot s2)
                 | (Inr snap, s2) \<Rightarrow>
                    serveSnapshotPage mac encoded_length flt now (pageToken mac (qs_id snap) 0 (df_id db) queryHash actorHash pageSize)
                      db queryHash actorHash pageSize s2))"

section \<open>Concurrent requests\<close>

text \<open>
  A state with the captures that hold a slot without a snapshot, and the databases an unmount has taken
  from the routes and not yet expired. A step is one critical section: of a request, of the timer of a
  snapshot, of shutting down, or of \<^verbatim>\<open>Server.Mount\<close> and \<^verbatim>\<open>Server.UnmountContext\<close>.
\<close>

record paging =
  pn_server :: page_server
  pn_building :: nat
  pn_pending :: "nat list"

inductive paging_step :: "(string \<Rightarrow> string) \<Rightarrow> (page_response \<Rightarrow> nat) \<Rightarrow> paging \<Rightarrow> paging \<Rightarrow> bool" for mac encoded_length where
  Reserve: "reserveSnapshotSlot s = Some s' \<Longrightarrow>
     paging_step mac encoded_length \<lparr> pn_server = s, pn_building = b, pn_pending = p \<rparr>
       \<lparr> pn_server = s', pn_building = b + 1, pn_pending = p \<rparr>"
| Spool: "spoolTugQL (marshal :: string \<Rightarrow> string option) run db limits reserved (pg_files s) = (result, files) \<Longrightarrow>
     \<forall>(i, snap) \<in> set (pg_snapshots s). cr_temp run \<noteq> Some (qs_path snap) \<Longrightarrow>
     paging_step mac encoded_length \<lparr> pn_server = s, pn_building = b, pn_pending = p \<rparr>
       \<lparr> pn_server = s\<lparr>pg_files := files\<rparr>, pn_building = b, pn_pending = p \<rparr>"
| Abandon: "0 < b \<Longrightarrow>
     paging_step mac encoded_length \<lparr> pn_server = s, pn_building = b, pn_pending = p \<rparr>
       \<lparr> pn_server = releaseSnapshotSlot (s\<lparr>pg_files := mdel path (pg_files s)\<rparr>), pn_building = b - 1, pn_pending = p \<rparr>"
| Publish: "0 < b \<Longrightarrow> publish_snapshot snap db s = Some s' \<Longrightarrow> mget (pg_snapshots s) (qs_id snap) = None \<Longrightarrow>
     qs_db snap = df_handle db \<Longrightarrow> 0 \<le> qs_bytes snap \<Longrightarrow> qs_bytes snap \<le> sl_bytes (pg_limits s) \<Longrightarrow>
     paging_step mac encoded_length \<lparr> pn_server = s, pn_building = b, pn_pending = p \<rparr>
       \<lparr> pn_server = s', pn_building = b - 1, pn_pending = p \<rparr>"
| Serve: "serveSnapshotPage mac encoded_length flt now token db queryHash actorHash pageSize s = (response, s') \<Longrightarrow>
     paging_step mac encoded_length \<lparr> pn_server = s, pn_building = b, pn_pending = p \<rparr>
       \<lparr> pn_server = s', pn_building = b, pn_pending = p \<rparr>"
| Close: "closeSnapshot mac token db queryHash actorHash pageSize s = (response, s') \<Longrightarrow>
     paging_step mac encoded_length \<lparr> pn_server = s, pn_building = b, pn_pending = p \<rparr>
       \<lparr> pn_server = s', pn_building = b, pn_pending = p \<rparr>"
| Timer: "paging_step mac encoded_length \<lparr> pn_server = s, pn_building = b, pn_pending = p \<rparr>
       \<lparr> pn_server = expireSnapshot snap s, pn_building = b, pn_pending = p \<rparr>"
| Shutdown: "paging_step mac encoded_length \<lparr> pn_server = s, pn_building = b, pn_pending = p \<rparr>
       \<lparr> pn_server = CloseSnapshots s, pn_building = b, pn_pending = p \<rparr>"
| MountDB: "mget (pg_dbs s) i = None \<Longrightarrow>
     paging_step mac encoded_length \<lparr> pn_server = s, pn_building = b, pn_pending = p \<rparr>
       \<lparr> pn_server = s\<lparr>pg_dbs := mput i db (pg_dbs s)\<rparr>, pn_building = b, pn_pending = p \<rparr>"
| UnmountRoute: "mget (pg_dbs s) i = Some db \<Longrightarrow>
     paging_step mac encoded_length \<lparr> pn_server = s, pn_building = b, pn_pending = p \<rparr>
       \<lparr> pn_server = s\<lparr>pg_dbs := mdel i (pg_dbs s)\<rparr>, pn_building = b, pn_pending = db # p \<rparr>"
| UnmountAlias: "mget (pg_dbs s) i = Some db \<Longrightarrow> j \<noteq> i \<Longrightarrow> mget (pg_dbs s) j = Some db \<Longrightarrow>
     paging_step mac encoded_length \<lparr> pn_server = s, pn_building = b, pn_pending = p \<rparr>
       \<lparr> pn_server = s\<lparr>pg_dbs := mdel i (pg_dbs s)\<rparr>, pn_building = b, pn_pending = p \<rparr>"
| UnmountExpire: "db \<in> set p \<Longrightarrow>
     paging_step mac encoded_length \<lparr> pn_server = s, pn_building = b, pn_pending = p \<rparr>
       \<lparr> pn_server = expireSnapshotsForDB db s, pn_building = b, pn_pending = remove1 db p \<rparr>"

text \<open>
  Every slot in use is a snapshot or a capture, snapshots are found under their id and within the limit,
  and their database is still routed or about to be expired.
\<close>

definition snaps_ok :: "(nat \<Rightarrow> bool) \<Rightarrow> nat \<Rightarrow> page_server \<Rightarrow> bool" where
  "snaps_ok live b s \<longleftrightarrow>
     pg_slots s = int (length (pg_snapshots s)) + int b \<and> pg_slots s \<le> max 0 (sl_slots (pg_limits s)) \<and> wf_map (pg_snapshots s) \<and>
     (\<forall>i snap. mget (pg_snapshots s) i = Some snap \<longrightarrow>
        qs_id snap = i \<and> 0 \<le> qs_bytes snap \<and> qs_bytes snap \<le> sl_bytes (pg_limits s) \<and> live (qs_db snap))"

abbreviation routed :: "page_server \<Rightarrow> nat list \<Rightarrow> nat \<Rightarrow> bool" where
  "routed s pending db \<equiv> db \<in> set pending \<or> (\<exists>j. mget (pg_dbs s) j = Some db)"

definition paging_inv :: "paging \<Rightarrow> bool" where
  "paging_inv z \<longleftrightarrow> snaps_ok (routed (pn_server z) (pn_pending z)) (pn_building z) (pn_server z)"

text \<open>The rows of a spool file, and the client that follows the page tokens.\<close>

definition spooled :: "string list \<Rightarrow> string" where
  "spooled rows = concat (map (\<lambda>r. r @ [newline]) rows)"

definition no_page_faults :: page_faults where
  "no_page_faults = \<lparr> pf_open = False, pf_seek = False, pf_read = (\<lambda>_. False) \<rparr>"

fun fetch_all :: "(string \<Rightarrow> page_server \<Rightarrow> page_response \<times> page_server) \<Rightarrow> nat \<Rightarrow> string \<Rightarrow> page_server \<Rightarrow> string list list option" where
  "fetch_all serve 0 token s = None"
| "fetch_all serve (Suc n) token s =
     (case serve token s of
        (Page rows _ _ next, s') \<Rightarrow>
          (case next of None \<Rightarrow> Some [rows] | Some t \<Rightarrow> map_option ((#) rows) (fetch_all serve n t s'))
      | _ \<Rightarrow> None)"

text \<open>What the JSON encoder is relied on for: the envelope of a page takes less than the bytes set aside for it.\<close>

definition envelope_fits :: "(page_response \<Rightarrow> nat) \<Rightarrow> query_snapshot \<Rightarrow> bool" where
  "envelope_fits encoded_length snap \<longleftrightarrow> 0 < qs_reserved snap \<longrightarrow>
     (\<forall>rows t e next. int (encoded_length (Page rows t e next)) < int (length (spooled rows)) + first_page_bytes snap)"

section \<open>Tokens are read back\<close>

lemma b64_alphabet_no_dot: "CHR ''.'' \<notin> set b64_alphabet"
  by (simp add: b64_alphabet_def)

lemma b64_alphabet_length: "length b64_alphabet = 64"
  by (simp add: b64_alphabet_def)

lemma b64_char_in: "n < 64 \<Longrightarrow> b64_char n \<in> set b64_alphabet"
  unfolding b64_char_def by (rule nth_mem) (simp add: b64_alphabet_length)

lemma b64_no_dot: "CHR ''.'' \<notin> set (b64_encode s)"
proof
  assume "CHR ''.'' \<in> set (b64_encode s)"
  then obtain n where "n \<in> set (to_sextets (map byte s))" "CHR ''.'' = b64_char n"
    by (auto simp: b64_encode_def)
  then show False
    using to_sextets_bound [of "map byte s" n] b64_char_in [of n] b64_alphabet_no_dot by (auto simp: image_iff)
qed

lemma format_int_no_dot: "CHR ''.'' \<notin> set (format_int v)"
  using format_int_bytes [of "CHR ''.''" v] by (auto simp: is_digit_def)

lemma pageToken_parts:
  assumes "CHR ''.'' \<notin> set i"
  shows "split_on CHR ''.'' (pageToken mac i offset dbID queryHash actorHash pageSize) =
    [i, format_int offset, b64_encode (take 16 (mac (page_message i offset dbID queryHash actorHash pageSize)))]"
  using assms split_on_sep [of "CHR ''.''" i] split_on_sep [OF format_int_no_dot] split_on_no_sep [OF b64_no_dot]
  by (simp add: pageToken_def)

lemma pageOffset_pageToken:
  assumes "length rnd = 32" and "i = b64_encode rnd" and "0 \<le> offset" and "offset \<le> sl_bytes (pg_limits s)" and "offset < 2 ^ 63"
  shows "pageOffset mac s (pageToken mac i offset dbID queryHash actorHash pageSize) dbID queryHash actorHash pageSize = Some (i, offset)"
proof -
  have "parse_int64 (format_int offset) = Some offset"
    using assms(3,5) by (intro parse_format_int64) auto
  moreover have "CHR ''.'' \<notin> set i" "b64_decode i = Some rnd"
    using assms(2) b64_no_dot b64_decode_encode by auto
  ultimately show ?thesis
    using assms(1,3,4) by (simp add: pageOffset_def pageToken_parts Let_def)
qed

section \<open>Pages of a spool file\<close>

lemma spooled_simps [simp]:
  "spooled [] = []" "spooled (r # rs) = r @ newline # spooled rs" "spooled (rs @ ts) = spooled rs @ spooled ts"
  by (simp_all add: spooled_def)

lemma read_line_row: "newline \<notin> set r \<Longrightarrow> read_line (r @ newline # rest) = Some (r @ [newline], rest)"
  by (induction r) auto

lemma read_page_takes:
  assumes "\<forall>r \<in> set rs. newline \<notin> set r" and "offset + int (length (spooled rs)) = bytes" and "int (length rows) \<le> pageSize"
    and "pageBytes \<le> maxPageBytes" and "rows = [] \<and> rs \<noteq> [] \<longrightarrow> pageBytes + int (length (hd rs)) + 1 \<le> maxPageBytes"
  shows "\<exists>taken left. rs = taken @ left \<and>
    read_page (\<lambda>_. False) pageSize bytes (spooled rs) rows pageBytes offset = Inr (rows @ taken, offset + int (length (spooled taken))) \<and>
    int (length (rows @ taken)) \<le> pageSize \<and> pageBytes + int (length (spooled taken)) \<le> maxPageBytes \<and>
    (rows = [] \<and> rs \<noteq> [] \<and> 0 < pageSize \<longrightarrow> taken \<noteq> [])"
  using assms
proof (induction rs arbitrary: rows pageBytes offset)
  case Nil
  then show ?case by (subst read_page.simps) simp
next
  case (Cons r rs)
  let ?stop = "read_page (\<lambda>_. False) pageSize bytes (spooled (r # rs)) rows pageBytes offset = Inr (rows, offset)"
  consider (full) "int (length rows) = pageSize" | (over) "rows \<noteq> []" "pageBytes + int (length r) + 1 > maxPageBytes" "int (length rows) < pageSize"
    | (fits) "int (length rows) < pageSize" "pageBytes + int (length r) + 1 \<le> maxPageBytes"
    using Cons.prems(3,5) by fastforce
  then show ?case
  proof cases
    case full
    then have ?stop by (subst read_page.simps) simp
    with full Cons.prems(4) show ?thesis by (intro exI [of _ "[]"] exI [of _ "r # rs"]) auto
  next
    case over
    then have ?stop using Cons.prems(1,2) read_line_row [of r] by (subst read_page.simps) auto
    with over Cons.prems(4) show ?thesis by (intro exI [of _ "[]"] exI [of _ "r # rs"]) auto
  next
    case fits
    have line: "read_line (spooled (r # rs)) = Some (r @ [newline], spooled rs)"
      using Cons.prems(1) by (simp add: read_line_row)
    have step: "read_page (\<lambda>_. False) pageSize bytes (spooled (r # rs)) rows pageBytes offset =
        read_page (\<lambda>_. False) pageSize bytes (spooled rs) (rows @ [r]) (pageBytes + int (length r) + 1) (offset + int (length r) + 1)"
      using fits Cons.prems(2) by (subst read_page.simps, subst line) (simp add: algebra_simps)
    from Cons.IH [of "offset + int (length r) + 1" "rows @ [r]" "pageBytes + int (length r) + 1"] Cons.prems fits
    obtain taken left where "rs = taken @ left"
      "read_page (\<lambda>_. False) pageSize bytes (spooled rs) (rows @ [r]) (pageBytes + int (length r) + 1) (offset + int (length r) + 1) =
        Inr (rows @ [r] @ taken, offset + int (length r) + 1 + int (length (spooled taken)))"
      "int (length (rows @ [r] @ taken)) \<le> pageSize" "pageBytes + int (length r) + 1 + int (length (spooled taken)) \<le> maxPageBytes"
      by auto
    with step show ?thesis
      by (intro exI [of _ "r # taken"] exI [of _ left]) (simp add: algebra_simps)
  qed
qed

text \<open>A snapshot that can be paged: its file holds the rows, and every row fits a page.\<close>

definition pageable :: "(page_response \<Rightarrow> nat) \<Rightarrow> int \<Rightarrow> db_facts \<Rightarrow> string list \<Rightarrow> query_snapshot \<Rightarrow> page_server \<Rightarrow> bool" where
  "pageable encoded_length now db rs snap s \<longleftrightarrow>
     (\<exists>rnd. length rnd = 32 \<and> qs_id snap = b64_encode rnd) \<and> mget (pg_snapshots s) (qs_id snap) = Some snap \<and>
     now \<le> qs_expiresAt snap \<and> qs_db snap = df_handle db \<and> \<not> df_noRetention db \<and> 0 < qs_pageSize snap \<and>
     mget (pg_files s) (qs_path snap) = Some (spooled rs) \<and> qs_bytes snap = int (length (spooled rs)) \<and>
     qs_bytes snap \<le> sl_bytes (pg_limits s) \<and> sl_bytes (pg_limits s) < 2 ^ 63 \<and> 0 \<le> qs_reserved snap \<and>
     first_page_bytes snap \<le> maxPageBytes \<and> envelope_fits encoded_length snap \<and>
     (\<forall>r \<in> set rs. newline \<notin> set r \<and> first_page_bytes snap + int (length r) + 1 \<le> maxPageBytes)"

abbreviation serve_own :: "(string \<Rightarrow> string) \<Rightarrow> (page_response \<Rightarrow> nat) \<Rightarrow> int \<Rightarrow> db_facts \<Rightarrow> query_snapshot \<Rightarrow> string \<Rightarrow> page_server \<Rightarrow>
    page_response \<times> page_server" where
  "serve_own mac encoded_length now db snap token s \<equiv>
     serveSnapshotPage mac encoded_length no_page_faults now token db (qs_queryHash snap) (qs_actorHash snap) (qs_pageSize snap) s"

abbreviation own_token :: "(string \<Rightarrow> string) \<Rightarrow> db_facts \<Rightarrow> query_snapshot \<Rightarrow> int \<Rightarrow> string" where
  "own_token mac db snap offset \<equiv>
     pageToken mac (qs_id snap) offset (df_id db) (qs_queryHash snap) (qs_actorHash snap) (qs_pageSize snap)"

lemma serve_page:
  assumes p: "pageable encoded_length now db (done @ todo) snap s"
  shows "\<exists>taken left. todo = taken @ left \<and> int (length taken) \<le> qs_pageSize snap \<and> (todo \<noteq> [] \<longrightarrow> taken \<noteq> []) \<and>
    serve_own mac encoded_length now db snap (own_token mac db snap (int (length (spooled done)))) s =
      (Page taken (own_token mac db snap 0) (qs_expiresAt snap)
        (if left = [] then None else Some (own_token mac db snap (int (length (spooled (done @ taken)))))), s)"
proof -
  let ?off = "int (length (spooled done))"
  obtain rnd where rnd: "length rnd = 32" "qs_id snap = b64_encode rnd" using p by (auto simp: pageable_def)
  have off: "?off \<le> qs_bytes snap" "?off < 2 ^ 63" "?off \<le> sl_bytes (pg_limits s)" using p by (auto simp: pageable_def)
  have tok: "pageOffset mac s (own_token mac db snap ?off) (df_id db) (qs_queryHash snap) (qs_actorHash snap) (qs_pageSize snap) =
      Some (qs_id snap, ?off)"
    using pageOffset_pageToken [OF rnd] off by simp
  have dot: "CHR ''.'' \<notin> set (qs_id snap)" using rnd b64_no_dot by simp
  have first: "todo \<noteq> [] \<longrightarrow> first_page_bytes snap + int (length (hd todo)) + 1 \<le> maxPageBytes"
    using p hd_in_set [of todo] by (auto simp: pageable_def)
  have rows: "\<forall>r \<in> set todo. newline \<notin> set r" "?off + int (length (spooled todo)) = qs_bytes snap"
    "int (length ([] :: string list)) \<le> qs_pageSize snap" "first_page_bytes snap \<le> maxPageBytes"
    using p by (auto simp: pageable_def)
  note read_page_takes [OF rows(1) rows(2) rows(3) rows(4)]
  with first obtain taken left where t: "todo = taken @ left" "int (length taken) \<le> qs_pageSize snap" "todo \<noteq> [] \<longrightarrow> taken \<noteq> []"
    "read_page (\<lambda>_. False) (qs_pageSize snap) (qs_bytes snap) (spooled todo) [] (first_page_bytes snap) ?off =
      Inr (taken, ?off + int (length (spooled taken)))"
    "first_page_bytes snap + int (length (spooled taken)) \<le> maxPageBytes"
    using p by (auto simp: pageable_def)
  have rights: "writeRightsResult encoded_length snap (Page taken tk e next) = Page taken tk e next" for tk e "next"
  proof (cases "0 < qs_reserved snap")
    case True
    then have "int (encoded_length (Page taken tk e next)) < int (length (spooled taken)) + first_page_bytes snap"
      using p by (simp add: pageable_def envelope_fits_def)
    with t(5) show ?thesis by (simp add: writeRightsResult_def)
  qed (simp add: writeRightsResult_def)
  have more: "?off + int (length (spooled taken)) < qs_bytes snap \<longleftrightarrow> left \<noteq> []"
    using p t(1) by (cases left) (auto simp: pageable_def)
  have "serve_own mac encoded_length now db snap (own_token mac db snap ?off) s =
      serve_checked mac encoded_length no_page_faults (own_token mac db snap ?off) db (qs_queryHash snap) (qs_actorHash snap) (qs_pageSize snap) snap s"
    using p by (simp add: serveSnapshotPage_def pageToken_parts [OF dot] pageable_def Let_def)
  also have "\<dots> = (Page taken (own_token mac db snap 0) (qs_expiresAt snap)
        (if left = [] then None else Some (own_token mac db snap (int (length (spooled (done @ taken)))))), s)"
    using p off t(4) more by (simp add: serve_checked_def tok pageable_def no_page_faults_def rights)
  finally show ?thesis using t(1-3) by blast
qed

lemma fetch_all_rows:
  assumes "pageable encoded_length now db (done @ todo) snap s" and "length todo < n"
  shows "\<exists>pages. fetch_all (serve_own mac encoded_length now db snap) n (own_token mac db snap (int (length (spooled done)))) s = Some pages \<and>
    concat pages = todo \<and> (\<forall>page \<in> set pages. int (length page) \<le> qs_pageSize snap)"
  using assms
proof (induction n arbitrary: "done" todo)
  case (Suc n)
  obtain taken left where t: "todo = taken @ left" "int (length taken) \<le> qs_pageSize snap" "todo \<noteq> [] \<longrightarrow> taken \<noteq> []"
    "serve_own mac encoded_length now db snap (own_token mac db snap (int (length (spooled done)))) s =
      (Page taken (own_token mac db snap 0) (qs_expiresAt snap)
        (if left = [] then None else Some (own_token mac db snap (int (length (spooled (done @ taken)))))), s)"
    using serve_page [OF Suc.prems(1)] by blast
  show ?case
  proof (cases "left = []")
    case True
    with t show ?thesis by simp
  next
    case False
    with t(1,3) Suc.prems(2) have "length left < n" by (auto simp: neq_Nil_conv)
    moreover have "pageable encoded_length now db ((done @ taken) @ left) snap s" using Suc.prems(1) t(1) by simp
    ultimately obtain pages where
      "fetch_all (serve_own mac encoded_length now db snap) n (own_token mac db snap (int (length (spooled (done @ taken))))) s = Some pages"
      "concat pages = left" "\<forall>page \<in> set pages. int (length page) \<le> qs_pageSize snap"
      using Suc.IH by blast
    with t False show ?thesis by simp
  qed
qed simp

section \<open>What a capture spools\<close>

lemma spool_rows_content:
  assumes "spool_rows marshal fails limits metadataBytes recs (content, used, n) = Inr (content', used', n')"
  shows "\<exists>rows. map marshal recs = map Some rows \<and> content' = content @ spooled rows \<and> used' = used + int (length (spooled rows)) \<and>
    (\<forall>r \<in> set rows. int (length r) \<le> row_budget metadataBytes) \<and> (used \<le> sl_bytes limits \<longrightarrow> used' \<le> sl_bytes limits)"
  using assms
proof (induction recs arbitrary: content used n)
  case (Cons rec recs)
  then obtain row where row: "marshal rec = Some row" "int (length row) \<le> row_budget metadataBytes"
      "used + int (length row) + 1 \<le> sl_bytes limits"
    and rest: "spool_rows marshal fails limits metadataBytes recs (content @ row @ [newline], used + int (length row) + 1, n + 1) =
      Inr (content', used', n')"
    by (auto split: option.splits if_splits)
  from Cons.IH [OF rest] obtain rows where "map marshal recs = map Some rows"
    "content' = (content @ row @ [newline]) @ spooled rows" "used' = used + int (length row) + 1 + int (length (spooled rows))"
    "\<forall>r \<in> set rows. int (length r) \<le> row_budget metadataBytes" "used' \<le> sl_bytes limits"
    using row(3) by auto
  with row show ?case by (intro exI [of _ "row # rows"]) simp
qed simp

lemma capture_snapshot_result:
  assumes "capture_snapshot marshal run db queryHash actorHash pageSize s = (Inr snap, s')"
  shows "\<exists>rows rnd. map marshal (cr_records run) = map Some rows \<and> (\<forall>r \<in> set rows. int (length r) \<le> row_budget (qs_reserved snap)) \<and>
    cr_rights run = Some (qs_reserved snap) \<and> qs_reserved snap < sl_bytes (pg_limits s) \<and>
    qs_bytes snap = int (length (spooled rows)) \<and> qs_bytes snap \<le> sl_bytes (pg_limits s) - qs_reserved snap \<and>
    cr_random run = Some rnd \<and> qs_id snap = b64_encode rnd \<and> qs_db snap = df_handle db \<and> \<not> df_noRetention db \<and>
    qs_queryHash snap = queryHash \<and> qs_actorHash snap = actorHash \<and> qs_pageSize snap = pageSize \<and>
    qs_expiresAt snap = cr_now run + snapshotLifetime \<and> mget (pg_dbs s) (df_id db) = Some (df_handle db) \<and>
    s' = s\<lparr>pg_files := mput (qs_path snap) (spooled rows) (pg_files s), pg_snapshots := mput (qs_id snap) snap (pg_snapshots s)\<rparr>"
proof -
  from assms obtain reserved path used files where a: "cr_rights run = Some reserved" "0 < sl_bytes (pg_limits s) - reserved"
    "spoolTugQL marshal run db ((pg_limits s)\<lparr>sl_bytes := sl_bytes (pg_limits s) - reserved\<rparr>) reserved (pg_files s) =
      (Inr (path, used), files)"
    by (auto simp: capture_snapshot_def Let_def split: if_splits option.splits prod.splits sum.splits)
  with assms obtain i where i: "newSnapshotIdentity (cr_random run) = Some i"
    "publish_snapshot snap db (s\<lparr>pg_files := files\<rparr>) = Some s'"
    "snap = new_snapshot run reserved path used db queryHash actorHash pageSize i"
    by (auto simp: capture_snapshot_def Let_def split: if_splits option.splits)
  from a(3) obtain content n where c: "\<not> df_noRetention db" "cr_temp run = Some path" "files = mput path content (pg_files s)"
    "spool_rows marshal (cr_writeFails run) ((pg_limits s)\<lparr>sl_bytes := sl_bytes (pg_limits s) - reserved\<rparr>) reserved (cr_records run)
       ([], 0, 0) = Inr (content, used, n)"
    by (auto simp: spoolTugQL_def split: if_splits option.splits sum.splits)
  from spool_rows_content [OF c(4)] a(2) obtain rows where "map marshal (cr_records run) = map Some rows" "content = spooled rows"
    "used = int (length (spooled rows))" "\<forall>r \<in> set rows. int (length r) \<le> row_budget reserved" "used \<le> sl_bytes (pg_limits s) - reserved"
    by auto
  with a i c show ?thesis
    by (auto simp: newSnapshotIdentity_def publish_snapshot_def new_snapshot_def split: if_splits)
qed

lemma row_budget_page: "0 \<le> reserved \<Longrightarrow> reserved = qs_reserved snap \<Longrightarrow> row_budget reserved = maxPageBytes - first_page_bytes snap"
  by (auto simp: row_budget_def first_page_bytes_def)

text \<open>A starting server spares the spool of every snapshot that may still be alive.\<close>

lemma live_spool_survives_restart:
  assumes "prepareSnapshotDir False True False now entries = Some kept" and "e \<in> set entries"
    and "de_modTime e = Some t" and "now \<le> t + snapshotLifetime + 60"
  shows "e \<in> set kept"
  using assms by (auto simp: prepareSnapshotDir_def stale_entry_def)

section \<open>The invariant of the slots\<close>

lemma length_delete: "wf_map m \<Longrightarrow> mget m k = Some v \<Longrightarrow> length (mdel k m) + 1 = length m"
proof (induction m)
  case (Cons kv m)
  then show ?case
    by (cases kv) (auto simp: wf_map_Cons delete_notin_dom mget_keys [symmetric] split: if_splits)
qed simp

lemma snapshots_delete: "wf_map m \<Longrightarrow> (i, v) \<in> set (mdel k m) \<longleftrightarrow> i \<noteq> k \<and> (i, v) \<in> set m"
  by (auto simp: AList.delete_eq)

lemma snaps_okD:
  assumes "snaps_ok live b s"
  shows "pg_slots s = int (length (pg_snapshots s)) + int b" "pg_slots s \<le> max 0 (sl_slots (pg_limits s))" "wf_map (pg_snapshots s)"
    and "mget (pg_snapshots s) i = Some snap \<Longrightarrow>
      qs_id snap = i \<and> 0 \<le> qs_bytes snap \<and> qs_bytes snap \<le> sl_bytes (pg_limits s) \<and> live (qs_db snap)"
  using assms by (auto simp: snaps_ok_def)

lemma snaps_ok_weaken:
  assumes "snaps_ok live b s" and "\<And>i snap. mget (pg_snapshots s) i = Some snap \<Longrightarrow> live' (qs_db snap)"
  shows "snaps_ok live' b s"
  using assms unfolding snaps_ok_def by blast

lemma remove_ok:
  assumes "snaps_ok live b s" and "mget (pg_snapshots s) (qs_id snap) = Some snap"
  shows "snaps_ok live b (removeSnapshotLocked snap s)"
proof -
  have "length (mdel (qs_id snap) (pg_snapshots s)) + 1 = length (pg_snapshots s)"
    using length_delete [OF snaps_okD(3) [OF assms(1)] assms(2)] .
  with assms(1) show ?thesis
    unfolding snaps_ok_def removeSnapshotLocked_def by (simp add: gm.wf_del)
qed

lemma expire_ok: "snaps_ok live b s \<Longrightarrow> snaps_ok live b (expireSnapshot snap s)"
  by (simp add: expireSnapshot_def remove_ok)

lemma close_ok: "snaps_ok live b s \<Longrightarrow> snaps_ok live b (snd (closeSnapshot mac token db queryHash actorHash pageSize s))"
proof -
  assume ok: "snaps_ok live b s"
  then have "mget (pg_snapshots s) i = Some snap \<Longrightarrow> snaps_ok live b (removeSnapshotLocked snap s)" for i snap
    using remove_ok [OF ok, of snap] by (auto simp: snaps_ok_def)
  with ok show ?thesis
    by (auto simp: closeSnapshot_def split: option.splits)
qed

lemma serve_ok: "snaps_ok live b s \<Longrightarrow>
  snaps_ok live b (snd (serveSnapshotPage mac encoded_length flt now token db queryHash actorHash pageSize s))"
proof -
  assume ok: "snaps_ok live b s"
  then have rem: "mget (pg_snapshots s) i = Some snap \<Longrightarrow> snaps_ok live b (removeSnapshotLocked snap s)" for i snap
    using remove_ok [OF ok, of snap] by (auto simp: snaps_ok_def)
  have "mget (pg_snapshots s) i = Some snap \<Longrightarrow>
      snaps_ok live b (snd (serve_checked mac encoded_length flt token db queryHash actorHash pageSize snap s))" for i snap
    using ok rem [of i snap] by (auto simp: serve_checked_def split: option.splits sum.splits page_error.splits)
  with ok rem show ?thesis
    by (auto simp: serveSnapshotPage_def Let_def split: option.splits)
qed

text \<open>Removing a collection of snapshots, as the loops over the map do.\<close>

definition expire_all :: "(query_snapshot \<Rightarrow> bool) \<Rightarrow> (string, query_snapshot) gomap \<Rightarrow> page_server \<Rightarrow> page_server" where
  "expire_all P xs = fold (\<lambda>(i, snap) s. if P snap then removeSnapshotLocked snap s else s) xs"

lemma expire_all_simps [simp]:
  "expire_all P [] s = s"
  "expire_all P ((i, snap) # xs) s = expire_all P xs (if P snap then removeSnapshotLocked snap s else s)"
  by (simp_all add: expire_all_def)

lemma CloseSnapshots_expire: "CloseSnapshots s = expire_all (\<lambda>_. True) (pg_snapshots s) s"
  by (simp add: CloseSnapshots_def expire_all_def)

lemma ForDB_expire: "expireSnapshotsForDB db s = expire_all (\<lambda>snap. qs_db snap = db) (pg_snapshots s) s"
  by (simp add: expireSnapshotsForDB_def expire_all_def)

lemma expire_all_ok:
  assumes "wf_map xs" and "\<forall>i snap. (i, snap) \<in> set xs \<longrightarrow> qs_id snap = i \<and> mget (pg_snapshots s) i = Some snap"
    and "snaps_ok live b s"
  shows "snaps_ok live b (expire_all P xs s)"
  using assms
proof (induction xs arbitrary: s)
  case (Cons x xs)
  obtain i snap where x: "x = (i, snap)" by fastforce
  have wf: "i \<notin> set (mkeys xs)" "wf_map xs" using Cons.prems(1) by (simp_all add: x wf_map_Cons)
  have own: "qs_id snap = i" "mget (pg_snapshots s) i = Some snap" using Cons.prems(2) [rule_format, of i snap] by (simp_all add: x)
  let ?s = "if P snap then removeSnapshotLocked snap s else s"
  have "snaps_ok live b ?s" using Cons.prems(3) remove_ok [OF Cons.prems(3), of snap] own by simp
  moreover have "qs_id t = j \<and> mget (pg_snapshots ?s) j = Some t" if "(j, t) \<in> set xs" for j t
  proof -
    have "j \<noteq> i" using wf(1) that by force
    with that Cons.prems(2) [rule_format, of j t] own(1) show ?thesis by (simp add: x removeSnapshotLocked_def)
  qed
  ultimately have "snaps_ok live b (expire_all P xs ?s)" using wf(2) by (intro Cons.IH) blast+
  then show ?case by (simp add: x)
qed simp

lemma expire_all_gets:
  assumes "\<forall>i snap. (i, snap) \<in> set xs \<longrightarrow> qs_id snap = i"
  shows "mget (pg_snapshots (expire_all P xs s)) k =
    (if \<exists>snap. (k, snap) \<in> set xs \<and> P snap then None else mget (pg_snapshots s) k)"
  using assms
proof (induction xs arbitrary: s)
  case (Cons x xs)
  obtain i snap where x: "x = (i, snap)" by fastforce
  have i: "qs_id snap = i" using Cons.prems [rule_format, of i snap] by (simp add: x)
  let ?s = "if P snap then removeSnapshotLocked snap s else s"
  have "mget (pg_snapshots (expire_all P xs ?s)) k =
      (if \<exists>snap. (k, snap) \<in> set xs \<and> P snap then None else mget (pg_snapshots ?s) k)"
    using Cons.prems by (intro Cons.IH) simp
  then show ?case by (auto simp: x i removeSnapshotLocked_def)
qed simp

lemma expire_all_frame: "pg_dbs (expire_all P xs s) = pg_dbs s \<and> pg_limits (expire_all P xs s) = pg_limits s"
  by (induction xs arbitrary: s) (auto simp: removeSnapshotLocked_def)

lemma expire_own_ok:
  assumes "snaps_ok live b s"
  shows "snaps_ok (\<lambda>db. live db \<and> (\<exists>i snap. mget (pg_snapshots s) i = Some snap \<and> qs_db snap = db \<and> \<not> P snap)) b
    (expire_all P (pg_snapshots s) s)"
proof -
  have wf: "wf_map (pg_snapshots s)" and own: "\<forall>i snap. (i, snap) \<in> set (pg_snapshots s) \<longrightarrow> qs_id snap = i \<and> mget (pg_snapshots s) i = Some snap"
    using assms mget_in_set [of "pg_snapshots s"] by (auto simp: snaps_ok_def)
  have ok: "snaps_ok live b (expire_all P (pg_snapshots s) s)" by (rule expire_all_ok [OF wf own assms])
  have "mget (pg_snapshots s) i = Some snap \<and> \<not> P snap" if "mget (pg_snapshots (expire_all P (pg_snapshots s) s)) i = Some snap" for i snap
  proof -
    have "(\<exists>snap. (i, snap) \<in> set (pg_snapshots s) \<and> P snap) \<longleftrightarrow> (\<exists>snap. mget (pg_snapshots s) i = Some snap \<and> P snap)"
      by (simp add: mget_in_set [OF wf])
    with that show ?thesis
      using own by (subst (asm) expire_all_gets) (auto split: if_splits)
  qed
  then show ?thesis using snaps_okD(4) [OF ok] by (intro snaps_ok_weaken [OF ok]) blast
qed

lemma reserve_ok: "snaps_ok live b s \<Longrightarrow> reserveSnapshotSlot s = Some s' \<Longrightarrow> snaps_ok live (b + 1) s'"
  by (auto simp: snaps_ok_def reserveSnapshotSlot_def split: if_splits)

lemma release_ok: "snaps_ok live b s \<Longrightarrow> 0 < b \<Longrightarrow> snaps_ok live (b - 1) (releaseSnapshotSlot s)"
  by (auto simp: snaps_ok_def releaseSnapshotSlot_def)

lemma files_ok: "snaps_ok live b s \<Longrightarrow> snaps_ok live b (s\<lparr>pg_files := files\<rparr>)"
  by (simp add: snaps_ok_def)

lemma dbs_ok: "snaps_ok live b s \<Longrightarrow> snaps_ok live b (s\<lparr>pg_dbs := dbs\<rparr>)"
  by (simp add: snaps_ok_def)

lemma length_put_new: "mget m k = None \<Longrightarrow> length (mput k v m) = length m + 1"
  by (induction m) (auto split: if_splits)

lemma publish_ok:
  assumes "snaps_ok live b s" and "0 < b" and "publish_snapshot snap db s = Some s'" and "mget (pg_snapshots s) (qs_id snap) = None"
    and "live (qs_db snap)" and "0 \<le> qs_bytes snap" and "qs_bytes snap \<le> sl_bytes (pg_limits s)"
  shows "snaps_ok live (b - 1) s'"
proof -
  have s': "s' = s\<lparr>pg_snapshots := mput (qs_id snap) snap (pg_snapshots s)\<rparr>"
    using assms(3) by (auto simp: publish_snapshot_def split: if_splits)
  have "mget (pg_snapshots s') i = Some t \<Longrightarrow>
      qs_id t = i \<and> 0 \<le> qs_bytes t \<and> qs_bytes t \<le> sl_bytes (pg_limits s') \<and> live (qs_db t)" for i t
    using snaps_okD(4) [OF assms(1), of i t] assms(5-7) by (auto simp: s' split: if_splits)
  moreover have "pg_slots s' = int (length (pg_snapshots s')) + int (b - 1)" "pg_slots s' \<le> max 0 (sl_slots (pg_limits s'))"
      "wf_map (pg_snapshots s')"
    using snaps_okD(1-3) [OF assms(1)] assms(2,4) by (simp_all add: s' length_put_new gm.wf_put of_nat_diff)
  ultimately show ?thesis unfolding snaps_ok_def by blast
qed

text \<open>A change of the routes keeps the invariant when no routed database of a snapshot is lost.\<close>

lemma reroute_inv:
  assumes "paging_inv \<lparr> pn_server = s, pn_building = b, pn_pending = p \<rparr>"
    and "\<And>d j. mget (pg_dbs s) j = Some d \<Longrightarrow> d \<in> set p' \<or> (\<exists>j. mget dbs j = Some d)" and "set p \<subseteq> set p'"
  shows "paging_inv \<lparr> pn_server = s\<lparr>pg_dbs := dbs\<rparr>, pn_building = b, pn_pending = p' \<rparr>"
proof -
  have ok: "snaps_ok (routed s p) b s" using assms(1) by (simp add: paging_inv_def)
  have "snaps_ok (routed (s\<lparr>pg_dbs := dbs\<rparr>) p') b s"
  proof (rule snaps_ok_weaken [OF ok])
    fix k snap
    assume "mget (pg_snapshots s) k = Some snap"
    then have "routed s p (qs_db snap)" using snaps_okD(4) [OF ok] by blast
    then show "routed (s\<lparr>pg_dbs := dbs\<rparr>) p' (qs_db snap)" using assms(2,3) by auto
  qed
  then show ?thesis by (simp add: paging_inv_def dbs_ok)
qed

lemma serve_frame:
  "serveSnapshotPage mac encoded_length flt now token db queryHash actorHash pageSize s = (response, s') \<Longrightarrow>
   pg_dbs s' = pg_dbs s \<and> pg_limits s' = pg_limits s"
  by (auto simp: serveSnapshotPage_def serve_checked_def removeSnapshotLocked_def Let_def
      split: option.splits if_splits sum.splits page_error.splits)

lemma close_frame:
  "closeSnapshot mac token db queryHash actorHash pageSize s = (response, s') \<Longrightarrow> pg_dbs s' = pg_dbs s"
  by (auto simp: closeSnapshot_def removeSnapshotLocked_def split: option.splits if_splits)

lemma paging_step_inv:
  assumes "paging_step mac encoded_length z z'" and "paging_inv z"
  shows "paging_inv z'"
  using assms
proof cases
  case (Reserve s s' b p)
  then show ?thesis
    using assms(2) reserve_ok [of _ b s s'] by (auto simp: paging_inv_def reserveSnapshotSlot_def split: if_splits)
next
  case (Spool marshal run db limits reserved s result files b p)
  then show ?thesis using assms(2) by (simp add: paging_inv_def files_ok)
next
  case (Abandon b s p path)
  then show ?thesis
    using assms(2) release_ok [OF files_ok] by (simp add: paging_inv_def releaseSnapshotSlot_def)
next
  case (Publish b snap db s s' p)
  then have "pg_dbs s' = pg_dbs s" "mget (pg_dbs s) (df_id db) = Some (qs_db snap)"
    by (auto simp: publish_snapshot_def split: if_splits)
  with Publish assms(2) show ?thesis
    using publish_ok [of "routed s p" b s snap db s'] by (auto simp: paging_inv_def)
next
  case (Serve flt now token db queryHash actorHash pageSize s response s' b p)
  have "snaps_ok (routed s p) b (snd (serveSnapshotPage mac encoded_length flt now token db queryHash actorHash pageSize s))"
    using assms(2) Serve(1) by (intro serve_ok) (simp add: paging_inv_def)
  with Serve serve_frame [OF Serve(3)] show ?thesis by (simp add: paging_inv_def)
next
  case (Close token db queryHash actorHash pageSize s response s' b p)
  have "snaps_ok (routed s p) b (snd (closeSnapshot mac token db queryHash actorHash pageSize s))"
    using assms(2) Close(1) by (intro close_ok) (simp add: paging_inv_def)
  with Close close_frame [OF Close(3)] show ?thesis by (simp add: paging_inv_def)
next
  case (Timer s b p snap)
  have "pg_dbs (expireSnapshot snap s) = pg_dbs s" by (simp add: expireSnapshot_def removeSnapshotLocked_def)
  with Timer assms(2) expire_ok show ?thesis by (simp add: paging_inv_def)
next
  case (Shutdown s b p)
  then have ok: "snaps_ok (routed s p) b s" using assms(2) by (simp add: paging_inv_def)
  have "snaps_ok (routed s p) b (CloseSnapshots s)"
    unfolding CloseSnapshots_expire by (rule snaps_ok_weaken [OF expire_own_ok [OF ok]]) (use snaps_okD(4) [OF expire_own_ok [OF ok]] in blast)
  moreover have "pg_dbs (CloseSnapshots s) = pg_dbs s" by (simp add: CloseSnapshots_expire expire_all_frame)
  ultimately show ?thesis using Shutdown by (simp add: paging_inv_def)
next
  case (MountDB s i b p db)
  have "\<exists>k. mget (mput i db (pg_dbs s)) k = Some d" if "mget (pg_dbs s) j = Some d" for d j
    using that MountDB(3) by (intro exI [of _ j]) auto
  then show ?thesis using assms(2) unfolding MountDB(1,2) by (intro reroute_inv [of s b p]) blast+
next
  case (UnmountRoute s i db b p)
  have "d \<in> set (db # p) \<or> (\<exists>k. mget (mdel i (pg_dbs s)) k = Some d)" if "mget (pg_dbs s) j = Some d" for d j
    using that UnmountRoute(3) by (cases "j = i") (auto intro: exI [of _ j])
  then show ?thesis using assms(2) unfolding UnmountRoute(1,2) by (intro reroute_inv [of s b p]) (blast | simp add: subset_insertI)+
next
  case (UnmountAlias s i db j b p)
  have "\<exists>k. mget (mdel i (pg_dbs s)) k = Some d" if "mget (pg_dbs s) k = Some d" for d k
    using that UnmountAlias(3-5) by (intro exI [of _ "if k = i then j else k"]) auto
  then show ?thesis using assms(2) unfolding UnmountAlias(1,2) by (intro reroute_inv [of s b p]) blast+
next
  case (UnmountExpire db p s b)
  then have ok: "snaps_ok (routed s p) b s" using assms(2) by (simp add: paging_inv_def)
  have "snaps_ok (routed s (remove1 db p)) b (expireSnapshotsForDB db s)"
    unfolding ForDB_expire
  proof (rule snaps_ok_weaken [OF expire_own_ok [OF ok]])
    fix i snap
    assume "mget (pg_snapshots (expire_all (\<lambda>snap. qs_db snap = db) (pg_snapshots s) s)) i = Some snap"
    then have "routed s p (qs_db snap)" "qs_db snap \<noteq> db" using snaps_okD(4) [OF expire_own_ok [OF ok]] by blast+
    then show "routed s (remove1 db p) (qs_db snap)" by (simp add: in_set_remove1)
  qed
  moreover have "pg_dbs (expireSnapshotsForDB db s) = pg_dbs s" by (simp add: ForDB_expire expire_all_frame)
  ultimately show ?thesis using UnmountExpire by (simp add: paging_inv_def)
qed

interpretation pages: step_system "paging_step mac encoded_length" paging_inv for mac encoded_length
  by unfold_locales (rule paging_step_inv)

section \<open>Properties\<close>


definition demo_random :: string where "demo_random = replicate 32 CHR ''r''"

definition demo_run :: "string capture_run" where
  "demo_run = \<lparr> cr_collections = True, cr_rights = Some 100, cr_temp = Some ''snapshot-1'', cr_records = [''one'', ''two'', ''three''],
     cr_streamFails = False, cr_writeFails = (\<lambda>_. False), cr_flushFails = False, cr_closeFails = False,
     cr_random = Some demo_random, cr_now = 50 \<rparr>"

definition demo_db :: db_facts where
  "demo_db = \<lparr> df_handle = 7, df_id = ''d'', df_noRetention = False, df_hasPolicies = False \<rparr>"

definition demo_server :: page_server where
  "demo_server = \<lparr> pg_limits = \<lparr> sl_slots = 2, sl_bytes = 1000, sl_rows = 10 \<rparr>, pg_snapshots = [], pg_slots = 1, pg_files = [],
     pg_dbs = [(''d'', 7)], pg_dirErr = False \<rparr>"

definition demo_snap :: query_snapshot where
  "demo_snap = new_snapshot demo_run 100 ''snapshot-1'' 14 demo_db ''q'' ''a'' 2 (b64_encode demo_random)"

definition demo_length :: "page_response \<Rightarrow> nat" where
  "demo_length r = (case r of Page rows t e n \<Rightarrow> length (spooled rows) + 300 | _ \<Rightarrow> 0)"

lemma demo_capture:
  "capture_snapshot Some demo_run demo_db ''q'' ''a'' 2 demo_server =
    (Inr demo_snap, demo_server\<lparr>pg_files := [(''snapshot-1'', spooled [''one'', ''two'', ''three''])],
       pg_snapshots := [(b64_encode demo_random, demo_snap)]\<rparr>)"
  by (simp add: capture_snapshot_def demo_run_def demo_db_def demo_server_def demo_snap_def spoolTugQL_def row_budget_def maxPageBytes_def
      newSnapshotIdentity_def publish_snapshot_def new_snapshot_def newline_def Let_def)


text \<open>
  C35. A page is served only from a live snapshot to the database, the credential, the query and the page
  size it was captured with, and serving it changes nothing, so that a retry returns the same page.
\<close>

theorem page_belongs_to_request:
  assumes "serveSnapshotPage mac encoded_length flt now token db queryHash actorHash pageSize s = (Page rows t e next, s')"
  shows "s' = s \<and> (\<exists>i snap. mget (pg_snapshots s) i = Some snap \<and> i = hd (split_on CHR ''.'' token) \<and> qs_db snap = df_handle db \<and>
    qs_actorHash snap = actorHash \<and> qs_queryHash snap = queryHash \<and> qs_pageSize snap = pageSize \<and> now \<le> qs_expiresAt snap \<and>
    (\<exists>offset. token = pageToken mac i offset (df_id db) queryHash actorHash pageSize \<and> 0 \<le> offset \<and> offset \<le> qs_bytes snap))"
proof -
  obtain snap where snap: "length (split_on CHR ''.'' token) = 3" "mget (pg_snapshots s) (split_on CHR ''.'' token ! 0) = Some snap"
      "now \<le> qs_expiresAt snap" "qs_db snap = df_handle db" "qs_actorHash snap = actorHash" "qs_queryHash snap = queryHash"
      "qs_pageSize snap = pageSize"
    and checked: "serve_checked mac encoded_length flt token db queryHash actorHash pageSize snap s = (Page rows t e next, s')"
    using assms by (auto simp: serveSnapshotPage_def Let_def split: if_splits option.splits)
  obtain i offset where off: "pageOffset mac s token (df_id db) queryHash actorHash pageSize = Some (i, offset)" "offset \<le> qs_bytes snap"
      and "s' = s"
    using checked by (auto simp: serve_checked_def split: option.splits if_splits sum.splits page_error.splits)
  moreover have "token = pageToken mac (split_on CHR ''.'' token ! 0) offset (df_id db) queryHash actorHash pageSize" "0 \<le> offset"
    using off(1) by (auto simp: pageOffset_def Let_def split: option.splits if_splits)
  moreover have "split_on CHR ''.'' token ! 0 = hd (split_on CHR ''.'' token)" by (simp add: hd_conv_nth)
  ultimately show ?thesis using snap by (intro conjI exI [of _ "split_on CHR ''.'' token ! 0"] exI [of _ snap] exI [of _ offset]) auto
qed

definition demo_paging :: page_server where
  "demo_paging = demo_server\<lparr>pg_files := [(''snapshot-1'', spooled [''one'', ''two'', ''three''])],
     pg_snapshots := [(b64_encode demo_random, demo_snap)]\<rparr>"

lemma demo_pageable: "pageable demo_length 60 demo_db ([] @ [''one'', ''two'', ''three'']) demo_snap demo_paging"
proof -
  have "newline \<notin> set ''onetwhr''" "length demo_random = 32" by code_simp+
  then show ?thesis
    by (auto simp: pageable_def demo_paging_def demo_snap_def new_snapshot_def demo_run_def demo_db_def demo_server_def snapshotLifetime_def
        first_page_bytes_def maxPageBytes_def envelope_fits_def demo_length_def intro!: exI [of _ demo_random])
qed

theorem page_belongs_to_request_witness:
  "\<exists>rows t e next. serve_own rev demo_length 60 demo_db demo_snap (own_token rev demo_db demo_snap 0) demo_paging = (Page rows t e next, demo_paging) \<and>
    (\<exists>i snap. mget (pg_snapshots demo_paging) i = Some snap \<and> qs_db snap = 7 \<and> qs_actorHash snap = ''a'' \<and> 60 \<le> qs_expiresAt snap)"
proof -
  obtain rows t e "next" where page: "serve_own rev demo_length 60 demo_db demo_snap (own_token rev demo_db demo_snap 0) demo_paging =
      (Page rows t e next, demo_paging)"
    using serve_page [OF demo_pageable, of rev] by auto
  moreover have "qs_db demo_snap = 7" "qs_actorHash demo_snap = ''a''" "df_handle demo_db = 7"
    by (simp_all add: demo_snap_def new_snapshot_def demo_db_def)
  ultimately show ?thesis
    using page_belongs_to_request [OF page] by auto
qed

text \<open>Every step keeps the limits of the server.\<close>

lemma paging_step_limits: "paging_step mac encoded_length z z' \<Longrightarrow> pg_limits (pn_server z') = pg_limits (pn_server z)"
  by (induction rule: paging_step.induct)
    (auto simp: reserveSnapshotSlot_def releaseSnapshotSlot_def publish_snapshot_def expireSnapshot_def removeSnapshotLocked_def
      CloseSnapshots_expire ForDB_expire expire_all_frame closeSnapshot_def serve_frame split: if_splits option.splits)

definition fresh_paging :: "paging \<Rightarrow> bool" where
  "fresh_paging z \<longleftrightarrow> pg_snapshots (pn_server z) = [] \<and> pg_slots (pn_server z) = 0 \<and> pn_building z = 0"

lemma fresh_paging_inv: "fresh_paging z \<Longrightarrow> paging_inv z"
  by (simp add: fresh_paging_def paging_inv_def snaps_ok_def gm.wf_empty)

lemma sum_bytes_le:
  assumes "\<forall>x \<in> set xs. f x \<le> (c :: int)" and "int (length xs) \<le> n" and "0 \<le> c"
  shows "sum_list (map f xs) \<le> n * c"
proof -
  have "sum_list (map f xs) \<le> int (length xs) * c" using assms(1) by (induction xs) (auto simp: distrib_right)
  also have "\<dots> \<le> n * c" using assms(2,3) by (rule mult_right_mono)
  finally show ?thesis .
qed


definition idle_paging :: paging where
  "idle_paging = \<lparr> pn_server = demo_server\<lparr>pg_slots := 0\<rparr>, pn_building = 0, pn_pending = [] \<rparr>"

definition captured_paging :: paging where
  "captured_paging = \<lparr> pn_server = demo_server\<lparr>pg_snapshots := [(b64_encode demo_random, demo_snap)]\<rparr>, pn_building = 0, pn_pending = [] \<rparr>"

lemma captured_reached: "(paging_step rev demo_length)\<^sup>*\<^sup>* idle_paging captured_paging"
proof -
  have "paging_step rev demo_length idle_paging \<lparr> pn_server = demo_server, pn_building = 0 + 1, pn_pending = [] \<rparr>"
    unfolding idle_paging_def by (rule Reserve) (simp add: reserveSnapshotSlot_def demo_server_def)
  moreover have "paging_step rev demo_length \<lparr> pn_server = demo_server, pn_building = 1, pn_pending = [] \<rparr>
      \<lparr> pn_server = demo_server\<lparr>pg_snapshots := [(b64_encode demo_random, demo_snap)]\<rparr>, pn_building = 1 - 1, pn_pending = [] \<rparr>"
    by (rule Publish [where snap = demo_snap and db = demo_db])
      (simp_all add: publish_snapshot_def demo_server_def demo_db_def demo_snap_def new_snapshot_def)
  ultimately show ?thesis unfolding captured_paging_def by simp
qed


text \<open>
  Unmounting takes the snapshots with it: in no reachable state does a page of a database come from a
  snapshot once the database has no route left and its unmounting has expired its snapshots, whatever
  captures were still running when it was unmounted.
\<close>

theorem unmounted_database_serves_no_page:
  assumes "fresh_paging z" and "(paging_step mac encoded_length)\<^sup>*\<^sup>* z z'"
    and "df_handle db \<notin> set (pn_pending z')" and "df_handle db \<notin> ran (mget (pg_dbs (pn_server z')))"
  shows "fst (serveSnapshotPage mac encoded_length flt now token db queryHash actorHash pageSize (pn_server z')) \<noteq> Page rows t e next"
proof
  let ?s = "pn_server z'"
  assume "fst (serveSnapshotPage mac encoded_length flt now token db queryHash actorHash pageSize ?s) = Page rows t e next"
  then obtain snap where snap: "mget (pg_snapshots ?s) (split_on CHR ''.'' token ! 0) = Some snap" "qs_db snap = df_handle db"
    by (auto simp: serveSnapshotPage_def Let_def split: if_splits option.splits)
  have "snaps_ok (routed ?s (pn_pending z')) (pn_building z') ?s"
    using pages.run_inv [OF assms(2) fresh_paging_inv [OF assms(1)]] by (simp add: paging_inv_def)
  from snaps_okD(4) [OF this snap(1)] snap(2) assms(3,4) show False by (auto simp: ran_def)
qed

definition unmounted_paging :: paging where
  "unmounted_paging = \<lparr> pn_server = demo_server\<lparr>pg_snapshots := [], pg_slots := 0, pg_dbs := []\<rparr>, pn_building = 0, pn_pending = [] \<rparr>"

lemma unmounted_reached: "(paging_step rev demo_length)\<^sup>*\<^sup>* idle_paging unmounted_paging"
proof -
  have "paging_step rev demo_length captured_paging
      \<lparr> pn_server = (pn_server captured_paging)\<lparr>pg_dbs := mdel ''d'' (pg_dbs (pn_server captured_paging))\<rparr>, pn_building = 0, pn_pending = 7 # [] \<rparr>"
    using UnmountRoute [of "pn_server captured_paging" "''d''" 7 rev demo_length 0 "[]"]
    by (simp add: captured_paging_def demo_server_def)
  moreover have "paging_step rev demo_length
      \<lparr> pn_server = (pn_server captured_paging)\<lparr>pg_dbs := mdel ''d'' (pg_dbs (pn_server captured_paging))\<rparr>, pn_building = 0, pn_pending = [7] \<rparr>
      \<lparr> pn_server = expireSnapshotsForDB 7 ((pn_server captured_paging)\<lparr>pg_dbs := mdel ''d'' (pg_dbs (pn_server captured_paging))\<rparr>),
        pn_building = 0, pn_pending = remove1 7 [7] \<rparr>"
    by (rule UnmountExpire) simp
  moreover have "expireSnapshotsForDB 7 ((pn_server captured_paging)\<lparr>pg_dbs := mdel ''d'' (pg_dbs (pn_server captured_paging))\<rparr>) =
      demo_server\<lparr>pg_snapshots := [], pg_slots := 0, pg_dbs := []\<rparr>"
    by (simp add: expireSnapshotsForDB_def captured_paging_def demo_server_def demo_snap_def new_snapshot_def demo_db_def
        removeSnapshotLocked_def)
  ultimately show ?thesis
    using captured_reached unfolding unmounted_paging_def by simp
qed

theorem unmounted_database_serves_no_page_witness:
  "\<forall>rows t e next. fst (serveSnapshotPage rev demo_length no_page_faults 60 (own_token rev demo_db demo_snap 0) demo_db ''q'' ''a'' 2
     (pn_server unmounted_paging)) \<noteq> Page rows t e next"
  by (intro allI, rule unmounted_database_serves_no_page [OF _ unmounted_reached])
    (simp_all add: fresh_paging_def idle_paging_def unmounted_paging_def demo_server_def)

lemma capture_refused_ok:
  assumes "snaps_ok live 1 s1" and "capture_snapshot marshal run db queryHash actorHash pageSize s1 = (Inl refusal, s2)"
  shows "snaps_ok live 0 (releaseSnapshotSlot s2)"
proof -
  have "s2 = s1\<lparr>pg_files := pg_files s2\<rparr>"
    using assms(2) by (auto simp: capture_snapshot_def Let_def split: if_splits option.splits prod.splits sum.splits)
  then have "snaps_ok live 1 s2" using files_ok [OF assms(1), of "pg_files s2"] by simp
  then show ?thesis using release_ok [of live 1 s2] by simp
qed

lemma capture_published_ok:
  assumes "snaps_ok live 1 s1" and "capture_snapshot marshal run db queryHash actorHash pageSize s1 = (Inr snap, s2)"
    and "live (df_handle db)" and "mget (pg_snapshots s1) (b64_encode (the (cr_random run))) = None"
    and "\<forall>reserved. cr_rights run = Some reserved \<longrightarrow> 0 \<le> reserved"
  shows "snaps_ok live 0 s2"
proof -
  from capture_snapshot_result [OF assms(2)] obtain rows rnd where c: "cr_rights run = Some (qs_reserved snap)"
    "qs_bytes snap = int (length (spooled rows))" "qs_bytes snap \<le> sl_bytes (pg_limits s1) - qs_reserved snap"
    "cr_random run = Some rnd" "qs_id snap = b64_encode rnd" "qs_db snap = df_handle db"
    "mget (pg_dbs s1) (df_id db) = Some (df_handle db)"
    "s2 = s1\<lparr>pg_files := mput (qs_path snap) (spooled rows) (pg_files s1), pg_snapshots := mput (qs_id snap) snap (pg_snapshots s1)\<rparr>"
    by blast
  let ?s = "s1\<lparr>pg_files := mput (qs_path snap) (spooled rows) (pg_files s1)\<rparr>"
  have pub: "publish_snapshot snap db ?s = Some s2" using c by (simp add: publish_snapshot_def)
  have "snaps_ok live (1 - 1) s2"
    by (rule publish_ok [OF files_ok [OF assms(1)] _ pub]) (use c assms(3-5) in auto)
  then show ?thesis by simp
qed

text \<open>
  A request leaves no slot behind: whatever its headers, whatever fails while its result is captured
  and whatever the answer, the slots in use afterwards are again the snapshots that exist.
\<close>

theorem paged_request_releases_its_slot:
  assumes "snaps_ok live 0 s" and "live (df_handle db)" and "mget (pg_snapshots s) (b64_encode (the (cr_random run))) = None"
    and "\<forall>reserved. cr_rights run = Some reserved \<longrightarrow> 0 \<le> reserved"
  shows "snaps_ok live 0 (snd (handlePagedTugQL mac sha marshal encoded_length run flt now req db s))"
proof -
  have one: "snaps_ok live 1 s1" "mget (pg_snapshots s1) (b64_encode (the (cr_random run))) = None"
    if "reserveSnapshotSlot s = Some s1" for s1
    using reserve_ok [OF assms(1) that] assms(3) that by (auto simp: reserveSnapshotSlot_def split: if_splits)
  show ?thesis
    unfolding handlePagedTugQL_def Let_def
    by (auto split: option.splits prod.splits sum.splits intro!: close_ok serve_ok
        intro: assms(1) capture_refused_ok [OF one(1)] capture_published_ok [OF one(1) _ assms(2) one(2) assms(4)])
qed

definition demo_request :: page_request where
  "demo_request = \<lparr> rq_headers = [(''Ovdb-Page-Size'', [''2''])], rq_limit = 0, rq_offset = 0, rq_doc = ''query'' \<rparr>"

theorem paged_request_releases_its_slot_witness:
  "snaps_ok (\<lambda>db. db = 7) 0 (snd (handlePagedTugQL rev id Some demo_length demo_run no_page_faults 60 demo_request demo_db
     (demo_server\<lparr>pg_slots := 0\<rparr>)))"
  by (rule paged_request_releases_its_slot)
    (simp_all add: snaps_ok_def demo_server_def demo_run_def demo_db_def gm.wf_empty)


definition full_row :: string where "full_row = replicate (nat maxPageBytes) CHR ''x''"

definition full_run :: "unit capture_run" where
  "full_run = \<lparr> cr_collections = True, cr_rights = Some 0, cr_temp = Some ''snapshot-2'', cr_records = [()], cr_streamFails = False,
     cr_writeFails = (\<lambda>_. False), cr_flushFails = False, cr_closeFails = False, cr_random = Some demo_random, cr_now = 50 \<rparr>"

definition wide_server :: page_server where
  "wide_server = demo_server\<lparr>pg_limits := DefaultSnapshotLimits\<rparr>"

definition full_snap :: query_snapshot where
  "full_snap = new_snapshot full_run 0 ''snapshot-2'' (maxPageBytes + 1) demo_db ''q'' ''a'' 2 (b64_encode demo_random)"

lemma full_row_length: "int (length full_row) = maxPageBytes"
  by (simp add: full_row_def maxPageBytes_def)

lemma full_capture:
  "capture_snapshot (\<lambda>_. Some full_row) full_run demo_db ''q'' ''a'' 2 wide_server =
    (Inr full_snap, wide_server\<lparr>pg_files := [(''snapshot-2'', full_row @ [newline])], pg_snapshots := [(b64_encode demo_random, full_snap)]\<rparr>)"
proof -
  have "maxPageBytes + 1 \<le> 536870912" by (simp add: maxPageBytes_def)
  then show ?thesis
    by (simp add: capture_snapshot_def full_run_def demo_db_def wide_server_def demo_server_def full_snap_def spoolTugQL_def row_budget_def
        full_row_length DefaultSnapshotLimits_def newSnapshotIdentity_def publish_snapshot_def new_snapshot_def Let_def)
qed


end
