(* ===== verification/Json_Doc.thy ===== *)
theory Json_Doc
  imports Go_Strings
begin

text \<open>
  JSON documents as trees. An object is the list of its members in the order of the text, with repeated
  keys kept, as the token stream of \<^verbatim>\<open>encoding/json\<close> delivers them; a number is its text.
\<close>

datatype json = JNull | JBool bool | JNumber string | JString string | JArray "json list" | JObject "(string \<times> json) list"

text \<open>Every string of a document, keys included, is valid UTF-8.\<close>

fun strings_valid :: "json \<Rightarrow> bool" where
  "strings_valid (JString s) = valid_utf8 s"
| "strings_valid (JArray xs) = list_all strings_valid xs"
| "strings_valid (JObject kvs) = list_all (\<lambda>(k, v). valid_utf8 k \<and> strings_valid v) kvs"
| "strings_valid _ = True"

end
