(* ===== verification/Authorization_Request.thy ===== *)
theory Authorization_Request
  imports Json_Doc "HOL-Library.Sublist"
begin

text \<open>
  \<^verbatim>\<open>src/pkg/authorizationapi/request.go\<close>: the ingress of authorization requests. A text is one JSON
  document within size, depth and node limits and without a repeated key; its shape is exactly that of the
  request type; the request is validated and each of its operations normalised.

  The parser of JSON text (\<open>parse\<close>), the decoder into the request, the parser of TugQL, the reference check
  of the access package and the constants of the authorization package are parameters. A document is a
  tree whose objects keep repeated keys, as the token stream does. A Go type is a descriptor with the
  JSON names of its fields.
\<close>

section \<open>Documents and their structure\<close>

definition MaxRequestBytes :: nat where "MaxRequestBytes = 1048576"

definition maxScanDepth :: nat where "maxScanDepth = 32"
definition maxScanNodes :: nat where "maxScanNodes = 16384"

text \<open>\<^verbatim>\<open>scan\<close> with its node counter: the nodes seen, or \<open>None\<close> when it refuses.\<close>

fun scan :: "nat \<Rightarrow> json \<Rightarrow> nat \<Rightarrow> nat option"
  and scan_items :: "nat \<Rightarrow> json list \<Rightarrow> nat \<Rightarrow> nat option"
  and scan_members :: "nat \<Rightarrow> string list \<Rightarrow> (string \<times> json) list \<Rightarrow> nat \<Rightarrow> nat option" where
  "scan depth j nodes =
     (if depth > maxScanDepth \<or> nodes + 1 > maxScanNodes then None
      else case j of
          JObject kvs \<Rightarrow> scan_members depth [] kvs (nodes + 1)
        | JArray xs \<Rightarrow> scan_items depth xs (nodes + 1)
        | _ \<Rightarrow> Some (nodes + 1))"
| "scan_items depth [] nodes = Some nodes"
| "scan_items depth (x # xs) nodes = (case scan (depth + 1) x nodes of None \<Rightarrow> None | Some n \<Rightarrow> scan_items depth xs n)"
| "scan_members depth keys [] nodes = Some nodes"
| "scan_members depth keys ((k, v) # kvs) nodes =
     (if k \<in> set keys then None
      else case scan (depth + 1) v nodes of None \<Rightarrow> None | Some n \<Rightarrow> scan_members depth (k # keys) kvs n)"

section \<open>Shapes\<close>

datatype gotype = TRawMessage | TInterface | TPointer gotype | TStruct "(string \<times> bool \<times> gotype) list" | TSlice gotype | TMap gotype | TScalar

datatype shape_error = NullField | ExpectedObject | ExpectedArray | MissingField string | UnknownField string

text \<open>\<^verbatim>\<open>validateShape\<close>; a field of a structure is its JSON name, whether it may be omitted, and its type.\<close>

fun validateShape :: "json \<Rightarrow> gotype \<Rightarrow> shape_error option"
  and shape_fields :: "(string \<times> json) list \<Rightarrow> (string \<times> bool \<times> gotype) list \<Rightarrow> shape_error option"
  and shape_items :: "json list \<Rightarrow> gotype \<Rightarrow> shape_error option" where
  "validateShape v TRawMessage = None"
| "validateShape v TInterface = None"
| "validateShape v (TPointer t) = (if v = JNull then Some NullField else validateShape v t)"
| "validateShape v (TStruct fs) =
     (case v of
        JNull \<Rightarrow> Some NullField
      | JObject kvs \<Rightarrow>
         (case shape_fields kvs fs of
            Some e \<Rightarrow> Some e
          | None \<Rightarrow> check_all (\<lambda>(k, _). if k \<in> fst ` set fs then None else Some (UnknownField k)) kvs)
      | _ \<Rightarrow> Some ExpectedObject)"
| "validateShape v (TSlice t) = (case v of JNull \<Rightarrow> Some NullField | JArray xs \<Rightarrow> shape_items xs t | _ \<Rightarrow> Some ExpectedArray)"
| "validateShape v (TMap t) = (case v of JNull \<Rightarrow> Some NullField | JObject kvs \<Rightarrow> shape_items (map snd kvs) t | _ \<Rightarrow> Some ExpectedObject)"
| "validateShape v TScalar = (if v = JNull then Some NullField else None)"
| "shape_fields kvs [] = None"
| "shape_fields kvs ((name, optional, t) # fs) =
     (case map_of kvs name of
        None \<Rightarrow> if optional then shape_fields kvs fs else Some (MissingField name)
      | Some item \<Rightarrow> (case validateShape item t of Some e \<Rightarrow> Some e | None \<Rightarrow> shape_fields kvs fs))"
| "shape_items [] t = None"
| "shape_items (x # xs) t = (case validateShape x t of Some e \<Rightarrow> Some e | None \<Rightarrow> shape_items xs t)"

datatype decode_error = BadSizeOrEncoding | BadStructure | BadShape shape_error | BadDocument

definition DecodeStrict :: "(string \<Rightarrow> json option) \<Rightarrow> (json \<Rightarrow> 'a option) \<Rightarrow> gotype \<Rightarrow> string \<Rightarrow> decode_error + 'a" where
  "DecodeStrict parse decode t data =
     (if data = [] \<or> length data > MaxRequestBytes \<or> \<not> valid_utf8 data then Inl BadSizeOrEncoding
      else case parse data of
          None \<Rightarrow> Inl BadStructure
        | Some j \<Rightarrow>
           (case scan 0 j 0 of
              None \<Rightarrow> Inl BadStructure
            | Some _ \<Rightarrow>
               (case validateShape j t of
                  Some e \<Rightarrow> Inl (BadShape e)
                | None \<Rightarrow> (case decode j of None \<Rightarrow> Inl BadDocument | Some r \<Rightarrow> Inr r))))"

section \<open>The request\<close>

record query_text =
  qt_format :: string
  qt_text :: string
  qt_parameters :: nat

record change =
  ch_op :: string
  ch_path :: "string list"
  ch_value :: string

text \<open>Absent data and absent changes are \<open>None\<close>.\<close>

record mutation =
  mu_data :: "(string \<times> json) list option"
  mu_changes :: "change list option"
  mu_ifDataRevision :: string

record resource =
  rs_databaseID :: string
  rs_path :: string
  rs_table :: string
  rs_rowID :: string
  rs_columns :: "string list list"

record operation =
  on_id :: string
  on_action :: string
  on_resource :: resource
  on_query :: "query_text option"
  on_mutation :: "mutation option"
  on_executionClass :: string
  on_callable :: "(string \<times> string) option"

record simulation =
  sm_roles :: "string list option"
  sm_groups :: "string list option"
  sm_attributes :: "(string \<times> json) list option"

record 'p auth_request =
  ar_apiVersion :: string
  ar_mode :: string
  ar_diagnosticLevel :: string
  ar_subject :: "'p option"
  ar_simulation :: "simulation option"
  ar_operations :: "operation list"
  ar_sample :: "(query_text \<times> int) option"

text \<open>The constants of the authorization package, its check of a principal, and the collection of a TugQL text.\<close>

record 'p authz_api =
  az_version :: string
  az_plan :: string
  az_inspect :: string
  az_sample :: string
  az_nativeSQL :: string
  az_nativeGraphQL :: string
  az_storedProcedure :: string
  az_validRef :: "'p \<Rightarrow> bool"
  az_tugql :: "string \<Rightarrow> string option"

definition ExecutionTugQL :: string where "ExecutionTugQL = ''tugql''"

datatype request_error = UnsupportedVersion | InvalidMode | InvalidDiagnosticLevel | InvalidSubject | InvalidSimulation
  | InvalidSimulationAttribute | OperationCount | InvalidOperationID | InspectionNeedsRecord | InvalidSample | SampleTemplate
  | SampleNotPermitted | ResourceMismatch | PathDepth | InvalidPath | ConflictingIdentifiers | TooManyColumns | InvalidColumn
  | CallableUnexpected | InvalidCallable | UnknownExecutionClass | QueryUnexpected | InvalidQueryOperation | InvalidQueryText
  | QueryParameters | QueryUnparsable | QueryCollectionMismatch | MutationUnexpected | TruncateNeedsTable | MutationRequired
  | InvalidRevision | DataOnly | EmptyMutation | ChangeCount | InvalidChange | OverlappingChanges | ColumnsDiffer | UnknownAction

definition validString :: "string \<Rightarrow> nat \<Rightarrow> bool" where
  "validString s n \<longleftrightarrow> s \<noteq> [] \<and> length s \<le> n \<and> valid_utf8 s \<and> trim_space s = s \<and> \<not> list_ex (\<lambda>(r, _). is_control r) (runes s)"

definition validSegment :: "string \<Rightarrow> bool" where
  "validSegment s \<longleftrightarrow> validString s 256 \<and> s \<noteq> ''.'' \<and> s \<noteq> ''..'' \<and>
     \<not> list_ex (\<lambda>c. c = CHR ''/'' \<or> c = CHR 0x5C \<or> c = CHR ''%'') s"

definition validField :: "string list \<Rightarrow> bool" where
  "validField field \<longleftrightarrow> 1 \<le> length field \<and> length field \<le> 16 \<and> list_all (\<lambda>p. validSegment p \<and> CHR ''.'' \<notin> set p) field"

definition nul :: string where "nul = [char_of (0 :: nat)]"

definition fieldKey :: "string list \<Rightarrow> string" where "fieldKey field = join_with nul field"

fun valid_names_from :: "string list \<Rightarrow> string list \<Rightarrow> bool" where
  "valid_names_from seen [] = True"
| "valid_names_from seen (name # names) = (validString name 256 \<and> name \<notin> set seen \<and> valid_names_from (name # seen) names)"

definition validNames :: "string list option \<Rightarrow> bool" where
  "validNames names = (case names of None \<Rightarrow> False | Some ns \<Rightarrow> length ns \<le> 1000 \<and> valid_names_from [] ns)"

fun json_scalar :: "json \<Rightarrow> bool" where
  "json_scalar (JArray xs) = False"
| "json_scalar (JObject kvs) = False"
| "json_scalar v = True"

definition Parse_query :: "'p authz_api \<Rightarrow> query_text \<Rightarrow> string \<Rightarrow> request_error option" where
  "Parse_query api q table =
     (if qt_format q \<noteq> ''tugql-yaml'' \<or> qt_text q = [] \<or> length (qt_text q) > MaxRequestBytes then Some InvalidQueryText
      else if qt_parameters q \<noteq> 0 then Some QueryParameters
      else case az_tugql api (qt_text q) of
          None \<Rightarrow> Some QueryUnparsable
        | Some collection \<Rightarrow> if collection \<noteq> table then Some QueryCollectionMismatch else None)"

section \<open>Normalising an operation\<close>

definition path_parts :: "string \<Rightarrow> string list" where
  "path_parts path = split_on CHR ''/'' (if has_prefix path ''/'' then drop 1 path else path)"

fun check_columns :: "string list list \<Rightarrow> string list \<Rightarrow> request_error + string list" where
  "check_columns [] keys = Inr keys"
| "check_columns (field # fs) keys =
     (if \<not> validField field \<or> fieldKey field \<in> set keys then Inl InvalidColumn
      else check_columns fs (fieldKey field # keys))"

definition overlaps :: "string \<Rightarrow> string \<Rightarrow> bool" where
  "overlaps prior current \<longleftrightarrow> has_prefix prior (current @ nul) \<or> has_prefix current (prior @ nul)"

fun check_changes :: "change list \<Rightarrow> string list \<Rightarrow> request_error + string list" where
  "check_changes [] keys = Inr keys"
| "check_changes (c # cs) keys =
     (if ch_op c \<noteq> ''set'' \<or> \<not> validField (ch_path c) \<or> ch_value c = [] \<or> fieldKey (ch_path c) \<in> set keys then Inl InvalidChange
      else if list_ex (\<lambda>prior. overlaps prior (fieldKey (ch_path c))) keys then Inl OverlappingChanges
      else check_changes cs (fieldKey (ch_path c) # keys))"

text \<open>The execution class and its callable.\<close>

definition check_execution :: "'p authz_api \<Rightarrow> operation \<Rightarrow> request_error option" where
  "check_execution api opn =
     (if on_executionClass opn \<in> {ExecutionTugQL, az_nativeSQL api, az_nativeGraphQL api} then
        (if on_callable opn \<noteq> None then Some CallableUnexpected else None)
      else if on_executionClass opn = az_storedProcedure api then
        (case on_callable opn of
           None \<Rightarrow> Some InvalidCallable
         | Some (namespace, name) \<Rightarrow> if validString namespace 256 \<and> validString name 256 then None else Some InvalidCallable)
      else Some UnknownExecutionClass)"

text \<open>An update: the columns it names, if any, are its changed paths, which become the columns.\<close>

definition normalize_update :: "mutation \<Rightarrow> string list \<Rightarrow> request_error + string list list" where
  "normalize_update m columns =
     (let changes = case_option [] id (mu_changes m) in
      if mu_data m \<noteq> None \<or> length changes < 1 \<or> length changes > 32 then Inl ChangeCount
      else case check_changes changes [] of
          Inl e \<Rightarrow> Inl e
        | Inr keys \<Rightarrow>
           if columns \<noteq> [] \<and> (length columns \<noteq> length keys \<or> \<not> list_all (\<lambda>k. k \<in> set columns) keys) then Inl ColumnsDiffer
           else Inr (map ch_path changes))"

text \<open>The action: the columns of the resource afterwards.\<close>

definition normalize_action :: "'p authz_api \<Rightarrow> operation \<Rightarrow> string \<Rightarrow> string \<Rightarrow> string list \<Rightarrow> request_error + string list list" where
  "normalize_action api opn table row columns =
     (let action = on_action opn; keep = rs_columns (on_resource opn) in
      if action \<noteq> ''query'' \<and> on_query opn \<noteq> None then Inl QueryUnexpected
      else if action = ''query'' then
        (case on_query opn of
           None \<Rightarrow> Inl InvalidQueryOperation
         | Some q \<Rightarrow>
            if row \<noteq> [] \<or> on_mutation opn \<noteq> None then Inl InvalidQueryOperation
            else case Parse_query api q table of Some e \<Rightarrow> Inl e | None \<Rightarrow> Inr keep)
      else if action \<in> {''get'', ''exists'', ''truncate''} then
        (if on_mutation opn \<noteq> None then Inl MutationUnexpected
         else if action = ''truncate'' \<and> row \<noteq> [] then Inl TruncateNeedsTable else Inr keep)
      else if action \<in> {''insert'', ''set'', ''update'', ''delete''} then
        (case on_mutation opn of
           None \<Rightarrow> Inl MutationRequired
         | Some m \<Rightarrow>
            if mu_ifDataRevision m \<noteq> [] \<and> \<not> validString (mu_ifDataRevision m) 256 then Inl InvalidRevision
            else if action = ''insert'' \<or> action = ''set'' then
              (if mu_data m = None \<or> mu_changes m \<noteq> None then Inl DataOnly else Inr keep)
            else if action = ''delete'' then
              (if mu_data m \<noteq> None \<or> mu_changes m \<noteq> None then Inl EmptyMutation else Inr keep)
            else normalize_update m columns)
      else Inl UnknownAction)"

definition Normalize :: "'p authz_api \<Rightarrow> string \<Rightarrow> operation \<Rightarrow> request_error + operation" where
  "Normalize api database opn =
     (let r = on_resource opn; parts = path_parts (rs_path r); table = hd parts; row = (if length parts = 2 then parts ! 1 else []) in
      if \<not> validString database 256 \<or> rs_databaseID r \<noteq> database \<or> \<not> validString (rs_path r) 4096 \<or> \<not> has_prefix (rs_path r) ''/''
      then Inl ResourceMismatch
      else if length parts < 1 \<or> length parts > 2 then Inl PathDepth
      else if \<not> list_all validSegment parts then Inl InvalidPath
      else if rs_table r \<noteq> [] \<and> rs_table r \<noteq> table \<or> rs_rowID r \<noteq> [] \<and> rs_rowID r \<noteq> row then Inl ConflictingIdentifiers
      else if length (rs_columns r) > 32 then Inl TooManyColumns
      else rbind (check_columns (rs_columns r) []) (\<lambda>columns.
        case check_execution api opn of
          Some e \<Rightarrow> Inl e
        | None \<Rightarrow>
           rbind (normalize_action api opn table row columns) (\<lambda>cols.
             Inr (opn\<lparr>on_resource := r\<lparr>rs_table := table, rs_rowID := row, rs_columns := cols\<rparr>\<rparr>))))"

section \<open>Validating a request\<close>

definition check_simulation :: "simulation \<Rightarrow> request_error option" where
  "check_simulation sim =
     (case sm_attributes sim of
        None \<Rightarrow> Some InvalidSimulation
      | Some attrs \<Rightarrow>
         if \<not> validNames (sm_roles sim) \<or> \<not> validNames (sm_groups sim) \<or> length attrs > 1000 then Some InvalidSimulation
         else check_all (\<lambda>(name, v). if validString name 256 \<and> json_scalar v then None else Some InvalidSimulationAttribute) attrs)"

fun normalize_ops :: "'p authz_api \<Rightarrow> string \<Rightarrow> string \<Rightarrow> string list \<Rightarrow> operation list \<Rightarrow> request_error + operation list" where
  "normalize_ops api mode database ids [] = Inr []"
| "normalize_ops api mode database ids (opn # os) =
     (if \<not> validString (on_id opn) 128 \<or> on_id opn \<in> set ids then Inl InvalidOperationID
      else rbind (Normalize api database opn) (\<lambda>opn'.
        if mode = az_inspect api \<and> rs_rowID (on_resource opn') = [] then Inl InspectionNeedsRecord
        else rbind (normalize_ops api mode database (on_id opn # ids) os) (\<lambda>os'. Inr (opn' # os'))))"

definition check_sample :: "'p authz_api \<Rightarrow> string \<Rightarrow> (query_text \<times> int) option \<Rightarrow> operation list \<Rightarrow> request_error option" where
  "check_sample api mode sample os =
     (if mode = az_sample api then
        (case sample of
           None \<Rightarrow> Some InvalidSample
         | Some (q, lim) \<Rightarrow>
            if length os \<noteq> 1 \<or> lim < 1 \<or> lim > 100 then Some InvalidSample
            else let opn = hd os in
              if rs_rowID (on_resource opn) \<noteq> [] \<or> on_action opn \<notin> {''get'', ''exists'', ''update'', ''delete''} then Some SampleTemplate
              else Parse_query api q (rs_table (on_resource opn)))
      else if sample \<noteq> None then Some SampleNotPermitted else None)"

definition Validate_request :: "'p authz_api \<Rightarrow> string \<Rightarrow> 'p auth_request \<Rightarrow> request_error + 'p auth_request" where
  "Validate_request api database r =
     (case first_of
        [refuse (ar_apiVersion r \<noteq> az_version api) UnsupportedVersion,
         refuse (ar_mode r \<notin> {az_plan api, az_inspect api, az_sample api}) InvalidMode,
         refuse (ar_diagnosticLevel r \<notin> {''ordinary'', ''references'', ''policy''}) InvalidDiagnosticLevel,
         (case ar_subject r of None \<Rightarrow> None | Some ref \<Rightarrow> refuse (\<not> az_validRef api ref) InvalidSubject),
         (case ar_simulation r of None \<Rightarrow> None | Some sim \<Rightarrow> check_simulation sim),
         refuse (length (ar_operations r) < 1 \<or> length (ar_operations r) > 100) OperationCount] of
        Some e \<Rightarrow> Inl e
      | None \<Rightarrow>
         rbind (normalize_ops api (ar_mode r) database [] (ar_operations r)) (\<lambda>os.
           case check_sample api (ar_mode r) (ar_sample r) os of Some e \<Rightarrow> Inl e | None \<Rightarrow> Inr (r\<lparr>ar_operations := os\<rparr>)))"

definition Parse_request :: "'p authz_api \<Rightarrow> (string \<Rightarrow> json option) \<Rightarrow> (json \<Rightarrow> 'p auth_request option) \<Rightarrow> gotype \<Rightarrow> string \<Rightarrow> string \<Rightarrow>
    (decode_error + request_error) + 'p auth_request" where
  "Parse_request api parse decode request_type data database =
     (case DecodeStrict parse decode request_type data of
        Inl e \<Rightarrow> Inl (Inl e)
      | Inr r \<Rightarrow> (case Validate_request api database r of Inl e \<Rightarrow> Inl (Inr e) | Inr r' \<Rightarrow> Inr r'))"

section \<open>The structure limits\<close>

text \<open>What one pass of \<^verbatim>\<open>scan\<close> decides, computed part by part: nesting, number of values, and repeated keys.\<close>

fun nesting :: "json \<Rightarrow> nat"
  and nesting_items :: "json list \<Rightarrow> nat"
  and nesting_members :: "(string \<times> json) list \<Rightarrow> nat" where
  "nesting j = (case j of JArray xs \<Rightarrow> nesting_items xs | JObject kvs \<Rightarrow> nesting_members kvs | _ \<Rightarrow> 0)"
| "nesting_items [] = 0"
| "nesting_items (x # xs) = max (Suc (nesting x)) (nesting_items xs)"
| "nesting_members [] = 0"
| "nesting_members ((k, v) # kvs) = max (Suc (nesting v)) (nesting_members kvs)"

fun nodes_in :: "json \<Rightarrow> nat"
  and nodes_items :: "json list \<Rightarrow> nat"
  and nodes_members :: "(string \<times> json) list \<Rightarrow> nat" where
  "nodes_in j = Suc (case j of JArray xs \<Rightarrow> nodes_items xs | JObject kvs \<Rightarrow> nodes_members kvs | _ \<Rightarrow> 0)"
| "nodes_items [] = 0"
| "nodes_items (x # xs) = nodes_in x + nodes_items xs"
| "nodes_members [] = 0"
| "nodes_members ((k, v) # kvs) = nodes_in v + nodes_members kvs"

fun unrepeated :: "json \<Rightarrow> bool"
  and unrepeated_items :: "json list \<Rightarrow> bool"
  and unrepeated_members :: "(string \<times> json) list \<Rightarrow> bool" where
  "unrepeated j = (case j of JArray xs \<Rightarrow> unrepeated_items xs | JObject kvs \<Rightarrow> distinct (map fst kvs) \<and> unrepeated_members kvs | _ \<Rightarrow> True)"
| "unrepeated_items [] = True"
| "unrepeated_items (x # xs) = (unrepeated x \<and> unrepeated_items xs)"
| "unrepeated_members [] = True"
| "unrepeated_members ((k, v) # kvs) = (unrepeated v \<and> unrepeated_members kvs)"

lemmas structure_simps = scan.simps nesting.simps nodes_in.simps unrepeated.simps
declare scan.simps [simp del] nesting.simps [simp del] nodes_in.simps [simp del] unrepeated.simps [simp del]

lemma nodes_in_pos: "0 < nodes_in j"
  by (simp add: nodes_in.simps)

definition within :: "nat \<Rightarrow> nat \<Rightarrow> nat \<Rightarrow> bool" where
  "within depth deep nodes \<longleftrightarrow> depth + deep \<le> maxScanDepth \<and> nodes \<le> maxScanNodes"

lemma scan_spec:
  "scan depth j nodes =
     (if within depth (nesting j) (nodes + nodes_in j) \<and> unrepeated j then Some (nodes + nodes_in j) else None)"
  "nodes \<le> maxScanNodes \<Longrightarrow> depth \<le> maxScanDepth \<Longrightarrow>
   scan_items depth xs nodes =
     (if within depth (nesting_items xs) (nodes + nodes_items xs) \<and> unrepeated_items xs then Some (nodes + nodes_items xs) else None)"
  "nodes \<le> maxScanNodes \<Longrightarrow> depth \<le> maxScanDepth \<Longrightarrow>
   scan_members depth keys kvs nodes =
     (if within depth (nesting_members kvs) (nodes + nodes_members kvs) \<and> unrepeated_members kvs \<and> distinct (map fst kvs) \<and>
         set keys \<inter> fst ` set kvs = {} then Some (nodes + nodes_members kvs) else None)"
proof (induction depth j nodes and depth xs nodes and depth keys kvs nodes rule: scan_scan_items_scan_members.induct)
  case (1 depth j nodes)
  then show ?case by (cases j) (auto simp: structure_simps within_def split: if_splits)
next
  case (2 depth nodes)
  then show ?case by (simp add: within_def)
next
  case (3 depth x xs nodes)
  then show ?case by (auto simp: within_def split: if_splits)
next
  case (4 depth keys nodes)
  then show ?case by (simp add: within_def)
next
  case (5 depth keys k v kvs nodes)
  then show ?case by (auto simp: within_def split: if_splits)
qed

section \<open>Changed paths\<close>

lemma validSegment_no_nul: "validSegment p \<Longrightarrow> char_of (0 :: nat) \<notin> set p"
proof
  assume v: "validSegment p" and "char_of (0 :: nat) \<in> set p"
  then have "\<exists>c \<in> set p. byte c = 0" by (intro bexI [of _ "char_of (0 :: nat)"]) simp_all
  then have "\<exists>(r, bs) \<in> set (runes p). r = 0" using runes_bytes_exists [of "\<lambda>n. n = 0" p] by simp
  with v show False by (auto simp: validSegment_def validString_def list_ex_iff is_control_def)
qed

lemma split_on_join:
  assumes "ps \<noteq> []" and "\<forall>p \<in> set ps. c \<notin> set p"
  shows "split_on c (join_with [c] ps) = ps" "split_on c (join_with [c] ps @ c # s) = ps @ split_on c s"
  using assms by (induction ps rule: induct_list012) (simp_all add: split_on_no_sep split_on_sep)

definition valid_paths :: "string list \<Rightarrow> bool" where
  "valid_paths p \<longleftrightarrow> p \<noteq> [] \<and> (\<forall>s \<in> set p. char_of (0 :: nat) \<notin> set s)"

lemma validField_paths: "validField p \<Longrightarrow> valid_paths p"
  using validSegment_no_nul by (auto simp: validField_def valid_paths_def list_all_iff)

lemma fieldKey_eq: "valid_paths p \<Longrightarrow> valid_paths q \<Longrightarrow> fieldKey p = fieldKey q \<longleftrightarrow> p = q"
  using split_on_join(1) [of p "char_of (0 :: nat)"] split_on_join(1) [of q "char_of (0 :: nat)"]
  unfolding fieldKey_def nul_def valid_paths_def by metis

lemma fieldKey_below:
  assumes "valid_paths p" and "valid_paths q"
  shows "has_prefix (fieldKey q) (fieldKey p @ nul) \<longleftrightarrow> strict_prefix p q"
proof
  assume "has_prefix (fieldKey q) (fieldKey p @ nul)"
  then obtain t where t: "fieldKey q = fieldKey p @ char_of (0 :: nat) # t"
    unfolding has_prefix_def nul_def by (metis append.assoc append_Cons append_Nil append_take_drop_id)
  have "q = split_on (char_of (0 :: nat)) (fieldKey q)"
    using split_on_join(1) assms(2) by (simp add: fieldKey_def nul_def valid_paths_def)
  also have "\<dots> = p @ split_on (char_of (0 :: nat)) t"
    using split_on_join(2) [of p "char_of (0 :: nat)" t] assms(1) unfolding t by (simp add: fieldKey_def nul_def valid_paths_def)
  finally show "strict_prefix p q" by (metis prefix_def prefix_order.less_le append_self_conv split_on_not_Nil)
next
  assume "strict_prefix p q"
  then obtain r where "q = p @ r" "r \<noteq> []" by (auto simp: strict_prefix_def prefix_def)
  then show "has_prefix (fieldKey q) (fieldKey p @ nul)"
    using assms(1) join_with_append [of p r nul] by (simp add: fieldKey_def has_prefix_def valid_paths_def)
qed

definition change_ok :: "change \<Rightarrow> bool" where
  "change_ok c \<longleftrightarrow> ch_op c = ''set'' \<and> validField (ch_path c) \<and> ch_value c \<noteq> []"

lemma keys_independent:
  assumes "valid_paths p" and "valid_paths q"
  shows "fieldKey q \<noteq> fieldKey p \<and> \<not> overlaps (fieldKey p) (fieldKey q) \<longleftrightarrow> p \<parallel> q"
  using assms by (auto simp: overlaps_def fieldKey_eq fieldKey_below parallel_def strict_prefix_def)

lemma check_changes_iff:
  assumes "\<forall>p \<in> set ps. valid_paths p"
  shows "check_changes cs (map fieldKey ps) = Inr ks \<longleftrightarrow>
    ks = rev (map (fieldKey \<circ> ch_path) cs) @ map fieldKey ps \<and> (\<forall>c \<in> set cs. change_ok c) \<and> sorted_wrt (\<parallel>) (map ch_path cs) \<and>
    (\<forall>c \<in> set cs. \<forall>p \<in> set ps. p \<parallel> ch_path c)"
  using assms
proof (induction cs arbitrary: ps)
  case (Cons c cs)
  show ?case
  proof (cases "change_ok c")
    case True
    then have v: "valid_paths (ch_path c)" by (simp add: change_ok_def validField_paths)
    have ind: "fieldKey (ch_path c) \<notin> set (map fieldKey ps) \<and> \<not> list_ex (\<lambda>prior. overlaps prior (fieldKey (ch_path c))) (map fieldKey ps) \<longleftrightarrow>
        (\<forall>p \<in> set ps. p \<parallel> ch_path c)"
      using keys_independent [OF _ v] Cons.prems by (auto simp: list_ex_iff)
    show ?thesis
    proof (cases "\<forall>p \<in> set ps. p \<parallel> ch_path c")
      case indep: True
      then have "check_changes (c # cs) (map fieldKey ps) = check_changes cs (map fieldKey (ch_path c # ps))"
        using ind True by (auto simp: change_ok_def)
      then show ?thesis using Cons.IH [of "ch_path c # ps"] Cons.prems v True indep by auto
    next
      case False
      then have "\<forall>ks. check_changes (c # cs) (map fieldKey ps) \<noteq> Inr ks" using ind by auto
      with False show ?thesis by auto
    qed
  next
    case False
    then show ?thesis by (auto simp: change_ok_def)
  qed
qed auto

lemmas check_changes_Nil = check_changes_iff [of "[]", simplified]

lemma check_columns_iff:
  "check_columns fs keys = Inr ks \<longleftrightarrow> ks = rev (map fieldKey fs) @ keys \<and> (\<forall>f \<in> set fs. validField f) \<and> distinct (map fieldKey fs) \<and>
    fieldKey ` set fs \<inter> set keys = {}"
  by (induction fs arbitrary: keys) auto

lemma parallel_distinct: "sorted_wrt (\<parallel>) ps \<Longrightarrow> distinct ps"
  by (induction ps) (auto simp: parallel_def)

lemma normalize_update_Inr:
  assumes "normalize_update m columns = Inr cols"
  shows "\<exists>cs. mu_changes m = Some cs \<and> cols = map ch_path cs \<and> cs \<noteq> [] \<and> length cs \<le> 32 \<and> (\<forall>c \<in> set cs. change_ok c) \<and>
    sorted_wrt (\<parallel>) (map ch_path cs) \<and> normalize_update m (rev (map fieldKey cols)) = Inr cols"
proof -
  from assms obtain cs where cs: "mu_changes m = Some cs" "cs \<noteq> []" "length cs \<le> 32" "mu_data m = None" "cols = map ch_path cs"
    and keys: "check_changes cs [] = Inr (rev (map (fieldKey \<circ> ch_path) cs))" "\<forall>c \<in> set cs. change_ok c" "sorted_wrt (\<parallel>) (map ch_path cs)"
    by (cases "mu_changes m") (auto simp: normalize_update_def Let_def check_changes_Nil split: if_splits sum.splits)
  then show ?thesis by (auto simp: normalize_update_def Let_def list_all_iff)
qed

lemma normalize_action_frame:
  "rs_columns r = rs_columns (on_resource opn) \<Longrightarrow>
   normalize_action api (opn\<lparr>on_resource := r\<rparr>) table row columns = normalize_action api opn table row columns"
  unfolding normalize_action_def Let_def by (simp cong: if_cong option.case_cong)

text \<open>The columns an accepted operation ends with pass the same checks again.\<close>

lemma normalize_action_again:
  assumes "normalize_action api opn table row columns = Inr cols" and "check_columns (rs_columns (on_resource opn)) [] = Inr columns"
    and "length (rs_columns (on_resource opn)) \<le> 32"
  shows "\<exists>columns'. check_columns cols [] = Inr columns' \<and> length cols \<le> 32 \<and>
    normalize_action api (opn\<lparr>on_resource := (on_resource opn)\<lparr>rs_table := t, rs_rowID := w, rs_columns := cols\<rparr>\<rparr>) table row columns' = Inr cols"
proof (cases "on_action opn = ''update''")
  case True
  with assms(1) obtain m where m: "on_mutation opn = Some m" "normalize_update m columns = Inr cols"
    by (auto simp: normalize_action_def Let_def split: option.splits if_splits)
  from normalize_update_Inr [OF m(2)] obtain cs where cs: "cols = map ch_path cs" "length cs \<le> 32" "\<forall>c \<in> set cs. change_ok c"
    "sorted_wrt (\<parallel>) (map ch_path cs)" "normalize_update m (rev (map fieldKey cols)) = Inr cols" by blast
  have "distinct (map fieldKey cols)"
    using parallel_distinct [OF cs(4)] cs(3) by (auto simp: cs(1) distinct_map inj_on_def change_ok_def fieldKey_eq validField_paths)
  then have "check_columns cols [] = Inr (rev (map fieldKey cols))" using cs(1,3) by (auto simp: check_columns_iff change_ok_def)
  moreover have "normalize_action api (opn\<lparr>on_resource := (on_resource opn)\<lparr>rs_table := t, rs_rowID := w, rs_columns := cols\<rparr>\<rparr>) table row
      (rev (map fieldKey cols)) = Inr cols"
    using assms(1) True m cs(5) by (auto simp: normalize_action_def Let_def split: if_splits)
  ultimately show ?thesis using cs(1,2) by auto
next
  case False
  with assms(1) have "cols = rs_columns (on_resource opn)"
    by (auto simp: normalize_action_def Let_def split: option.splits if_splits)
  with assms show ?thesis
    by (intro exI [of _ columns]) (simp add: normalize_action_frame)
qed

lemma Normalize_Inr:
  "Normalize api database opn = Inr opn' \<longleftrightarrow>
    (let r = on_resource opn; parts = path_parts (rs_path r); table = hd parts; row = (if length parts = 2 then parts ! 1 else []) in
     validString database 256 \<and> rs_databaseID r = database \<and> validString (rs_path r) 4096 \<and> has_prefix (rs_path r) ''/'' \<and>
     parts \<noteq> [] \<and> length parts \<le> 2 \<and> list_all validSegment parts \<and> (rs_table r = [] \<or> rs_table r = table) \<and>
     (rs_rowID r = [] \<or> rs_rowID r = row) \<and> length (rs_columns r) \<le> 32 \<and> check_execution api opn = None \<and>
     (\<exists>columns cols. check_columns (rs_columns r) [] = Inr columns \<and> normalize_action api opn table row columns = Inr cols \<and>
        opn' = opn\<lparr>on_resource := r\<lparr>rs_table := table, rs_rowID := row, rs_columns := cols\<rparr>\<rparr>))"
  unfolding Normalize_def Let_def
  by (auto split: option.splits)

lemma path_of_parts:
  assumes "has_prefix path ''/''"
  shows "path = ''/'' @ join_with ''/'' (path_parts path)"
proof -
  have "path = CHR ''/'' # drop 1 path" using assms by (cases path) (auto simp: has_prefix_def)
  then show ?thesis using assms join_split_on [of "CHR ''/''" "drop 1 path"] by (simp add: path_parts_def)
qed

lemma two_parts:
  assumes "parts \<noteq> []" and "length parts \<le> 2"
  shows "(\<exists>a. parts = [a]) \<or> (\<exists>a b. parts = [a, b])"
  using assms by (cases parts; cases "tl parts") auto

lemma check_execution_frame: "check_execution api (opn\<lparr>on_resource := r\<rparr>) = check_execution api opn"
  unfolding check_execution_def by (simp cong: if_cong option.case_cong)

text \<open>Strings of printable ASCII are valid.\<close>

lemma validString_ascii:
  assumes "s \<noteq> []" and "length s \<le> n" and "\<forall>c \<in> set s. 0x20 < byte c \<and> byte c < 0x7F"
  shows "validString s n"
proof -
  have ascii: "is_ascii s" using assms(3) by (auto simp: is_ascii_def)
  have "\<not> is_space (byte c)" if "c \<in> set s" for c
    using assms(3) that by (force simp: is_space_def)
  then have "\<not> is_space (byte (hd s))" "\<not> is_space (byte (last s))"
    using assms(1) by simp_all
  then have "trim_space s = s" using ascii assms(1) by (intro trim_space_id)
  moreover have "\<not> list_ex (\<lambda>(r, _). is_control r) (runes s)"
    using assms(3) by (force simp: runes_ascii [OF ascii] list_ex_iff is_control_def)
  ultimately show ?thesis using assms(1,2) valid_utf8_ascii [OF ascii] by (simp add: validString_def)
qed

lemma normalize_again:
  assumes "Normalize api database opn = Inr opn'"
  shows "Normalize api database opn' = Inr opn'"
proof -
  let ?r = "on_resource opn" and ?parts = "path_parts (rs_path (on_resource opn))"
  let ?row = "if length ?parts = 2 then ?parts ! 1 else []"
  obtain columns cols where n: "validString database 256" "rs_databaseID ?r = database" "validString (rs_path ?r) 4096"
      "has_prefix (rs_path ?r) ''/''" "?parts \<noteq> []" "length ?parts \<le> 2" "list_all validSegment ?parts" "length (rs_columns ?r) \<le> 32"
      "check_execution api opn = None" "check_columns (rs_columns ?r) [] = Inr columns"
    and act: "normalize_action api opn (hd ?parts) ?row columns = Inr cols"
    and opn': "opn' = opn\<lparr>on_resource := ?r\<lparr>rs_table := hd ?parts, rs_rowID := ?row, rs_columns := cols\<rparr>\<rparr>"
    using assms unfolding Normalize_Inr Let_def by blast
  obtain columns' where again: "check_columns cols [] = Inr columns'" "length cols \<le> 32"
    "normalize_action api opn' (hd ?parts) ?row columns' = Inr cols"
    using normalize_action_again [OF act n(10,8)] unfolding opn' by blast
  have "check_execution api opn' = None" using n(9) by (simp add: opn' check_execution_frame)
  with n again show ?thesis unfolding Normalize_Inr Let_def by (auto simp: opn')
qed

lemma normalize_ops_Inr:
  assumes "normalize_ops api mode database ids os = Inr os'"
  shows "map on_id os' = map on_id os \<and> distinct (map on_id os) \<and> on_id ` set os \<inter> set ids = {} \<and>
    list_all2 (\<lambda>opn opn'. Normalize api database opn = Inr opn') os os' \<and>
    (mode = az_inspect api \<longrightarrow> (\<forall>opn \<in> set os'. rs_rowID (on_resource opn) \<noteq> []))"
  using assms
proof (induction os arbitrary: ids os')
  case (Cons opn os)
  then obtain opn' os'' where n: "on_id opn \<notin> set ids" "Normalize api database opn = Inr opn'" "os' = opn' # os''"
    "mode = az_inspect api \<longrightarrow> rs_rowID (on_resource opn') \<noteq> []" "normalize_ops api mode database (on_id opn # ids) os = Inr os''"
    by (auto split: if_splits)
  have "on_id opn' = on_id opn" using n(2) unfolding Normalize_Inr Let_def by auto
  with n Cons.IH [OF n(5)] show ?case by auto
qed simp

section \<open>Properties\<close>

text \<open>
  One pass of the structure check decides exactly this: a document is scanned to its end if and only if
  no value is nested deeper than 32 levels, it has at most 16384 values, and no object repeats a key.
\<close>

theorem scan_accepts_iff:
  "scan 0 j 0 = Some n \<longleftrightarrow> nesting j \<le> 32 \<and> nodes_in j \<le> 16384 \<and> unrepeated j \<and> n = nodes_in j"
  by (auto simp: scan_spec(1) within_def maxScanDepth_def maxScanNodes_def)

text \<open>
  C37. An accepted operation is addressed unambiguously: its path is exactly the slash, the table and, for a
  record, the slash and the row, each a valid segment; its database is the one of the request; and the
  changes of an update have paths none of which is the same as, above or below another, in any order,
  and these paths are the columns that are authorised.
\<close>

theorem normalized_operation_is_unambiguous:
  assumes "Normalize api database opn = Inr opn'"
  shows "rs_databaseID (on_resource opn') = database \<and> validSegment (rs_table (on_resource opn')) \<and>
    (rs_rowID (on_resource opn') = [] \<or> validSegment (rs_rowID (on_resource opn'))) \<and>
    rs_path (on_resource opn') = ''/'' @ rs_table (on_resource opn') @
      (if rs_rowID (on_resource opn') = [] then [] else ''/'' @ rs_rowID (on_resource opn')) \<and>
    (on_action opn' = ''update'' \<longrightarrow> (\<exists>m cs. on_mutation opn' = Some m \<and> mu_changes m = Some cs \<and> cs \<noteq> [] \<and>
       rs_columns (on_resource opn') = map ch_path cs \<and> sorted_wrt (\<parallel>) (map ch_path cs) \<and> (\<forall>c \<in> set cs. validField (ch_path c))))"
proof -
  let ?r = "on_resource opn" and ?parts = "path_parts (rs_path (on_resource opn))"
  define table row where tr: "table = hd ?parts" "row = (if length ?parts = 2 then ?parts ! 1 else [])"
  obtain columns cols where n: "rs_databaseID ?r = database" "has_prefix (rs_path ?r) ''/''" "?parts \<noteq> []" "length ?parts \<le> 2"
      "list_all validSegment ?parts"
    and act: "normalize_action api opn table row columns = Inr cols"
    and opn': "opn' = opn\<lparr>on_resource := ?r\<lparr>rs_table := table, rs_rowID := row, rs_columns := cols\<rparr>\<rparr>"
    using assms unfolding Normalize_Inr Let_def tr by blast
  have "validSegment [] = False" by (simp add: validSegment_def validString_def)
  then have path: "validSegment table" "row = [] \<or> validSegment row" "rs_path ?r = ''/'' @ table @ (if row = [] then [] else ''/'' @ row)"
    using two_parts [OF n(3,4)] n(5) path_of_parts [OF n(2)] unfolding tr by (elim disjE exE; auto)+
  have "\<exists>m cs. on_mutation opn = Some m \<and> mu_changes m = Some cs \<and> cs \<noteq> [] \<and> cols = map ch_path cs \<and>
      sorted_wrt (\<parallel>) (map ch_path cs) \<and> (\<forall>c \<in> set cs. validField (ch_path c))" if "on_action opn = ''update''"
  proof -
    from act that obtain m where "on_mutation opn = Some m" "normalize_update m columns = Inr cols"
      by (auto simp: normalize_action_def Let_def split: option.splits if_splits)
    then show ?thesis using normalize_update_Inr [of m columns cols] by (auto simp: change_ok_def)
  qed
  with n(1) path show ?thesis by (simp add: opn')
qed

text \<open>
  Normalising is idempotent, so that the diagnostic and the execution ingress, which share it, see the
  same operation whether or not it has been normalised before.
\<close>

theorem normalize_idempotent:
  assumes "Normalize api database opn = Inr opn'"
  shows "Normalize api database opn' = Inr opn'"
  using assms by (rule normalize_again)

text \<open>
  A validated request carries between one and a hundred operations with distinct ids, each of them in
  normal form; one that inspects names a record in every operation; and it has a sample exactly in
  sample mode, with a single operation on a table.
\<close>

theorem validated_request_is_normal:
  assumes "Validate_request api database r = Inr r'"
  shows "1 \<le> length (ar_operations r') \<and> length (ar_operations r') \<le> 100 \<and> distinct (map on_id (ar_operations r')) \<and>
    (\<forall>opn \<in> set (ar_operations r'). Normalize api database opn = Inr opn) \<and>
    (ar_mode r' = az_inspect api \<longrightarrow> (\<forall>opn \<in> set (ar_operations r'). rs_rowID (on_resource opn) \<noteq> [])) \<and>
    (ar_sample r' \<noteq> None \<longleftrightarrow> ar_mode r' = az_sample api) \<and>
    (ar_mode r' = az_sample api \<longrightarrow> length (ar_operations r') = 1 \<and> rs_rowID (on_resource (hd (ar_operations r'))) = [])"
proof -
  have count: "1 \<le> length (ar_operations r) \<and> length (ar_operations r) \<le> 100"
    using assms by (cases "length (ar_operations r) < 1 \<or> length (ar_operations r) > 100")
      (auto simp: Validate_request_def refuse_def first_of_def Suc_le_eq split: option.splits)
  obtain os where os: "normalize_ops api (ar_mode r) database [] (ar_operations r) = Inr os" "r' = r\<lparr>ar_operations := os\<rparr>"
    and sample: "check_sample api (ar_mode r) (ar_sample r) os = None"
    using assms unfolding Validate_request_def by (auto split: option.splits)
  note n = normalize_ops_Inr [OF os(1)]
  have len: "length os = length (ar_operations r)" using arg_cong [OF conjunct1 [OF n], of length] by simp
  have "Normalize api database opn = Inr opn" if "opn \<in> set os" for opn
  proof -
    have "list_all2 (\<lambda>opn opn'. Normalize api database opn = Inr opn') (ar_operations r) os" using n by blast
    with that obtain opn0 where "Normalize api database opn0 = Inr opn"
      unfolding list_all2_conv_all_nth in_set_conv_nth by auto
    then show ?thesis by (rule normalize_again)
  qed
  moreover have "(ar_sample r \<noteq> None \<longleftrightarrow> ar_mode r = az_sample api) \<and>
      (ar_mode r = az_sample api \<longrightarrow> length os = 1 \<and> rs_rowID (on_resource (hd os)) = [])"
    using sample by (auto simp: check_sample_def Let_def split: if_splits option.splits)
  moreover have "distinct (map on_id os)" "ar_mode r = az_inspect api \<longrightarrow> (\<forall>opn \<in> set os. rs_rowID (on_resource opn) \<noteq> [])"
    using conjunct1 [OF n] n by presburger+
  ultimately show ?thesis using len count os(2) by simp
qed

text \<open>A request that updates two fields of a record.\<close>

definition demo_api :: "unit authz_api" where
  "demo_api = \<lparr> az_version = ''v1'', az_plan = ''plan'', az_inspect = ''inspect'', az_sample = ''sample'', az_nativeSQL = ''native_sql'',
     az_nativeGraphQL = ''native_graphql'', az_storedProcedure = ''stored_procedure'', az_validRef = (\<lambda>_. True), az_tugql = (\<lambda>_. None) \<rparr>"

definition demo_change :: "string list \<Rightarrow> change" where
  "demo_change path = \<lparr> ch_op = ''set'', ch_path = path, ch_value = ''1'' \<rparr>"

definition demo_mutation :: mutation where
  "demo_mutation = \<lparr> mu_data = None, mu_changes = Some [demo_change [''a''], demo_change [''b'', ''c'']], mu_ifDataRevision = [] \<rparr>"

definition demo_operation :: "string \<Rightarrow> string \<Rightarrow> string list list \<Rightarrow> operation" where
  "demo_operation table row columns =
     \<lparr> on_id = ''o1'', on_action = ''update'',
       on_resource = \<lparr> rs_databaseID = ''d'', rs_path = ''/t/r'', rs_table = table, rs_rowID = row, rs_columns = columns \<rparr>,
       on_query = None, on_mutation = Some demo_mutation, on_executionClass = ''tugql'', on_callable = None \<rparr>"

definition demo_auth_request :: "operation \<Rightarrow> unit auth_request" where
  "demo_auth_request opn =
     \<lparr> ar_apiVersion = ''v1'', ar_mode = ''inspect'', ar_diagnosticLevel = ''policy'', ar_subject = None, ar_simulation = None,
       ar_operations = [opn], ar_sample = None \<rparr>"

lemma demo_strings:
  "validString ''d'' 256" "validString ''/t/r'' 4096" "validString ''o1'' 128" "validSegment ''t''" "validSegment ''r''" "validField [''a'']"
  "validField [''b'', ''c'']"
  by (simp_all add: validField_def validSegment_def validString_ascii)

lemma demo_parts: "path_parts ''/t/r'' = [''t'', ''r'']"
  by (simp add: path_parts_def has_prefix_def)

lemma demo_update: "normalize_update demo_mutation [] = Inr [[''a''], [''b'', ''c'']]"
proof -
  have "check_changes [demo_change [''a''], demo_change [''b'', ''c'']] [] = Inr (rev (map (fieldKey \<circ> ch_path)
      [demo_change [''a''], demo_change [''b'', ''c'']]))"
    unfolding check_changes_Nil by (simp add: demo_change_def change_ok_def demo_strings parallel_def)
  then show ?thesis by (simp add: normalize_update_def demo_mutation_def) (simp add: demo_change_def)
qed

lemma demo_normalize:
  "Normalize demo_api ''d'' (demo_operation [] [] []) = Inr (demo_operation ''t'' ''r'' [[''a''], [''b'', ''c'']])"
proof -
  have "normalize_action demo_api (demo_operation [] [] []) ''t'' ''r'' [] = Inr [[''a''], [''b'', ''c'']]"
    by (simp add: normalize_action_def demo_operation_def demo_update Let_def) (simp add: demo_mutation_def)
  moreover have "check_execution demo_api (demo_operation [] [] []) = None"
    by (simp add: check_execution_def demo_operation_def ExecutionTugQL_def)
  ultimately show ?thesis
    unfolding Normalize_Inr Let_def by (simp add: demo_operation_def demo_parts demo_strings has_prefix_def)
qed

theorem normalized_operation_is_unambiguous_witness:
  "rs_path (on_resource (demo_operation ''t'' ''r'' [[''a''], [''b'', ''c'']])) = ''/'' @ ''t'' @ ''/'' @ ''r'' \<and>
   (\<exists>m cs. on_mutation (demo_operation ''t'' ''r'' [[''a''], [''b'', ''c'']]) = Some m \<and> mu_changes m = Some cs \<and>
      sorted_wrt (\<parallel>) (map ch_path cs))"
  using normalized_operation_is_unambiguous [OF demo_normalize] by (auto simp: demo_operation_def)

theorem normalize_idempotent_witness:
  "Normalize demo_api ''d'' (demo_operation ''t'' ''r'' [[''a''], [''b'', ''c'']]) = Inr (demo_operation ''t'' ''r'' [[''a''], [''b'', ''c'']])"
  by (rule normalize_idempotent [OF demo_normalize])

lemma demo_validate:
  "Validate_request demo_api ''d'' (demo_auth_request (demo_operation [] [] [])) =
     Inr (demo_auth_request (demo_operation ''t'' ''r'' [[''a''], [''b'', ''c'']]))"
proof -
  have "on_id (demo_operation [] [] []) = ''o1''" "rs_rowID (on_resource (demo_operation ''t'' ''r'' [[''a''], [''b'', ''c'']])) = ''r''"
    by (simp_all add: demo_operation_def)
  then have "normalize_ops demo_api ''inspect'' ''d'' [] [demo_operation [] [] []] = Inr [demo_operation ''t'' ''r'' [[''a''], [''b'', ''c'']]]"
    by (simp add: demo_strings demo_normalize)
  then show ?thesis
    by (simp add: Validate_request_def demo_auth_request_def first_of_def refuse_def check_sample_def) (simp add: demo_api_def)
qed

theorem validated_request_is_normal_witness:
  "distinct (map on_id (ar_operations (demo_auth_request (demo_operation ''t'' ''r'' [[''a''], [''b'', ''c'']])))) \<and>
   list_all (\<lambda>opn. Normalize demo_api ''d'' opn = Inr opn) (ar_operations (demo_auth_request (demo_operation ''t'' ''r'' [[''a''], [''b'', ''c'']])))"
  using validated_request_is_normal [OF demo_validate] by (simp add: list_all_iff)

end
