(* ===== verification/Canonical.thy ===== *)
theory Canonical
  imports Json_Doc Go_Values "HOL-Library.List_Lexorder" "HOL-Library.Sublist"
begin

text \<open>
  \<^verbatim>\<open>src/pkg/providerreads/canonical.go\<close>: canonical JSON after RFC 8785, the digest of it, and equality of
  values as equality of their canonical bytes.

  A value is the document \<^verbatim>\<open>json.Marshal\<close> makes of it. Of the standard library, \<^verbatim>\<open>strconv.ParseFloat\<close> and
  \<^verbatim>\<open>strconv.FormatFloat\<close> are parameters (\<open>std_floats\<close>), and SHA-256 is one.
\<close>

section \<open>Strings\<close>

definition quote :: char where "quote = CHR 0x22"
definition backslash :: char where "backslash = CHR 0x5C"

text \<open>One rune of a string; \<open>bs\<close> are the bytes it was decoded from.\<close>

definition escape_rune :: "nat \<Rightarrow> string \<Rightarrow> string" where
  "escape_rune r bs =
     (if r = 0x22 then [backslash, quote]
      else if r = 0x5C then [backslash, backslash]
      else if r = 0x08 then [backslash, CHR ''b'']
      else if r = 0x0C then [backslash, CHR ''f'']
      else if r = 0x0A then [backslash, CHR ''n'']
      else if r = 0x0D then [backslash, CHR ''r'']
      else if r = 0x09 then [backslash, CHR ''t'']
      else if r < 0x20 then [backslash, CHR ''u'', CHR ''0'', CHR ''0'', hex_digit (r div 16), hex_digit (r mod 16)]
      else if r = rune_error \<and> length bs = 1 then [CHR 0xEF, CHR 0xBF, CHR 0xBD]
      else bs)"

definition canonical_string :: "string \<Rightarrow> string" where
  "canonical_string s = [quote] @ concat (map (\<lambda>(r, bs). escape_rune r bs) (runes s)) @ [quote]"

text \<open>\<^verbatim>\<open>utf16.Encode\<close> of the runes, the order of the keys.\<close>

definition utf16_rune :: "nat \<Rightarrow> nat list" where
  "utf16_rune r = (if r < 0x10000 then [r] else [0xD800 + (r - 0x10000) div 1024, 0xDC00 + (r - 0x10000) mod 1024])"

definition utf16_key :: "string \<Rightarrow> nat list" where
  "utf16_key s = concat (map (utf16_rune \<circ> fst) (runes s))"

section \<open>Numbers\<close>

record std_floats =
  sf_parse :: "string \<Rightarrow> float64 option"
  sf_format :: "char \<Rightarrow> float64 \<Rightarrow> string"

definition es_exponent :: "string \<Rightarrow> string" where
  "es_exponent s =
     (let parts = split_on CHR ''e'' s;
          e = (case parse_int64 (parts ! 1) of Some n \<Rightarrow> n | None \<Rightarrow> 0)
      in parts ! 0 @ ''e'' @ (if e \<ge> 0 then ''+'' else []) @ format_int e)"

definition canonical_number :: "std_floats \<Rightarrow> string \<Rightarrow> string option" where
  "canonical_number std n =
     (case sf_parse std n of
        Some (Fin f) \<Rightarrow>
          if f = 0 then Some ''0''
          else if 1 / 1000000 \<le> \<bar>f\<bar> \<and> \<bar>f\<bar> < 10 ^ 21 then Some (sf_format std CHR ''f'' (Fin f))
          else Some (es_exponent (sf_format std CHR ''e'' (Fin f)))
      | _ \<Rightarrow> None)"

section \<open>Documents\<close>

fun canonical :: "std_floats \<Rightarrow> json \<Rightarrow> string option" where
  "canonical std JNull = Some ''null''"
| "canonical std (JBool b) = Some (if b then ''true'' else ''false'')"
| "canonical std (JString s) = Some (canonical_string s)"
| "canonical std (JNumber n) = canonical_number std n"
| "canonical std (JArray xs) = map_option (\<lambda>ss. ''['' @ join_with '','' ss @ '']'') (those (map (canonical std) xs))"
| "canonical std (JObject kvs) =
     map_option (\<lambda>ms. ''{'' @ join_with '','' (map (\<lambda>(k, s). canonical_string k @ '':'' @ s) (sort_key (utf16_key \<circ> fst) ms)) @ ''}'')
       (those (map (\<lambda>(k, v). map_option (Pair k) (canonical std v)) kvs))"

text \<open>\<^verbatim>\<open>Canonical\<close> of the value with document \<open>j\<close>, its digest, and \<^verbatim>\<open>equal\<close>.\<close>

definition Canonical :: "std_floats \<Rightarrow> json \<Rightarrow> string option" where
  "Canonical std j = (if strings_valid j then canonical std j else None)"

definition Digest :: "std_floats \<Rightarrow> (string \<Rightarrow> string) \<Rightarrow> json \<Rightarrow> string option" where
  "Digest std sha j = map_option (hex_encode \<circ> sha) (Canonical std j)"

definition canonical_equal :: "std_floats \<Rightarrow> json \<Rightarrow> json \<Rightarrow> bool" where
  "canonical_equal std a b \<longleftrightarrow> Canonical std a \<noteq> None \<and> Canonical std a = Canonical std b"

section \<open>Escaped strings are a prefix code\<close>

definition special_byte :: "char \<Rightarrow> bool" where
  "special_byte c \<longleftrightarrow> byte c < 0x20 \<or> byte c = 0x22 \<or> byte c = 0x5C"

definition escape_byte :: "char \<Rightarrow> string" where
  "escape_byte c = escape_rune (byte c) [c]"

lemma rune_error_high: "\<not> rune_error < 0x80" "rune_error \<noteq> n" if "n < 0x80"
  using that by (auto simp: rune_error_def)

lemma escape_high: "0x80 \<le> r \<Longrightarrow> \<not> (r = rune_error \<and> length bs = 1) \<Longrightarrow> escape_rune r bs = bs"
  by (auto simp: escape_rune_def)

lemma escape_byte_high: "0x80 \<le> byte c \<Longrightarrow> escape_byte c = [c]"
  by (auto simp: escape_byte_def escape_rune_def rune_error_def dest: le_trans)
    (use byte_less [of c] in simp)+

lemma concat_map_snd: "concat (map (\<lambda>(r, bs). concat (map f bs)) xs) = concat (map f (concat (map snd xs)))"
  by (induction xs) auto

lemma escape_runes_bytes: "valid_utf8 s \<Longrightarrow> concat (map (\<lambda>(r, bs). escape_rune r bs) (runes s)) = concat (map escape_byte s)"
proof -
  assume v: "valid_utf8 s"
  have "escape_rune r bs = concat (map escape_byte bs)" if m: "(r, bs) \<in> set (runes s)" for r bs
  proof -
    consider (one) c where "bs = [c]" "byte c = r" | (high) "0x80 \<le> r" "\<forall>c \<in> set bs. 0x80 \<le> byte c"
      using runes_ascii_or_high [OF m] by blast
    then show ?thesis
    proof cases
      case one
      then show ?thesis by (simp add: escape_byte_def)
    next
      case high
      have "concat (map escape_byte bs) = concat (map (\<lambda>c. [c]) bs)" using high(2) escape_byte_high by (intro arg_cong [where f = concat] map_cong) auto
      then show ?thesis using high(1) v m by (subst escape_high) (auto simp: valid_utf8_def)
    qed
  qed
  then have "concat (map (\<lambda>(r, bs). escape_rune r bs) (runes s)) = concat (map (\<lambda>(r, bs). concat (map escape_byte bs)) (runes s))"
    by (intro arg_cong [where f = concat] map_cong) auto
  also have "\<dots> = concat (map escape_byte (concat (map snd (runes s))))"
    by (rule concat_map_snd)
  finally show ?thesis by (simp add: concat_runes)
qed

lemma escape_byte_plain: "\<not> special_byte c \<Longrightarrow> escape_byte c = [c]"
  using byte_less [of c] by (auto simp: special_byte_def escape_byte_def escape_rune_def rune_error_def simp del: byte_less)

definition special_chars :: "(char \<times> string) list" where
  "special_chars =
    [(CHR 0x00, [CHR 0x5C, CHR 0x75, CHR 0x30, CHR 0x30, CHR 0x30, CHR 0x30]),
     (CHR 0x01, [CHR 0x5C, CHR 0x75, CHR 0x30, CHR 0x30, CHR 0x30, CHR 0x31]),
     (CHR 0x02, [CHR 0x5C, CHR 0x75, CHR 0x30, CHR 0x30, CHR 0x30, CHR 0x32]),
     (CHR 0x03, [CHR 0x5C, CHR 0x75, CHR 0x30, CHR 0x30, CHR 0x30, CHR 0x33]),
     (CHR 0x04, [CHR 0x5C, CHR 0x75, CHR 0x30, CHR 0x30, CHR 0x30, CHR 0x34]),
     (CHR 0x05, [CHR 0x5C, CHR 0x75, CHR 0x30, CHR 0x30, CHR 0x30, CHR 0x35]),
     (CHR 0x06, [CHR 0x5C, CHR 0x75, CHR 0x30, CHR 0x30, CHR 0x30, CHR 0x36]),
     (CHR 0x07, [CHR 0x5C, CHR 0x75, CHR 0x30, CHR 0x30, CHR 0x30, CHR 0x37]),
     (CHR 0x08, [CHR 0x5C, CHR 0x62]),
     (CHR 0x09, [CHR 0x5C, CHR 0x74]),
     (CHR 0x0A, [CHR 0x5C, CHR 0x6E]),
     (CHR 0x0B, [CHR 0x5C, CHR 0x75, CHR 0x30, CHR 0x30, CHR 0x30, CHR 0x62]),
     (CHR 0x0C, [CHR 0x5C, CHR 0x66]),
     (CHR 0x0D, [CHR 0x5C, CHR 0x72]),
     (CHR 0x0E, [CHR 0x5C, CHR 0x75, CHR 0x30, CHR 0x30, CHR 0x30, CHR 0x65]),
     (CHR 0x0F, [CHR 0x5C, CHR 0x75, CHR 0x30, CHR 0x30, CHR 0x30, CHR 0x66]),
     (CHR 0x10, [CHR 0x5C, CHR 0x75, CHR 0x30, CHR 0x30, CHR 0x31, CHR 0x30]),
     (CHR 0x11, [CHR 0x5C, CHR 0x75, CHR 0x30, CHR 0x30, CHR 0x31, CHR 0x31]),
     (CHR 0x12, [CHR 0x5C, CHR 0x75, CHR 0x30, CHR 0x30, CHR 0x31, CHR 0x32]),
     (CHR 0x13, [CHR 0x5C, CHR 0x75, CHR 0x30, CHR 0x30, CHR 0x31, CHR 0x33]),
     (CHR 0x14, [CHR 0x5C, CHR 0x75, CHR 0x30, CHR 0x30, CHR 0x31, CHR 0x34]),
     (CHR 0x15, [CHR 0x5C, CHR 0x75, CHR 0x30, CHR 0x30, CHR 0x31, CHR 0x35]),
     (CHR 0x16, [CHR 0x5C, CHR 0x75, CHR 0x30, CHR 0x30, CHR 0x31, CHR 0x36]),
     (CHR 0x17, [CHR 0x5C, CHR 0x75, CHR 0x30, CHR 0x30, CHR 0x31, CHR 0x37]),
     (CHR 0x18, [CHR 0x5C, CHR 0x75, CHR 0x30, CHR 0x30, CHR 0x31, CHR 0x38]),
     (CHR 0x19, [CHR 0x5C, CHR 0x75, CHR 0x30, CHR 0x30, CHR 0x31, CHR 0x39]),
     (CHR 0x1A, [CHR 0x5C, CHR 0x75, CHR 0x30, CHR 0x30, CHR 0x31, CHR 0x61]),
     (CHR 0x1B, [CHR 0x5C, CHR 0x75, CHR 0x30, CHR 0x30, CHR 0x31, CHR 0x62]),
     (CHR 0x1C, [CHR 0x5C, CHR 0x75, CHR 0x30, CHR 0x30, CHR 0x31, CHR 0x63]),
     (CHR 0x1D, [CHR 0x5C, CHR 0x75, CHR 0x30, CHR 0x30, CHR 0x31, CHR 0x64]),
     (CHR 0x1E, [CHR 0x5C, CHR 0x75, CHR 0x30, CHR 0x30, CHR 0x31, CHR 0x65]),
     (CHR 0x1F, [CHR 0x5C, CHR 0x75, CHR 0x30, CHR 0x30, CHR 0x31, CHR 0x66]),
     (CHR 0x22, [CHR 0x5C, CHR 0x22]),
     (CHR 0x5C, [CHR 0x5C, CHR 0x5C])]"

lemma special_chars_bytes: "map fst special_chars = map char_of ([0..<32] @ [0x22, 0x5C] :: nat list)"
  by code_simp

lemma special_chars_escape: "list_all (\<lambda>(c, e). escape_byte c = e) special_chars"
  by code_simp

lemma special_chars: "special_byte c \<Longrightarrow> (c, escape_byte c) \<in> set special_chars"
proof -
  assume "special_byte c"
  then have "byte c \<in> set ([0..<32] @ [0x22, 0x5C])" by (auto simp: special_byte_def)
  then have "char_of (byte c) \<in> set (map fst special_chars)" unfolding special_chars_bytes set_map by (rule imageI)
  then show ?thesis using special_chars_escape by (auto simp: list_all_iff)
qed

lemma special_escapes: "list_all (\<lambda>(c, e). list_all (\<lambda>(d, f). c = d \<or> \<not> prefix e f) special_chars) special_chars"
  by code_simp

lemma special_first: "list_all (\<lambda>(c, e). e \<noteq> [] \<and> hd e = backslash) special_chars"
  by code_simp

lemma escape_byte_code:
  assumes "escape_byte c @ x = escape_byte d @ y"
  shows "c = d \<and> x = y"
proof -
  have first: "special_byte c \<Longrightarrow> escape_byte c \<noteq> [] \<and> hd (escape_byte c) = backslash" for c
    using special_first special_chars [of c] by (force simp: list_all_iff)
  have plain: "\<not> special_byte c \<Longrightarrow> c \<noteq> backslash" for c by (auto simp: special_byte_def backslash_def)
  consider (plain) "\<not> special_byte c" "\<not> special_byte d" | (mixed) "special_byte c \<noteq> special_byte d" | (special) "special_byte c" "special_byte d"
    by blast
  then show ?thesis
  proof cases
    case plain
    then show ?thesis using assms by (simp add: escape_byte_plain)
  next
    case mixed
    then show ?thesis
      using assms first [of c] first [of d] plain [of c] plain [of d] by (cases "special_byte c") (auto simp: escape_byte_plain neq_Nil_conv)
  next
    case special
    have "prefix (escape_byte c) (escape_byte d) \<or> prefix (escape_byte d) (escape_byte c)"
      using assms by (metis prefixI prefix_same_cases)
    then have "c = d" using special_escapes special_chars [OF special(1)] special_chars [OF special(2)] by (force simp: list_all_iff)
    then show ?thesis using assms by simp
  qed
qed

lemma quote_not_escape: "escape_byte c \<noteq> [] \<and> hd (escape_byte c) \<noteq> quote"
proof (cases "special_byte c")
  case True
  then show ?thesis using special_first special_chars [of c] by (force simp: list_all_iff backslash_def quote_def)
next
  case False
  then show ?thesis by (auto simp: escape_byte_plain special_byte_def quote_def)
qed

lemma escaped_text_code:
  "concat (map escape_byte s) @ quote # x = concat (map escape_byte t) @ quote # y \<Longrightarrow> s = t \<and> x = y"
proof (induction s arbitrary: t)
  case Nil
  then show ?case using quote_not_escape by (cases t) (auto simp: neq_Nil_conv, metis list.sel(1) append_Cons)
next
  case (Cons c s)
  show ?case
  proof (cases t)
    case Nil
    then show ?thesis using Cons.prems quote_not_escape [of c] by (auto simp: neq_Nil_conv)
  next
    case (Cons d t')
    with Cons.prems escape_byte_code [of c _ d] have "c = d" "concat (map escape_byte s) @ quote # x = concat (map escape_byte t') @ quote # y"
      by force+
    with Cons.IH [of t'] Cons show ?thesis by blast
  qed
qed

lemma canonical_string_code:
  assumes "valid_utf8 s" and "valid_utf8 t" and "canonical_string s @ x = canonical_string t @ y"
  shows "s = t \<and> x = y"
  using assms(3) escaped_text_code [of s x t y] by (simp add: canonical_string_def escape_runes_bytes assms(1,2))

section \<open>The normal form a document is printed from\<close>

text \<open>
  \<open>normal\<close> replaces every number by its canonical text and sorts the members of every object; \<open>print\<close> writes a
  document down as it is. The canonical bytes are the print of the normal form, and \<open>print\<close> loses nothing.
\<close>

fun normal :: "std_floats \<Rightarrow> json \<Rightarrow> json option" where
  "normal std (JNumber n) = map_option JNumber (canonical_number std n)"
| "normal std (JArray xs) = map_option JArray (those (map (normal std) xs))"
| "normal std (JObject kvs) =
     map_option (JObject \<circ> sort_key (utf16_key \<circ> fst)) (those (map (\<lambda>(k, v). map_option (Pair k) (normal std v)) kvs))"
| "normal std j = Some j"

fun print :: "json \<Rightarrow> string" where
  "print JNull = ''null''"
| "print (JBool b) = (if b then ''true'' else ''false'')"
| "print (JString s) = canonical_string s"
| "print (JNumber n) = n"
| "print (JArray xs) = ''['' @ join_with '','' (map print xs) @ '']''"
| "print (JObject kvs) = ''{'' @ join_with '','' (map (\<lambda>(k, v). canonical_string k @ '':'' @ print v) kvs) @ ''}''"

lemma insort_key_map: "insort_key f (g x) (map g xs) = map g (insort_key (\<lambda>y. f (g y)) x xs)"
  by (induction xs) auto

lemma sort_key_map: "sort_key f (map g xs) = map g (sort_key (\<lambda>y. f (g y)) xs)"
  by (induction xs) (auto simp: insort_key_map)

lemma those_map_option: "those (map (\<lambda>x. map_option f (g x)) xs) = map_option (map f) (those (map g xs))"
  by (induction xs) (auto simp: option.map_comp comp_def split: option.splits)

lemma those_cong: "(\<And>x. x \<in> set xs \<Longrightarrow> f x = g x) \<Longrightarrow> those (map f xs) = those (map g xs)"
  by (simp cong: map_cong)

lemma canonical_prints_normal: "canonical std j = map_option print (normal std j)"
proof (induction std j rule: canonical.induct)
  case (5 std xs)
  then have "those (map (canonical std) xs) = those (map (\<lambda>x. map_option print (normal std x)) xs)" by (intro those_cong) auto
  then show ?case by (simp add: those_map_option option.map_comp comp_def)
next
  case (6 std kvs)
  let ?m = "\<lambda>(k, v). map_option (Pair k) (normal std v)"
  have "those (map (\<lambda>(k, v). map_option (Pair k) (canonical std v)) kvs) = those (map (\<lambda>x. map_option (\<lambda>(k, v). (k, print v)) (?m x)) kvs)"
    using 6 by (intro those_cong) (auto simp: option.map_comp comp_def)
  also have "\<dots> = map_option (map (\<lambda>(k, v). (k, print v))) (those (map ?m kvs))" by (rule those_map_option)
  finally show ?case by (simp add: option.map_comp comp_def sort_key_map case_prod_unfold)
qed (auto simp: option.map_comp comp_def option.map_ident)

section \<open>Printing loses nothing\<close>

definition number_chars :: string where "number_chars = ''0123456789+-.e''"

definition number_text :: "string \<Rightarrow> bool" where
  "number_text n \<longleftrightarrow> n \<noteq> [] \<and> set n \<subseteq> set number_chars"

text \<open>Documents as \<open>normal\<close> makes them.\<close>

fun printable :: "json \<Rightarrow> bool" where
  "printable (JNumber n) = number_text n"
| "printable (JString s) = valid_utf8 s"
| "printable (JArray xs) = list_all printable xs"
| "printable (JObject kvs) = list_all (\<lambda>(k, v). valid_utf8 k \<and> printable v) kvs"
| "printable _ = True"

text \<open>A text that cannot continue a number.\<close>

definition stop :: "string \<Rightarrow> bool" where
  "stop x \<longleftrightarrow> (case x of [] \<Rightarrow> True | c # _ \<Rightarrow> c \<notin> set number_chars)"

lemma stop_delimiters [simp]: "stop (CHR '','' # x)" "stop (CHR '']'' # x)" "stop (CHR ''}'' # x)" "stop []"
  by (simp_all add: stop_def number_chars_def)

lemma number_code:
  assumes "n @ x = m @ y" and "set n \<subseteq> C" and "set m \<subseteq> C" and "\<And>c r. x = c # r \<Longrightarrow> c \<notin> C" and "\<And>c r. y = c # r \<Longrightarrow> c \<notin> C"
  shows "n = m \<and> x = y"
  using assms
proof (induction n arbitrary: m)
  case Nil
  then show ?case by (cases m) auto
next
  case (Cons c n)
  then show ?case by (cases m) auto
qed

lemma print_head:
  "printable j \<Longrightarrow> print j \<noteq> [] \<and> hd (print j) \<in> (case j of JNull \<Rightarrow> {CHR ''n''} | JBool b \<Rightarrow> {if b then CHR ''t'' else CHR ''f''}
     | JNumber n \<Rightarrow> set number_chars | JString s \<Rightarrow> {quote} | JArray xs \<Rightarrow> {CHR ''[''} | JObject kvs \<Rightarrow> {CHR ''{''})"
  by (cases j) (auto simp: canonical_string_def number_text_def neq_Nil_conv)

text \<open>A printed list, from the second element on, with the closing bracket.\<close>

definition print_rest :: "('a \<Rightarrow> string) \<Rightarrow> 'a list \<Rightarrow> string" where
  "print_rest f xs = concat (map (\<lambda>a. '','' @ f a) xs)"

lemma join_with_rest: "join_with '','' (map f (x # xs)) = f x @ print_rest f xs"
proof (induction xs arbitrary: x)
  case Nil
  then show ?case by (simp add: print_rest_def)
next
  case (Cons y xs)
  then show ?case using Cons [of y] by (simp add: print_rest_def)
qed

lemma print_rest_code:
  assumes "print_rest f xs @ c # x = print_rest f ys @ c # y" and "c \<noteq> CHR '',''" and "stop (c # x)" and "stop (c # y)"
    and "\<And>a b u v. a \<in> set xs \<Longrightarrow> b \<in> set ys \<Longrightarrow> stop u \<Longrightarrow> stop v \<Longrightarrow> f a @ u = f b @ v \<Longrightarrow> a = b \<and> u = v"
  shows "xs = ys \<and> x = y"
  using assms
proof (induction xs arbitrary: ys)
  case Nil
  then show ?case by (cases ys) (auto simp: print_rest_def)
next
  case (Cons a xs)
  show ?case
  proof (cases ys)
    case Nil
    then show ?thesis using Cons.prems by (auto simp: print_rest_def)
  next
    case ys: (Cons b ys')
    have rest: "stop (print_rest f zs @ c # z)" if "stop (c # z)" for zs z
      using that by (cases zs) (auto simp: print_rest_def)
    have "f a @ print_rest f xs @ c # x = f b @ print_rest f ys' @ c # y" using Cons.prems(1) ys by (simp add: print_rest_def)
    then have eq: "a = b \<and> print_rest f xs @ c # x = print_rest f ys' @ c # y"
      by (intro Cons.prems(5) rest Cons.prems(3,4)) (simp_all add: ys)
    have "xs = ys' \<and> x = y"
      by (rule Cons.IH [OF conjunct2 [OF eq] Cons.prems(2-4)]) (rule Cons.prems(5), simp_all add: ys)
    with eq ys show ?thesis by simp
  qed
qed

lemma printed_list_code:
  assumes "join_with '','' (map f xs) @ c # x = join_with '','' (map f ys) @ c # y" and "c \<noteq> CHR '',''" and "stop (c # x)" and "stop (c # y)"
    and "\<And>a b u v. a \<in> set xs \<Longrightarrow> b \<in> set ys \<Longrightarrow> stop u \<Longrightarrow> stop v \<Longrightarrow> f a @ u = f b @ v \<Longrightarrow> a = b \<and> u = v"
    and "\<And>a. a \<in> set xs \<union> set ys \<Longrightarrow> f a \<noteq> [] \<and> hd (f a) \<noteq> c"
  shows "xs = ys \<and> x = y"
proof (cases "xs = [] \<or> ys = []")
  case True
  have ne: "join_with '','' (map f (z # zs)) @ u \<noteq> c # v" if "z \<in> set xs \<union> set ys" for z zs u v
    using assms(6) [OF that] by (auto simp only: join_with_rest append_assoc neq_Nil_conv append_Cons list.sel list.inject)
  from True show ?thesis using assms(1) ne by (cases xs; cases ys) (auto, metis+)
next
  case False
  then obtain a as b bs where l: "xs = a # as" "ys = b # bs" by (auto simp: neq_Nil_conv)
  have "print_rest f xs @ c # x = print_rest f ys @ c # y" using assms(1) unfolding l join_with_rest by (simp add: print_rest_def)
  then show ?thesis using print_rest_code assms(2-5) by blast
qed

text \<open>The first byte tells which constructor was printed.\<close>

definition print_tag :: "json \<Rightarrow> nat" where
  "print_tag j = (case j of JNull \<Rightarrow> 0 | JBool b \<Rightarrow> if b then 1 else 2 | JNumber n \<Rightarrow> 3 | JString s \<Rightarrow> 4 | JArray xs \<Rightarrow> 5 | JObject kvs \<Rightarrow> 6)"

definition head_tag :: "char \<Rightarrow> nat" where
  "head_tag c = (if c = CHR ''n'' then 0 else if c = CHR ''t'' then 1 else if c = CHR ''f'' then 2 else if c = quote then 4
     else if c = CHR ''['' then 5 else if c = CHR ''{'' then 6 else 3)"

lemma print_head_tag: "printable j \<Longrightarrow> print j \<noteq> [] \<and> head_tag (hd (print j)) = print_tag j"
  using print_head [of j] by (cases j) (auto simp: head_tag_def print_tag_def number_chars_def quote_def)

lemma print_not_close: "printable j \<Longrightarrow> hd (print j) \<noteq> CHR '']''"
  using print_head [of j] by (cases j) (auto simp: number_chars_def quote_def)

lemma print_code:
  "printable a \<Longrightarrow> printable b \<Longrightarrow> stop x \<Longrightarrow> stop y \<Longrightarrow> print a @ x = print b @ y \<Longrightarrow> a = b \<and> x = y"
proof (induction a arbitrary: b x y rule: print.induct)
  case 1
  then have "print_tag b = print_tag JNull" using print_head_tag [of b] print_head_tag [of JNull] by (metis hd_append2)
  with 1 show ?case by (cases b) (auto simp: print_tag_def split: if_splits)
next
  case (2 v)
  then have "print_tag b = print_tag (JBool v)" using print_head_tag [of b] print_head_tag [of "JBool v"] by (metis hd_append2)
  with 2 show ?case by (cases b) (auto simp: print_tag_def split: if_splits)
next
  case (3 s)
  then have "print_tag b = print_tag (JString s)" using print_head_tag [of b] print_head_tag [of "JString s"] by (metis hd_append2)
  then obtain t where b: "b = JString t" by (cases b) (auto simp: print_tag_def split: if_splits)
  show ?case using canonical_string_code [of s t x y] 3 b by simp
next
  case (4 n)
  then have "print_tag b = print_tag (JNumber n)" using print_head_tag [of b] print_head_tag [of "JNumber n"] by (metis hd_append2)
  then obtain m where b: "b = JNumber m" by (cases b) (auto simp: print_tag_def split: if_splits)
  have "n = m \<and> x = y" by (rule number_code [where C = "set number_chars"]) (use 4 b in \<open>auto simp: number_text_def stop_def\<close>)
  with b show ?case by simp
next
  case (5 xs)
  then have "print_tag b = print_tag (JArray xs)" using print_head_tag [of b] print_head_tag [of "JArray xs"] by (metis hd_append2)
  then obtain ys where b: "b = JArray ys" by (cases b) (auto simp: print_tag_def split: if_splits)
  have px: "\<And>a. a \<in> set xs \<Longrightarrow> printable a" and py: "\<And>a. a \<in> set ys \<Longrightarrow> printable a"
    using 5(2,3) b by (auto simp: list_all_iff)
  have "xs = ys \<and> x = y"
  proof (rule printed_list_code [where f = print and c = "CHR '']''"])
    show "join_with '','' (map print xs) @ CHR '']'' # x = join_with '','' (map print ys) @ CHR '']'' # y" using 5(6) b by simp
    show "a = b \<and> u = v" if "a \<in> set xs" "b \<in> set ys" "stop u" "stop v" "print a @ u = print b @ v" for a b u v
      using 5(1) that px py by blast
    show "print a \<noteq> [] \<and> hd (print a) \<noteq> CHR '']''" if "a \<in> set xs \<union> set ys" for a
      using that px py print_head_tag print_not_close by blast
  qed simp_all
  with b show ?case by simp
next
  case (6 kvs)
  let ?f = "\<lambda>(k, v). canonical_string k @ '':'' @ print v"
  from 6 have "print_tag b = print_tag (JObject kvs)" using print_head_tag [of b] print_head_tag [of "JObject kvs"] by (metis hd_append2)
  then obtain ys where b: "b = JObject ys" by (cases b) (auto simp: print_tag_def split: if_splits)
  have px: "\<And>k v. (k, v) \<in> set kvs \<Longrightarrow> valid_utf8 k \<and> printable v" and py: "\<And>k v. (k, v) \<in> set ys \<Longrightarrow> valid_utf8 k \<and> printable v"
    using 6(2,3) b by (auto simp: list_all_iff)
  have "kvs = ys \<and> x = y"
  proof (rule printed_list_code [where f = ?f and c = "CHR ''}''"])
    show "join_with '','' (map ?f kvs) @ CHR ''}'' # x = join_with '','' (map ?f ys) @ CHR ''}'' # y" using 6(6) b by simp
    show "a = b \<and> u = v" if "a \<in> set kvs" "b \<in> set ys" "stop u" "stop v" "?f a @ u = ?f b @ v" for a b u v
    proof -
      obtain k w l z where ab: "a = (k, w)" "b = (l, z)" by force
      with that(5) have "canonical_string k @ CHR '':'' # print w @ u = canonical_string l @ CHR '':'' # print z @ v" by simp
      then have "k = l" "print w @ u = print z @ v" using canonical_string_code px py that(1,2) ab by blast+
      with 6(1) [of a k w z u v] that px py ab show ?thesis by blast
    qed
    show "?f a \<noteq> [] \<and> hd (?f a) \<noteq> CHR ''}''" if "a \<in> set kvs \<union> set ys" for a
      by (cases a) (simp add: canonical_string_def quote_def)
  qed simp_all
  with b show ?case by simp
qed

section \<open>Canonical bytes determine the normal form\<close>

text \<open>What the code relies on of \<^verbatim>\<open>strconv.FormatFloat\<close>: a finite number is written with digits, signs, a point and an exponent mark.\<close>

definition formats_numbers :: "std_floats \<Rightarrow> bool" where
  "formats_numbers std \<longleftrightarrow> (\<forall>f q. number_text (sf_format std f (Fin q)))"

lemma split_on_chars: "p \<in> set (split_on c s) \<Longrightarrow> set p \<subseteq> set s"
  by (induction s arbitrary: p) (fastforce split: if_splits list.splits)+

lemma digits_are_number_chars: "char_of ` set [0x30..<0x3A::nat] \<subseteq> set number_chars"
  by code_simp

lemma digit_is_number_char: "is_digit c \<Longrightarrow> c \<in> set number_chars"
proof -
  assume "is_digit c"
  then have "byte c \<in> set [0x30..<0x3A]" unfolding set_upt by (simp add: is_digit_def)
  then have "char_of (byte c) \<in> char_of ` set [0x30..<0x3A]" by (rule imageI)
  then show ?thesis using digits_are_number_chars by auto
qed

lemma number_chars_marks: "CHR ''-'' \<in> set number_chars" "CHR ''+'' \<in> set number_chars" "CHR ''e'' \<in> set number_chars" "CHR ''0'' \<in> set number_chars"
  by (simp_all add: number_chars_def)

lemma number_chars_format: "c \<in> set (format_int v) \<Longrightarrow> c \<in> set number_chars"
  using format_int_bytes [of c v] digit_is_number_char [of c] number_chars_marks by blast

lemma canonical_number_text:
  assumes "formats_numbers std" and "canonical_number std n = Some t"
  shows "number_text t"
proof -
  have e: "number_text (es_exponent s)" if "number_text s" for s
  proof -
    have "split_on CHR ''e'' s \<noteq> []" by simp
    then have "set (split_on CHR ''e'' s ! 0) \<subseteq> set number_chars"
      using split_on_chars [of "split_on CHR ''e'' s ! 0" "CHR ''e''" s] that by (auto simp: number_text_def)
    then show ?thesis using number_chars_format number_chars_marks by (auto simp: es_exponent_def number_text_def Let_def)
  qed
  from assms show ?thesis
    by (auto simp: canonical_number_def formats_numbers_def number_chars_def number_text_def [of "''0''"] intro!: e split: option.splits float64.splits if_splits)
qed

lemma those_set: "those (map f xs) = Some ys \<Longrightarrow> y \<in> set ys \<Longrightarrow> \<exists>x \<in> set xs. f x = Some y"
  by (induction xs arbitrary: ys) (auto split: option.splits)

lemma normal_printable: "formats_numbers std \<Longrightarrow> strings_valid j \<Longrightarrow> normal std j = Some n \<Longrightarrow> printable n"
proof (induction std j arbitrary: n rule: normal.induct)
  case (2 std xs)
  from 2(4) obtain ys where ys: "those (map (normal std) xs) = Some ys" "n = JArray ys" by auto
  have "printable y" if "y \<in> set ys" for y using those_set [OF ys(1) that] 2(1-3) by (auto simp: list_all_iff)
  then show ?case by (simp add: ys(2) list_all_iff)
next
  case (3 std kvs)
  from 3(4) obtain ms where ms: "those (map (\<lambda>(k, v). map_option (Pair k) (normal std v)) kvs) = Some ms" "n = JObject (sort_key (utf16_key \<circ> fst) ms)"
    by auto
  have "valid_utf8 k \<and> printable v" if kv: "(k, v) \<in> set ms" for k v
  proof -
    obtain w where w: "(k, w) \<in> set kvs" "normal std w = Some v" using those_set [OF ms(1) kv] by auto
    then show ?thesis using 3(1) [OF w(1) refl 3(2) _ w(2)] 3(3) by (auto simp: list_all_iff)
  qed
  then show ?case by (auto simp: ms(2) list_all_iff)
qed (auto dest: canonical_number_text)

lemma canonical_equal_iff:
  assumes "formats_numbers std"
  shows "canonical_equal std a b \<longleftrightarrow>
     strings_valid a \<and> strings_valid b \<and> normal std a \<noteq> None \<and> normal std a = normal std b"
proof -
  have "normal std a = normal std b" if "strings_valid a" "strings_valid b" "normal std a = Some x" "normal std b = Some y" "print x = print y" for x y
    using print_code [of x y "[]" "[]"] normal_printable [OF assms] that by auto
  then show ?thesis
    by (cases "normal std a"; cases "normal std b") (auto simp: canonical_equal_def Canonical_def canonical_prints_normal)
qed


text \<open>A formatter of integers, with which the witnesses run.\<close>

definition sample_floats :: std_floats where
  "sample_floats = \<lparr>sf_parse = (\<lambda>s. map_option (\<lambda>n. Fin (of_int n)) (parse_int64 s)),
     sf_format = (\<lambda>f x. case x of Fin q \<Rightarrow> format_int \<lfloor>q\<rfloor> @ (if f = CHR ''e'' then ''e+0'' else []) | _ \<Rightarrow> ''0'')\<rparr>"

lemma format_int_not_Nil: "format_int n \<noteq> []"
  by (simp add: format_int_def decimal_digits_not_Nil)

lemma sample_floats_format: "formats_numbers sample_floats"
  unfolding formats_numbers_def number_text_def sample_floats_def
  by (auto dest: number_chars_format simp: number_chars_marks format_int_not_Nil)


end
