(* ===== verification/Provider_Reads.thy ===== *)
theory Provider_Reads
  imports Canonical License
begin

text \<open>
  \<^verbatim>\<open>src/pkg/providerreads\<close>: the evidence of reads made at a provider. \<^verbatim>\<open>types.go\<close> has the data and its digests,
  \<^verbatim>\<open>validate.go\<close> the checks of a plan and of an envelope against it, \<^verbatim>\<open>collector.go\<close> the collector that builds an
  envelope read by read, \<^verbatim>\<open>decode.go\<close> the closed wire form.

  A nil slice is \<open>None\<close>. A request parameter keeps the Go type it has, because \<^verbatim>\<open>requestValue\<close> switches on it. The
  document of a value is what \<^verbatim>\<open>json.Marshal\<close> makes of it, \<open>None\<close> where it fails. Of the standard library the URL
  parser, the time parsers, the encoder of a \<^verbatim>\<open>float64\<close> and SHA-256 are parameters (\<open>read_std\<close>).
\<close>

section \<open>Parameters\<close>

record full_url = url_parts +
  fu_fragment :: string
  fu_string :: string
  fu_path :: string
  fu_port :: string
  fu_escaped_path :: string

record read_std =
  rd_floats :: std_floats
  rd_float_json :: "float64 \<Rightarrow> string option"
  rd_sha :: "string \<Rightarrow> string"
  rd_parse_url :: "string \<Rightarrow> full_url option"
  rd_instant :: "string \<Rightarrow> bool"
  rd_date :: "string \<Rightarrow> string option"

definition terms_url :: "read_std \<Rightarrow> string \<Rightarrow> url_parts option" where
  "terms_url std s = map_option url_parts.truncate (rd_parse_url std s)"

section \<open>Data\<close>

definition Format :: string where "Format = ''ovdb-provider-read/1''"
definition MaxItems :: nat where "MaxItems = 64"
definition MaxMetadataBytes :: nat where "MaxMetadataBytes = 256 * 1024"
definition max_safe_integer :: int where "max_safe_integer = 9007199254740991"

record execution =
  ex_id :: string
  ex_mode :: string
  ex_executorID :: string

record binding =
  bd_provider :: string
  bd_rights :: string
  bd_resource :: string
  bd_definitionDigest :: string
  bd_decoderDigest :: string
  bd_rightsDigest :: string

record observation =
  ob_id :: string
  ob_resource :: string
  ob_requestDigest :: string
  ob_fetchedAt :: string
  ob_upstreamURL :: string
  ob_status :: int
  ob_contentType :: string
  ob_sha256 :: string
  ob_bytes :: int
  ob_referenceDate :: string
  ob_lastModified :: string
  ob_etag :: string
  ob_attestation :: string

record usage =
  us_provider :: string
  us_rights :: string
  us_observations :: "string list"

record envelope =
  en_format :: string
  en_execution :: execution
  en_bindings :: "binding list option"
  en_reads :: "observation list option"
  en_usage :: "usage list option"

datatype param =
    PNil | PBool bool | PString string | PFloat float64 | PInt int | PInt64 int | PNumber string
  | PArray "param list" | POther "json option"

record request =
  rq_resource :: string
  rq_method :: string
  rq_upstreamURL :: string
  rq_params :: "(string, param) gomap option"

record pin =
  pn_role :: string
  pn_repository :: string
  pn_revision :: string
  pn_path :: string
  pn_sha256 :: string
  pn_bytes :: int

record notice =
  nt_text :: string
  nt_url :: string

record publisher_html =
  ph_format :: string
  ph_registryURL :: string
  ph_registrySHA256 :: string
  ph_registryBytes :: int
  ph_termsURL :: string
  ph_termsSHA256 :: string
  ph_termsBytes :: int
  ph_observedAt :: string
  ph_resourceURL :: string
  ph_nativeFields :: "string list option"
  ph_rightsScope :: string

record full_right =
  fr_sourceID :: string
  fr_source :: identity
  fr_declaration :: license_decl
  fr_scope :: string
  fr_declaredAt :: identity
  fr_origin :: string
  fr_pins :: "pin list option"
  fr_attribution :: "notice option"
  fr_freeSource :: "notice option"
  fr_transformations :: "string list option"
  fr_publisher :: "publisher_html option"

record plan =
  pl_execution :: execution
  pl_bindings :: "binding list option"
  pl_requests :: "request list option"
  pl_rights :: "full_right list option"
  pl_maxReads :: "int option"
  pl_maxMetadataBytes :: int

primrec slice :: "'a list option \<Rightarrow> 'a list" where
  "slice None = []"
| "slice (Some xs) = xs"

section \<open>Documents\<close>

definition omit_empty :: "string \<Rightarrow> string \<Rightarrow> (string \<times> json) list" where
  "omit_empty k s = (if s = [] then [] else [(k, JString s)])"

definition int_json :: "int \<Rightarrow> json" where
  "int_json n = JNumber (format_int n)"

definition slice_json :: "('a \<Rightarrow> json) \<Rightarrow> 'a list option \<Rightarrow> json" where
  "slice_json f xs = (case xs of None \<Rightarrow> JNull | Some ys \<Rightarrow> JArray (map f ys))"

definition execution_json :: "execution \<Rightarrow> json" where
  "execution_json e = JObject [(''id'', JString (ex_id e)), (''mode'', JString (ex_mode e)), (''executorId'', JString (ex_executorID e))]"

definition binding_json :: "binding \<Rightarrow> json" where
  "binding_json b = JObject [(''providerSourceId'', JString (bd_provider b)), (''rightsSourceId'', JString (bd_rights b)),
     (''resourceId'', JString (bd_resource b)), (''definitionDigest'', JString (bd_definitionDigest b)),
     (''decoderDigest'', JString (bd_decoderDigest b)), (''rightsDigest'', JString (bd_rightsDigest b))]"

text \<open>The members of an observation without its identifier, which \<^verbatim>\<open>ObservationDigest\<close> covers.\<close>

definition read_members :: "observation \<Rightarrow> (string \<times> json) list" where
  "read_members ob = [(''resourceId'', JString (ob_resource ob)), (''requestDigest'', JString (ob_requestDigest ob)),
     (''fetchedAt'', JString (ob_fetchedAt ob)), (''upstreamUrl'', JString (ob_upstreamURL ob)), (''status'', int_json (ob_status ob)),
     (''contentType'', JString (ob_contentType ob)), (''sha256'', JString (ob_sha256 ob)), (''bytes'', int_json (ob_bytes ob))]
     @ omit_empty ''referenceDate'' (ob_referenceDate ob) @ omit_empty ''lastModified'' (ob_lastModified ob)
     @ omit_empty ''etag'' (ob_etag ob) @ [(''attestation'', JString (ob_attestation ob))]"

definition observation_json :: "observation \<Rightarrow> json" where
  "observation_json ob = JObject ((''observationId'', JString (ob_id ob)) # read_members ob)"

definition usage_json :: "usage \<Rightarrow> json" where
  "usage_json u = JObject [(''providerSourceId'', JString (us_provider u)), (''rightsSourceId'', JString (us_rights u)),
     (''observationIds'', JArray (map JString (us_observations u)))]"

definition envelope_json :: "envelope \<Rightarrow> json" where
  "envelope_json e = JObject [(''format'', JString (en_format e)), (''execution'', execution_json (en_execution e)),
     (''bindings'', slice_json binding_json (en_bindings e)), (''reads'', slice_json observation_json (en_reads e)),
     (''usage'', slice_json usage_json (en_usage e))]"

definition identity_json :: "identity \<Rightarrow> json" where
  "identity_json i = JObject ((''serverId'', JString (i_serverID i)) #
     omit_empty ''databaseId'' (i_databaseID i) @ omit_empty ''recordset'' (i_recordset i))"

definition declaration_json :: "license_decl \<Rightarrow> json" where
  "declaration_json d = (if dc_legacy d then JString (dc_spdx d)
     else JObject (omit_empty ''name'' (dc_name d) @ omit_empty ''spdx'' (dc_spdx d) @ omit_empty ''url'' (dc_url d) @ omit_empty ''text'' (dc_text d)))"

definition pin_json :: "pin \<Rightarrow> json" where
  "pin_json p = JObject [(''role'', JString (pn_role p)), (''repository'', JString (pn_repository p)), (''revision'', JString (pn_revision p)),
     (''path'', JString (pn_path p)), (''sha256'', JString (pn_sha256 p)), (''bytes'', int_json (pn_bytes p))]"

definition notice_json :: "notice \<Rightarrow> json" where
  "notice_json n = JObject ((''text'', JString (nt_text n)) # omit_empty ''url'' (nt_url n))"

definition publisher_json :: "publisher_html \<Rightarrow> json" where
  "publisher_json h = JObject [(''format'', JString (ph_format h)), (''registryUrl'', JString (ph_registryURL h)),
     (''registrySha256'', JString (ph_registrySHA256 h)), (''registryBytes'', int_json (ph_registryBytes h)), (''termsUrl'', JString (ph_termsURL h)),
     (''termsSha256'', JString (ph_termsSHA256 h)), (''termsBytes'', int_json (ph_termsBytes h)), (''observedAt'', JString (ph_observedAt h)),
     (''resourceUrl'', JString (ph_resourceURL h)), (''nativeFields'', slice_json JString (ph_nativeFields h)), (''rightsScope'', JString (ph_rightsScope h))]"

definition omit_nil :: "string \<Rightarrow> json option \<Rightarrow> (string \<times> json) list" where
  "omit_nil k j = (case j of None \<Rightarrow> [] | Some v \<Rightarrow> [(k, v)])"

definition right_json :: "full_right \<Rightarrow> json" where
  "right_json r = JObject ([(''sourceId'', JString (fr_sourceID r)), (''source'', identity_json (fr_source r)),
     (''declaration'', declaration_json (fr_declaration r)), (''declarationScope'', JString (fr_scope r)),
     (''declaredAt'', identity_json (fr_declaredAt r)), (''evidenceOrigin'', JString (fr_origin r)), (''pins'', slice_json pin_json (fr_pins r))]
     @ omit_nil ''attribution'' (map_option notice_json (fr_attribution r)) @ omit_nil ''freeSource'' (map_option notice_json (fr_freeSource r))
     @ [(''transformations'', slice_json JString (fr_transformations r))] @ omit_nil ''publisherHtmlDefinition'' (map_option publisher_json (fr_publisher r)))"

fun param_json :: "read_std \<Rightarrow> param \<Rightarrow> json option" where
  "param_json std PNil = Some JNull"
| "param_json std (PBool b) = Some (JBool b)"
| "param_json std (PString s) = Some (JString s)"
| "param_json std (PFloat f) = map_option JNumber (rd_float_json std f)"
| "param_json std (PInt n) = Some (int_json n)"
| "param_json std (PInt64 n) = Some (int_json n)"
| "param_json std (PNumber s) = Some (JNumber s)"
| "param_json std (PArray xs) = map_option JArray (those (map (param_json std) xs))"
| "param_json std (POther j) = j"

definition params_json :: "read_std \<Rightarrow> (string, param) gomap option \<Rightarrow> json option" where
  "params_json std ps = (case ps of None \<Rightarrow> Some JNull
     | Some m \<Rightarrow> map_option JObject (those (map (\<lambda>(k, v). map_option (Pair k) (param_json std v)) m)))"

definition request_json :: "read_std \<Rightarrow> request \<Rightarrow> json option" where
  "request_json std r = map_option (\<lambda>ps. JObject [(''resourceId'', JString (rq_resource r)), (''method'', JString (rq_method r)),
     (''upstreamUrl'', JString (rq_upstreamURL r)), (''params'', ps)]) (params_json std (rq_params r))"

definition plan_json :: "read_std \<Rightarrow> plan \<Rightarrow> json option" where
  "plan_json std p = map_option (\<lambda>rs. JObject [(''Execution'', execution_json (pl_execution p)), (''Bindings'', slice_json binding_json (pl_bindings p)),
     (''Requests'', rs), (''SourceRights'', slice_json right_json (pl_rights p)),
     (''MaxReads'', case pl_maxReads p of None \<Rightarrow> JNull | Some n \<Rightarrow> int_json n), (''MaxMetadataBytes'', int_json (pl_maxMetadataBytes p))])
     (case pl_requests p of None \<Rightarrow> Some JNull | Some rs \<Rightarrow> map_option JArray (those (map (request_json std) rs)))"

text \<open>\<^verbatim>\<open>equal\<close> of two documents, and the three digests.\<close>

definition same :: "read_std \<Rightarrow> json \<Rightarrow> json \<Rightarrow> bool" where
  "same std a b = canonical_equal (rd_floats std) a b"

definition digest :: "read_std \<Rightarrow> json \<Rightarrow> string option" where
  "digest std j = Digest (rd_floats std) (rd_sha std) j"

definition RightsDigest :: "read_std \<Rightarrow> full_right \<Rightarrow> string option" where
  "RightsDigest std r = digest std (JObject [(''format'', JString ''ovdb-rights-binding/1''), (''right'', right_json r)])"

definition RequestDigest :: "read_std \<Rightarrow> request \<Rightarrow> string option" where
  "RequestDigest std r = Option.bind (params_json std (rq_params r)) (\<lambda>ps.
     digest std (JObject [(''format'', JString ''ovdb-resource-request/1''), (''resourceId'', JString (rq_resource r)),
       (''method'', JString (rq_method r)), (''upstreamUrl'', JString (rq_upstreamURL r)), (''params'', ps)]))"

definition ObservationDigest :: "read_std \<Rightarrow> execution \<Rightarrow> binding \<Rightarrow> observation \<Rightarrow> string option" where
  "ObservationDigest std ex b ob = digest std (JObject [(''format'', JString ''ovdb-read-observation-id/1''),
     (''execution'', execution_json ex), (''binding'', binding_json b), (''read'', JObject (read_members ob))])"

section \<open>Checks of single values (validate.go)\<close>

datatype read_error =
    TextBounds | TextControl | DigestShape | UnsafeURL | HostGrammar | Punycode | PortShape | URLChar | URLEscape | URLPath
  | ParameterInvalid | RequestInvalid | ParametersOverbound | ExecutionInvalid | ConflatedIdentity | ObservationInvalid
  | FetchedAtInvalid | ReferenceDateInvalid | RightsInvalid | RightInvalid | TermsInvalid license_error | NoticeEmpty | FreeSourceURL
  | PinBytes | ArrayOverbound | EncodingFailed | PlanInventory | PlanBudgets | DuplicateBinding | RightsDigestMismatch | RightMissing
  | UnplannedResource | DuplicateRequest | PreflightMismatch | EvidenceInventory | DuplicateUsed | UnknownUsed | ConflictingID
  | UnplannedRequest | ObservationDigestMismatch | UsageInvalid | ConflictingUsage | MissingObservation | BindingMismatch
  | UnclaimedObservation | MissingLiveUsage | MetadataBudget | EvidenceMissing | ResponseMismatch | ResourceMismatch | BindingMissing
  | ConflictingObservation

definition check_text :: "string \<Rightarrow> bool \<Rightarrow> bool \<Rightarrow> read_error option" where
  "check_text s blank multiline =
     (if \<not> valid_utf8 s \<or> length (utf16_key s) > 4096 \<or> (\<not> blank \<and> s = []) then Some TextBounds
      else check_all (\<lambda>(r, bs). refuse (is_control r \<and> (\<not> multiline \<or> r \<notin> {0x0A, 0x0D, 0x09})) TextControl) (runes s))"

definition texts :: "string list \<Rightarrow> read_error option" where
  "texts ss = check_all (\<lambda>s. check_text s False False) ss"

text \<open>The regular expression \<^verbatim>\<open>^[a-f0-9]{64}$\<close>.\<close>

definition lower_hex :: "char \<Rightarrow> bool" where
  "lower_hex c \<longleftrightarrow> c \<in> set ''0123456789abcdef''"

definition digestShape :: "string \<Rightarrow> bool" where
  "digestShape s \<longleftrightarrow> length s = 64 \<and> list_all lower_hex s"

definition digests :: "string list \<Rightarrow> read_error option" where
  "digests ss = check_all (\<lambda>s. refuse (\<not> digestShape s) DigestShape) ss"

text \<open>The regular expression \<^verbatim>\<open>^\d{4}-\d{2}-\d{2}T\d{2}:\d{2}:\d{2}(\.\d{3})?Z$\<close>; \<open>9\<close> stands for a digit.\<close>

definition matches_shape :: "string \<Rightarrow> string \<Rightarrow> bool" where
  "matches_shape shape s \<longleftrightarrow> list_all2 (\<lambda>p c. if p = CHR ''9'' then is_digit c else p = c) shape s"

definition instantShape :: "string \<Rightarrow> bool" where
  "instantShape s \<longleftrightarrow> matches_shape ''9999-99-99T99:99:99Z'' s \<or> matches_shape ''9999-99-99T99:99:99.999Z'' s"

text \<open>The regular expression \<^verbatim>\<open>^(?:[a-z0-9](?:[a-z0-9-]{0,61}[a-z0-9])?\.)+[a-z]{2,63}$\<close>, label by label.\<close>

definition lower_letter :: "char \<Rightarrow> bool" where
  "lower_letter c \<longleftrightarrow> 0x61 \<le> byte c \<and> byte c \<le> 0x7A"

definition dns_label :: "string \<Rightarrow> bool" where
  "dns_label l \<longleftrightarrow> l \<noteq> [] \<and> length l \<le> 63 \<and> list_all (\<lambda>c. lower_letter c \<or> is_digit c \<or> c = CHR ''-'') l \<and> hd l \<noteq> CHR ''-'' \<and> last l \<noteq> CHR ''-''"

definition canonicalDNS :: "string \<Rightarrow> bool" where
  "canonicalDNS h \<longleftrightarrow> (let ls = split_on CHR ''.'' h in 2 \<le> length ls \<and> list_all dns_label (butlast ls) \<and>
     2 \<le> length (last ls) \<and> length (last ls) \<le> 63 \<and> list_all lower_letter (last ls))"

definition url_char :: "char \<Rightarrow> bool" where
  "url_char c \<longleftrightarrow> ascii_alnum c \<or> c \<in> set ''-._~!$&()*+,;=:/?@%''"

fun check_url_chars :: "string \<Rightarrow> read_error option" where
  "check_url_chars [] = None"
| "check_url_chars (c # s) =
     (if \<not> url_char c then Some URLChar
      else if c = CHR ''%'' then
        (case s of
           a # b # rest \<Rightarrow> if unhex a \<noteq> None \<and> unhex b \<noteq> None then check_url_chars rest else Some URLEscape
         | _ \<Rightarrow> Some URLEscape)
      else check_url_chars s)"

definition safeURL :: "read_std \<Rightarrow> string \<Rightarrow> read_error option" where
  "safeURL std s =
     (case check_text s False False of Some e \<Rightarrow> Some e | None \<Rightarrow>
      (case rd_parse_url std s of None \<Rightarrow> Some UnsafeURL | Some u \<Rightarrow>
       if url_scheme u \<noteq> ''https'' \<or> url_has_user u \<or> url_opaque u \<noteq> [] \<or> fu_fragment u \<noteq> [] \<or> fu_string u \<noteq> s \<or> fu_path u = [] \<or> CHR ''#'' \<in> set s
       then Some UnsafeURL
       else first_of [
         refuse (\<not> canonicalDNS (url_hostname u)) HostGrammar,
         refuse (list_ex (\<lambda>l. has_prefix l ''xn--'') (split_on CHR ''.'' (url_hostname u))) Punycode,
         (if fu_port u = [] then None
          else case parse_int64 (fu_port u) of None \<Rightarrow> Some PortShape
            | Some n \<Rightarrow> refuse (n < 1 \<or> n > 65535 \<or> n = 443 \<or> format_int n \<noteq> fu_port u) PortShape),
         check_url_chars s,
         check_all (\<lambda>seg. case path_unescape seg of None \<Rightarrow> Some URLPath | Some d \<Rightarrow> refuse (d = ''.'' \<or> d = ''..'') URLPath)
           (split_on CHR ''/'' (fu_escaped_path u))]))"

definition safe_int :: "int \<Rightarrow> bool" where
  "safe_int n \<longleftrightarrow> - max_safe_integer \<le> n \<and> n \<le> max_safe_integer"

definition safe_float :: "float64 \<Rightarrow> bool" where
  "safe_float f \<longleftrightarrow> (case f of Fin q \<Rightarrow> of_int (- max_safe_integer) \<le> q \<and> q \<le> of_int max_safe_integer \<and> of_int \<lfloor>q\<rfloor> = q | _ \<Rightarrow> False)"

fun requestValue :: "read_std \<Rightarrow> param \<Rightarrow> read_error option" where
  "requestValue std PNil = None"
| "requestValue std (PBool b) = None"
| "requestValue std (PString s) = check_text s True False"
| "requestValue std (PFloat f) = refuse (\<not> safe_float f) ParameterInvalid"
| "requestValue std (PInt n) = refuse (\<not> safe_int n) ParameterInvalid"
| "requestValue std (PInt64 n) = refuse (\<not> safe_int n) ParameterInvalid"
| "requestValue std (PNumber s) = (case sf_parse (rd_floats std) s of Some f \<Rightarrow> refuse (\<not> safe_float f) ParameterInvalid | None \<Rightarrow> Some ParameterInvalid)"
| "requestValue std _ = Some ParameterInvalid"

definition validateRequest :: "read_std \<Rightarrow> request \<Rightarrow> read_error option" where
  "validateRequest std r =
     (case texts [rq_resource r] of Some e \<Rightarrow> Some e | None \<Rightarrow>
      (case rq_params r of None \<Rightarrow> Some RequestInvalid | Some ps \<Rightarrow>
       if rq_method r \<noteq> ''GET'' \<or> length ps > MaxItems then Some RequestInvalid
       else case safeURL std (rq_upstreamURL r) of Some e \<Rightarrow> Some e | None \<Rightarrow>
         check_all (\<lambda>(key, v). case texts [key] of Some e \<Rightarrow> Some e
           | None \<Rightarrow> (case v of
               PArray items \<Rightarrow> if length items > MaxItems then Some ParametersOverbound else check_all (requestValue std) items
             | _ \<Rightarrow> requestValue std v)) ps))"

definition validateExecution :: "execution \<Rightarrow> read_error option" where
  "validateExecution e = first_of [texts [ex_id e, ex_executorID e], refuse (ex_mode e \<noteq> ''direct'' \<and> ex_mode e \<noteq> ''proxy'') ExecutionInvalid]"

definition validateBinding :: "binding \<Rightarrow> read_error option" where
  "validateBinding b = first_of [texts [bd_provider b, bd_rights b, bd_resource b], refuse (bd_provider b = bd_rights b) ConflatedIdentity,
     digests [bd_definitionDigest b, bd_decoderDigest b, bd_rightsDigest b]]"

definition attestation :: "execution \<Rightarrow> string" where
  "attestation e = ex_mode e @ ''-executor-observed''"

definition validateObservation :: "read_std \<Rightarrow> observation \<Rightarrow> execution \<Rightarrow> read_error option" where
  "validateObservation std ob e = first_of [
     digests [ob_id ob, ob_requestDigest ob, ob_sha256 ob],
     texts [ob_resource ob, ob_fetchedAt ob, ob_contentType ob, ob_attestation ob],
     safeURL std (ob_upstreamURL ob),
     refuse (ob_status ob < 200 \<or> ob_status ob > 299 \<or> ob_bytes ob < 0 \<or> ob_bytes ob > max_safe_integer \<or> ob_attestation ob \<noteq> attestation e) ObservationInvalid,
     refuse (\<not> instantShape (ob_fetchedAt ob)) FetchedAtInvalid,
     refuse (\<not> rd_instant std (ob_fetchedAt ob)) FetchedAtInvalid,
     refuse (ob_referenceDate ob \<noteq> [] \<and> rd_date std (ob_referenceDate ob) \<noteq> Some (ob_referenceDate ob)) ReferenceDateInvalid,
     check_all (\<lambda>s. if s \<noteq> [] then texts [s] else None) [ob_lastModified ob, ob_etag ob]]"

section \<open>Checks of a plan\<close>

text \<open>
  \<^verbatim>\<open>boundedJSON\<close>; \<^verbatim>\<open>validateRights\<close> applies it to the parsed canonical bytes of a right, whose strings and arrays are
  those of its document.
\<close>

fun boundedJSON :: "json \<Rightarrow> string \<Rightarrow> read_error option" where
  "boundedJSON (JString s) key = check_text s True (key = ''text'')"
| "boundedJSON (JArray xs) key = (if length xs > MaxItems then Some ArrayOverbound else check_all (\<lambda>x. boundedJSON x key) xs)"
| "boundedJSON (JObject kvs) key = check_all (\<lambda>(k, v). boundedJSON v k) kvs"
| "boundedJSON _ key = None"

definition check_notice :: "read_std \<Rightarrow> notice option \<Rightarrow> read_error option" where
  "check_notice std n = (case n of None \<Rightarrow> None
     | Some n \<Rightarrow> if trim_space (nt_text n) = [] then Some NoticeEmpty
         else if nt_url n \<noteq> [] then map_option TermsInvalid (ValidateURL (terms_url std) (nt_url n)) else None)"

definition check_pin :: "pin \<Rightarrow> read_error option" where
  "check_pin p = first_of [texts [pn_role p, pn_repository p, pn_revision p, pn_path p], digests [pn_sha256 p],
     refuse (pn_bytes p < 0 \<or> pn_bytes p > max_safe_integer) PinBytes]"

definition check_right :: "read_std \<Rightarrow> string list \<Rightarrow> full_right \<Rightarrow> read_error option" where
  "check_right std seen r = first_of [
     texts [fr_sourceID r, i_serverID (fr_source r), fr_scope r, i_serverID (fr_declaredAt r), fr_origin r],
     refuse (fr_sourceID r \<in> set seen \<or> fr_pins r = None \<or> fr_transformations r = None \<or> length (slice (fr_pins r)) > MaxItems \<or>
       length (slice (fr_transformations r)) > MaxItems \<or> dc_legacy (fr_declaration r)) RightInvalid,
     map_option TermsInvalid (declaration_validate (terms_url std) (fr_declaration r) Directory),
     check_all (check_notice std) [fr_attribution r, fr_freeSource r],
     refuse (case fr_freeSource r of Some n \<Rightarrow> nt_url n = [] | None \<Rightarrow> False) FreeSourceURL,
     check_all check_pin (slice (fr_pins r)),
     texts (slice (fr_transformations r)),
     refuse (Canonical (rd_floats std) (right_json r) = None) EncodingFailed,
     boundedJSON (right_json r) []]"

fun check_rights :: "read_std \<Rightarrow> string list \<Rightarrow> full_right list \<Rightarrow> read_error option" where
  "check_rights std seen [] = None"
| "check_rights std seen (r # rs) = (case check_right std seen r of Some e \<Rightarrow> Some e | None \<Rightarrow> check_rights std (fr_sourceID r # seen) rs)"

definition validateRights :: "read_std \<Rightarrow> plan \<Rightarrow> read_error option" where
  "validateRights std p = (case pl_rights p of None \<Rightarrow> Some RightsInvalid
     | Some rs \<Rightarrow> if length rs > MaxItems then Some RightsInvalid else check_rights std [] rs)"

definition check_binding_right :: "read_std \<Rightarrow> full_right list \<Rightarrow> binding \<Rightarrow> read_error option" where
  "check_binding_right std rights b =
     first_of [check_all (\<lambda>r. refuse (fr_sourceID r = bd_rights b \<and> RightsDigest std r \<noteq> Some (bd_rightsDigest b)) RightsDigestMismatch) rights,
       refuse (\<not> list_ex (\<lambda>r. fr_sourceID r = bd_rights b) rights) RightMissing]"

fun check_bindings :: "read_std \<Rightarrow> full_right list \<Rightarrow> string list \<Rightarrow> binding list \<Rightarrow> read_error option" where
  "check_bindings std rights resources [] = None"
| "check_bindings std rights resources (b # bs) =
     (case validateBinding b of Some e \<Rightarrow> Some e | None \<Rightarrow>
      if bd_resource b \<in> set resources then Some DuplicateBinding
      else case check_binding_right std rights b of Some e \<Rightarrow> Some e | None \<Rightarrow> check_bindings std rights (bd_resource b # resources) bs)"

fun check_requests :: "read_std \<Rightarrow> string list \<Rightarrow> string list \<Rightarrow> request list \<Rightarrow> read_error option" where
  "check_requests std resources seen [] = None"
| "check_requests std resources seen (r # rs) =
     (case validateRequest std r of Some e \<Rightarrow> Some e | None \<Rightarrow>
      if rq_resource r \<notin> set resources then Some UnplannedResource
      else case RequestDigest std r of None \<Rightarrow> Some EncodingFailed | Some h \<Rightarrow>
        if h \<in> set seen then Some DuplicateRequest else check_requests std resources (h # seen) rs)"

definition validatePlan :: "read_std \<Rightarrow> plan \<Rightarrow> read_error option" where
  "validatePlan std p = first_of [
     validateExecution (pl_execution p),
     refuse (pl_bindings p = None \<or> pl_requests p = None \<or> length (slice (pl_bindings p)) > MaxItems \<or> length (slice (pl_requests p)) > MaxItems) PlanInventory,
     refuse ((case pl_maxReads p of Some n \<Rightarrow> n < 0 \<or> n > int MaxItems | None \<Rightarrow> False) \<or>
       pl_maxMetadataBytes p < 0 \<or> pl_maxMetadataBytes p > int MaxMetadataBytes) PlanBudgets,
     validateRights std p,
     check_bindings std (slice (pl_rights p)) [] (slice (pl_bindings p)),
     check_requests std (map bd_resource (slice (pl_bindings p))) [] (slice (pl_requests p))]"

section \<open>Checks of an envelope\<close>

fun check_used :: "full_right list \<Rightarrow> string list \<Rightarrow> string list \<Rightarrow> read_error option" where
  "check_used rights seen [] = None"
| "check_used rights seen (i # ids) =
     (if i \<in> set seen then Some DuplicateUsed
      else if \<not> list_ex (\<lambda>r. fr_sourceID r = i) rights then Some UnknownUsed
      else check_used rights (i # seen) ids)"

text \<open>One read of the envelope: the observations by identifier, extended.\<close>

definition planned_read :: "read_std \<Rightarrow> plan \<Rightarrow> observation \<Rightarrow> bool" where
  "planned_read std p ob \<longleftrightarrow> list_ex (\<lambda>r. case_option [] id (RequestDigest std r) = ob_requestDigest ob \<and>
     rq_resource r = ob_resource ob \<and> rq_upstreamURL r = ob_upstreamURL ob) (slice (pl_requests p))"

definition check_read ::
    "read_std \<Rightarrow> plan \<Rightarrow> envelope \<Rightarrow> (string, observation) gomap \<Rightarrow> observation \<Rightarrow> read_error + (string, observation) gomap" where
  "check_read std p e observations ob =
     (case validateObservation std ob (en_execution e) of Some err \<Rightarrow> Inl err | None \<Rightarrow>
      if (case mget observations (ob_id ob) of Some prior \<Rightarrow> \<not> same std (observation_json prior) (observation_json ob) | None \<Rightarrow> False)
      then Inl ConflictingID
      else if \<not> planned_read std p ob then Inl UnplannedRequest
      else case List.find (\<lambda>b. bd_resource b = ob_resource ob) (slice (en_bindings e)) of
          Some b \<Rightarrow> if ObservationDigest std (en_execution e) b ob \<noteq> Some (ob_id ob) then Inl ObservationDigestMismatch
                    else Inr (mput (ob_id ob) ob observations)
        | None \<Rightarrow> Inr (mput (ob_id ob) ob observations))"

fun check_reads ::
    "read_std \<Rightarrow> plan \<Rightarrow> envelope \<Rightarrow> (string, observation) gomap \<Rightarrow> observation list \<Rightarrow> read_error + (string, observation) gomap" where
  "check_reads std p e observations [] = Inr observations"
| "check_reads std p e observations (ob # obs) = rbind (check_read std p e observations ob) (\<lambda>m. check_reads std p e m obs)"

record usage_state =
  ut_claimed :: "string list"
  ut_usages :: "(string, usage) gomap"
  ut_live :: "string list"

fun claim_ids :: "envelope \<Rightarrow> (string, observation) gomap \<Rightarrow> usage \<Rightarrow> string list \<Rightarrow> string list \<Rightarrow> read_error + string list" where
  "claim_ids e observations u claimed [] = Inr claimed"
| "claim_ids e observations u claimed (i # ids) =
     (case mget observations i of None \<Rightarrow> Inl MissingObservation
      | Some ob \<Rightarrow>
         if \<not> list_ex (\<lambda>b. bd_resource b = ob_resource ob \<and> bd_provider b = us_provider u \<and> bd_rights b = us_rights u) (slice (en_bindings e))
         then Inl BindingMismatch
         else claim_ids e observations u (List.insert i claimed) ids)"

definition usage_key :: "read_std \<Rightarrow> usage \<Rightarrow> string" where
  "usage_key std u = case_option [] id (digest std (JArray [JString (us_provider u), JString (us_rights u)]))"

definition check_usage ::
    "read_std \<Rightarrow> string list \<Rightarrow> envelope \<Rightarrow> (string, observation) gomap \<Rightarrow> usage_state \<Rightarrow> usage \<Rightarrow> read_error + usage_state" where
  "check_usage std used e observations st u =
     (case texts [us_provider u, us_rights u] of Some err \<Rightarrow> Inl err | None \<Rightarrow>
      if us_observations u = [] \<or> length (us_observations u) > MaxItems \<or> us_rights u \<notin> set used then Inl UsageInvalid
      else if (case mget (ut_usages st) (usage_key std u) of Some prev \<Rightarrow> \<not> same std (usage_json prev) (usage_json u) | None \<Rightarrow> False)
      then Inl ConflictingUsage
      else rbind (claim_ids e observations u (ut_claimed st) (us_observations u)) (\<lambda>claimed.
        Inr \<lparr>ut_claimed = claimed, ut_usages = mput (usage_key std u) u (ut_usages st), ut_live = List.insert (us_rights u) (ut_live st)\<rparr>))"

fun check_usages ::
    "read_std \<Rightarrow> string list \<Rightarrow> envelope \<Rightarrow> (string, observation) gomap \<Rightarrow> usage_state \<Rightarrow> usage list \<Rightarrow> read_error + usage_state" where
  "check_usages std used e observations st [] = Inr st"
| "check_usages std used e observations st (u # us) =
     rbind (check_usage std used e observations st u) (\<lambda>st'. check_usages std used e observations st' us)"

definition max_reads :: "plan \<Rightarrow> int" where
  "max_reads p = (case pl_maxReads p of Some n \<Rightarrow> n | None \<Rightarrow> int MaxItems)"

definition max_bytes :: "plan \<Rightarrow> int" where
  "max_bytes p = (if pl_maxMetadataBytes p = 0 then int MaxMetadataBytes else pl_maxMetadataBytes p)"

definition metadata_json :: "plan \<Rightarrow> string list option \<Rightarrow> envelope \<Rightarrow> json" where
  "metadata_json p used e = JObject [(''sourceRights'', slice_json right_json (pl_rights p)), (''usedSourceIds'', slice_json JString used),
     (''providerReads'', envelope_json e)]"

definition check_budget :: "read_std \<Rightarrow> plan \<Rightarrow> string list option \<Rightarrow> envelope \<Rightarrow> read_error option" where
  "check_budget std p used e = (case Canonical (rd_floats std) (metadata_json p used e) of None \<Rightarrow> Some EncodingFailed
     | Some raw \<Rightarrow> refuse (int (length raw) > max_bytes p) MetadataBudget)"

definition Validate :: "read_std \<Rightarrow> envelope \<Rightarrow> plan \<Rightarrow> string list option \<Rightarrow> read_error option" where
  "Validate std e p used =
     (case validatePlan std p of Some err \<Rightarrow> Some err | None \<Rightarrow>
      if en_format e \<noteq> Format \<or> \<not> same std (execution_json (en_execution e)) (execution_json (pl_execution p)) \<or>
         \<not> same std (slice_json binding_json (en_bindings e)) (slice_json binding_json (pl_bindings p)) then Some PreflightMismatch
      else if en_reads e = None \<or> en_usage e = None \<or> int (length (slice (en_reads e))) > max_reads p \<or>
         length (slice (en_usage e)) > MaxItems \<or> used = None \<or> length (slice used) > MaxItems then Some EvidenceInventory
      else case check_used (slice (pl_rights p)) [] (slice used) of Some err \<Rightarrow> Some err | None \<Rightarrow>
        (case check_reads std p e [] (slice (en_reads e)) of Inl err \<Rightarrow> Some err | Inr observations \<Rightarrow>
         (case check_usages std (slice used) e observations \<lparr>ut_claimed = [], ut_usages = [], ut_live = []\<rparr> (slice (en_usage e)) of
            Inl err \<Rightarrow> Some err
          | Inr st \<Rightarrow>
              if length (ut_claimed st) \<noteq> length observations then Some UnclaimedObservation
              else if list_ex (\<lambda>b. bd_rights b \<in> set (slice used) \<and> bd_rights b \<notin> set (ut_live st)) (slice (en_bindings e)) then Some MissingLiveUsage
              else check_budget std p used e)))"

record metadata =
  md_rights :: "full_right list option"
  md_used :: "string list option"
  md_reads :: "envelope option"

definition ValidateMetadata :: "read_std \<Rightarrow> metadata \<Rightarrow> plan \<Rightarrow> string list option \<Rightarrow> read_error option" where
  "ValidateMetadata std m p admitted =
     (case md_reads m of None \<Rightarrow> Some EvidenceMissing
      | Some e \<Rightarrow>
         if \<not> same std (slice_json right_json (md_rights m)) (slice_json right_json (pl_rights p)) \<or>
            \<not> same std (slice_json JString (md_used m)) (slice_json JString admitted) then Some ResponseMismatch
         else Validate std e p admitted)"

section \<open>The collector (collector.go)\<close>

record collector =
  cl_plan :: plan
  cl_envelope :: envelope
  cl_err :: "read_error option"

text \<open>The detached copy of a plan: its document decoded again. Numbers of the parameters become \<^verbatim>\<open>float64\<close>.\<close>

fun thaw_json :: "read_std \<Rightarrow> json \<Rightarrow> param option" where
  "thaw_json std JNull = Some PNil"
| "thaw_json std (JBool b) = Some (PBool b)"
| "thaw_json std (JString s) = Some (PString s)"
| "thaw_json std (JNumber n) = map_option PFloat (sf_parse (rd_floats std) n)"
| "thaw_json std (JArray xs) = map_option PArray (those (map (thaw_json std) xs))"
| "thaw_json std (JObject kvs) = Some (POther (Some (JObject kvs)))"

definition freeze_request :: "read_std \<Rightarrow> request \<Rightarrow> request option" where
  "freeze_request std r = (case rq_params r of None \<Rightarrow> Some r
     | Some m \<Rightarrow> map_option (\<lambda>ps. r\<lparr>rq_params := Some ps\<rparr>)
         (those (map (\<lambda>(k, v). map_option (Pair k) (Option.bind (param_json std v) (thaw_json std))) m)))"

definition freeze_right :: "read_std \<Rightarrow> full_right \<Rightarrow> full_right option" where
  "freeze_right std r = (case ParseJSON (terms_url std) (MarshalJSON (fr_declaration r)) Directory of
     Inr d \<Rightarrow> Some (r\<lparr>fr_declaration := d\<rparr>) | Inl _ \<Rightarrow> None)"

definition freeze_slice :: "('a \<Rightarrow> 'a option) \<Rightarrow> 'a list option \<Rightarrow> 'a list option option" where
  "freeze_slice f xs = (case xs of None \<Rightarrow> Some None | Some ys \<Rightarrow> map_option Some (those (map f ys)))"

definition freeze_plan :: "read_std \<Rightarrow> plan \<Rightarrow> plan option" where
  "freeze_plan std p = Option.bind (freeze_slice (freeze_request std) (pl_requests p)) (\<lambda>rs.
     map_option (\<lambda>rights. p\<lparr>pl_requests := rs, pl_rights := rights\<rparr>) (freeze_slice (freeze_right std) (pl_rights p)))"

definition empty_envelope :: "plan \<Rightarrow> envelope" where
  "empty_envelope p = \<lparr>en_format = Format, en_execution = pl_execution p, en_bindings = pl_bindings p, en_reads = Some [], en_usage = Some []\<rparr>"

definition NewCollector :: "read_std \<Rightarrow> plan \<Rightarrow> read_error + collector" where
  "NewCollector std p =
     (case freeze_plan std p of None \<Rightarrow> Inl EncodingFailed | Some frozen \<Rightarrow>
      if Option.bind (plan_json std p) (Canonical (rd_floats std)) = None then Inl EncodingFailed
      else case validatePlan std frozen of Some e \<Rightarrow> Inl e | None \<Rightarrow>
        (case check_budget std frozen (Some []) (empty_envelope frozen) of Some e \<Rightarrow> Inl e
         | None \<Rightarrow> Inr \<lparr>cl_plan = frozen, cl_envelope = empty_envelope frozen, cl_err = None\<rparr>))"

text \<open>The observation the collector records for an adapter's read of an admitted request.\<close>

definition attested :: "plan \<Rightarrow> string \<Rightarrow> observation \<Rightarrow> observation" where
  "attested p h rd = rd\<lparr>ob_requestDigest := h, ob_attestation := attestation (pl_execution p)\<rparr>"

definition find_last :: "('a \<Rightarrow> bool) \<Rightarrow> 'a list \<Rightarrow> 'a option" where
  "find_last f xs = List.find f (rev xs)"

definition uses_binding :: "binding \<Rightarrow> usage \<Rightarrow> bool" where
  "uses_binding b u \<longleftrightarrow> us_provider u = bd_provider b \<and> us_rights u = bd_rights b"

text \<open>Adding an identifier to the usage of a binding: the last one that matches, or a new one.\<close>

fun add_last :: "binding \<Rightarrow> string \<Rightarrow> usage list \<Rightarrow> usage list option" where
  "add_last b i [] = None"
| "add_last b i (u # us) = (case add_last b i us of
     Some us' \<Rightarrow> Some (u # us')
   | None \<Rightarrow> if uses_binding b u then Some (u\<lparr>us_observations := us_observations u @ [i]\<rparr> # us) else None)"

definition add_usage :: "binding \<Rightarrow> string \<Rightarrow> usage list \<Rightarrow> usage list" where
  "add_usage b i us = (case add_last b i us of Some us' \<Rightarrow> us'
     | None \<Rightarrow> us @ [\<lparr>us_provider = bd_provider b, us_rights = bd_rights b, us_observations = [i]\<rparr>])"

definition used_rights :: "usage list \<Rightarrow> string list" where
  "used_rights us = fold (\<lambda>u used. if us_rights u \<in> set used then used else used @ [us_rights u]) us []"

definition planned_request :: "read_std \<Rightarrow> plan \<Rightarrow> request \<Rightarrow> bool" where
  "planned_request std p r \<longleftrightarrow> list_ex (\<lambda>q. case (request_json std q, request_json std r) of
     (Some a, Some b) \<Rightarrow> same std a b | _ \<Rightarrow> False) (slice (pl_requests p))"

text \<open>
  \<^verbatim>\<open>add\<close>, in two parts: the observation of an admitted request with its binding, and its place in the envelope,
  which is changed before it is validated. The result is the collector afterwards and the error.
\<close>

definition admit :: "read_std \<Rightarrow> plan \<Rightarrow> request \<Rightarrow> observation \<Rightarrow> read_error + (binding \<times> observation)" where
  "admit std p r rd =
     (case RequestDigest std r of None \<Rightarrow> Inl EncodingFailed | Some h \<Rightarrow>
      if \<not> planned_request std p r then Inl UnplannedRequest
      else if ob_resource rd \<noteq> rq_resource r \<or> ob_upstreamURL rd \<noteq> rq_upstreamURL r then Inl ResourceMismatch
      else let read1 = attested p h rd in
        (case find_last (\<lambda>b. bd_resource b = ob_resource read1) (slice (pl_bindings p)) of None \<Rightarrow> Inl BindingMissing
         | Some b \<Rightarrow>
            (case ObservationDigest std (pl_execution p) b read1 of None \<Rightarrow> Inl EncodingFailed
             | Some i \<Rightarrow>
               (case validateObservation std (read1\<lparr>ob_id := i\<rparr>) (pl_execution p) of Some e \<Rightarrow> Inl e
                | None \<Rightarrow> Inr (b, read1\<lparr>ob_id := i\<rparr>)))))"

definition add :: "read_std \<Rightarrow> collector \<Rightarrow> request \<Rightarrow> observation \<Rightarrow> collector \<times> read_error option" where
  "add std c r rd =
     (case admit std (cl_plan c) r rd of Inl e \<Rightarrow> (c, Some e)
      | Inr (b, ob) \<Rightarrow>
         (case List.find (\<lambda>prior. ob_id prior = ob_id ob) (slice (en_reads (cl_envelope c))) of
            Some prior \<Rightarrow> (c, if same std (observation_json prior) (observation_json ob) then None else Some ConflictingObservation)
          | None \<Rightarrow>
             let reads = slice (en_reads (cl_envelope c)) @ [ob];
                 us = add_usage b (ob_id ob) (slice (en_usage (cl_envelope c)));
                 env = (cl_envelope c)\<lparr>en_reads := Some reads, en_usage := Some us\<rparr>
             in (c\<lparr>cl_envelope := env\<rparr>, Validate std env (cl_plan c) (Some (used_rights us)))))"

definition Add :: "read_std \<Rightarrow> collector \<Rightarrow> request \<Rightarrow> observation \<Rightarrow> collector \<times> read_error option" where
  "Add std c r rd = (case cl_err c of Some e \<Rightarrow> (c, Some e)
     | None \<Rightarrow> (case add std c r rd of (c', None) \<Rightarrow> (c', None) | (c', Some e) \<Rightarrow> (c'\<lparr>cl_err := Some e\<rparr>, Some e)))"

text \<open>\<^verbatim>\<open>Finish\<close>. The envelope returned is the decoded document of the collector's, which has only strings and integers.\<close>

definition Finish :: "read_std \<Rightarrow> collector \<Rightarrow> string list option \<Rightarrow> read_error + envelope" where
  "Finish std c used = (case cl_err c of Some e \<Rightarrow> Inl e
     | None \<Rightarrow> (case Validate std (cl_envelope c) (cl_plan c) used of Some e \<Rightarrow> Inl e | None \<Rightarrow> Inr (cl_envelope c)))"

text \<open>A whole execution: a collector, the reads in order whatever each returns, and the end.\<close>

definition collect :: "read_std \<Rightarrow> plan \<Rightarrow> (request \<times> observation) list \<Rightarrow> string list option \<Rightarrow> read_error + envelope" where
  "collect std p reads used = rbind (NewCollector std p) (\<lambda>c. Finish std (fold (\<lambda>(r, rd) c. fst (Add std c r rd)) reads c) used)"

end
