(* ===== verification/Provider_Evidence.thy ===== *)
theory Provider_Evidence
  imports Provider_Reads
begin

text \<open>
  What an accepted envelope proves. Every read of an envelope that \<^verbatim>\<open>Validate\<close> accepts belongs to a planned request, is
  identified by the digest of its content under the one binding of its resource, and is claimed by a usage of that
  binding's source; and the collector's envelope holds exactly the reads it was given, all of them admitted.
\<close>

section \<open>Equal documents\<close>

lemma normal_member:
  assumes "normal std (JObject xs) = normal std (JObject ys)" and "normal std (JObject xs) \<noteq> None" and "(k, v) \<in> set xs"
  shows "\<exists>w. (k, w) \<in> set ys \<and> normal std w = normal std v"
proof -
  let ?f = "\<lambda>(k, v). map_option (Pair k) (normal std v)"
  obtain ms ns where ms: "those (map ?f xs) = Some ms" and ns: "those (map ?f ys) = Some ns"
    and "sort_key (utf16_key \<circ> fst) ms = sort_key (utf16_key \<circ> fst) ns"
    using assms(1,2) by (auto simp: option.map_sel split: option.splits)
  then have "set ms = set ns" by (metis set_sort)
  moreover have "\<exists>z. (k, z) \<in> set ms \<and> normal std v = Some z" using ms assms(3)
    by (induction xs arbitrary: ms) (fastforce split: option.splits)+
  ultimately obtain z where z: "(k, z) \<in> set ns" "normal std v = Some z" by auto
  show ?thesis using those_set [OF ns z(1)] z(2) by auto
qed

lemma those_map_eq: "those xs = those ys \<Longrightarrow> those xs \<noteq> None \<Longrightarrow> xs = ys"
proof (induction xs arbitrary: ys)
  case Nil
  then show ?case by (cases ys) (auto split: option.splits)
next
  case (Cons x xs)
  then show ?case by (cases ys) (auto split: option.splits)
qed

lemma same_normal:
  assumes "formats_numbers (rd_floats std)" and "same std a b"
  shows "normal (rd_floats std) a = normal (rd_floats std) b \<and> normal (rd_floats std) a \<noteq> None"
  using assms(2) canonical_equal_iff [OF assms(1), of a b] by (metis same_def)

lemma normal_string_member:
  assumes "normal std (JObject xs) = normal std (JObject ys)" and "normal std (JObject xs) \<noteq> None" and "(k, JString s) \<in> set xs"
  shows "(k, JString s) \<in> set ys"
proof -
  obtain w where w: "(k, w) \<in> set ys" "normal std w = normal std (JString s)" using normal_member [OF assms] by blast
  then have "w = JString s" by (cases w) auto
  with w show ?thesis by simp
qed

lemma same_binding:
  assumes "normal std (binding_json a) = normal std (binding_json b)"
  shows "a = b"
proof -
  have some: "normal std (binding_json a) \<noteq> None" by (simp add: binding_json_def)
  note m = normal_string_member [OF assms [unfolded binding_json_def] some [unfolded binding_json_def]]
  show ?thesis
    using m [of "''providerSourceId''"] m [of "''rightsSourceId''"] m [of "''resourceId''"] m [of "''definitionDigest''"]
      m [of "''decoderDigest''"] m [of "''rightsDigest''"]
    by (cases a; cases b) simp
qed

lemma map_option_JArray: "map_option JArray a = map_option JArray b \<Longrightarrow> a = b"
  by (cases a; cases b) auto

lemma same_bindings:
  assumes "formats_numbers (rd_floats std)" and "same std (slice_json binding_json xs) (slice_json binding_json ys)"
  shows "xs = ys"
proof -
  have inj: "inj (\<lambda>b. normal (rd_floats std) (binding_json b))" using same_binding by (auto simp: inj_def)
  show ?thesis
  proof (cases "xs = None \<or> ys = None")
    case True
    then show ?thesis using same_normal [OF assms] by (cases xs; cases ys) (auto simp: slice_json_def dest: sym)
  next
    case False
    then obtain as bs where l: "xs = Some as" "ys = Some bs" by auto
    have "map (\<lambda>b. normal (rd_floats std) (binding_json b)) as = map (\<lambda>b. normal (rd_floats std) (binding_json b)) bs"
    proof (rule those_map_eq)
      show "those (map (\<lambda>b. normal (rd_floats std) (binding_json b)) as) \<noteq> None" using same_normal [OF assms] l by (auto simp: slice_json_def comp_def)
      have "map_option JArray (those (map (\<lambda>b. normal (rd_floats std) (binding_json b)) as)) = map_option JArray (those (map (\<lambda>b. normal (rd_floats std) (binding_json b)) bs))"
        using same_normal [OF assms] l by (auto simp: slice_json_def comp_def)
      then show "those (map (\<lambda>b. normal (rd_floats std) (binding_json b)) as) = those (map (\<lambda>b. normal (rd_floats std) (binding_json b)) bs)"
        by (rule map_option_JArray)
    qed
    then show ?thesis using l inj by (simp add: inj_map_eq_map)
  qed
qed

lemma same_executions:
  assumes "formats_numbers (rd_floats std)" and "same std (execution_json a) (execution_json b)"
  shows "a = b"
proof -
  note n = same_normal [OF assms, unfolded execution_json_def]
  note m = normal_string_member [OF conjunct1 [OF n] conjunct2 [OF n]]
  show ?thesis using m [of "''id''"] m [of "''mode''"] m [of "''executorId''"] by (cases a; cases b) simp
qed

lemma same_observation_resource:
  assumes "formats_numbers (rd_floats std)" and "same std (observation_json a) (observation_json b)"
  shows "ob_resource a = ob_resource b"
proof -
  note n = same_normal [OF assms, unfolded observation_json_def]
  have "(''resourceId'', JString (ob_resource a)) \<in> set ((''observationId'', JString (ob_id b)) # read_members b)"
    by (rule normal_string_member [OF conjunct1 [OF n] conjunct2 [OF n]]) (simp add: read_members_def)
  then show ?thesis by (auto simp: read_members_def omit_empty_def int_json_def split: if_splits)
qed

section \<open>Plans\<close>

lemma check_bindings_None:
  "check_bindings std rights seen bs = None \<longleftrightarrow>
     (\<forall>b \<in> set bs. validateBinding b = None \<and> check_binding_right std rights b = None \<and> bd_resource b \<notin> set seen) \<and> distinct (map bd_resource bs)"
proof (induction bs arbitrary: seen)
  case (Cons a bs)
  show ?case using Cons.IH [of "bd_resource a # seen"] by (auto split: option.splits) (metis image_eqI)+
qed simp

lemma check_requests_None:
  "check_requests std resources seen rs = None \<Longrightarrow> r \<in> set rs \<Longrightarrow>
     validateRequest std r = None \<and> rq_resource r \<in> set resources \<and> (\<exists>h. RequestDigest std r = Some h)"
  by (induction rs arbitrary: seen) (auto split: option.splits if_splits)

lemma valid_plan_bindings:
  assumes "validatePlan std p = None"
  shows "distinct (map bd_resource (slice (pl_bindings p)))"
    and "r \<in> set (slice (pl_requests p)) \<Longrightarrow> \<exists>b \<in> set (slice (pl_bindings p)). bd_resource b = rq_resource r"
    and "r \<in> set (slice (pl_requests p)) \<Longrightarrow> \<exists>h. RequestDigest std r = Some h"
    and "b \<in> set (slice (pl_bindings p)) \<Longrightarrow> \<exists>s \<in> set (slice (pl_rights p)). fr_sourceID s = bd_rights b \<and> RightsDigest std s = Some (bd_rightsDigest b)"
proof -
  have b: "check_bindings std (slice (pl_rights p)) [] (slice (pl_bindings p)) = None"
    and r: "check_requests std (map bd_resource (slice (pl_bindings p))) [] (slice (pl_requests p)) = None"
    using assms by (auto simp: validatePlan_def check_simps)
  show "distinct (map bd_resource (slice (pl_bindings p)))" using b by (simp add: check_bindings_None)
  show "\<exists>b \<in> set (slice (pl_bindings p)). bd_resource b = rq_resource r" if "r \<in> set (slice (pl_requests p))"
    using check_requests_None [OF r that] by auto
  show "\<exists>h. RequestDigest std r = Some h" if "r \<in> set (slice (pl_requests p))" using check_requests_None [OF r that] by simp
  show "\<exists>s \<in> set (slice (pl_rights p)). fr_sourceID s = bd_rights b \<and> RightsDigest std s = Some (bd_rightsDigest b)"
    if "b \<in> set (slice (pl_bindings p))"
    using b that by (auto simp: check_bindings_None check_binding_right_def check_simps list_ex_iff)
qed

section \<open>Envelopes\<close>

text \<open>What \<^verbatim>\<open>Validate\<close> establishes of one read, and that equal identifiers mean equal resources.\<close>

definition read_ok :: "read_std \<Rightarrow> plan \<Rightarrow> envelope \<Rightarrow> observation \<Rightarrow> bool" where
  "read_ok std p e ob \<longleftrightarrow> validateObservation std ob (en_execution e) = None \<and> planned_read std p ob \<and>
     (case List.find (\<lambda>b. bd_resource b = ob_resource ob) (slice (en_bindings e)) of
        Some b \<Rightarrow> ObservationDigest std (en_execution e) b ob = Some (ob_id ob) | None \<Rightarrow> True)"

lemma check_read_Inr:
  "check_read std p e m ob = Inr m' \<longleftrightarrow> read_ok std p e ob \<and> m' = mput (ob_id ob) ob m \<and>
     (\<forall>prior. mget m (ob_id ob) = Some prior \<longrightarrow> same std (observation_json prior) (observation_json ob))"
  by (auto simp: check_read_def read_ok_def split: option.splits if_splits)

lemma check_reads_Inr:
  assumes "formats_numbers (rd_floats std)" and "check_reads std p e m obs = Inr m'" and "wf_map m"
  shows "wf_map m' \<and> set (mkeys m') = set (mkeys m) \<union> ob_id ` set obs \<and> (\<forall>ob \<in> set obs. read_ok std p e ob) \<and>
     (\<forall>i ob. mget m i = Some ob \<longrightarrow> (\<exists>ob'. mget m' i = Some ob' \<and> ob_resource ob' = ob_resource ob)) \<and>
     (\<forall>ob \<in> set obs. \<exists>ob'. mget m' (ob_id ob) = Some ob' \<and> ob_resource ob' = ob_resource ob)"
  using assms(2,3)
proof (induction obs arbitrary: m)
  case Nil
  then show ?case by auto
next
  case (Cons ob obs)
  obtain m1 where m1: "check_read std p e m ob = Inr m1" "check_reads std p e m1 obs = Inr m'" using Cons.prems by auto
  then have ok: "read_ok std p e ob" and put: "m1 = mput (ob_id ob) ob m"
    and prior: "\<And>q. mget m (ob_id ob) = Some q \<Longrightarrow> ob_resource q = ob_resource ob"
    using same_observation_resource [OF assms(1)] by (auto simp: check_read_Inr)
  have "wf_map m1" using put Cons.prems by auto
  note IH = Cons.IH [OF m1(2) this]
  have keep: "\<exists>ob'. mget m' i = Some ob' \<and> ob_resource ob' = ob_resource q" if "mget m i = Some q" for i q
  proof (cases "i = ob_id ob")
    case True
    then have "mget m1 i = Some ob" using put by simp
    then show ?thesis using IH prior that True by metis
  next
    case False
    then have "mget m1 i = Some q" using put that by simp
    then show ?thesis using IH by metis
  qed
  have new: "\<exists>ob'. mget m' (ob_id ob) = Some ob' \<and> ob_resource ob' = ob_resource ob"
  proof -
    have "mget m1 (ob_id ob) = Some ob" using put by simp
    then show ?thesis using IH by metis
  qed
  have "set (mkeys m') = set (mkeys m) \<union> ob_id ` set (ob # obs)" using IH unfolding put mkeys_put by auto
  then show ?case using IH ok keep new by auto
qed

text \<open>An identifier claimed by one of the usages \<open>us\<close>.\<close>

definition claimed_by :: "envelope \<Rightarrow> (string, observation) gomap \<Rightarrow> string list \<Rightarrow> usage list \<Rightarrow> string \<Rightarrow> bool" where
  "claimed_by e m used us i \<longleftrightarrow> (\<exists>u \<in> set us. \<exists>ob. \<exists>b \<in> set (slice (en_bindings e)). i \<in> set (us_observations u) \<and> us_rights u \<in> set used \<and>
     mget m i = Some ob \<and> bd_resource b = ob_resource ob \<and> uses_binding b u)"

lemma claim_ids_Inr:
  "claim_ids e m u claimed ids = Inr claimed' \<Longrightarrow> distinct claimed \<Longrightarrow>
     distinct claimed' \<and> set claimed' = set claimed \<union> set ids \<and>
     (\<forall>i \<in> set ids. \<exists>ob. \<exists>b \<in> set (slice (en_bindings e)). mget m i = Some ob \<and> bd_resource b = ob_resource ob \<and> uses_binding b u)"
  by (induction ids arbitrary: claimed)
    (fastforce simp: list_ex_iff uses_binding_def split: option.splits if_splits)+

lemma check_usage_Inr:
  assumes "check_usage std used e m st u = Inr st'" and "distinct (ut_claimed st)"
  shows "distinct (ut_claimed st')" and "set (ut_claimed st') = set (ut_claimed st) \<union> set (us_observations u)"
    and "i \<in> set (us_observations u) \<Longrightarrow> claimed_by e m used [u] i"
  using assms claim_ids_Inr [of e m u "ut_claimed st" "us_observations u"]
  by (auto simp: check_usage_def claimed_by_def split: option.splits if_splits)

lemma claimed_by_mono: "claimed_by e m used us i \<Longrightarrow> set us \<subseteq> set us' \<Longrightarrow> claimed_by e m used us' i"
  unfolding claimed_by_def by blast

lemma check_usages_Inr:
  "check_usages std used e m st us = Inr st' \<Longrightarrow> distinct (ut_claimed st) \<Longrightarrow>
     distinct (ut_claimed st') \<and> (\<forall>i \<in> set (ut_claimed st'). i \<in> set (ut_claimed st) \<or> claimed_by e m used us i)"
proof (induction us arbitrary: st)
  case (Cons u us)
  obtain st1 where st1: "check_usage std used e m st u = Inr st1" "check_usages std used e m st1 us = Inr st'" using Cons.prems by auto
  note one = check_usage_Inr [OF st1(1) Cons.prems(2)]
  have rest: "distinct (ut_claimed st') \<and> (\<forall>i \<in> set (ut_claimed st'). i \<in> set (ut_claimed st1) \<or> claimed_by e m used us i)"
    using Cons.IH [OF st1(2) one(1)] .
  have "claimed_by e m used (u # us) i" if "claimed_by e m used [u] i \<or> claimed_by e m used us i" for i
    using that claimed_by_mono by (metis insertCI list.set(2) set_subset_Cons subsetI set_ConsD list.set_intros(1) empty_iff list.set(1))
  then show ?case using rest one by blast
qed simp

lemma claimed_by_key: "claimed_by e m used us i \<Longrightarrow> i \<in> set (mkeys m)"
  using mget_keys by (fastforce simp: claimed_by_def)

lemma all_claimed:
  assumes "distinct c" and "set c \<subseteq> set (mkeys m)" and "wf_map m" and "length c = length m"
  shows "set c = set (mkeys m)"
proof (rule card_subset_eq)
  show "card (set c) = card (set (mkeys m))" using assms distinct_card [of c] distinct_card [of "mkeys m"] by (simp add: wf_map_def del: set_map)
qed (use assms in auto)

lemma Validate_None:
  assumes "formats_numbers (rd_floats std)" and "Validate std e p used = None"
  shows "validatePlan std p = None" and "en_execution e = pl_execution p" and "en_bindings e = pl_bindings p"
    and "ob \<in> set (slice (en_reads e)) \<Longrightarrow> read_ok std p e ob"
    and "ob \<in> set (slice (en_reads e)) \<Longrightarrow> \<exists>m ob'. mget m (ob_id ob) = Some ob' \<and> ob_resource ob' = ob_resource ob \<and>
           claimed_by e m (slice used) (slice (en_usage e)) (ob_id ob)"
proof -
  let ?st = "\<lparr>ut_claimed = [], ut_usages = [], ut_live = []\<rparr>"
  obtain m st where r: "check_reads std p e [] (slice (en_reads e)) = Inr m" and u: "check_usages std (slice used) e m ?st (slice (en_usage e)) = Inr st"
    and len: "length (ut_claimed st) = length m"
    and pre: "validatePlan std p = None" "same std (execution_json (en_execution e)) (execution_json (pl_execution p))"
      "same std (slice_json binding_json (en_bindings e)) (slice_json binding_json (pl_bindings p))"
    using assms(2) by (auto simp: Validate_def split: option.splits if_splits sum.splits)
  show "validatePlan std p = None" "en_execution e = pl_execution p" "en_bindings e = pl_bindings p"
    using pre same_executions [OF assms(1)] same_bindings [OF assms(1)] by auto
  have wf: "wf_map ([] :: (string, observation) gomap)" by auto
  note R = check_reads_Inr [OF assms(1) r wf]
  show "read_ok std p e ob" if "ob \<in> set (slice (en_reads e))" using R that by blast
  have d: "distinct (ut_claimed st)" and c: "\<forall>i \<in> set (ut_claimed st). claimed_by e m (slice used) (slice (en_usage e)) i"
    using check_usages_Inr [OF u] by auto
  then have all: "set (ut_claimed st) = set (mkeys m)" using R len claimed_by_key by (intro all_claimed) blast+
  show "\<exists>m ob'. mget m (ob_id ob) = Some ob' \<and> ob_resource ob' = ob_resource ob \<and>
      claimed_by e m (slice used) (slice (en_usage e)) (ob_id ob)" if ob: "ob \<in> set (slice (en_reads e))"
  proof -
    have "ob_id ob \<in> set (ut_claimed st)" using R ob all by auto
    then show ?thesis using R ob c by blast
  qed
qed

text \<open>The binding of a read's resource.\<close>

lemma find_by_resource:
  assumes "distinct (map bd_resource bs)" and "b \<in> set bs"
  shows "List.find (\<lambda>x. bd_resource x = bd_resource b) bs = Some b"
  using assms by (induction bs) (auto simp: image_iff)

lemma read_ok_bound:
  assumes plan: "validatePlan std p = None" and "en_bindings e = pl_bindings p" and "en_execution e = pl_execution p"
    and ok: "read_ok std p e ob" and "b \<in> set (slice (pl_bindings p))" and "bd_resource b = ob_resource ob"
  shows "ObservationDigest std (pl_execution p) b ob = Some (ob_id ob)"
  using find_by_resource [OF valid_plan_bindings(1) [OF plan] assms(5)] assms by (simp add: read_ok_def)

lemma planned_readD:
  assumes "validatePlan std p = None" and "planned_read std p ob"
  shows "\<exists>r \<in> set (slice (pl_requests p)). RequestDigest std r = Some (ob_requestDigest ob) \<and> rq_resource r = ob_resource ob \<and> rq_upstreamURL r = ob_upstreamURL ob"
  using assms(2) valid_plan_bindings(3) [OF assms(1)] by (fastforce simp: planned_read_def list_ex_iff)

text \<open>
  C11. An accepted envelope is bound to its plan. Every read in it answers a planned request - the request's digest, resource and
  URL are those of the read - with a 2xx status; its resource has a binding of the plan whose source right the plan holds under
  the digest the binding names; its identifier is the digest of its own content under that binding and execution; and a usage
  of exactly that binding's provider and rights source claims it, a source the execution declared as used. So no read can be
  added, relabelled, moved to another source or left unclaimed.
\<close>

theorem accepted_evidence_is_bound:
  assumes "formats_numbers (rd_floats std)" and "Validate std e p used = None" and "ob \<in> set (slice (en_reads e))"
  shows "\<exists>r \<in> set (slice (pl_requests p)). \<exists>b \<in> set (slice (pl_bindings p)). \<exists>s \<in> set (slice (pl_rights p)). \<exists>u \<in> set (slice (en_usage e)).
     RequestDigest std r = Some (ob_requestDigest ob) \<and> rq_resource r = ob_resource ob \<and> rq_upstreamURL r = ob_upstreamURL ob \<and>
     200 \<le> ob_status ob \<and> ob_status ob \<le> 299 \<and>
     bd_resource b = ob_resource ob \<and> fr_sourceID s = bd_rights b \<and> RightsDigest std s = Some (bd_rightsDigest b) \<and>
     ObservationDigest std (pl_execution p) b ob = Some (ob_id ob) \<and>
     ob_id ob \<in> set (us_observations u) \<and> us_provider u = bd_provider b \<and> us_rights u = bd_rights b \<and> bd_rights b \<in> set (slice used)"
proof -
  note V = Validate_None [OF assms(1,2)]
  have ok: "read_ok std p e ob" using V(4) assms(3) .
  obtain m ob' where m: "mget m (ob_id ob) = Some ob'" "ob_resource ob' = ob_resource ob" "claimed_by e m (slice used) (slice (en_usage e)) (ob_id ob)"
    using V(5) [OF assms(3)] by blast
  then obtain u b where u: "u \<in> set (slice (en_usage e))" "ob_id ob \<in> set (us_observations u)" "us_rights u \<in> set (slice used)"
    and b: "b \<in> set (slice (pl_bindings p))" "bd_resource b = ob_resource ob" "uses_binding b u"
    using V(3) by (auto simp: claimed_by_def)
  obtain r where r: "r \<in> set (slice (pl_requests p))" "RequestDigest std r = Some (ob_requestDigest ob)" "rq_resource r = ob_resource ob"
      "rq_upstreamURL r = ob_upstreamURL ob"
    using planned_readD [OF V(1)] ok by (auto simp: read_ok_def)
  obtain s where s: "s \<in> set (slice (pl_rights p))" "fr_sourceID s = bd_rights b" "RightsDigest std s = Some (bd_rightsDigest b)"
    using valid_plan_bindings(4) [OF V(1) b(1)] by blast
  have st: "200 \<le> ob_status ob \<and> ob_status ob \<le> 299" using ok by (auto simp: read_ok_def validateObservation_def check_simps)
  have d: "ObservationDigest std (pl_execution p) b ob = Some (ob_id ob)" using read_ok_bound [OF V(1,3,2) ok b(1,2)] .
  show ?thesis
    by (rule bexI [OF _ r(1)], rule bexI [OF _ b(1)], rule bexI [OF _ s(1)], rule bexI [OF _ u(1)])
      (use r b s u st d in \<open>simp add: uses_binding_def\<close>)
qed

section \<open>The collector\<close>

text \<open>The observations \<open>obs\<close> are those of the reads \<open>taken\<close>, all of them admitted.\<close>

definition accounted :: "read_std \<Rightarrow> plan \<Rightarrow> (request \<times> observation) list \<Rightarrow> observation list \<Rightarrow> bool" where
  "accounted std p taken obs \<longleftrightarrow>
     (\<forall>x \<in> set taken. \<exists>b ob. admit std p (fst x) (snd x) = Inr (b, ob) \<and> ob_id ob \<in> ob_id ` set obs) \<and>
     (\<forall>ob \<in> set obs. \<exists>x \<in> set taken. \<exists>b. admit std p (fst x) (snd x) = Inr (b, ob)) \<and> distinct (map ob_id obs)"

lemma accounted_new:
  "accounted std p taken obs \<Longrightarrow> admit std p r rd = Inr (b, ob) \<Longrightarrow> ob_id ob \<notin> ob_id ` set obs \<Longrightarrow> accounted std p (taken @ [(r, rd)]) (obs @ [ob])"
  unfolding accounted_def by fastforce

lemma accounted_again:
  "accounted std p taken obs \<Longrightarrow> admit std p r rd = Inr (b, ob) \<Longrightarrow> ob_id ob \<in> ob_id ` set obs \<Longrightarrow> accounted std p (taken @ [(r, rd)]) obs"
  unfolding accounted_def by fastforce

definition col_inv :: "read_std \<Rightarrow> plan \<Rightarrow> (request \<times> observation) list \<Rightarrow> collector \<Rightarrow> bool" where
  "col_inv std p taken c \<longleftrightarrow> cl_plan c = p \<and> (cl_err c = None \<longrightarrow> accounted std p taken (slice (en_reads (cl_envelope c))))"

lemma find_id_None: "List.find (\<lambda>q. ob_id q = i) xs = None \<longleftrightarrow> i \<notin> ob_id ` set xs"
  by (auto simp: find_None_iff)

lemma find_id_Some: "List.find (\<lambda>q. ob_id q = i) xs = Some q \<Longrightarrow> i \<in> ob_id ` set xs"
  using find_id_None [of i xs] by (metis option.distinct(1))

lemma col_inv_Add:
  assumes "col_inv std p taken c"
  shows "col_inv std p (taken @ [(r, rd)]) (fst (Add std c r rd))"
proof (cases "cl_err c = None \<and> snd (Add std c r rd) = None")
  case False
  then show ?thesis using assms
    by (auto simp: col_inv_def Add_def add_def Let_def split: option.splits sum.splits prod.splits)
next
  case True
  then obtain b ob where a: "admit std p r rd = Inr (b, ob)"
    using assms by (auto simp: col_inv_def Add_def add_def split: option.splits sum.splits prod.splits)
  have err: "cl_err c = None" and pl: "cl_plan c = p" using True assms by (auto simp: col_inv_def)
  show ?thesis
  proof (cases "List.find (\<lambda>q. ob_id q = ob_id ob) (slice (en_reads (cl_envelope c)))")
    case None
    then have new: "ob_id ob \<notin> ob_id ` set (slice (en_reads (cl_envelope c)))" by (simp add: find_id_None)
    obtain c' where c': "fst (Add std c r rd) = c'" "cl_plan c' = p" "slice (en_reads (cl_envelope c')) = slice (en_reads (cl_envelope c)) @ [ob]"
      using None a pl err by (auto simp: Add_def add_def Let_def split: option.splits)
    show ?thesis using assms new a c' err accounted_new [of std p taken _ r rd b ob] unfolding col_inv_def by auto
  next
    case (Some q)
    then have "fst (Add std c r rd) = c" using True a pl err by (auto simp: Add_def add_def split: option.splits if_splits)
    then show ?thesis using assms a err find_id_Some [OF Some] accounted_again unfolding col_inv_def by auto
  qed
qed

lemma col_inv_fold:
  "col_inv std p taken c \<Longrightarrow> col_inv std p (taken @ reads) (fold (\<lambda>(r, rd) c. fst (Add std c r rd)) reads c)"
proof (induction reads arbitrary: taken c)
  case (Cons x reads)
  obtain r rd where x: "x = (r, rd)" by force
  show ?case using Cons.IH [OF col_inv_Add [OF Cons.prems, of r rd]] by (simp add: x)
qed simp

text \<open>
  C28. A collector that finishes accounts for the execution. If \<^verbatim>\<open>Finish\<close> returns an envelope, then the envelope validates
  against the plan as it was detached at the start, every read that was added was admitted and is in it under its identifier,
  nothing else is, and no identifier occurs twice: one refused read anywhere makes \<^verbatim>\<open>Finish\<close> fail.
\<close>

theorem collected_evidence_is_complete:
  assumes "collect std p reads used = Inr env"
  shows "\<exists>frozen. freeze_plan std p = Some frozen \<and> Validate std env frozen used = None \<and>
     (\<forall>x \<in> set reads. \<exists>b ob. admit std frozen (fst x) (snd x) = Inr (b, ob) \<and> ob_id ob \<in> ob_id ` set (slice (en_reads env))) \<and>
     (\<forall>ob \<in> set (slice (en_reads env)). \<exists>x \<in> set reads. \<exists>b. admit std frozen (fst x) (snd x) = Inr (b, ob)) \<and>
     distinct (map ob_id (slice (en_reads env)))"
proof -
  obtain c where c: "NewCollector std p = Inr c" "Finish std (fold (\<lambda>(r, rd) c. fst (Add std c r rd)) reads c) used = Inr env"
    using assms by (auto simp: collect_def)
  let ?c = "fold (\<lambda>(r, rd) c. fst (Add std c r rd)) reads c"
  obtain frozen where f: "freeze_plan std p = Some frozen" "c = \<lparr>cl_plan = frozen, cl_envelope = empty_envelope frozen, cl_err = None\<rparr>"
    using c(1) by (auto simp: NewCollector_def split: option.splits if_splits)
  have "col_inv std frozen [] c" by (simp add: f(2) col_inv_def empty_envelope_def accounted_def)
  then have inv: "col_inv std frozen reads ?c" using col_inv_fold [of std frozen "[]" c reads] by simp
  have fin: "cl_err ?c = None" "Validate std (cl_envelope ?c) (cl_plan ?c) used = None" "env = cl_envelope ?c"
    using c(2) by (auto simp: Finish_def split: option.splits)
  then have "Validate std env frozen used = None" "accounted std frozen reads (slice (en_reads env))" using inv by (auto simp: col_inv_def)
  then show ?thesis using f(1) unfolding accounted_def by blast
qed

section \<open>A concrete execution\<close>

text \<open>
  The parameters with which the witnesses run: integers for floats, a constant digest, a parser that knows one URL. The
  documents of the run have valid strings and small integers, so each has canonical bytes, of bounded length.
\<close>

fun small_doc :: "json \<Rightarrow> bool" where
  "small_doc (JNumber n) = (\<exists>v. n = format_int v \<and> 0 \<le> v \<and> v < 1000)"
| "small_doc (JString s) = valid_utf8 s"
| "small_doc (JArray xs) = list_all small_doc xs"
| "small_doc (JObject kvs) = list_all (\<lambda>(k, v). valid_utf8 k \<and> small_doc v) kvs"
| "small_doc _ = True"

fun doc_bound :: "json \<Rightarrow> nat" where
  "doc_bound (JNumber n) = length n"
| "doc_bound (JString s) = 6 * length s + 2"
| "doc_bound (JArray xs) = 2 + sum_list (map (\<lambda>x. doc_bound x + 1) xs)"
| "doc_bound (JObject kvs) = 2 + sum_list (map (\<lambda>(k, v). 6 * length k + 4 + doc_bound v) kvs)"
| "doc_bound _ = 5"

lemma format_zero: "format_int 0 = ''0''"
  by code_simp

lemma small_number: "0 \<le> v \<Longrightarrow> v < 1000 \<Longrightarrow> canonical_number sample_floats (format_int v) = Some (format_int v)"
  using parse_format_int64 [of v] by (cases "v = 0") (auto simp: canonical_number_def sample_floats_def format_zero)

lemma small_strings: "small_doc j \<Longrightarrow> strings_valid j"
  by (induction j rule: small_doc.induct) (auto simp: list_all_iff)

lemma escape_byte_length: "length (escape_byte c) \<le> 6"
  by (auto simp: escape_byte_def escape_rune_def)

lemma canonical_string_length: "valid_utf8 s \<Longrightarrow> length (canonical_string s) \<le> 6 * length s + 2"
proof -
  assume "valid_utf8 s"
  then have "length (canonical_string s) = 2 + sum_list (map (length \<circ> escape_byte) s)"
    by (simp add: canonical_string_def escape_runes_bytes length_concat)
  also have "sum_list (map (length \<circ> escape_byte) s) \<le> 6 * length s"
    by (induction s) (use escape_byte_length in \<open>auto intro: add_mono\<close>)
  finally show ?thesis by simp
qed

lemma join_with_length: "length (join_with '','' xs) \<le> sum_list (map (\<lambda>x. length x + 1) xs)"
  by (induction xs rule: join_with.induct [where P = "\<lambda>_ xs. length (join_with '','' xs) \<le> sum_list (map (\<lambda>x. length x + 1) xs)" for sep]) auto

lemma those_Some: "(\<And>x. x \<in> set xs \<Longrightarrow> f x \<noteq> None) \<Longrightarrow> those (map f xs) = Some (map (the \<circ> f) xs)"
  by (induction xs) (fastforce split: option.splits)+

lemma sum_list_sort: "sum_list (map (f :: 'a \<Rightarrow> nat) (sort_key g xs)) = sum_list (map f xs)"
  by (metis mset_map mset_sort sum_mset_sum_list)

lemma small_doc_bytes: "small_doc j \<Longrightarrow> \<exists>s. canonical sample_floats j = Some s \<and> length s \<le> doc_bound j"
proof (induction j rule: doc_bound.induct)
  case (1 n)
  then show ?case by (auto simp: small_number)
next
  case (2 s)
  then show ?case using canonical_string_length [of s] by simp
next
  case (3 xs)
  let ?t = "\<lambda>x. the (canonical sample_floats x)"
  have x: "canonical sample_floats x \<noteq> None \<and> length (?t x) \<le> doc_bound x" if "x \<in> set xs" for x
    using 3(1) [OF that] 3(2) that by (auto simp: list_all_iff)
  have "length (join_with '','' (map ?t xs)) \<le> sum_list (map (\<lambda>x. length (?t x) + 1) xs)"
    using join_with_length [of "map ?t xs"] by (simp add: comp_def)
  also have "\<dots> \<le> sum_list (map (\<lambda>x. doc_bound x + 1) xs)" using x by (intro sum_list_mono) auto
  finally show ?case using those_Some [of xs "canonical sample_floats"] x by (auto simp: comp_def)
next
  case (4 kvs)
  let ?g = "\<lambda>(k, v). map_option (Pair k) (canonical sample_floats v)"
  let ?m = "map (\<lambda>(k, v). (k, the (canonical sample_floats v))) kvs"
  let ?p = "\<lambda>(k, s). canonical_string k @ '':'' @ s"
  have x: "valid_utf8 k \<and> canonical sample_floats v \<noteq> None \<and> length (the (canonical sample_floats v)) \<le> doc_bound v" if "(k, v) \<in> set kvs" for k v
    using 4(1) [OF that refl] 4(2) that by (force simp: list_all_iff)
  have "the (?g q) = (\<lambda>(k, v). (k, the (canonical sample_floats v))) q" if "q \<in> set kvs" for q
    using x [of "fst q" "snd q"] that by (cases q) (auto simp: option.map_sel)
  then have "map (the \<circ> ?g) kvs = ?m" by (intro map_cong) (simp_all add: comp_def)
  then have m: "those (map ?g kvs) = Some ?m" using those_Some [of kvs ?g] x by auto
  have "length (join_with '','' (map ?p (sort_key (utf16_key \<circ> fst) ?m))) \<le> sum_list (map (\<lambda>q. length (?p q) + 1) (sort_key (utf16_key \<circ> fst) ?m))"
    using join_with_length [of "map ?p (sort_key (utf16_key \<circ> fst) ?m)"] by (simp add: comp_def)
  also have "\<dots> = sum_list (map (\<lambda>q. length (?p q) + 1) ?m)"
    by (rule sum_list_sort)
  also have "\<dots> \<le> sum_list (map (\<lambda>(k, v). 6 * length k + 4 + doc_bound v) kvs)"
    using x canonical_string_length by (auto simp: comp_def intro!: sum_list_mono) (fastforce)
  finally show ?case using m by simp
qed auto

definition sample_digest :: string where
  "sample_digest = replicate 64 CHR ''a''"

definition sample_url :: string where
  "sample_url = ''https://x.io/a''"

definition sample_std :: read_std where
  "sample_std = \<lparr>rd_floats = sample_floats, rd_float_json = (\<lambda>f. None), rd_sha = (\<lambda>s. replicate 32 CHR 0xAA),
     rd_parse_url = (\<lambda>s. if s = sample_url then Some \<lparr>url_scheme = ''https'', url_hostname = ''x.io'', url_has_user = False, url_opaque = [],
       fu_fragment = [], fu_string = s, fu_path = ''/a'', fu_port = [], fu_escaped_path = ''/a''\<rparr> else None),
     rd_instant = (\<lambda>s. True), rd_date = (\<lambda>s. Some s)\<rparr>"

definition sample_right :: full_right where
  "sample_right = \<lparr>fr_sourceID = ''s'', fr_source = \<lparr>i_serverID = ''v'', i_databaseID = [], i_recordset = []\<rparr>,
     fr_declaration = \<lparr>dc_name = [], dc_spdx = ''MIT'', dc_url = [], dc_text = [], dc_legacy = False\<rparr>, fr_scope = ''server'',
     fr_declaredAt = \<lparr>i_serverID = ''v'', i_databaseID = [], i_recordset = []\<rparr>, fr_origin = ''o'', fr_pins = Some [],
     fr_attribution = None, fr_freeSource = None, fr_transformations = Some [], fr_publisher = None\<rparr>"

definition sample_binding :: binding where
  "sample_binding = \<lparr>bd_provider = ''p'', bd_rights = ''s'', bd_resource = ''r'', bd_definitionDigest = sample_digest,
     bd_decoderDigest = sample_digest, bd_rightsDigest = sample_digest\<rparr>"

definition sample_request :: request where
  "sample_request = \<lparr>rq_resource = ''r'', rq_method = ''GET'', rq_upstreamURL = sample_url, rq_params = Some []\<rparr>"

definition sample_plan :: plan where
  "sample_plan = \<lparr>pl_execution = \<lparr>ex_id = ''e'', ex_mode = ''direct'', ex_executorID = ''x''\<rparr>, pl_bindings = Some [sample_binding],
     pl_requests = Some [sample_request], pl_rights = Some [sample_right], pl_maxReads = None, pl_maxMetadataBytes = 0\<rparr>"

definition sample_read :: observation where
  "sample_read = \<lparr>ob_id = sample_digest, ob_resource = ''r'', ob_requestDigest = sample_digest, ob_fetchedAt = ''2024-01-02T03:04:05Z'',
     ob_upstreamURL = sample_url, ob_status = 200, ob_contentType = ''t'', ob_sha256 = sample_digest, ob_bytes = 7, ob_referenceDate = [],
     ob_lastModified = [], ob_etag = [], ob_attestation = ''direct-executor-observed''\<rparr>"

definition sample_envelope :: envelope where
  "sample_envelope = \<lparr>en_format = Format, en_execution = pl_execution sample_plan, en_bindings = pl_bindings sample_plan,
     en_reads = Some [sample_read], en_usage = Some [\<lparr>us_provider = ''p'', us_rights = ''s'', us_observations = [sample_digest]\<rparr>]\<rparr>"

lemma plain_text:
  "list_all (\<lambda>c. 0x20 \<le> byte c \<and> byte c < 0x7F) s \<Longrightarrow> s \<noteq> [] \<Longrightarrow> length s \<le> 4096 \<Longrightarrow> check_text s blank multiline = None"
proof -
  assume a: "list_all (\<lambda>c. 0x20 \<le> byte c \<and> byte c < 0x7F) s" "s \<noteq> []" "length s \<le> 4096"
  then have asc: "is_ascii s" by (auto simp: is_ascii_def list_all_iff)
  have "utf16_key s = map byte s" unfolding utf16_key_def runes_ascii [OF asc] using a(1) by (induction s) (auto simp: utf16_rune_def)
  then show ?thesis using a asc
    by (auto simp: check_text_def valid_utf8_ascii runes_ascii check_simps list_all_iff is_control_def)
qed

lemma blank_text: "check_text [] True multiline = None"
  by (simp add: check_text_def valid_utf8_ascii is_ascii_def utf16_key_def check_simps)

lemma plain_utf8: "list_all (\<lambda>c. byte c < 0x80) s \<Longrightarrow> valid_utf8 s"
  by (rule valid_utf8_ascii) (simp add: is_ascii_def list_all_iff)

lemma sample_digests: "small_doc j \<Longrightarrow> digest sample_std j = Some sample_digest"
proof -
  assume "small_doc j"
  moreover have "hex_encode (replicate 32 CHR 0xAA) = sample_digest" by code_simp
  ultimately show ?thesis using small_doc_bytes [of j] small_strings [of j]
    by (auto simp: digest_def Digest_def Canonical_def sample_std_def)
qed

lemma sample_same: "small_doc j \<Longrightarrow> same sample_std j j"
  using small_doc_bytes [of j] small_strings [of j] by (auto simp: same_def canonical_equal_def Canonical_def sample_std_def)

lemma small_numbers [simp]: "small_doc (int_json 0)" "small_doc (int_json 7)" "small_doc (int_json 200)"
  by (auto simp: int_json_def)

lemma sample_plain [simp]:
  "list_all (\<lambda>c. byte c < 0x80) sample_digest" "digestShape sample_digest" "list_all (\<lambda>c. byte c < 0x80) sample_url" "length sample_digest = 64"
  by (simp_all add: sample_digest_def digestShape_def lower_hex_def sample_url_def list_all_iff)

lemmas sample_defs = sample_plan_def sample_binding_def sample_request_def sample_right_def sample_read_def sample_envelope_def

lemma small_execution [simp]: "small_doc (execution_json (pl_execution sample_plan))"
  by (simp add: execution_json_def sample_plan_def plain_utf8)

lemma small_right [simp]: "small_doc (right_json sample_right)"
  by (simp add: right_json_def sample_right_def identity_json_def declaration_json_def slice_json_def omit_nil_def omit_empty_def plain_utf8)

lemma small_binding [simp]: "small_doc (binding_json sample_binding)"
  by (simp add: binding_json_def sample_binding_def plain_utf8)

lemma small_members [simp]: "list_all (\<lambda>(k, v). valid_utf8 k \<and> small_doc v) (read_members sample_read)"
  by (simp add: read_members_def sample_read_def omit_empty_def plain_utf8)

lemma sample_fields [simp]: "pl_bindings sample_plan = Some [sample_binding]" "ob_id sample_read = sample_digest"
    "pl_requests sample_plan = Some [sample_request]" "pl_rights sample_plan = Some [sample_right]"
  by (simp_all add: sample_plan_def sample_read_def)

lemma small_envelope [simp]: "small_doc (envelope_json sample_envelope)"
  by (simp add: envelope_json_def sample_envelope_def slice_json_def observation_json_def usage_json_def Format_def plain_utf8)

lemma sample_RightsDigest: "RightsDigest sample_std sample_right = Some sample_digest"
  unfolding RightsDigest_def by (rule sample_digests) (simp add: plain_utf8)

lemma sample_RequestDigest: "RequestDigest sample_std sample_request = Some sample_digest"
  by (simp add: RequestDigest_def sample_request_def params_json_def sample_digests plain_utf8)

lemma sample_ObservationDigest: "ObservationDigest sample_std (pl_execution sample_plan) sample_binding sample_read = Some sample_digest"
  unfolding ObservationDigest_def by (rule sample_digests) (simp add: plain_utf8)

lemma sample_safeURL: "safeURL sample_std sample_url = None"
proof -
  have "check_url_chars sample_url = None" "canonicalDNS ''x.io''" by code_simp+
  then show ?thesis by (simp add: safeURL_def sample_std_def check_simps plain_text) (simp add: sample_url_def plain_text check_simps has_prefix_def)
qed

lemma sample_observation: "validateObservation sample_std sample_read (pl_execution sample_plan) = None"
proof -
  have "instantShape ''2024-01-02T03:04:05Z''" by code_simp
  then show ?thesis
    by (simp add: validateObservation_def check_simps digests_def texts_def plain_text sample_read_def sample_plan_def sample_safeURL attestation_def
        max_safe_integer_def) (simp add: sample_std_def)
qed

lemma sample_rights: "check_right sample_std [] sample_right = None"
proof -
  have "boundedJSON (right_json sample_right) [] = None"
    by (simp add: right_json_def sample_right_def identity_json_def declaration_json_def slice_json_def omit_nil_def omit_empty_def plain_text check_simps)
  moreover have "declaration_validate (terms_url sample_std) (fr_declaration sample_right) Directory = None"
    by (simp add: sample_right_def declaration_validate_def) code_simp
  moreover have "Canonical (rd_floats sample_std) (right_json sample_right) \<noteq> None"
    using small_doc_bytes [OF small_right] small_strings [OF small_right] by (auto simp: Canonical_def sample_std_def)
  ultimately show ?thesis
    by (simp add: check_right_def check_simps) (simp add: sample_right_def texts_def check_simps plain_text check_notice_def)
qed

lemma sample_validatePlan: "validatePlan sample_std sample_plan = None"
proof -
  have "validateExecution (pl_execution sample_plan) = None"
    by (simp add: validateExecution_def check_simps texts_def plain_text sample_plan_def)
  moreover have "validateRights sample_std sample_plan = None" by (simp add: validateRights_def sample_rights MaxItems_def)
  moreover have "check_bindings sample_std [sample_right] [] [sample_binding] = None"
    using sample_RightsDigest
    by (simp add: validateBinding_def check_simps texts_def digests_def plain_text check_binding_right_def) (simp add: sample_binding_def sample_right_def plain_text)
  moreover have "check_requests sample_std [bd_resource sample_binding] [] [sample_request] = None"
    using sample_safeURL sample_RequestDigest
    by (simp add: validateRequest_def) (simp add: sample_request_def sample_binding_def texts_def check_simps plain_text)
  ultimately show ?thesis
    by (simp add: validatePlan_def check_simps) (simp add: sample_plan_def MaxItems_def MaxMetadataBytes_def)
qed

lemma small_canonical:
  "small_doc j \<Longrightarrow> Canonical (rd_floats sample_std) j \<noteq> None \<and> length (the (Canonical (rd_floats sample_std) j)) \<le> doc_bound j"
  using small_doc_bytes [of j] small_strings [of j] by (auto simp: Canonical_def sample_std_def)

lemma small_budget:
  assumes "small_doc (metadata_json sample_plan used e)" and "doc_bound (metadata_json sample_plan used e) \<le> 200000"
  shows "check_budget sample_std sample_plan used e = None"
  using small_canonical [OF assms(1)] assms(2)
  by (auto simp: check_budget_def check_simps max_bytes_def sample_plan_def MaxMetadataBytes_def)

lemma int_json_length: "doc_bound (int_json 7) = 1" "doc_bound (int_json 200) = 3"
  by (simp_all add: int_json_def format_int_def decimal_digits.simps [of 7] decimal_digits.simps [of 200] decimal_digits.simps [of 20] decimal_digits.simps [of 2])

lemma sample_budget: "check_budget sample_std sample_plan (Some [''s'']) sample_envelope = None"
proof (rule small_budget)
  show "small_doc (metadata_json sample_plan (Some [''s'']) sample_envelope)" by (simp add: metadata_json_def slice_json_def plain_utf8)
  show "doc_bound (metadata_json sample_plan (Some [''s'']) sample_envelope) \<le> 200000"
    by (simp add: metadata_json_def envelope_json_def sample_envelope_def slice_json_def observation_json_def read_members_def usage_json_def
        Format_def execution_json_def sample_plan_def right_json_def sample_right_def identity_json_def declaration_json_def omit_nil_def
        omit_empty_def binding_json_def sample_binding_def sample_read_def sample_url_def int_json_length)
qed

lemma sample_planned: "planned_read sample_std sample_plan sample_read"
  using sample_RequestDigest by (simp add: planned_read_def) (simp add: sample_request_def sample_read_def)

lemma sample_Validate: "Validate sample_std sample_envelope sample_plan (Some [''s'']) = None"
proof -
  have e [simp]: "en_format sample_envelope = Format" "en_execution sample_envelope = pl_execution sample_plan" "en_bindings sample_envelope = Some [sample_binding]"
    "en_reads sample_envelope = Some [sample_read]" "en_usage sample_envelope = Some [\<lparr>us_provider = ''p'', us_rights = ''s'', us_observations = [sample_digest]\<rparr>]"
    by (simp_all add: sample_envelope_def)
  have r [simp]: "bd_resource sample_binding = ob_resource sample_read" "fr_sourceID sample_right = ''s''" "bd_provider sample_binding = ''p''" "bd_rights sample_binding = ''s''"
    by (simp_all add: sample_binding_def sample_read_def sample_right_def)
  have "same sample_std (execution_json (pl_execution sample_plan)) (execution_json (pl_execution sample_plan))"
    "same sample_std (slice_json binding_json (Some [sample_binding])) (slice_json binding_json (Some [sample_binding]))"
    by (simp_all add: sample_same slice_json_def)
  moreover have "check_reads sample_std sample_plan sample_envelope [] [sample_read] = Inr [(sample_digest, sample_read)]"
    using sample_observation sample_planned sample_ObservationDigest by (simp add: check_read_def)
  moreover have "1 \<le> max_reads sample_plan" by (simp add: max_reads_def sample_plan_def MaxItems_def)
  ultimately show ?thesis
    using sample_validatePlan sample_budget
    by (simp add: Validate_def check_usage_def texts_def plain_text check_simps MaxItems_def)
qed

theorem accepted_evidence_is_bound_witness:
  "\<exists>r \<in> set (slice (pl_requests sample_plan)). \<exists>b \<in> set (slice (pl_bindings sample_plan)). \<exists>s \<in> set (slice (pl_rights sample_plan)).
   \<exists>u \<in> set (slice (en_usage sample_envelope)).
     RequestDigest sample_std r = Some (ob_requestDigest sample_read) \<and> rq_resource r = ob_resource sample_read \<and> rq_upstreamURL r = ob_upstreamURL sample_read \<and>
     200 \<le> ob_status sample_read \<and> ob_status sample_read \<le> 299 \<and>
     bd_resource b = ob_resource sample_read \<and> fr_sourceID s = bd_rights b \<and> RightsDigest sample_std s = Some (bd_rightsDigest b) \<and>
     ObservationDigest sample_std (pl_execution sample_plan) b sample_read = Some (ob_id sample_read) \<and>
     ob_id sample_read \<in> set (us_observations u) \<and> us_provider u = bd_provider b \<and> us_rights u = bd_rights b \<and> bd_rights b \<in> set (slice (Some [''s'']))"
proof (rule accepted_evidence_is_bound [OF _ sample_Validate])
  show "formats_numbers (rd_floats sample_std)" using sample_floats_format by (simp add: sample_std_def)
  show "sample_read \<in> set (slice (en_reads sample_envelope))" by (simp add: sample_envelope_def)
qed

lemma sample_spdx: "ValidateSPDX ''MIT'' Directory = None"
  by code_simp

lemma sample_freeze: "freeze_plan sample_std sample_plan = Some sample_plan"
proof -
  have "ParseJSON (terms_url sample_std) (MarshalJSON (fr_declaration sample_right)) Directory = Inr (fr_declaration sample_right)"
    using sample_spdx by (simp add: sample_right_def MarshalJSON_def ParseJSON_def decl_member_def no_declaration_def declaration_validate_def trim_space_id is_ascii_def is_space_def)
  then have "freeze_right sample_std sample_right = Some sample_right" by (simp add: freeze_right_def)
  moreover have "freeze_request sample_std sample_request = Some sample_request" by (simp add: freeze_request_def sample_request_def)
  ultimately show ?thesis by (simp add: freeze_plan_def freeze_slice_def)
qed

lemma sample_NewCollector:
  "NewCollector sample_std sample_plan = Inr \<lparr>cl_plan = sample_plan, cl_envelope = empty_envelope sample_plan, cl_err = None\<rparr>"
proof -
  obtain j where j: "plan_json sample_std sample_plan = Some j" "small_doc j"
    by (simp add: plan_json_def request_json_def params_json_def sample_request_def slice_json_def plain_utf8) (simp add: sample_plan_def plain_utf8)
  have "check_budget sample_std sample_plan (Some []) (empty_envelope sample_plan) = None"
  proof (rule small_budget)
    show "small_doc (metadata_json sample_plan (Some []) (empty_envelope sample_plan))"
      by (simp add: metadata_json_def slice_json_def empty_envelope_def envelope_json_def Format_def plain_utf8)
    show "doc_bound (metadata_json sample_plan (Some []) (empty_envelope sample_plan)) \<le> 200000"
      by (simp add: metadata_json_def envelope_json_def empty_envelope_def slice_json_def Format_def execution_json_def sample_plan_def
          right_json_def sample_right_def identity_json_def declaration_json_def omit_nil_def omit_empty_def binding_json_def sample_binding_def)
  qed
  then show ?thesis
    using j small_canonical [of j] sample_freeze sample_validatePlan by (auto simp: NewCollector_def)
qed

lemma sample_admit: "admit sample_std sample_plan sample_request sample_read = Inr (sample_binding, sample_read)"
proof -
  have same_id: "sample_read\<lparr>ob_id := sample_digest\<rparr> = sample_read" by (simp add: sample_read_def)
  have "attested sample_plan sample_digest sample_read = sample_read" by (simp add: attested_def sample_read_def attestation_def sample_plan_def)
  moreover have "planned_request sample_std sample_plan sample_request"
    by (simp add: planned_request_def request_json_def params_json_def) (simp add: sample_request_def sample_same plain_utf8)
  moreover have "ob_resource sample_read = rq_resource sample_request" "ob_upstreamURL sample_read = rq_upstreamURL sample_request"
    "bd_resource sample_binding = rq_resource sample_request"
    by (simp_all add: sample_read_def sample_request_def sample_binding_def)
  ultimately show ?thesis
    using sample_RequestDigest sample_ObservationDigest sample_observation by (simp add: admit_def find_last_def same_id)
qed

lemma sample_collect: "collect sample_std sample_plan [(sample_request, sample_read)] (Some [''s'']) = Inr sample_envelope"
proof -
  have e: "(empty_envelope sample_plan)\<lparr>en_reads := Some [sample_read], en_usage := Some (add_usage sample_binding sample_digest [])\<rparr> = sample_envelope"
    "used_rights (add_usage sample_binding sample_digest []) = [''s'']"
    by (simp_all add: empty_envelope_def sample_envelope_def add_usage_def sample_binding_def used_rights_def)
  have "Add sample_std \<lparr>cl_plan = sample_plan, cl_envelope = empty_envelope sample_plan, cl_err = None\<rparr> sample_request sample_read =
     (\<lparr>cl_plan = sample_plan, cl_envelope = sample_envelope, cl_err = None\<rparr>, None)"
    using sample_admit sample_Validate e by (simp add: Add_def add_def Let_def) (simp add: empty_envelope_def)
  then show ?thesis using sample_NewCollector sample_Validate by (simp add: collect_def Finish_def)
qed

theorem collected_evidence_is_complete_witness:
  "\<exists>frozen. freeze_plan sample_std sample_plan = Some frozen \<and> Validate sample_std sample_envelope frozen (Some [''s'']) = None \<and>
     (\<forall>x \<in> set [(sample_request, sample_read)]. \<exists>b ob. admit sample_std frozen (fst x) (snd x) = Inr (b, ob) \<and>
        ob_id ob \<in> ob_id ` set (slice (en_reads sample_envelope))) \<and>
     (\<forall>ob \<in> set (slice (en_reads sample_envelope)). \<exists>x \<in> set [(sample_request, sample_read)]. \<exists>b. admit sample_std frozen (fst x) (snd x) = Inr (b, ob)) \<and>
     distinct (map ob_id (slice (en_reads sample_envelope)))"
  by (rule collected_evidence_is_complete [OF sample_collect])

end
