(* ===== verification/Provider_Wire.thy ===== *)
theory Provider_Wire
  imports Provider_Reads
begin

text \<open>
  \<^verbatim>\<open>src/pkg/providerreads/decode.go\<close>: the closed wire form of an envelope. The tokens of \<^verbatim>\<open>encoding/json\<close> come as a
  document with repeated keys kept (\<open>Json_Doc\<close>); the parameter \<open>tokens\<close> gives the document of some bytes and whether anything
  follows it. The \<^verbatim>\<open>reflect.Type\<close> that \<^verbatim>\<open>closedShape\<close> walks is a value of \<open>shape\<close>.
\<close>

datatype wire_error =
    WireSize | BadEscape | BadScalar | Malformed | DuplicateKey | ExtraValue | NullField | ExpectedObject | MissingField string
  | UnknownField string | BadArray | BadString | BadNumber | WireDecode

section \<open>Escapes\<close>

definition hex4 :: "string \<Rightarrow> nat option" where
  "hex4 s = (case map unhex s of [Some a, Some b, Some c, Some d] \<Rightarrow> Some (4096 * a + 256 * b + 16 * c + d) | _ \<Rightarrow> None)"

text \<open>
  \<^verbatim>\<open>scalarEscapes\<close>: the scan of the bytes, inside a string or not. After a backslash the next byte is skipped, four more after
  a \<open>u\<close>, and six more for the low half of a surrogate pair.
\<close>

function scalarEscapes :: "bool \<Rightarrow> string \<Rightarrow> wire_error option" where
  "scalarEscapes inside [] = None"
| "scalarEscapes inside (c # s) =
     (if c = quote then scalarEscapes (\<not> inside) s
      else if \<not> inside \<or> c \<noteq> backslash then scalarEscapes inside s
      else case s of [] \<Rightarrow> Some BadEscape
        | d # t \<Rightarrow>
           if d \<noteq> CHR ''u'' then scalarEscapes inside t
           else if length t < 4 then Some BadEscape
           else case hex4 (take 4 t) of None \<Rightarrow> Some BadEscape
             | Some n \<Rightarrow>
                if 0xD800 \<le> n \<and> n \<le> 0xDBFF then
                  (if length t < 10 \<or> t ! 4 \<noteq> backslash \<or> t ! 5 \<noteq> CHR ''u'' then Some BadScalar
                   else case hex4 (take 4 (drop 6 t)) of None \<Rightarrow> Some BadScalar
                     | Some low \<Rightarrow> if low < 0xDC00 \<or> low > 0xDFFF then Some BadScalar else scalarEscapes inside (drop 10 t))
                else if 0xDC00 \<le> n \<and> n \<le> 0xDFFF then Some BadScalar
                else scalarEscapes inside (drop 4 t))"
  by pat_completeness auto
termination by (relation "measure (\<lambda>(inside, s). length s)") auto

section \<open>Documents\<close>

text \<open>\<^verbatim>\<open>readJSON\<close>: the tree, or an error at the first repeated key.\<close>

fun no_duplicates :: "json \<Rightarrow> bool" where
  "no_duplicates (JArray xs) = list_all no_duplicates xs"
| "no_duplicates (JObject kvs) = (distinct (map fst kvs) \<and> list_all (\<lambda>(k, v). no_duplicates v) kvs)"
| "no_duplicates _ = True"

datatype shape = Struct "(string \<times> bool \<times> shape) list" | Slice shape | Text | Number

function closedShape :: "json \<Rightarrow> shape \<Rightarrow> wire_error option" where
  "closedShape v t =
     (if v = JNull then Some NullField
      else case t of
          Struct fs \<Rightarrow>
            (case v of
               JObject kvs \<Rightarrow>
                 (case check_all (\<lambda>(key, omitempty, ft). case map_of kvs key of
                      None \<Rightarrow> refuse (\<not> omitempty) (MissingField key)
                    | Some item \<Rightarrow> closedShape item ft) fs of
                    Some e \<Rightarrow> Some e
                  | None \<Rightarrow> check_all (\<lambda>key. refuse (key \<notin> set (map fst fs)) (UnknownField key)) (map fst kvs))
             | _ \<Rightarrow> Some ExpectedObject)
        | Slice elem \<Rightarrow>
            (case v of JArray xs \<Rightarrow> if length xs > MaxItems then Some BadArray else check_all (\<lambda>item. closedShape item elem) xs
             | _ \<Rightarrow> Some BadArray)
        | Text \<Rightarrow> (case v of JString s \<Rightarrow> refuse (s = []) BadString | _ \<Rightarrow> Some BadString)
        | Number \<Rightarrow> (case v of JNumber n \<Rightarrow> None | _ \<Rightarrow> Some BadNumber))"
  by pat_completeness auto
termination
proof (relation "measure (\<lambda>(v, t). size t)")
  fix v t fs kvs and x :: "string \<times> bool \<times> shape" and key y omitempty ft item
  assume "t = Struct fs" "x \<in> set fs" "(key, y) = x" "(omitempty, ft) = y"
  then show "((item, ft), v, t) \<in> measure (\<lambda>(v, t). size t)"
    using size_list_estimation' [of x fs "size ft" "size_prod (\<lambda>x. 0) (size_prod (\<lambda>x. 0) size)"] by auto
qed auto

definition execution_shape :: shape where
  "execution_shape = Struct [(''id'', False, Text), (''mode'', False, Text), (''executorId'', False, Text)]"

definition binding_shape :: shape where
  "binding_shape = Struct [(''providerSourceId'', False, Text), (''rightsSourceId'', False, Text), (''resourceId'', False, Text),
     (''definitionDigest'', False, Text), (''decoderDigest'', False, Text), (''rightsDigest'', False, Text)]"

definition observation_shape :: shape where
  "observation_shape = Struct [(''observationId'', False, Text), (''resourceId'', False, Text), (''requestDigest'', False, Text),
     (''fetchedAt'', False, Text), (''upstreamUrl'', False, Text), (''status'', False, Number), (''contentType'', False, Text),
     (''sha256'', False, Text), (''bytes'', False, Number), (''referenceDate'', True, Text), (''lastModified'', True, Text),
     (''etag'', True, Text), (''attestation'', False, Text)]"

definition usage_shape :: shape where
  "usage_shape = Struct [(''providerSourceId'', False, Text), (''rightsSourceId'', False, Text), (''observationIds'', False, Slice Text)]"

definition envelope_shape :: shape where
  "envelope_shape = Struct [(''format'', False, Text), (''execution'', False, execution_shape), (''bindings'', False, Slice binding_shape),
     (''reads'', False, Slice observation_shape), (''usage'', False, Slice usage_shape)]"

section \<open>Decoding into the structs\<close>

text \<open>
  \<^verbatim>\<open>json.Decoder.Decode\<close> into an \<^verbatim>\<open>Envelope\<close> of a document of its shape: an absent member leaves the zero value, an integer field
  takes only the text of an integer in range.
\<close>

definition text_at :: "string \<Rightarrow> (string \<times> json) list \<Rightarrow> string" where
  "text_at k kvs = (case map_of kvs k of Some (JString s) \<Rightarrow> s | _ \<Rightarrow> [])"

definition int_at :: "string \<Rightarrow> (string \<times> json) list \<Rightarrow> int option" where
  "int_at k kvs = (case map_of kvs k of Some (JNumber n) \<Rightarrow> parse_int64 n | _ \<Rightarrow> Some 0)"

fun members :: "json \<Rightarrow> (string \<times> json) list" where
  "members (JObject kvs) = kvs"
| "members _ = []"

fun items :: "json \<Rightarrow> json list" where
  "items (JArray xs) = xs"
| "items _ = []"

definition member_at :: "string \<Rightarrow> (string \<times> json) list \<Rightarrow> json" where
  "member_at k kvs = case_option JNull id (map_of kvs k)"

definition decode_execution :: "json \<Rightarrow> execution" where
  "decode_execution j = (let m = members j in \<lparr>ex_id = text_at ''id'' m, ex_mode = text_at ''mode'' m, ex_executorID = text_at ''executorId'' m\<rparr>)"

definition decode_binding :: "json \<Rightarrow> binding" where
  "decode_binding j = (let m = members j in \<lparr>bd_provider = text_at ''providerSourceId'' m, bd_rights = text_at ''rightsSourceId'' m,
     bd_resource = text_at ''resourceId'' m, bd_definitionDigest = text_at ''definitionDigest'' m, bd_decoderDigest = text_at ''decoderDigest'' m,
     bd_rightsDigest = text_at ''rightsDigest'' m\<rparr>)"

definition decode_observation :: "json \<Rightarrow> observation option" where
  "decode_observation j = (let m = members j in
     Option.bind (int_at ''status'' m) (\<lambda>status. Option.bind (int_at ''bytes'' m) (\<lambda>bytes. Some
       \<lparr>ob_id = text_at ''observationId'' m, ob_resource = text_at ''resourceId'' m, ob_requestDigest = text_at ''requestDigest'' m,
        ob_fetchedAt = text_at ''fetchedAt'' m, ob_upstreamURL = text_at ''upstreamUrl'' m, ob_status = status,
        ob_contentType = text_at ''contentType'' m, ob_sha256 = text_at ''sha256'' m, ob_bytes = bytes,
        ob_referenceDate = text_at ''referenceDate'' m, ob_lastModified = text_at ''lastModified'' m, ob_etag = text_at ''etag'' m,
        ob_attestation = text_at ''attestation'' m\<rparr>)))"

definition decode_usage :: "json \<Rightarrow> usage" where
  "decode_usage j = (let m = members j in \<lparr>us_provider = text_at ''providerSourceId'' m, us_rights = text_at ''rightsSourceId'' m,
     us_observations = map (\<lambda>x. case x of JString s \<Rightarrow> s | _ \<Rightarrow> []) (items (member_at ''observationIds'' m))\<rparr>)"

definition decode_envelope :: "json \<Rightarrow> envelope option" where
  "decode_envelope j = (let m = members j in map_option (\<lambda>reads.
     \<lparr>en_format = text_at ''format'' m, en_execution = decode_execution (member_at ''execution'' m),
      en_bindings = Some (map decode_binding (items (member_at ''bindings'' m))), en_reads = Some reads,
      en_usage = Some (map decode_usage (items (member_at ''usage'' m)))\<rparr>) (those (map decode_observation (items (member_at ''reads'' m)))))"

definition Decode :: "(string \<Rightarrow> (json \<times> bool) option) \<Rightarrow> string \<Rightarrow> wire_error + envelope" where
  "Decode tokens raw =
     (if length raw > MaxMetadataBytes \<or> \<not> valid_utf8 raw then Inl WireSize
      else case scalarEscapes False raw of Some e \<Rightarrow> Inl e | None \<Rightarrow>
        (case tokens raw of None \<Rightarrow> Inl Malformed
         | Some (j, trailing) \<Rightarrow>
            if \<not> no_duplicates j then Inl DuplicateKey
            else if trailing then Inl ExtraValue
            else case closedShape j envelope_shape of Some e \<Rightarrow> Inl e
              | None \<Rightarrow> (case decode_envelope j of Some e \<Rightarrow> Inr e | None \<Rightarrow> Inl WireDecode)))"

section \<open>Round trip\<close>

lemma length_those: "those xs = Some ys \<Longrightarrow> length ys = length xs"
  by (induction xs arbitrary: ys) (auto split: option.splits)

text \<open>An envelope the wire form can carry: no empty text but in the optional fields, at most 64 items, 64-bit integers.\<close>

definition wire_texts :: "string list \<Rightarrow> bool" where
  "wire_texts ss \<longleftrightarrow> list_all (\<lambda>s. s \<noteq> []) ss"

definition int64 :: "int \<Rightarrow> bool" where
  "int64 n \<longleftrightarrow> - (2 ^ 63) \<le> n \<and> n < 2 ^ 63"

definition wire_binding :: "binding \<Rightarrow> bool" where
  "wire_binding b \<longleftrightarrow> wire_texts [bd_provider b, bd_rights b, bd_resource b, bd_definitionDigest b, bd_decoderDigest b, bd_rightsDigest b]"

definition wire_observation :: "observation \<Rightarrow> bool" where
  "wire_observation ob \<longleftrightarrow> wire_texts [ob_id ob, ob_resource ob, ob_requestDigest ob, ob_fetchedAt ob, ob_upstreamURL ob, ob_contentType ob,
     ob_sha256 ob, ob_attestation ob] \<and> int64 (ob_status ob) \<and> int64 (ob_bytes ob)"

definition wire_usage :: "usage \<Rightarrow> bool" where
  "wire_usage u \<longleftrightarrow> wire_texts ([us_provider u, us_rights u] @ us_observations u) \<and> length (us_observations u) \<le> MaxItems"

definition wire_list :: "('a \<Rightarrow> bool) \<Rightarrow> 'a list option \<Rightarrow> bool" where
  "wire_list f xs \<longleftrightarrow> (case xs of None \<Rightarrow> False | Some ys \<Rightarrow> length ys \<le> MaxItems \<and> list_all f ys)"

definition wire_envelope :: "envelope \<Rightarrow> bool" where
  "wire_envelope e \<longleftrightarrow> wire_texts [en_format e, ex_id (en_execution e), ex_mode (en_execution e), ex_executorID (en_execution e)] \<and>
     wire_list wire_binding (en_bindings e) \<and> wire_list wire_observation (en_reads e) \<and> wire_list wire_usage (en_usage e)"

declare closedShape.simps [simp del]

lemma closed_struct:
  "closedShape (JObject kvs) (Struct fs) = None \<longleftrightarrow>
     (\<forall>(key, omitempty, ft) \<in> set fs. case map_of kvs key of None \<Rightarrow> omitempty | Some item \<Rightarrow> closedShape item ft = None) \<and> set (map fst kvs) \<subseteq> set (map fst fs)"
  by (subst closedShape.simps) (auto simp: check_simps split: option.splits)

lemma closed_slice: "closedShape (JArray xs) (Slice t) = None \<longleftrightarrow> length xs \<le> MaxItems \<and> (\<forall>x \<in> set xs. closedShape x t = None)"
  by (subst closedShape.simps) (auto simp: check_simps)

lemma closed_text: "closedShape (JString s) Text = None \<longleftrightarrow> s \<noteq> []"
  by (subst closedShape.simps) (auto simp: check_simps)

lemma closed_number: "closedShape (int_json n) Number = None"
  by (subst closedShape.simps) (auto simp: int_json_def)

lemmas closed_simps = closed_struct closed_slice closed_text closed_number

lemma execution_closed: "wire_texts [ex_id e, ex_mode e, ex_executorID e] \<Longrightarrow> closedShape (execution_json e) execution_shape = None"
  by (simp add: execution_json_def execution_shape_def closed_simps wire_texts_def)

lemma binding_closed: "wire_binding b \<Longrightarrow> closedShape (binding_json b) binding_shape = None"
  by (simp add: binding_json_def binding_shape_def closed_simps wire_binding_def wire_texts_def)

lemma observation_closed: "wire_observation ob \<Longrightarrow> closedShape (observation_json ob) observation_shape = None"
  by (auto simp: observation_json_def read_members_def omit_empty_def observation_shape_def closed_simps wire_observation_def wire_texts_def)

lemma usage_closed: "wire_usage u \<Longrightarrow> closedShape (usage_json u) usage_shape = None"
  by (auto simp: usage_json_def usage_shape_def closed_simps wire_usage_def wire_texts_def list_all_iff)

lemma envelope_closed: "wire_envelope e \<Longrightarrow> closedShape (envelope_json e) envelope_shape = None"
  using execution_closed binding_closed observation_closed usage_closed
  by (auto simp: envelope_json_def envelope_shape_def closed_simps wire_envelope_def wire_texts_def wire_list_def slice_json_def list_all_iff split: option.splits)

lemma decode_execution_json: "decode_execution (execution_json e) = e"
  by (simp add: decode_execution_def execution_json_def text_at_def)

lemma decode_binding_json: "decode_binding (binding_json b) = b"
  by (simp add: decode_binding_def binding_json_def text_at_def)

lemma decode_usage_json: "decode_usage (usage_json u) = u"
  by (simp add: decode_usage_def usage_json_def text_at_def member_at_def comp_def)

lemma decode_observation_json: "wire_observation ob \<Longrightarrow> decode_observation (observation_json ob) = Some ob"
  by (simp add: decode_observation_def observation_json_def read_members_def omit_empty_def text_at_def int_at_def int_json_def
      wire_observation_def int64_def parse_format_int64)

lemma decode_envelope_json: "wire_envelope e \<Longrightarrow> decode_envelope (envelope_json e) = Some e"
proof -
  assume w: "wire_envelope e"
  then obtain bs rs us where l: "en_bindings e = Some bs" "en_reads e = Some rs" "en_usage e = Some us" "list_all wire_observation rs"
    by (auto simp: wire_envelope_def wire_list_def split: option.splits)
  have "those (map (decode_observation \<circ> observation_json) rs) = Some rs"
    using l(4) by (induction rs) (auto simp: decode_observation_json)
  then show ?thesis
    using l by (simp add: decode_envelope_def envelope_json_def text_at_def member_at_def slice_json_def decode_execution_json comp_def decode_binding_json decode_usage_json)
qed

lemma envelope_no_duplicates: "no_duplicates (envelope_json e)"
proof -
  have o1: "no_duplicates (observation_json ob)" for ob
    by (simp add: observation_json_def read_members_def omit_empty_def int_json_def)
  show ?thesis
    by (auto simp: envelope_json_def execution_json_def binding_json_def usage_json_def slice_json_def list_all_iff o1 split: option.splits)
qed


text \<open>What decodes has the shape, so nothing is defaulted but an absent optional field.\<close>

lemma struct_shapeD:
  assumes "closedShape j (Struct fs) = None"
  shows "\<exists>kvs. j = JObject kvs \<and> (\<forall>(key, omitempty, ft) \<in> set fs. case map_of kvs key of None \<Rightarrow> omitempty | Some item \<Rightarrow> closedShape item ft = None)"
  using assms closed_struct by (cases j) (auto simp: closedShape.simps)

lemma slice_shapeD: "closedShape j (Slice t) = None \<Longrightarrow> \<exists>xs. j = JArray xs \<and> length xs \<le> MaxItems \<and> (\<forall>x \<in> set xs. closedShape x t = None)"
  using closed_slice by (cases j) (auto simp: closedShape.simps)

lemma text_shapeD: "closedShape j Text = None \<Longrightarrow> \<exists>s. j = JString s \<and> s \<noteq> []"
  using closed_text by (cases j) (auto simp: closedShape.simps)

lemma required_member:
  assumes "closedShape j (Struct fs) = None" and "(key, False, ft) \<in> set fs"
  shows "\<exists>item. map_of (members j) key = Some item \<and> closedShape item ft = None"
proof -
  obtain kvs where "j = JObject kvs" "case map_of kvs key of None \<Rightarrow> False | Some item \<Rightarrow> closedShape item ft = None"
    using struct_shapeD [OF assms(1)] assms(2) by fastforce
  then show ?thesis by (auto split: option.splits)
qed

lemma required_text: "closedShape j (Struct fs) = None \<Longrightarrow> (key, False, Text) \<in> set fs \<Longrightarrow> text_at key (members j) \<noteq> []"
  by (drule (1) required_member) (auto simp: text_at_def dest!: text_shapeD)

lemma required_slice:
  assumes "closedShape j (Struct fs) = None" and "(key, False, Slice t) \<in> set fs"
  shows "length (items (member_at key (members j))) \<le> MaxItems" and "x \<in> set (items (member_at key (members j))) \<Longrightarrow> closedShape x t = None"
  using required_member [OF assms] by (auto simp: member_at_def dest!: slice_shapeD)

lemma int_at_range: "int_at k kvs = Some n \<Longrightarrow> int64 n"
  by (auto simp: int_at_def int64_def parse_int64_def Let_def split: option.splits json.splits if_splits)

lemma wire_binding_shape: "closedShape j binding_shape = None \<Longrightarrow> wire_binding (decode_binding j)"
  using required_text [of j] by (simp add: binding_shape_def wire_binding_def wire_texts_def decode_binding_def Let_def)

lemma wire_observation_shape: "closedShape j observation_shape = None \<Longrightarrow> decode_observation j = Some ob \<Longrightarrow> wire_observation ob"
  using required_text [of j] by (auto simp: observation_shape_def wire_observation_def wire_texts_def decode_observation_def Let_def int_at_range bind_eq_Some_conv)

lemma wire_usage_shape: "closedShape j usage_shape = None \<Longrightarrow> wire_usage (decode_usage j)"
proof -
  assume a: "closedShape j usage_shape = None"
  note s = a [unfolded usage_shape_def]
  have "(case x of JString t \<Rightarrow> t | _ \<Rightarrow> []) \<noteq> []" if "x \<in> set (items (member_at ''observationIds'' (members j)))" for x
    using text_shapeD [OF required_slice(2) [OF s _ that]] by auto
  then show ?thesis
    using required_text [OF s, of "''providerSourceId''"] required_text [OF s, of "''rightsSourceId''"] required_slice(1) [OF s, of "''observationIds''" Text]
    by (simp add: wire_usage_def wire_texts_def decode_usage_def Let_def list_all_iff)
qed

text \<open>
  Nothing else decodes: whatever bytes \<^verbatim>\<open>Decode\<close> accepts give an envelope in which every mandatory text is present, every list
  has at most 64 entries and every integer fits in 64 bits, read from a document without repeated or unknown members.
\<close>

theorem wire_form_is_closed:
  assumes "Decode tokens raw = Inr e"
  shows "wire_envelope e \<and> (\<exists>j. tokens raw = Some (j, False) \<and> no_duplicates j \<and> closedShape j envelope_shape = None)"
proof -
  obtain j where j: "tokens raw = Some (j, False)" "no_duplicates j" "closedShape j envelope_shape = None" "decode_envelope j = Some e"
    using assms by (auto simp: Decode_def split: if_splits option.splits)
  note s = j(3) [unfolded envelope_shape_def]
  obtain rs where rs: "those (map decode_observation (items (member_at ''reads'' (members j)))) = Some rs"
    and e: "e = \<lparr>en_format = text_at ''format'' (members j), en_execution = decode_execution (member_at ''execution'' (members j)),
      en_bindings = Some (map decode_binding (items (member_at ''bindings'' (members j)))), en_reads = Some rs,
      en_usage = Some (map decode_usage (items (member_at ''usage'' (members j))))\<rparr>"
    using j(4) by (auto simp: decode_envelope_def Let_def)
  have "closedShape (member_at ''execution'' (members j)) execution_shape = None" using required_member [OF s, of "''execution''"] by (auto simp: member_at_def)
  then have ex: "wire_texts [text_at ''format'' (members j), ex_id (en_execution e), ex_mode (en_execution e), ex_executorID (en_execution e)]"
    using required_text [OF s, of "''format''"] required_text [of "member_at ''execution'' (members j)"]
    by (simp add: e wire_texts_def decode_execution_def Let_def execution_shape_def)
  have "length rs = length (items (member_at ''reads'' (members j)))" using rs by (metis length_map length_those)
  moreover have "wire_observation ob" if "ob \<in> set rs" for ob
    using those_set [OF rs that] required_slice(2) [OF s, of "''reads''"] wire_observation_shape by auto
  ultimately have "wire_list wire_observation (en_reads e)" using required_slice(1) [OF s, of "''reads''"] by (simp add: e wire_list_def list_all_iff)
  moreover have "wire_list wire_binding (en_bindings e)"
    using required_slice [OF s, of "''bindings''"] wire_binding_shape by (auto simp: e wire_list_def list_all_iff)
  moreover have "wire_list wire_usage (en_usage e)"
    using required_slice [OF s, of "''usage''"] wire_usage_shape by (auto simp: e wire_list_def list_all_iff)
  ultimately have "wire_envelope e" using ex by (simp add: wire_envelope_def e)
  then show ?thesis using j by blast
qed

text \<open>A small wire document, decoded by a parser that knows it; in the text \<open>~\<close> stands for a quote.\<close>

definition sample_wire :: envelope where
  "sample_wire = \<lparr>en_format = ''f'', en_execution = \<lparr>ex_id = ''e'', ex_mode = ''direct'', ex_executorID = ''x''\<rparr>, en_bindings = Some [],
     en_reads = Some [], en_usage = Some [\<lparr>us_provider = ''p'', us_rights = ''s'', us_observations = [''i'']\<rparr>]\<rparr>"

definition sample_raw :: string where
  "sample_raw = map (\<lambda>c. if c = CHR ''~'' then quote else c)
     (''{~format~:~f~,~execution~:{~id~:~e~,~mode~:~direct~,~executorId~:~x~},~bindings~:[],~reads~:[],'' @
      ''~usage~:[{~providerSourceId~:~p~,~rightsSourceId~:~s~,~observationIds~:[~i~]}]}'')"

definition sample_tokens :: "string \<Rightarrow> (json \<times> bool) option" where
  "sample_tokens raw = (if raw = sample_raw then Some (envelope_json sample_wire, False) else None)"

lemma sample_wire_ok: "wire_envelope sample_wire"
  by (simp add: wire_envelope_def wire_texts_def wire_list_def wire_usage_def sample_wire_def MaxItems_def)

lemma sample_raw_ok: "length sample_raw \<le> MaxMetadataBytes" "valid_utf8 sample_raw" "scalarEscapes False sample_raw = None"
proof -
  show "length sample_raw \<le> MaxMetadataBytes" by (simp add: sample_raw_def MaxMetadataBytes_def)
  show "valid_utf8 sample_raw" by (rule valid_utf8_ascii) (simp add: sample_raw_def is_ascii_def quote_def)
  show "scalarEscapes False sample_raw = None" by (simp add: sample_raw_def quote_def backslash_def)
qed

lemma sample_raw_tokens: "sample_tokens sample_raw = Some (envelope_json sample_wire, False)"
  by (simp add: sample_tokens_def)


theorem wire_form_is_closed_witness:
  "wire_envelope sample_wire \<and> (\<exists>j. sample_tokens sample_raw = Some (j, False) \<and> no_duplicates j \<and> closedShape j envelope_shape = None)"
  by (rule wire_form_is_closed)
    (simp add: Decode_def sample_raw_ok sample_raw_tokens not_less envelope_no_duplicates envelope_closed decode_envelope_json sample_wire_ok)

end
