(* ===== verification/Auth.thy ===== *)
theory Auth
  imports Go_Strings
begin

text \<open>
  \<^verbatim>\<open>src/pkg/auth/auth.go\<close>: capabilities and their wire form, grants, and the decision
  whether a principal may perform an action on a collection of a database.

  \<^verbatim>\<open>access.PrincipalRef\<close> comes from DALgo: its fields are data, its \<^verbatim>\<open>Validate\<close> and the
  constant \<^verbatim>\<open>access.PrincipalKindUser\<close> are the parameter \<open>access_api\<close>. An instant is an
  \<open>int\<close>, the nanoseconds since Go's zero time, so \<^verbatim>\<open>IsZero\<close> is \<open>t = 0\<close>.
\<close>

section \<open>Capabilities\<close>

definition known_capabilities :: "string list" where
  "known_capabilities =
     [''records:read'', ''records:write'', ''records:delete'', ''collections:read'', ''schema:read'',
      ''databases:create'', ''policies:discover'', ''policies:list'', ''policies:read'',
      ''policies:admin'', ''access:explain'', ''access:simulate'', ''access:diagnostics'',
      ''access:inspect-protected'']"

record capability =
  cap_action :: string
  cap_collection :: string

datatype cap_error =
    InvalidCapability string
  | UnknownCapability string
  | EmptyCollectionScope string
  | NoCapability

text \<open>\<^verbatim>\<open>ParseCapability\<close>.\<close>

definition parse_capability :: "string \<Rightarrow> cap_error + capability" where
  "parse_capability s =
     (let parts = split_on CHR '':'' s in
      if length parts < 2 \<or> length parts > 3 then Inl (InvalidCapability s)
      else
        let action = parts ! 0 @ '':'' @ parts ! 1 in
        if action \<notin> set known_capabilities then Inl (UnknownCapability action)
        else if length parts = 3 then
          (if parts ! 2 = [] then Inl (EmptyCollectionScope s)
           else Inr \<lparr>cap_action = action, cap_collection = parts ! 2\<rparr>)
        else Inr \<lparr>cap_action = action, cap_collection = []\<rparr>)"

text \<open>\<^verbatim>\<open>Capability.String\<close>.\<close>

definition cap_string :: "capability \<Rightarrow> string" where
  "cap_string c =
     (if cap_collection c = [] then cap_action c else cap_action c @ '':'' @ cap_collection c)"

text \<open>\<^verbatim>\<open>ParseCapabilities\<close>: the loop over the comma-separated items, then the emptiness check.\<close>

fun parse_cap_items :: "string list \<Rightarrow> cap_error + capability list" where
  "parse_cap_items [] = Inr []"
| "parse_cap_items (s # ss) =
     (let s' = trim_space s in
      if s' = [] then parse_cap_items ss
      else rbind (parse_capability s') (\<lambda>c. rbind (parse_cap_items ss) (\<lambda>cs. Inr (c # cs))))"

definition parse_capabilities :: "string \<Rightarrow> cap_error + capability list" where
  "parse_capabilities csv =
     rbind (parse_cap_items (split_on CHR '','' csv))
       (\<lambda>caps. if caps = [] then Inl NoCapability else Inr caps)"

section \<open>Grants\<close>

record principal_ref =
  ref_realm :: string
  ref_kind :: string
  ref_id :: string

record access_api =
  validate_ref :: "principal_ref \<Rightarrow> bool"
  kind_user :: string

record grant =
  g_subject :: "principal_ref option"
  g_actor :: "principal_ref option"
  g_id :: string
  g_label :: string
  g_tokenHash :: string
  g_principalType :: string
  g_principalID :: string
  g_databaseID :: string
  g_capabilities :: "capability list"
  g_issuedAt :: int
  g_expiresAt :: int
  g_revokedAt :: "int option"

definition expired :: "grant \<Rightarrow> int \<Rightarrow> bool" where
  "expired g now \<longleftrightarrow> g_expiresAt g \<noteq> 0 \<and> \<not> now < g_expiresAt g"

definition revoked :: "grant \<Rightarrow> bool" where
  "revoked g \<longleftrightarrow> g_revokedAt g \<noteq> None"

datatype identity_error =
    GrantRequired
  | SubjectAndActorTogether
  | InvalidSubject
  | InvalidActor
  | ActorIsUser

text \<open>\<^verbatim>\<open>Grant.ValidateIdentity\<close>; a nil grant is \<open>None\<close>, and \<open>None\<close> as a result is no error.\<close>

definition validate_identity :: "access_api \<Rightarrow> grant option \<Rightarrow> identity_error option" where
  "validate_identity api mg =
     (case mg of
        None \<Rightarrow> Some GrantRequired
      | Some g \<Rightarrow>
         (case (g_subject g, g_actor g) of
            (None, None) \<Rightarrow> None
          | (Some sub, Some act) \<Rightarrow>
              if \<not> validate_ref api sub then Some InvalidSubject
              else if \<not> validate_ref api act then Some InvalidActor
              else if ref_kind act = kind_user api then Some ActorIsUser
              else None
          | _ \<Rightarrow> Some SubjectAndActorTogether))"

section \<open>The capability decision\<close>

record principal =
  p_owner :: bool
  p_grant :: "grant option"

fun caps_allow :: "capability list \<Rightarrow> string \<Rightarrow> string \<Rightarrow> bool" where
  "caps_allow [] action collection = False"
| "caps_allow (c # cs) action collection =
     (if cap_action c \<noteq> action then caps_allow cs action collection
      else if cap_collection c = [] \<or> cap_collection c = collection then True
      else caps_allow cs action collection)"

text \<open>\<^verbatim>\<open>Principal.Allows\<close>; a nil principal is \<open>None\<close>.\<close>

definition allows :: "principal option \<Rightarrow> string \<Rightarrow> string \<Rightarrow> string \<Rightarrow> bool" where
  "allows mp databaseID action collection =
     (case mp of
        None \<Rightarrow> False
      | Some p \<Rightarrow>
         if p_owner p then True
         else (case p_grant p of
                 None \<Rightarrow> False
               | Some g \<Rightarrow>
                  if g_databaseID g \<noteq> [] \<and> g_databaseID g \<noteq> databaseID then False
                  else caps_allow (g_capabilities g) action collection))"

section \<open>Lemmas\<close>

text \<open>The capabilities the parser can produce: a known action, a scope without a colon.\<close>

definition wf_capability :: "capability \<Rightarrow> bool" where
  "wf_capability c \<longleftrightarrow> cap_action c \<in> set known_capabilities \<and> CHR '':'' \<notin> set (cap_collection c)"

lemma known_capability_shape:
  "a \<in> set known_capabilities \<Longrightarrow>
     \<exists>ns verb. a = ns @ CHR '':'' # verb \<and> CHR '':'' \<notin> set ns \<and> CHR '':'' \<notin> set verb"
proof -
  assume "a \<in> set known_capabilities"
  then have "length (split_on CHR '':'' a) = 2"
    by (auto simp: known_capabilities_def)
  then obtain ns verb where sp: "split_on CHR '':'' a = [ns, verb]"
    by (auto simp: numeral_eq_Suc length_Suc_conv)
  then have "a = ns @ CHR '':'' # verb" using join_split_on [of "CHR '':''" a] by simp
  moreover have "CHR '':'' \<notin> set ns" "CHR '':'' \<notin> set verb"
    using split_on_part [of _ "CHR '':''" a] sp by auto
  ultimately show ?thesis by blast
qed

lemma parse_cap_string:
  assumes "wf_capability c"
  shows "parse_capability (cap_string c) = Inr c"
proof -
  obtain ns verb where a: "cap_action c = ns @ CHR '':'' # verb"
    and ns: "CHR '':'' \<notin> set ns" and vb: "CHR '':'' \<notin> set verb"
    using assms known_capability_shape unfolding wf_capability_def by blast
  have col: "CHR '':'' \<notin> set (cap_collection c)" using assms by (simp add: wf_capability_def)
  have split: "split_on CHR '':'' (cap_string c) =
      (if cap_collection c = [] then [ns, verb] else [ns, verb, cap_collection c])"
    using ns vb col by (simp add: cap_string_def a split_on_sep split_on_no_sep)
  show ?thesis
    using assms by (simp add: parse_capability_def split Let_def a [symmetric] wf_capability_def)
qed

lemma parse_capability_wf:
  assumes "parse_capability s = Inr c"
  shows "wf_capability c \<and> cap_string c = s"
proof -
  let ?ps = "split_on CHR '':'' s"
  have js: "join_with '':'' ?ps = s" by (rule join_split_on)
  have parts: "p \<in> set ?ps \<Longrightarrow> CHR '':'' \<notin> set p" for p by (rule split_on_part)
  from assms have "length ?ps = 2 \<or> length ?ps = 3"
    by (auto simp: parse_capability_def Let_def split: if_splits)
  then consider a b where "?ps = [a, b]" | a b d where "?ps = [a, b, d]"
    by (auto simp: numeral_eq_Suc length_Suc_conv)
  then show ?thesis
  proof cases
    case (1 a b)
    have "a @ '':'' @ b \<in> set known_capabilities" "c = \<lparr>cap_action = a @ '':'' @ b, cap_collection = []\<rparr>"
      using assms unfolding parse_capability_def 1 Let_def by (simp_all split: if_splits)
    moreover have "a @ '':'' @ b = s" using js unfolding 1 by simp
    ultimately show ?thesis by (simp add: wf_capability_def cap_string_def)
  next
    case (2 a b d)
    have "a @ '':'' @ b \<in> set known_capabilities" "d \<noteq> []"
      "c = \<lparr>cap_action = a @ '':'' @ b, cap_collection = d\<rparr>"
      using assms unfolding parse_capability_def 2 Let_def by (simp_all split: if_splits)
    moreover have "a @ '':'' @ b @ '':'' @ d = s" using js unfolding 2 by simp
    moreover have "CHR '':'' \<notin> set d" by (rule parts) (simp add: 2)
    ultimately show ?thesis by (simp add: wf_capability_def cap_string_def)
  qed
qed

lemma caps_allow_iff:
  "caps_allow cs action collection \<longleftrightarrow>
     (\<exists>c \<in> set cs. cap_action c = action \<and> (cap_collection c = [] \<or> cap_collection c = collection))"
  by (induction cs) auto

lemma allows_grant_iff:
  "allows (Some \<lparr>p_owner = False, p_grant = Some g\<rparr>) db action collection \<longleftrightarrow>
     (g_databaseID g = [] \<or> g_databaseID g = db) \<and> caps_allow (g_capabilities g) action collection"
  by (auto simp: allows_def)

lemma parse_cap_items_Inr:
  "parse_cap_items ss = Inr caps \<Longrightarrow>
     map_results parse_capability (filter (\<lambda>s. s \<noteq> []) (map trim_space ss)) = Inr caps"
  by (induction ss arbitrary: caps) (auto simp: Let_def split: if_splits)

lemma parse_cap_items_wf:
  "parse_cap_items ss = Inr caps \<Longrightarrow> c \<in> set caps \<Longrightarrow> wf_capability c"
  by (induction ss arbitrary: caps) (auto simp: Let_def dest: parse_capability_wf split: if_splits)

section \<open>Properties\<close>

text \<open>
  Capabilities round-trip through their wire form: \<^verbatim>\<open>ParseCapability\<close> accepts a string
  exactly when it is what \<^verbatim>\<open>String\<close> prints for a capability with a known action and a scope
  without a colon, and then it returns that capability.
\<close>

theorem parse_capability_iff:
  "parse_capability s = Inr c \<longleftrightarrow> wf_capability c \<and> s = cap_string c"
  using parse_cap_string parse_capability_wf by blast


text \<open>A grant scoped to one collection: it reads that collection and nothing else.\<close>

definition demo_grant :: grant where
  "demo_grant = \<lparr>g_subject = None, g_actor = None, g_id = ''g1'', g_label = [], g_tokenHash = ''h'',
     g_principalType = ''application'', g_principalID = ''app'', g_databaseID = ''crm'',
     g_capabilities = [\<lparr>cap_action = ''records:read'', cap_collection = ''contacts''\<rparr>],
     g_issuedAt = 1, g_expiresAt = 0, g_revokedAt = None\<rparr>"


end
