(* ===== verification/Auth_Store.thy ===== *)
theory Auth_Store
  imports Auth
begin

text \<open>
  \<^verbatim>\<open>src/pkg/auth/store.go\<close> and \<^verbatim>\<open>src/pkg/auth/middleware.go\<close>: the store of issued grants
  and pending one-time codes, and the request middleware that resolves a bearer token.

  The store keeps two maps to the same grant objects, by token hash and by grant id, and
  revocation through one of them is seen through the other. Grants therefore live in cells
  (\<open>cells\<close>), and the two maps hold addresses. A cell whose address no map holds is garbage.
  Every method runs under the store's mutex, so a method is one step. The clock, the random
  source and the outcome of the file operations are inputs (\<open>env\<close>); the hash of a token is the
  parameter \<open>H\<close> (\<^verbatim>\<open>HashToken\<close>, SHA-256 in hexadecimal).
\<close>

definition TokenTTL :: int where
  "TokenTTL = 3600 * 1000000000"

definition CodeTTL :: int where
  "CodeTTL = 5 * 60 * 1000000000"

record auth_code =
  ac_clientID :: string
  ac_redirectURI :: string
  ac_databaseID :: string
  ac_capabilities :: "capability list"
  ac_expires :: int

record auth_store =
  cells :: "grant list"
  grants :: "(string, nat) gomap"
  grantsByID :: "(string, nat) gomap"
  codes :: "(string, auth_code) gomap"
  disk :: "grant list option"

datatype save_error = MarshalFails | MkdirFails | WriteFails | RenameFails

record env =
  now_check :: int
  now_issue :: int
  now_save :: int
  rnd_token :: "string option"
  rnd_id :: "string option"
  io :: "save_error option"

section \<open>Persistence\<close>

text \<open>The grants \<^verbatim>\<open>saveLocked\<close> writes: revoked ones always, others unless they have expired.\<close>

definition live_grants :: "int \<Rightarrow> auth_store \<Rightarrow> grant list" where
  "live_grants now s =
     filter (\<lambda>g. \<not> (\<not> revoked g \<and> expired g now)) (map (\<lambda>(h, a). cells s ! a) (grants s))"

text \<open>\<^verbatim>\<open>saveLocked\<close>: the file is replaced by a rename, so a failure leaves the old one.\<close>

definition save_locked :: "int \<Rightarrow> save_error option \<Rightarrow> auth_store \<Rightarrow> save_error + auth_store" where
  "save_locked now io_result s =
     (case io_result of
        Some e \<Rightarrow> Inl e
      | None \<Rightarrow> Inr (s\<lparr>disk := Some (live_grants now s)\<rparr>))"

datatype grants_file = FileNotExist | FileUnreadable | FileCorrupt | FileGrants "grant option list"

datatype open_error = ReadStoreFailed | ParseStoreFailed | StoredIdentity identity_error

definition empty_store :: auth_store where
  "empty_store = \<lparr>cells = [], grants = [], grantsByID = [], codes = [], disk = None\<rparr>"

text \<open>One turn of the loop of \<^verbatim>\<open>OpenStore\<close>: the legacy id, the expiry check, the two maps.\<close>

definition with_legacy_id :: "grant \<Rightarrow> grant" where
  "with_legacy_id g =
     (if g_id g = [] \<and> 12 \<le> length (g_tokenHash g) then g\<lparr>g_id := take 12 (g_tokenHash g)\<rparr> else g)"

definition load_grant :: "int \<Rightarrow> grant \<Rightarrow> auth_store \<Rightarrow> auth_store" where
  "load_grant now g s =
     (let g' = with_legacy_id g; a = length (cells s) in
      if expired g' now then s
      else s\<lparr>cells := cells s @ [g'],
             grants := mput (g_tokenHash g') a (grants s),
             grantsByID := (if g_id g' = [] then grantsByID s else mput (g_id g') a (grantsByID s))\<rparr>)"

fun load_grants :: "access_api \<Rightarrow> int \<Rightarrow> grant option list \<Rightarrow> auth_store \<Rightarrow> open_error + auth_store" where
  "load_grants api now [] s = Inr s"
| "load_grants api now (mg # mgs) s =
     (case validate_identity api mg of
        Some e \<Rightarrow> Inl (StoredIdentity e)
      | None \<Rightarrow> load_grants api now mgs (case mg of None \<Rightarrow> s | Some g \<Rightarrow> load_grant now g s))"

text \<open>\<^verbatim>\<open>OpenStore\<close>.\<close>

definition open_store :: "access_api \<Rightarrow> int \<Rightarrow> grants_file \<Rightarrow> open_error + auth_store" where
  "open_store api now file =
     (case file of
        FileNotExist \<Rightarrow> Inr empty_store
      | FileUnreadable \<Rightarrow> Inl ReadStoreFailed
      | FileCorrupt \<Rightarrow> Inl ParseStoreFailed
      | FileGrants gs \<Rightarrow>
          load_grants api now gs
            (empty_store\<lparr>disk := Some (map the (filter (\<lambda>g. g \<noteq> None) gs))\<rparr>))"

section \<open>Operations\<close>

text \<open>\<^verbatim>\<open>PutCode\<close>.\<close>

definition put_code ::
    "int \<Rightarrow> string \<Rightarrow> string \<Rightarrow> string \<Rightarrow> string \<Rightarrow> capability list \<Rightarrow> auth_store \<Rightarrow> auth_store" where
  "put_code now code client uri db caps s =
     s\<lparr>codes := mput code
        \<lparr>ac_clientID = client, ac_redirectURI = uri, ac_databaseID = db,
         ac_capabilities = caps, ac_expires = now + CodeTTL\<rparr> (codes s)\<rparr>"

text \<open>\<^verbatim>\<open>NewToken\<close> and \<^verbatim>\<open>NewGrantID\<close> from the random bytes, \<open>None\<close> when the source fails.\<close>

definition new_token :: "string option \<Rightarrow> string option" where
  "new_token rnd = map_option (\<lambda>b. ''ovdb_'' @ hex_encode b) rnd"

definition new_grant_id :: "string option \<Rightarrow> string option" where
  "new_grant_id rnd = map_option hex_encode rnd"

text \<open>
  The end of \<^verbatim>\<open>ExchangeCode\<close> and \<^verbatim>\<open>CreateGrant\<close>: a copy of the grant is stored under both
  keys and the file is saved; when the save fails both entries are deleted again.
\<close>

definition store_grant :: "env \<Rightarrow> grant \<Rightarrow> auth_store \<Rightarrow> auth_store \<times> save_error option" where
  "store_grant e g s =
     (let a = length (cells s);
          s1 = s\<lparr>cells := cells s @ [g],
                 grants := mput (g_tokenHash g) a (grants s),
                 grantsByID := mput (g_id g) a (grantsByID s)\<rparr>
      in case save_locked (now_save e) (io e) s1 of
           Inr s2 \<Rightarrow> (s2, None)
         | Inl err \<Rightarrow>
             (s1\<lparr>grants := mdel (g_tokenHash g) (grants s1),
                 grantsByID := mdel (g_id g) (grantsByID s1)\<rparr>, Some err))"

datatype exchange_error = InvalidCode | TokenRandFailed | IdRandFailed | ExchangeSave save_error

definition code_grant :: "(string \<Rightarrow> string) \<Rightarrow> env \<Rightarrow> auth_code \<Rightarrow> string \<Rightarrow> string \<Rightarrow> grant" where
  "code_grant H e c token gid =
     \<lparr>g_subject = None, g_actor = None, g_id = gid, g_label = [], g_tokenHash = H token,
      g_principalType = ''application'', g_principalID = ac_clientID c,
      g_databaseID = ac_databaseID c, g_capabilities = ac_capabilities c,
      g_issuedAt = now_issue e, g_expiresAt = now_issue e + TokenTTL, g_revokedAt = None\<rparr>"

text \<open>\<^verbatim>\<open>ExchangeCode\<close>.\<close>

definition exchange_code ::
    "(string \<Rightarrow> string) \<Rightarrow> env \<Rightarrow> string \<Rightarrow> string \<Rightarrow> auth_store \<Rightarrow>
       auth_store \<times> (exchange_error + string \<times> grant)" where
  "exchange_code H e code client s =
     (case mget (codes s) code of
        None \<Rightarrow> (s, Inl InvalidCode)
      | Some c \<Rightarrow>
         (let s1 = s\<lparr>codes := mdel code (codes s)\<rparr> in
          if ac_expires c < now_check e \<or> ac_clientID c \<noteq> client then (s1, Inl InvalidCode)
          else case new_token (rnd_token e) of
              None \<Rightarrow> (s1, Inl TokenRandFailed)
            | Some token \<Rightarrow>
               (case new_grant_id (rnd_id e) of
                  None \<Rightarrow> (s1, Inl IdRandFailed)
                | Some gid \<Rightarrow>
                   (let g = code_grant H e c token gid in
                    case store_grant e g s1 of
                      (s2, None) \<Rightarrow> (s2, Inr (token, g))
                    | (s2, Some err) \<Rightarrow> (s2, Inl (ExchangeSave err))))))"

datatype create_error = CreateIdentity identity_error | CreateRandFailed | CreateSave save_error

text \<open>The fields \<^verbatim>\<open>CreateGrant\<close> fills in.\<close>

definition filled_grant :: "(string \<Rightarrow> string) \<Rightarrow> env \<Rightarrow> string \<Rightarrow> string \<Rightarrow> grant \<Rightarrow> grant" where
  "filled_grant H e token gid g =
     (let g1 = g\<lparr>g_id := gid, g_tokenHash := H token, g_principalType := ''application''\<rparr>;
          g2 = (case g_actor g1 of
                  None \<Rightarrow> g1
                | Some act \<Rightarrow> g1\<lparr>g_principalType := ref_kind act, g_principalID := ref_id act\<rparr>)
      in g2\<lparr>g_issuedAt := now_issue e\<rparr>)"

text \<open>\<^verbatim>\<open>CreateGrant\<close>; the grant a caller passes is a non-nil pointer.\<close>

definition create_grant ::
    "access_api \<Rightarrow> (string \<Rightarrow> string) \<Rightarrow> env \<Rightarrow> grant \<Rightarrow> string \<Rightarrow> auth_store \<Rightarrow>
       auth_store \<times> (create_error + grant)" where
  "create_grant api H e g token s =
     (case validate_identity api (Some g) of
        Some err \<Rightarrow> (s, Inl (CreateIdentity err))
      | None \<Rightarrow>
         (case new_grant_id (rnd_id e) of
            None \<Rightarrow> (s, Inl CreateRandFailed)
          | Some gid \<Rightarrow>
             (let g' = filled_grant H e token gid g in
              case store_grant e g' s of
                (s2, None) \<Rightarrow> (s2, Inr g')
              | (s2, Some err) \<Rightarrow> (s2, Inl (CreateSave err)))))"

text \<open>\<^verbatim>\<open>ListGrants\<close>: all grants, ordered by the time they were issued.\<close>

definition list_grants :: "auth_store \<Rightarrow> grant list" where
  "list_grants s = sort_key g_issuedAt (map (\<lambda>(h, a). cells s ! a) (grants s))"

text \<open>\<^verbatim>\<open>RevokeGrant\<close>: a failed save does not undo the revocation.\<close>

definition revoke_grant :: "env \<Rightarrow> string \<Rightarrow> auth_store \<Rightarrow> auth_store \<times> grant option" where
  "revoke_grant e gid s =
     (case mget (grantsByID s) gid of
        None \<Rightarrow> (s, None)
      | Some a \<Rightarrow>
         (let s1 = (if g_revokedAt (cells s ! a) = None then
                      (let s0 = s\<lparr>cells := (cells s)[a := (cells s ! a)\<lparr>g_revokedAt := Some (now_issue e)\<rparr>]\<rparr>
                       in case save_locked (now_save e) (io e) s0 of Inr s2 \<Rightarrow> s2 | Inl _ \<Rightarrow> s0)
                    else s)
          in (s1, Some (cells s1 ! a))))"

text \<open>\<^verbatim>\<open>Lookup\<close>.\<close>

definition lookup_token :: "(string \<Rightarrow> string) \<Rightarrow> int \<Rightarrow> string \<Rightarrow> auth_store \<Rightarrow> grant option" where
  "lookup_token H now token s =
     (case mget (grants s) (H token) of
        None \<Rightarrow> None
      | Some a \<Rightarrow> (let g = cells s ! a in if expired g now \<or> revoked g then None else Some g))"

section \<open>The middleware\<close>

definition public_path :: "string \<Rightarrow> bool" where
  "public_path path \<longleftrightarrow>
     (if path = ''/ovdb'' \<or> has_prefix path ''/ovdb/'' then True
      else path \<in> {''/.well-known/openvaultdb'', ''/authorize'', ''/token''})"

definition bearer_token :: "string \<Rightarrow> string" where
  "bearer_token h =
     (if length h > 7 \<and> equal_fold (take 7 h) ''Bearer '' then trim_space (drop 7 h) else [])"

record auth_config =
  cfg_owner_token :: string
  cfg_store :: "auth_store option"

datatype mw_result = Serve "principal option" | Unauthorized string

text \<open>
  \<^verbatim>\<open>Config.Middleware\<close>: what it does with a request, given its path and \<^verbatim>\<open>Authorization\<close>
  header: serve it with the principal attached, or answer 401.
\<close>

definition auth_middleware ::
    "(string \<Rightarrow> string) \<Rightarrow> auth_config \<Rightarrow> int \<Rightarrow> string \<Rightarrow> string \<Rightarrow> mw_result" where
  "auth_middleware H cfg now path header =
     (if public_path path then Serve None
      else let token = bearer_token header in
        if token = [] then Unauthorized ''missing bearer token''
        else if token = cfg_owner_token cfg then Serve (Some \<lparr>p_owner = True, p_grant = None\<rparr>)
        else case cfg_store cfg of
            None \<Rightarrow> Unauthorized ''invalid or expired token''
          | Some s \<Rightarrow>
             (case lookup_token H now token s of
                Some g \<Rightarrow> Serve (Some \<lparr>p_owner = False, p_grant = Some g\<rparr>)
              | None \<Rightarrow> Unauthorized ''invalid or expired token''))"

section \<open>The store as a state machine\<close>

text \<open>The calls that change a store: each is a step, whatever the environment answers.\<close>

inductive auth_step :: "access_api \<Rightarrow> (string \<Rightarrow> string) \<Rightarrow> auth_store \<Rightarrow> auth_store \<Rightarrow> bool"
  for api :: access_api and H :: "string \<Rightarrow> string" where
  step_put_code: "auth_step api H s (put_code now code client uri db caps s)"
| step_exchange: "auth_step api H s (fst (exchange_code H e code client s))"
| step_create: "auth_step api H s (fst (create_grant api H e g token s))"
| step_revoke: "auth_step api H s (fst (revoke_grant e gid s))"

inductive_cases auth_stepE: "auth_step api H s t"

text \<open>
  The invariant: both maps hold valid addresses, a grant is stored under its own hash and its
  own id, and every stored grant has a valid identity.
\<close>

definition store_inv :: "access_api \<Rightarrow> auth_store \<Rightarrow> bool" where
  "store_inv api s \<longleftrightarrow>
     wf_map (grants s) \<and> wf_map (grantsByID s) \<and> wf_map (codes s) \<and>
     (\<forall>h a. mget (grants s) h = Some a \<longrightarrow> a < length (cells s) \<and> g_tokenHash (cells s ! a) = h) \<and>
     (\<forall>i a. mget (grantsByID s) i = Some a \<longrightarrow> a < length (cells s) \<and> g_id (cells s ! a) = i) \<and>
     (\<forall>g \<in> set (cells s). validate_identity api (Some g) = None)"

section \<open>Lemmas\<close>

lemma store_grant_cells: "cells (fst (store_grant e g s)) = cells s @ [g]"
  by (auto simp: store_grant_def save_locked_def Let_def split: option.splits sum.splits)

lemma store_grant_codes: "codes (fst (store_grant e g s)) = codes s"
  by (auto simp: store_grant_def save_locked_def Let_def split: option.splits sum.splits)

lemma store_grant_saved:
  "snd (store_grant e g s) = None \<Longrightarrow>
     mget (grants (fst (store_grant e g s))) (g_tokenHash g) = Some (length (cells s)) \<and>
     mget (grantsByID (fst (store_grant e g s))) (g_id g) = Some (length (cells s))"
  by (auto simp: store_grant_def save_locked_def Let_def split: option.splits sum.splits)

lemma store_grant_not_saved:
  "snd (store_grant e g s) = Some err \<Longrightarrow>
     mget (grants (fst (store_grant e g s))) (g_tokenHash g) = None \<and> disk (fst (store_grant e g s)) = disk s"
  by (auto simp: store_grant_def save_locked_def Let_def split: option.splits sum.splits)

lemma store_grant_get:
  "mget (grants (fst (store_grant e g s))) h = Some a \<Longrightarrow>
     (a = length (cells s) \<and> h = g_tokenHash g) \<or> mget (grants s) h = Some a"
  "mget (grantsByID (fst (store_grant e g s))) i = Some a \<Longrightarrow>
     (a = length (cells s) \<and> i = g_id g) \<or> mget (grantsByID s) i = Some a"
  by (auto simp: store_grant_def save_locked_def Let_def split: option.splits sum.splits if_splits)

lemma store_grant_wf:
  "wf_map (grants s) \<Longrightarrow> wf_map (grants (fst (store_grant e g s)))"
  "wf_map (grantsByID s) \<Longrightarrow> wf_map (grantsByID (fst (store_grant e g s)))"
  by (auto simp: store_grant_def save_locked_def Let_def split: option.splits sum.splits)

lemma store_grant_inv:
  assumes "store_inv api s" and "validate_identity api (Some g) = None"
  shows "store_inv api (fst (store_grant e g s))"
  unfolding store_inv_def
proof (intro conjI allI impI)
  show "wf_map (grants (fst (store_grant e g s)))" "wf_map (grantsByID (fst (store_grant e g s)))"
    using assms(1) by (simp_all add: store_inv_def store_grant_wf)
  show "wf_map (codes (fst (store_grant e g s)))"
    using assms(1) by (simp add: store_inv_def store_grant_codes)
next
  fix h a
  assume "mget (grants (fst (store_grant e g s))) h = Some a"
  from store_grant_get(1) [OF this] assms(1)
  show "a < length (cells (fst (store_grant e g s)))"
    and "g_tokenHash (cells (fst (store_grant e g s)) ! a) = h"
    by (auto simp: store_grant_cells store_inv_def nth_append less_SucI)
next
  fix i a
  assume "mget (grantsByID (fst (store_grant e g s))) i = Some a"
  from store_grant_get(2) [OF this] assms(1)
  show "a < length (cells (fst (store_grant e g s)))"
    and "g_id (cells (fst (store_grant e g s)) ! a) = i"
    by (auto simp: store_grant_cells store_inv_def nth_append less_SucI)
next
  show "\<forall>x \<in> set (cells (fst (store_grant e g s))). validate_identity api (Some x) = None"
    using assms by (auto simp: store_grant_cells store_inv_def)
qed

lemma store_inv_codes: "store_inv api s \<Longrightarrow> wf_map m \<Longrightarrow> store_inv api (s\<lparr>codes := m\<rparr>)"
  by (simp add: store_inv_def)

lemma store_inv_disk [simp]: "store_inv api (s\<lparr>disk := x\<rparr>) = store_inv api s"
  by (simp add: store_inv_def)

lemma validate_identity_cong:
  "g_subject g = g_subject g' \<Longrightarrow> g_actor g = g_actor g' \<Longrightarrow>
     validate_identity api (Some g) = validate_identity api (Some g')"
  by (simp add: validate_identity_def)

lemma code_grant_identity: "validate_identity api (Some (code_grant H e c token gid)) = None"
  by (simp add: validate_identity_def code_grant_def)

lemma filled_grant_fields [simp]:
  "g_subject (filled_grant H e token gid g) = g_subject g"
  "g_actor (filled_grant H e token gid g) = g_actor g"
  "g_tokenHash (filled_grant H e token gid g) = H token"
  "g_id (filled_grant H e token gid g) = gid"
  "g_issuedAt (filled_grant H e token gid g) = now_issue e"
  "g_expiresAt (filled_grant H e token gid g) = g_expiresAt g"
  "g_revokedAt (filled_grant H e token gid g) = g_revokedAt g"
  "g_capabilities (filled_grant H e token gid g) = g_capabilities g"
  "g_databaseID (filled_grant H e token gid g) = g_databaseID g"
  by (auto simp: filled_grant_def Let_def split: option.splits)

lemma filled_grant_identity:
  "validate_identity api (Some (filled_grant H e token gid g)) = validate_identity api (Some g)"
  by (rule validate_identity_cong) simp_all

text \<open>Every call either leaves cells and maps alone, stores one new grant, or revokes one cell.\<close>

lemma exchange_code_cases:
  obtains (invalid) "fst (exchange_code H e code client s) = s\<lparr>codes := mdel code (codes s)\<rparr>"
  | (unknown) "mget (codes s) code = None" "fst (exchange_code H e code client s) = s"
  | (stored) c token gid where "mget (codes s) code = Some c"
      "fst (exchange_code H e code client s) =
         fst (store_grant e (code_grant H e c token gid) (s\<lparr>codes := mdel code (codes s)\<rparr>))"
proof -
  consider "mget (codes s) code = None"
    | c where "mget (codes s) code = Some c" "ac_expires c < now_check e \<or> ac_clientID c \<noteq> client"
    | c where "mget (codes s) code = Some c" "\<not> (ac_expires c < now_check e \<or> ac_clientID c \<noteq> client)"
        "new_token (rnd_token e) = None \<or> new_grant_id (rnd_id e) = None"
    | c token gid where "mget (codes s) code = Some c"
        "\<not> (ac_expires c < now_check e \<or> ac_clientID c \<noteq> client)"
        "new_token (rnd_token e) = Some token" "new_grant_id (rnd_id e) = Some gid"
    by (cases "mget (codes s) code"; cases "new_token (rnd_token e)"; cases "new_grant_id (rnd_id e)") auto
  then show thesis
  proof cases
    case 1
    then show thesis by (intro unknown) (simp_all add: exchange_code_def)
  next
    case 2
    then show thesis by (intro invalid) (auto simp: exchange_code_def Let_def)
  next
    case 3
    then show thesis by (intro invalid) (auto simp: exchange_code_def Let_def split: option.splits)
  next
    case (4 c token gid)
    then show thesis
      by (intro stored [of c token gid])
        (auto simp: exchange_code_def Let_def split: prod.splits option.splits)
  qed
qed

lemma create_grant_cases:
  obtains (refused) "fst (create_grant api H e g token s) = s"
  | (stored) gid where "validate_identity api (Some g) = None"
      "fst (create_grant api H e g token s) = fst (store_grant e (filled_grant H e token gid g) s)"
proof (cases "validate_identity api (Some g) = None")
  case False
  then show thesis by (intro refused) (auto simp: create_grant_def)
next
  case valid: True
  show thesis
  proof (cases "new_grant_id (rnd_id e)")
    case None
    with valid show thesis by (intro refused) (simp add: create_grant_def)
  next
    case (Some gid)
    with valid show thesis
      by (intro stored [of gid]) (auto simp: create_grant_def Let_def split: prod.splits option.splits)
  qed
qed

lemma revoke_grant_cases:
  obtains (same) "fst (revoke_grant e gid s) = s"
      "\<And>a. mget (grantsByID s) gid = Some a \<Longrightarrow> revoked (cells s ! a)"
  | (revokes) a d where "mget (grantsByID s) gid = Some a" "\<not> revoked (cells s ! a)"
      "fst (revoke_grant e gid s) =
         s\<lparr>cells := (cells s)[a := (cells s ! a)\<lparr>g_revokedAt := Some (now_issue e)\<rparr>], disk := d\<rparr>"
proof (cases "\<exists>a. mget (grantsByID s) gid = Some a \<and> \<not> revoked (cells s ! a)")
  case False
  then show thesis
    by (intro same) (auto simp: revoke_grant_def revoked_def split: option.splits)
next
  case True
  then obtain a where a: "mget (grantsByID s) gid = Some a" "\<not> revoked (cells s ! a)" by blast
  show thesis
  proof (cases "io e")
    case None
    with a show thesis
      by (intro revokes [OF a]) (auto simp: revoke_grant_def revoked_def save_locked_def Let_def)
  next
    case (Some err)
    with a show thesis
      by (intro revokes [OF a, of "disk s"]) (auto simp: revoke_grant_def revoked_def save_locked_def Let_def)
  qed
qed

lemma revoke_grant_inv:
  assumes "store_inv api s"
  shows "store_inv api (fst (revoke_grant e gid s))"
proof (cases rule: revoke_grant_cases [of e gid s])
  case same
  with assms show ?thesis by simp
next
  case (revokes a d)
  let ?g = "(cells s ! a)\<lparr>g_revokedAt := Some (now_issue e)\<rparr>"
  from revokes assms have a: "a < length (cells s)" by (auto simp: store_inv_def)
  have vid: "validate_identity api (Some ?g) = None"
    using assms a validate_identity_cong [of ?g "cells s ! a" api] by (auto simp: store_inv_def)
  have "store_inv api (s\<lparr>cells := (cells s)[a := ?g]\<rparr>)"
    using assms a vid
    by (auto simp: store_inv_def nth_list_update dest: set_update_subset_insert [THEN subsetD])
  with revokes show ?thesis by (simp add: store_inv_def)
qed

lemma auth_step_inv:
  assumes "auth_step api H s t" and "store_inv api s"
  shows "store_inv api t"
  using assms(1)
proof cases
  case step_put_code
  with assms(2) show ?thesis by (auto simp: put_code_def store_inv_def)
next
  case (step_exchange e code client)
  have "store_inv api (s\<lparr>codes := mdel code (codes s)\<rparr>)"
    using assms(2) by (intro store_inv_codes) (auto simp: store_inv_def)
  then show ?thesis unfolding step_exchange
    by (cases rule: exchange_code_cases [of H e code client s])
      (simp_all add: assms(2) store_grant_inv code_grant_identity)
next
  case (step_create e g token)
  show ?thesis unfolding step_create
    by (cases rule: create_grant_cases [of api H e g token s])
      (simp_all add: assms(2) store_grant_inv filled_grant_identity)
next
  case (step_revoke e gid)
  then show ?thesis using assms(2) by (simp add: revoke_grant_inv)
qed

interpretation store: step_system "auth_step api H" "store_inv api" for api H
  by unfold_locales (rule auth_step_inv)

lemma empty_store_inv [simp]: "store_inv api empty_store"
  by (auto simp: store_inv_def empty_store_def)

text \<open>
  A revoked cell stays revoked, and an address that a step adds under a token hash is new.
\<close>

definition revoked_at :: "nat \<Rightarrow> auth_store \<Rightarrow> bool" where
  "revoked_at a s \<longleftrightarrow> a < length (cells s) \<and> revoked (cells s ! a)"

definition kept_or_new :: "nat \<Rightarrow> string \<Rightarrow> nat \<Rightarrow> auth_store \<Rightarrow> bool" where
  "kept_or_new n h a s \<longleftrightarrow>
     n \<le> length (cells s) \<and> (\<forall>b. mget (grants s) h = Some b \<longrightarrow> b = a \<or> n \<le> b)"

lemma store_grant_stable:
  "revoked_at a s \<Longrightarrow> revoked_at a (fst (store_grant e g s))"
  "kept_or_new n h a s \<Longrightarrow> kept_or_new n h a (fst (store_grant e g s))"
  by (auto simp: revoked_at_def kept_or_new_def store_grant_cells nth_append dest!: store_grant_get(1))

lemma revoke_grant_stable:
  assumes "revoked_at a s \<and> kept_or_new n h a s"
  shows "revoked_at a (fst (revoke_grant e gid s)) \<and> kept_or_new n h a (fst (revoke_grant e gid s))"
proof (cases rule: revoke_grant_cases [of e gid s])
  case same
  with assms show ?thesis by simp
next
  case (revokes b d)
  from assms show ?thesis unfolding revokes(3)
    by (cases "b = a") (auto simp: revoked_at_def kept_or_new_def revoked_def)
qed

lemma auth_step_stable:
  assumes "auth_step api H s t" and "store_inv api s"
    and "revoked_at a s \<and> kept_or_new n h a s"
  shows "revoked_at a t \<and> kept_or_new n h a t"
  using assms(1)
proof cases
  case step_put_code
  with assms(3) show ?thesis by (simp add: put_code_def revoked_at_def kept_or_new_def)
next
  case (step_exchange e code client)
  have c: "revoked_at a (s\<lparr>codes := mdel code (codes s)\<rparr>) \<and> kept_or_new n h a (s\<lparr>codes := mdel code (codes s)\<rparr>)"
    using assms(3) by (simp add: revoked_at_def kept_or_new_def)
  then show ?thesis unfolding step_exchange
    by (cases rule: exchange_code_cases [of H e code client s]) (simp_all add: assms(3) store_grant_stable)
next
  case (step_create e g token)
  show ?thesis unfolding step_create
    by (cases rule: create_grant_cases [of api H e g token s]) (simp_all add: assms(3) store_grant_stable)
next
  case (step_revoke e gid)
  then show ?thesis using revoke_grant_stable [OF assms(3)] by simp
qed

lemma revoke_grant_revokes:
  assumes "store_inv api s" and "mget (grantsByID s) gid = Some a"
  shows "revoked_at a (fst (revoke_grant e gid s)) \<and>
    length (cells (fst (revoke_grant e gid s))) = length (cells s) \<and>
    grants (fst (revoke_grant e gid s)) = grants s"
proof -
  have a: "a < length (cells s)" using assms by (auto simp: store_inv_def)
  show ?thesis
  proof (cases rule: revoke_grant_cases [of e gid s])
    case same
    with a assms(2) show ?thesis by (simp add: revoked_at_def)
  next
    case (revokes b d)
    with assms(2) have "b = a" by simp
    with a show ?thesis unfolding revokes(3) by (simp add: revoked_at_def revoked_def)
  qed
qed

text \<open>What a token hash resolves to, and how loading a file changes it.\<close>

definition resolve :: "auth_store \<Rightarrow> string \<Rightarrow> grant option" where
  "resolve s h = map_option (\<lambda>a. cells s ! a) (mget (grants s) h)"

definition addr_ok :: "auth_store \<Rightarrow> bool" where
  "addr_ok s \<longleftrightarrow> wf_map (grants s) \<and> (\<forall>h a. mget (grants s) h = Some a \<longrightarrow> a < length (cells s))"

lemma lookup_token_resolve:
  "lookup_token H now token s =
     (case resolve s (H token) of
        None \<Rightarrow> None | Some g \<Rightarrow> if expired g now \<or> revoked g then None else Some g)"
  by (simp add: lookup_token_def resolve_def Let_def split: option.splits)

lemma lookup_token_Some:
  "lookup_token H now token s = Some g \<longleftrightarrow>
     resolve s (H token) = Some g \<and> \<not> expired g now \<and> \<not> revoked g"
  by (auto simp: lookup_token_resolve split: option.splits)

lemma with_legacy_id_fields [simp]:
  "g_tokenHash (with_legacy_id g) = g_tokenHash g"
  "expired (with_legacy_id g) now = expired g now"
  "revoked (with_legacy_id g) = revoked g"
  by (auto simp: with_legacy_id_def expired_def revoked_def)

lemma load_grant_resolve:
  assumes "addr_ok s"
  shows "addr_ok (load_grant now g s)"
    and "resolve (load_grant now g s) h =
      (if \<not> expired g now \<and> h = g_tokenHash g then Some (with_legacy_id g) else resolve s h)"
proof -
  show "addr_ok (load_grant now g s)"
    using assms by (auto simp: addr_ok_def load_grant_def Let_def less_SucI)
  show "resolve (load_grant now g s) h =
      (if \<not> expired g now \<and> h = g_tokenHash g then Some (with_legacy_id g) else resolve s h)"
    using assms
    by (cases "mget (grants s) h") (auto simp: addr_ok_def resolve_def load_grant_def Let_def nth_append)
qed

definition file_entries :: "int \<Rightarrow> grant list \<Rightarrow> (string \<times> grant) list" where
  "file_entries now gs =
     map (\<lambda>g. (g_tokenHash g, with_legacy_id g)) (filter (\<lambda>g. \<not> expired g now) gs)"

lemma load_grants_resolve:
  assumes "\<forall>g \<in> set gs. validate_identity api (Some g) = None" and "addr_ok s"
  shows "\<exists>t. load_grants api now (map Some gs) s = Inr t \<and> addr_ok t \<and>
    (\<forall>h. resolve t h = (case map_of (rev (file_entries now gs)) h of
            Some g \<Rightarrow> Some g | None \<Rightarrow> resolve s h))"
  using assms
proof (induction gs arbitrary: s)
  case Nil
  then show ?case by (simp add: file_entries_def)
next
  case (Cons g gs)
  have ok: "addr_ok (load_grant now g s)" using Cons.prems(2) by (rule load_grant_resolve(1))
  obtain t where t: "load_grants api now (map Some gs) (load_grant now g s) = Inr t" "addr_ok t"
    and r: "\<And>h. resolve t h = (case map_of (rev (file_entries now gs)) h of
            Some g' \<Rightarrow> Some g' | None \<Rightarrow> resolve (load_grant now g s) h)"
    using Cons.IH [OF _ ok] Cons.prems(1) by auto
  have "resolve t h = (case map_of (rev (file_entries now (g # gs))) h of
            Some g \<Rightarrow> Some g | None \<Rightarrow> resolve s h)" for h
    unfolding r load_grant_resolve(2) [OF Cons.prems(2)]
    by (auto simp: file_entries_def map_add_def split: option.splits)
  with t Cons.prems(1) show ?case by auto
qed

lemma file_entries_distinct:
  "distinct (map g_tokenHash gs) \<Longrightarrow> distinct (mkeys (file_entries now gs))"
  by (simp add: file_entries_def comp_def distinct_map_filter)

lemma open_store_resolve:
  assumes "\<forall>g \<in> set gs. validate_identity api (Some g) = None" and "distinct (map g_tokenHash gs)"
  shows "\<exists>t. open_store api now (FileGrants (map Some gs)) = Inr t \<and> addr_ok t \<and>
    resolve t = map_of (file_entries now gs)"
proof -
  let ?s = "empty_store\<lparr>disk := Some gs\<rparr>"
  have ok: "addr_ok ?s" by (auto simp: addr_ok_def empty_store_def)
  have "map the (filter (\<lambda>g. g \<noteq> None) (map Some gs)) = gs" by (induction gs) simp_all
  then have "open_store api now (FileGrants (map Some gs)) = load_grants api now (map Some gs) ?s"
    by (simp add: open_store_def)
  moreover obtain t where "load_grants api now (map Some gs) ?s = Inr t" "addr_ok t"
    and r: "\<And>h. resolve t h = (case map_of (rev (file_entries now gs)) h of
            Some g \<Rightarrow> Some g | None \<Rightarrow> resolve ?s h)"
    using load_grants_resolve [OF assms(1) ok] by blast
  moreover have "map_of (rev (file_entries now gs)) = map_of (file_entries now gs)"
    using file_entries_distinct [OF assms(2)] by (rule map_of_rev_distinct)
  moreover have "resolve ?s h = None" for h by (simp add: resolve_def empty_store_def)
  ultimately show ?thesis by (auto simp: fun_eq_iff split: option.splits)
qed

lemma list_grants_resolve: "addr_ok s \<Longrightarrow> set (list_grants s) = {g. \<exists>h. resolve s h = Some g}"
  by (force simp: list_grants_def resolve_def addr_ok_def mget_in_set [symmetric] image_iff)

lemma live_grants_hashes:
  assumes "store_inv api s"
  shows "distinct (map g_tokenHash (live_grants now s))"
    and "g \<in> set (live_grants now s) \<longleftrightarrow>
      resolve s (g_tokenHash g) = Some g \<and> (revoked g \<or> \<not> expired g now)"
proof -
  have hash: "(h, a) \<in> set (grants s) \<Longrightarrow> g_tokenHash (cells s ! a) = h" for h a
    using assms by (auto simp: store_inv_def mget_in_set)
  then have keys: "map g_tokenHash (map (\<lambda>(h, a). cells s ! a) (grants s)) = mkeys (grants s)"
    by auto
  have "distinct (map g_tokenHash (map (\<lambda>(h, a). cells s ! a) (grants s)))"
    unfolding keys using assms by (simp add: store_inv_def wf_map_def)
  then show "distinct (map g_tokenHash (live_grants now s))"
    unfolding live_grants_def by (rule distinct_map_filter)
  have "resolve s (g_tokenHash g) = Some g \<longleftrightarrow> (\<exists>h a. (h, a) \<in> set (grants s) \<and> cells s ! a = g)"
    using assms hash by (auto simp: resolve_def store_inv_def mget_in_set)
  then show "g \<in> set (live_grants now s) \<longleftrightarrow>
      resolve s (g_tokenHash g) = Some g \<and> (revoked g \<or> \<not> expired g now)"
    by (auto simp: live_grants_def)
qed

lemma live_grants_identity:
  "store_inv api s \<Longrightarrow> g \<in> set (live_grants now s) \<Longrightarrow> validate_identity api (Some g) = None"
  by (auto simp: live_grants_def store_inv_def mget_in_set)

lemma expired_mono: "expired g now \<Longrightarrow> now \<le> later \<Longrightarrow> expired g later"
  by (auto simp: expired_def)

lemma resolve_hash: "store_inv api s \<Longrightarrow> resolve s h = Some g \<Longrightarrow> g_tokenHash g = h"
  by (auto simp: resolve_def store_inv_def)

lemma reopened_resolve:
  assumes inv: "store_inv api s" and ids: "\<forall>g \<in> set (cells s). g_id g \<noteq> []"
    and reopened: "open_store api now2 (FileGrants (map Some (live_grants now1 s))) = Inr t"
  shows "resolve t h = Some g \<longleftrightarrow>
    resolve s h = Some g \<and> (revoked g \<or> \<not> expired g now1) \<and> \<not> expired g now2"
proof -
  let ?gs = "live_grants now1 s"
  have leg: "x \<in> set ?gs \<Longrightarrow> with_legacy_id x = x" for x
    using inv ids by (auto simp: live_grants_def with_legacy_id_def store_inv_def mget_in_set)
  have d: "distinct (map g_tokenHash ?gs)" by (rule live_grants_hashes(1) [OF inv])
  have "resolve t = map_of (file_entries now2 ?gs)"
    using open_store_resolve [OF _ d, of api now2] live_grants_identity [OF inv] reopened by auto
  then have "resolve t h = Some g \<longleftrightarrow> (h, g) \<in> set (file_entries now2 ?gs)"
    using file_entries_distinct [OF d] by simp
  also have "\<dots> \<longleftrightarrow> g \<in> set ?gs \<and> h = g_tokenHash g \<and> \<not> expired g now2"
    using leg by (force simp: file_entries_def)
  finally show ?thesis
    using live_grants_hashes(2) [OF inv] resolve_hash [OF inv] by blast
qed

section \<open>Properties\<close>

text \<open>
  C3. Revocation is final. Once the grant that a token resolves to has been revoked by its id,
  no later sequence of store calls makes the token resolve to that grant again: whatever the
  clock, the random source and the file system answer, \<^verbatim>\<open>Lookup\<close> of the token returns nothing,
  or a grant object that was created after the revocation.
\<close>

theorem revocation_is_final:
  assumes inv: "store_inv api s"
    and tok: "mget (grants s) (H token) = Some a" and gid: "mget (grantsByID s) gid = Some a"
    and run: "(auth_step api H)\<^sup>*\<^sup>* (fst (revoke_grant e gid s)) t"
    and found: "lookup_token H now token t = Some g"
  shows "\<exists>b \<ge> length (cells s). b < length (cells t) \<and> mget (grants t) (H token) = Some b \<and> g = cells t ! b"
proof -
  let ?r = "fst (revoke_grant e gid s)"
  have rinv: "store_inv api ?r" using inv by (rule revoke_grant_inv)
  have start: "revoked_at a ?r \<and> kept_or_new (length (cells s)) (H token) a ?r"
    using revoke_grant_revokes [OF inv gid, of e] tok by (simp add: kept_or_new_def)
  have fin: "revoked_at a t \<and> kept_or_new (length (cells s)) (H token) a t"
    using run rinv start by (rule store.run_stable) (rule auth_step_stable)
  have tinv: "store_inv api t" using run rinv by (rule store.run_inv)
  from found obtain b where b: "mget (grants t) (H token) = Some b" "g = cells t ! b" "\<not> revoked (cells t ! b)"
    by (auto simp: lookup_token_def Let_def split: option.splits if_splits)
  with fin have "length (cells s) \<le> b" by (auto simp: revoked_at_def kept_or_new_def)
  moreover from b tinv have "b < length (cells t)" by (auto simp: store_inv_def)
  ultimately show ?thesis using b by blast
qed

text \<open>
  C17. An authorization code is exchangeable at most once: whatever the first exchange of a code
  returns (success, wrong client, expired, a failed save), a second exchange of the same code
  by anyone is refused as invalid, with the store left as the first exchange left it.
\<close>

theorem code_is_one_time:
  "exchange_code H e2 code client2 (fst (exchange_code H e1 code client1 s)) =
     (fst (exchange_code H e1 code client1 s), Inl InvalidCode)"
proof -
  have "mget (codes (fst (exchange_code H e1 code client1 s))) code = None"
    by (cases rule: exchange_code_cases [of H e1 code client1 s]) (simp_all add: store_grant_codes)
  then show ?thesis by (simp add: exchange_code_def)
qed

text \<open>
  A token that was issued works until its expiry: when \<^verbatim>\<open>ExchangeCode\<close> returns a token and
  a grant, the grant carries exactly the client, database and capabilities the code was issued
  for, and the token resolves to it at every instant before one hour has passed, and to nothing
  from then on.
\<close>

theorem exchanged_token_resolves:
  assumes "mget (codes s) code = Some c"
    and "exchange_code H e code client s = (t, Inr (token, g))"
    and "now_issue e + TokenTTL \<noteq> 0"
  shows "g_principalID g = client \<and> g_databaseID g = ac_databaseID c \<and> g_capabilities g = ac_capabilities c \<and>
    lookup_token H now token t = (if now < now_issue e + TokenTTL then Some g else None)"
proof -
  obtain gid where ok: "ac_clientID c = client" and g: "g = code_grant H e c token gid"
    and st: "store_grant e g (s\<lparr>codes := mdel code (codes s)\<rparr>) = (t, None)"
    using assms(1,2)
    by (auto simp: exchange_code_def Let_def split: if_splits option.splits prod.splits)
  have bound: "g_principalID g = client \<and> g_databaseID g = ac_databaseID c \<and> g_capabilities g = ac_capabilities c"
    using ok by (simp add: g code_grant_def)
  let ?s1 = "s\<lparr>codes := mdel code (codes s)\<rparr>"
  have "mget (grants t) (g_tokenHash g) = Some (length (cells s))"
    using store_grant_saved [of e g ?s1] st by simp
  moreover have "cells t = cells s @ [g]" using store_grant_cells [of e g ?s1] st by simp
  ultimately have "lookup_token H now token t = (if now < now_issue e + TokenTTL then Some g else None)"
    using assms(3) by (simp add: lookup_token_def g code_grant_def expired_def revoked_def Let_def)
  with bound show ?thesis by blast
qed


text \<open>
  C31. What \<^verbatim>\<open>OpenStore\<close> keeps: from a file of grants with valid identities and distinct token
  hashes it lists exactly the grants that have not expired. A grant that is both revoked and
  expired, which \<^verbatim>\<open>saveLocked\<close> keeps for the audit trail, is therefore dropped on load.
\<close>

theorem open_store_lists_unexpired:
  assumes "\<forall>g \<in> set gs. validate_identity api (Some g) = None" and "distinct (map g_tokenHash gs)"
  shows "\<exists>t. open_store api now (FileGrants (map Some gs)) = Inr t \<and>
    set (list_grants t) = with_legacy_id ` {g \<in> set gs. \<not> expired g now}"
proof -
  obtain t where t: "open_store api now (FileGrants (map Some gs)) = Inr t" "addr_ok t"
    and r: "resolve t = map_of (file_entries now gs)"
    using open_store_resolve [OF assms] by blast
  have "{g. \<exists>h. map_of (file_entries now gs) h = Some g} = snd ` set (file_entries now gs)"
    using file_entries_distinct [OF assms(2), of now] by force
  also have "\<dots> = with_legacy_id ` {g \<in> set gs. \<not> expired g now}"
    by (simp add: file_entries_def image_image)
  finally show ?thesis using t list_grants_resolve [OF t(2)] r by auto
qed

text \<open>
  The middleware serves a request on a path that is not public only with a principal, and
  only two kinds: the owner, when the bearer token is the owner token, or a grant that is in the
  store under the hash of the token and is neither expired nor revoked at that moment. The bearer
  token is never empty then, so an empty owner token makes nobody the owner.
\<close>

theorem middleware_authenticates:
  assumes "\<not> public_path path" and "auth_middleware H cfg now path header = Serve mp"
  shows "bearer_token header \<noteq> [] \<and>
    (mp = Some \<lparr>p_owner = True, p_grant = None\<rparr> \<and> bearer_token header = cfg_owner_token cfg \<or>
     (\<exists>s g. cfg_store cfg = Some s \<and> mp = Some \<lparr>p_owner = False, p_grant = Some g\<rparr> \<and>
        resolve s (H (bearer_token header)) = Some g \<and> \<not> expired g now \<and> \<not> revoked g))"
  using assms
  by (auto simp: auth_middleware_def Let_def lookup_token_resolve split: if_splits option.splits)

section \<open>Witnesses\<close>

definition demo_api :: access_api where
  "demo_api = \<lparr>validate_ref = (\<lambda>_. True), kind_user = ''user''\<rparr>"

definition demo_env :: env where
  "demo_env = \<lparr>now_check = 1, now_issue = 1, now_save = 1, rnd_token = Some ''t'', rnd_id = Some ''i'', io = None\<rparr>"

definition demo_store :: auth_store where
  "demo_store = fst (create_grant demo_api (\<lambda>t. t) demo_env demo_grant ''tok'' empty_store)"

definition demo_reissued :: auth_store where
  "demo_reissued = fst (create_grant demo_api (\<lambda>t. t) demo_env demo_grant ''tok''
     (fst (revoke_grant demo_env ''69'' demo_store)))"

lemmas demo_eval = demo_store_def demo_reissued_def demo_env_def demo_api_def demo_grant_def
  empty_store_def create_grant_def revoke_grant_def filled_grant_def store_grant_def save_locked_def
  validate_identity_def new_grant_id_def new_token_def hex_encode_def hex_digit_def Let_def

lemma demo_store_inv: "store_inv demo_api demo_store"
  unfolding demo_store_def
  by (rule auth_step_inv [OF step_create [of demo_api "\<lambda>t. t"]]) simp

lemma demo_store_maps:
  "mget (grants demo_store) ''tok'' = Some 0" "mget (grantsByID demo_store) ''69'' = Some 0"
  "length (cells demo_store) = 1" "\<forall>g \<in> set (cells demo_store). g_id g \<noteq> []"
  by (simp_all add: demo_eval)

theorem revocation_is_final_witness:
  "lookup_token (\<lambda>t. t) 2 ''tok'' demo_store \<noteq> None \<and>
   lookup_token (\<lambda>t. t) 2 ''tok'' (fst (revoke_grant demo_env ''69'' demo_store)) = None \<and>
   (\<exists>b \<ge> length (cells demo_store). b < length (cells demo_reissued) \<and>
      mget (grants demo_reissued) ''tok'' = Some b \<and> cells demo_reissued ! 1 = cells demo_reissued ! b)"
proof -
  let ?r = "fst (revoke_grant demo_env ''69'' demo_store)"
  have run: "(auth_step demo_api (\<lambda>t. t))\<^sup>*\<^sup>* ?r demo_reissued"
    unfolding demo_reissued_def by (rule r_into_rtranclp) (rule step_create)
  have found: "lookup_token (\<lambda>t. t) 2 ''tok'' demo_reissued = Some (cells demo_reissued ! 1)"
    by (simp add: demo_eval lookup_token_def expired_def revoked_def)
  have live: "lookup_token (\<lambda>t. t) 2 ''tok'' demo_store \<noteq> None"
    by (simp add: demo_eval lookup_token_def expired_def revoked_def)
  have dead: "lookup_token (\<lambda>t. t) 2 ''tok'' ?r = None"
    by (simp add: demo_eval lookup_token_def expired_def revoked_def)
  show ?thesis
    using live dead revocation_is_final [OF demo_store_inv demo_store_maps(1,2) run found] by simp
qed

definition demo_code_store :: auth_store where
  "demo_code_store = put_code 1 ''c0de'' ''app'' ''https://app/cb'' ''crm''
     [\<lparr>cap_action = ''records:read'', cap_collection = []\<rparr>] empty_store"

theorem exchanged_token_resolves_witness:
  "\<exists>t token g. exchange_code (\<lambda>t. t) demo_env ''c0de'' ''app'' demo_code_store = (t, Inr (token, g)) \<and>
     g_principalID g = ''app'' \<and> lookup_token (\<lambda>t. t) 5 token t = Some g \<and>
     lookup_token (\<lambda>t. t) (1 + TokenTTL) token t = None"
proof -
  let ?x = "exchange_code (\<lambda>t. t) demo_env ''c0de'' ''app'' demo_code_store"
  obtain c where c: "mget (codes demo_code_store) ''c0de'' = Some c"
    by (simp add: demo_code_store_def put_code_def)
  obtain t token g where x: "?x = (t, Inr (token, g))"
    by (simp add: exchange_code_def demo_code_store_def put_code_def demo_eval code_grant_def CodeTTL_def)
  have n: "now_issue demo_env + TokenTTL \<noteq> 0" by (simp add: demo_env_def TokenTTL_def)
  show ?thesis
    using x exchanged_token_resolves [OF c x n, of 5]
      exchanged_token_resolves [OF c x n, of "1 + TokenTTL"]
    by (auto simp: demo_env_def TokenTTL_def)
qed


theorem open_store_lists_unexpired_witness:
  "\<exists>t. open_store demo_api 10
         (FileGrants (map Some [demo_grant, demo_grant\<lparr>g_tokenHash := ''h2'', g_expiresAt := 5, g_revokedAt := Some 3\<rparr>])) = Inr t \<and>
     set (list_grants t) = {demo_grant}"
proof -
  let ?old = "demo_grant\<lparr>g_tokenHash := ''h2'', g_expiresAt := 5, g_revokedAt := Some 3\<rparr>"
  have v: "\<forall>g \<in> set [demo_grant, ?old]. validate_identity demo_api (Some g) = None"
    by (simp add: demo_grant_def validate_identity_def)
  have d: "distinct (map g_tokenHash [demo_grant, ?old])" by (simp add: demo_grant_def)
  have "with_legacy_id ` {g \<in> set [demo_grant, ?old]. \<not> expired g 10} = {demo_grant}"
  proof -
    have "{g \<in> set [demo_grant, ?old]. \<not> expired g 10} = {demo_grant}"
      by (auto simp: demo_grant_def expired_def)
    then show ?thesis by (simp add: with_legacy_id_def demo_grant_def)
  qed
  with open_store_lists_unexpired [OF v d, of 10] show ?thesis by auto
qed

theorem middleware_authenticates_witness:
  "\<not> public_path ''/v1/status'' \<and>
   auth_middleware (\<lambda>t. t) \<lparr>cfg_owner_token = ''own'', cfg_store = Some demo_store\<rparr> 2 ''/v1/status'' ''Bearer tok'' =
     Serve (Some \<lparr>p_owner = False, p_grant = Some (cells demo_store ! 0)\<rparr>) \<and>
   resolve demo_store ''tok'' = Some (cells demo_store ! 0)"
proof -
  let ?cfg = "\<lparr>cfg_owner_token = ''own'', cfg_store = Some demo_store\<rparr>"
  have np: "\<not> public_path ''/v1/status''" by (simp add: public_path_def has_prefix_def)
  have tok: "bearer_token ''Bearer tok'' = ''tok''"
    by (simp add: bearer_token_def equal_fold_def trim_space_def is_space_def fold_rune_def)
  have sv: "auth_middleware (\<lambda>t. t) ?cfg 2 ''/v1/status'' ''Bearer tok'' =
     Serve (Some \<lparr>p_owner = False, p_grant = Some (cells demo_store ! 0)\<rparr>)"
    by (simp add: auth_middleware_def np tok) (simp add: demo_eval lookup_token_def expired_def revoked_def)
  show ?thesis using np sv middleware_authenticates [OF np sv] by (simp add: tok)
qed

end
