(* ===== verification/Connect.thy ===== *)
theory Connect
  imports Auth_Store
begin

text \<open>
  \<^verbatim>\<open>src/pkg/server/connect.go\<close> and \<^verbatim>\<open>src/pkg/server/tokens.go\<close>: the handlers that lead to a grant - consent, code exchange
  and the owner's token endpoints - over the grant store of \<open>Auth_Store\<close>.

  A form is \<open>None\<close> when \<^verbatim>\<open>ParseForm\<close> fails. \<^verbatim>\<open>url.Parse\<close> and \<^verbatim>\<open>time.ParseDuration\<close> are parameters, and so is the set of
  mounted databases at the time of a request. A redirect is its URI with the query parameters the handler sets on it.
\<close>

record connect_std =
  cs_absolute :: "string \<Rightarrow> bool"
  cs_duration :: "string \<Rightarrow> int option"
  cs_api :: access_api
  cs_hash :: "string \<Rightarrow> string"

type_synonym form = "(string, string) gomap"

definition form_get :: "form \<Rightarrow> string \<Rightarrow> string" where
  "form_get v k = case_option [] id (mget v k)"

section \<open>Consent\<close>

record consent_view =
  cv_clientID :: string
  cv_redirectURI :: string
  cv_databaseID :: string
  cv_capabilities :: "capability list"
  cv_capabilitiesCSV :: string
  cv_state :: string

datatype connect_error = ClientRequired | DatabaseRequired | UnknownDatabase string | RedirectNotAbsolute | BadCapabilities cap_error

definition validateConnect :: "connect_std \<Rightarrow> (string \<Rightarrow> bool) \<Rightarrow> form \<Rightarrow> connect_error + consent_view" where
  "validateConnect std mounted v =
     (let cv = \<lparr>cv_clientID = form_get v ''client_id'', cv_redirectURI = form_get v ''redirect_uri'', cv_databaseID = form_get v ''db'',
                cv_capabilities = [], cv_capabilitiesCSV = form_get v ''capabilities'', cv_state = form_get v ''state''\<rparr>
      in if cv_clientID cv = [] then Inl ClientRequired
         else if cv_databaseID cv = [] then Inl DatabaseRequired
         else if \<not> mounted (cv_databaseID cv) then Inl (UnknownDatabase (cv_databaseID cv))
         else if \<not> cs_absolute std (cv_redirectURI cv) then Inl RedirectNotAbsolute
         else case parse_capabilities (cv_capabilitiesCSV cv) of
             Inl e \<Rightarrow> Inl (BadCapabilities e)
           | Inr caps \<Rightarrow> Inr (cv\<lparr>cv_capabilities := caps\<rparr>))"

record token_response =
  tr_subject :: "principal_ref option"
  tr_actor :: "principal_ref option"
  tr_id :: string
  tr_token :: string
  tr_label :: string
  tr_databaseID :: string
  tr_capabilities :: "string list"
  tr_issuedAt :: int
  tr_expiresAt :: "int option"
  tr_revokedAt :: "int option"

datatype reply =
    InvalidForm
  | BadConnect connect_error
  | ConsentPage consent_view
  | RedirectTo string "(string \<times> string) list"
  | RandomFailed
  | UnsupportedGrant string
  | InvalidGrant exchange_error
  | AccessToken string int string
  | OwnerRequired
  | InvalidBody
  | NoCapabilities
  | BadCapability cap_error
  | DatabaseIDRequired
  | BadDuration
  | BadBinding
  | PersistFailed create_error
  | TokenCreated token_response
  | TokenList "token_response list"
  | TokenNotFound string
  | TokenRevoked token_response

definition handleAuthorizeGet :: "connect_std \<Rightarrow> (string \<Rightarrow> bool) \<Rightarrow> form \<Rightarrow> reply" where
  "handleAuthorizeGet std mounted q = (case validateConnect std mounted q of Inl e \<Rightarrow> BadConnect e | Inr cv \<Rightarrow> ConsentPage cv)"

definition newAuthCode :: "string option \<Rightarrow> string option" where
  "newAuthCode rnd = map_option hex_encode rnd"

text \<open>\<^verbatim>\<open>handleAuthorizePost\<close>; \<open>rnd\<close> is what the random source returns.\<close>

definition handleAuthorizePost ::
    "connect_std \<Rightarrow> (string \<Rightarrow> bool) \<Rightarrow> int \<Rightarrow> string option \<Rightarrow> form option \<Rightarrow> auth_store \<Rightarrow> auth_store \<times> reply" where
  "handleAuthorizePost std mounted now rnd form s =
     (case form of None \<Rightarrow> (s, InvalidForm) | Some v \<Rightarrow>
      (case validateConnect std mounted v of Inl e \<Rightarrow> (s, BadConnect e) | Inr cv \<Rightarrow>
       (let q = (if cv_state cv \<noteq> [] then [(''state'', cv_state cv)] else [])
        in if form_get v ''decision'' \<noteq> ''approve'' then (s, RedirectTo (cv_redirectURI cv) (mput ''error'' ''access_denied'' q))
           else case newAuthCode rnd of None \<Rightarrow> (s, RandomFailed)
             | Some code \<Rightarrow> (put_code now code (cv_clientID cv) (cv_redirectURI cv) (cv_databaseID cv) (cv_capabilities cv) s,
                 RedirectTo (cv_redirectURI cv) (mput ''code'' code q)))))"

definition handleToken :: "connect_std \<Rightarrow> env \<Rightarrow> form option \<Rightarrow> auth_store \<Rightarrow> auth_store \<times> reply" where
  "handleToken std e form s =
     (case form of None \<Rightarrow> (s, InvalidForm) | Some v \<Rightarrow>
      (let gt = form_get v ''grant_type'' in
       if gt \<noteq> [] \<and> gt \<noteq> ''authorization_code'' then (s, UnsupportedGrant gt)
       else case exchange_code (cs_hash std) e (form_get v ''code'') (form_get v ''client_id'') s of
           (s', Inl err) \<Rightarrow> (s', InvalidGrant err)
         | (s', Inr (token, g)) \<Rightarrow> (s', AccessToken token (TokenTTL div 1000000000) (g_databaseID g))))"

section \<open>Tokens\<close>

definition grantToResponse :: "grant \<Rightarrow> string \<Rightarrow> token_response" where
  "grantToResponse g secret =
     \<lparr>tr_subject = g_subject g, tr_actor = g_actor g, tr_id = g_id g, tr_token = secret, tr_label = g_label g, tr_databaseID = g_databaseID g,
      tr_capabilities = map cap_string (g_capabilities g), tr_issuedAt = g_issuedAt g,
      tr_expiresAt = (if g_expiresAt g \<noteq> 0 then Some (g_expiresAt g) else None), tr_revokedAt = g_revokedAt g\<rparr>"

record token_request =
  tq_subject :: "principal_ref option"
  tq_actor :: "principal_ref option"
  tq_label :: string
  tq_databaseID :: string
  tq_capabilities :: "string list"
  tq_expiresIn :: string

definition CapDatabasesCreate :: string where "CapDatabasesCreate = ''databases:create''"

text \<open>The loop over the requested capabilities: the parsed list and whether one creates databases.\<close>

fun parse_requested :: "string list \<Rightarrow> capability list \<Rightarrow> bool \<Rightarrow> cap_error + capability list \<times> bool" where
  "parse_requested [] caps creates = Inr (caps, creates)"
| "parse_requested (cs # rest) caps creates =
     rbind (parse_capability cs) (\<lambda>c. parse_requested rest (caps @ [c]) (creates \<or> cap_action c = CapDatabasesCreate))"

definition requested_grant :: "token_request \<Rightarrow> capability list \<Rightarrow> int \<Rightarrow> grant" where
  "requested_grant req caps expiresAt =
     \<lparr>g_subject = tq_subject req, g_actor = tq_actor req, g_id = [], g_label = tq_label req, g_tokenHash = [], g_principalType = [],
      g_principalID = [], g_databaseID = tq_databaseID req, g_capabilities = caps, g_issuedAt = 0, g_expiresAt = expiresAt, g_revokedAt = None\<rparr>"

text \<open>The expiry: the zero time without \<^verbatim>\<open>expiresIn\<close>, \<open>None\<close> for an invalid duration.\<close>

definition token_expiry :: "connect_std \<Rightarrow> env \<Rightarrow> token_request \<Rightarrow> int option" where
  "token_expiry std e req =
     (if tq_expiresIn req = [] then Some 0 else map_option (\<lambda>d. now_check e + d) (cs_duration std (tq_expiresIn req)))"

definition handleTokensCreate ::
    "connect_std \<Rightarrow> bool \<Rightarrow> env \<Rightarrow> token_request option \<Rightarrow> auth_store \<Rightarrow> auth_store \<times> reply" where
  "handleTokensCreate std owner e body s =
     (if \<not> owner then (s, OwnerRequired)
      else case body of None \<Rightarrow> (s, InvalidBody) | Some req \<Rightarrow>
        if tq_capabilities req = [] then (s, NoCapabilities)
        else case parse_requested (tq_capabilities req) [] False of Inl err \<Rightarrow> (s, BadCapability err) | Inr (caps, creates) \<Rightarrow>
          if tq_databaseID req = [] \<and> \<not> creates then (s, DatabaseIDRequired)
          else case token_expiry std e req of
              None \<Rightarrow> (s, BadDuration)
            | Some expiresAt \<Rightarrow>
               (case new_token (rnd_token e) of None \<Rightarrow> (s, RandomFailed) | Some token \<Rightarrow>
                (let g = requested_grant req caps expiresAt
                 in if validate_identity (cs_api std) (Some g) \<noteq> None then (s, BadBinding)
                    else case create_grant (cs_api std) (cs_hash std) e g token s of
                        (s', Inl err) \<Rightarrow> (s', PersistFailed err)
                      | (s', Inr g') \<Rightarrow> (s', TokenCreated (grantToResponse g' token)))))"

definition handleTokensList :: "bool \<Rightarrow> auth_store \<Rightarrow> reply" where
  "handleTokensList owner s =
     (if \<not> owner then OwnerRequired else TokenList (map (\<lambda>g. grantToResponse g []) (list_grants s)))"

definition handleTokensRevoke :: "bool \<Rightarrow> env \<Rightarrow> string \<Rightarrow> auth_store \<Rightarrow> auth_store \<times> reply" where
  "handleTokensRevoke owner e i s =
     (if \<not> owner then (s, OwnerRequired)
      else case revoke_grant e i s of (s', None) \<Rightarrow> (s', TokenNotFound i) | (s', Some g) \<Rightarrow> (s', TokenRevoked (grantToResponse g [])))"

section \<open>Requests in sequence\<close>

text \<open>One request that may change the store. The database set is the one mounted when the request is served.\<close>

datatype connect_event =
    ConsentPost "string \<Rightarrow> bool" int "string option" "form option"
  | TokenPost env "form option"
  | TokensPost bool env "token_request option"
  | TokensDelete bool env string

fun serve :: "connect_std \<Rightarrow> connect_event \<Rightarrow> auth_store \<Rightarrow> auth_store" where
  "serve std (ConsentPost mounted now rnd form) s = fst (handleAuthorizePost std mounted now rnd form s)"
| "serve std (TokenPost e form) s = fst (handleToken std e form s)"
| "serve std (TokensPost owner e body) s = fst (handleTokensCreate std owner e body s)"
| "serve std (TokensDelete owner e i) s = fst (handleTokensRevoke owner e i s)"

definition serve_all :: "connect_std \<Rightarrow> connect_event list \<Rightarrow> auth_store \<Rightarrow> auth_store" where
  "serve_all std evs s = fold (serve std) evs s"

text \<open>A consent that was given, for a client, a database and capabilities; and a token the owner asked for.\<close>

definition consented :: "connect_std \<Rightarrow> connect_event \<Rightarrow> string \<Rightarrow> string \<Rightarrow> capability list \<Rightarrow> bool" where
  "consented std ev client db caps \<longleftrightarrow> (case ev of
     ConsentPost mounted now rnd (Some v) \<Rightarrow>
       (case validateConnect std mounted v of
          Inr cv \<Rightarrow> form_get v ''decision'' = ''approve'' \<and> cv_clientID cv = client \<and> cv_databaseID cv = db \<and> cv_capabilities cv = caps
        | Inl _ \<Rightarrow> False)
   | _ \<Rightarrow> False)"

definition owner_asked :: "connect_event \<Rightarrow> string \<Rightarrow> capability list \<Rightarrow> bool" where
  "owner_asked ev db caps \<longleftrightarrow> (case ev of
     TokensPost owner e (Some req) \<Rightarrow> owner \<and> tq_databaseID req = db \<and>
       (\<exists>creates. parse_requested (tq_capabilities req) [] False = Inr (caps, creates) \<and> (db = [] \<longrightarrow> creates))
   | _ \<Rightarrow> False)"

section \<open>Where grants come from\<close>

text \<open>What a handler does to the store: nothing, or one call.\<close>

lemma handleToken_store:
  "fst (handleToken std e form s) = s \<or> (\<exists>code client. fst (handleToken std e form s) = fst (exchange_code (cs_hash std) e code client s))"
proof (cases form)
  case (Some v)
  have "fst (case x of (s', Inl err) \<Rightarrow> (s', f err) | (s', Inr (token, g)) \<Rightarrow> (s', h token g)) = fst x"
    for x :: "auth_store \<times> (exchange_error + string \<times> grant)" and f :: "exchange_error \<Rightarrow> reply" and h :: "string \<Rightarrow> grant \<Rightarrow> reply"
    by (auto split: prod.splits sum.splits)
  then show ?thesis using Some by (auto simp: handleToken_def Let_def)
qed (simp add: handleToken_def)

lemma handleTokensCreate_store:
  obtains "fst (handleTokensCreate std owner e body s) = s"
  | req caps creates expiresAt token where owner "body = Some req" "parse_requested (tq_capabilities req) [] False = Inr (caps, creates)"
      "tq_databaseID req = [] \<longrightarrow> creates"
      "fst (handleTokensCreate std owner e body s) = fst (create_grant (cs_api std) (cs_hash std) e (requested_grant req caps expiresAt) token s)"
proof -
  have f: "fst (case x of (s', Inl err) \<Rightarrow> (s', f err) | (s', Inr g) \<Rightarrow> (s', h g)) = fst x"
    for x :: "auth_store \<times> (create_error + grant)" and f :: "create_error \<Rightarrow> reply" and h :: "grant \<Rightarrow> reply"
    by (auto split: prod.splits sum.splits)
  show thesis
  proof (cases "fst (handleTokensCreate std owner e body s) = s")
    case False
    then obtain req where req: owner "body = Some req" "tq_capabilities req \<noteq> []"
      by (auto simp: handleTokensCreate_def split: option.splits if_splits)
    with False obtain caps creates where caps: "parse_requested (tq_capabilities req) [] False = Inr (caps, creates)" "tq_databaseID req = [] \<longrightarrow> creates"
      by (auto simp: handleTokensCreate_def split: sum.splits prod.splits if_splits)
    with False req obtain expiresAt where ex: "token_expiry std e req = Some expiresAt" by (auto simp: handleTokensCreate_def split: option.splits if_splits)
    with False req caps obtain token where "new_token (rnd_token e) = Some token" by (auto simp: handleTokensCreate_def split: option.splits if_splits)
    with False req caps ex have "fst (handleTokensCreate std owner e body s) =
        fst (create_grant (cs_api std) (cs_hash std) e (requested_grant req caps expiresAt) token s)"
      by (simp add: handleTokensCreate_def Let_def f split: if_splits)
    with that(2) req caps show thesis by blast
  qed (rule that(1))
qed

lemma handleTokensRevoke_store:
  "fst (handleTokensRevoke owner e i s) = (if owner then fst (revoke_grant e i s) else s)"
  by (auto simp: handleTokensRevoke_def split: prod.splits option.splits)

text \<open>A request is a step of the store, or changes nothing.\<close>

lemma serve_steps: "serve std ev s = s \<or> auth_step (cs_api std) (cs_hash std) s (serve std ev s)"
proof (cases ev)
  case (ConsentPost mounted now rnd form)
  then show ?thesis
    by (auto simp: handleAuthorizePost_def Let_def split: option.splits sum.splits intro: auth_step.intros)
next
  case (TokenPost e form)
  then show ?thesis using handleToken_store [of std e form s] step_exchange by (metis serve.simps(2))
next
  case (TokensPost owner e body)
  show ?thesis unfolding TokensPost serve.simps
    by (rule handleTokensCreate_store [of std owner e body s]) (metis step_create)+
next
  case (TokensDelete owner e i)
  then show ?thesis by (simp add: handleTokensRevoke_store step_revoke)
qed

lemma serve_inv: "store_inv (cs_api std) s \<Longrightarrow> store_inv (cs_api std) (serve std ev s)"
  using serve_steps [of std ev s] auth_step_inv by (metis (full_types))

lemma serve_all_inv: "store_inv (cs_api std) s \<Longrightarrow> store_inv (cs_api std) (serve_all std evs s)"
  unfolding serve_all_def by (induction evs arbitrary: s) (auto simp: serve_inv)

definition accounted_grant :: "connect_std \<Rightarrow> connect_event list \<Rightarrow> grant \<Rightarrow> bool" where
  "accounted_grant std evs g \<longleftrightarrow>
     (\<exists>ev \<in> set evs. consented std ev (g_principalID g) (g_databaseID g) (g_capabilities g)) \<or>
     (\<exists>ev \<in> set evs. owner_asked ev (g_databaseID g) (g_capabilities g))"

definition accounted_code :: "connect_std \<Rightarrow> connect_event list \<Rightarrow> auth_code \<Rightarrow> bool" where
  "accounted_code std evs c \<longleftrightarrow> (\<exists>ev \<in> set evs. consented std ev (ac_clientID c) (ac_databaseID c) (ac_capabilities c))"

definition provenance :: "connect_std \<Rightarrow> connect_event list \<Rightarrow> auth_store \<Rightarrow> bool" where
  "provenance std evs s \<longleftrightarrow> (\<forall>g \<in> set (cells s). accounted_grant std evs g) \<and> (\<forall>k c. mget (codes s) k = Some c \<longrightarrow> accounted_code std evs c)"

lemma provenance_mono: "provenance std evs s \<Longrightarrow> set evs \<subseteq> set evs' \<Longrightarrow> provenance std evs' s"
  unfolding provenance_def accounted_grant_def accounted_code_def by blast

lemma provenance_store_grant:
  "provenance std evs s \<Longrightarrow> accounted_grant std evs g \<Longrightarrow> provenance std evs (fst (store_grant e g s))"
  by (auto simp: provenance_def store_grant_cells store_grant_codes)

lemma provenance_less_codes: "provenance std evs s \<Longrightarrow> provenance std evs (s\<lparr>codes := mdel k (codes s)\<rparr>)"
  by (auto simp: provenance_def split: if_splits)

lemma accounted_code_grant: "accounted_code std evs c \<Longrightarrow> accounted_grant std evs (code_grant H e c token gid)"
  by (auto simp: accounted_code_def accounted_grant_def code_grant_def)

lemma provenance_exchange:
  assumes "provenance std evs s"
  shows "provenance std evs (fst (exchange_code H e code client s))"
proof (cases rule: exchange_code_cases [of H e code client s])
  case (stored c token gid)
  then have "accounted_code std evs c" using assms by (auto simp: provenance_def)
  then show ?thesis unfolding stored by (intro provenance_store_grant provenance_less_codes assms accounted_code_grant)
qed (simp_all add: assms provenance_less_codes)

lemma provenance_revoke:
  assumes "provenance std evs s" and inv: "store_inv api s"
  shows "provenance std evs (fst (revoke_grant e gid s))"
proof (cases rule: revoke_grant_cases [of e gid s])
  case (revokes a d)
  then have "a < length (cells s)" using inv by (auto simp: store_inv_def)
  then have "accounted_grant std evs ((cells s ! a)\<lparr>g_revokedAt := x\<rparr>)" for x
    using assms(1) by (auto simp: provenance_def accounted_grant_def)
  then show ?thesis using assms(1) unfolding revokes
    by (auto simp: provenance_def dest: set_update_subset_insert [THEN subsetD])
qed (simp add: assms)

lemma provenance_serve:
  assumes "provenance std evs s" and "store_inv (cs_api std) s"
  shows "provenance std (evs @ [ev]) (serve std ev s)"
proof -
  have more: "provenance std (evs @ [ev]) s" using assms(1) by (rule provenance_mono) auto
  show ?thesis
  proof (cases ev)
    case (ConsentPost mounted now rnd form)
    show ?thesis
    proof (cases "serve std ev s = s")
      case True
      then show ?thesis using more by simp
    next
      case False
      then obtain v cv code where v: "form = Some v" "validateConnect std mounted v = Inr cv" "form_get v ''decision'' = ''approve''"
        "serve std ev s = put_code now code (cv_clientID cv) (cv_redirectURI cv) (cv_databaseID cv) (cv_capabilities cv) s"
        by (auto simp: ConsentPost handleAuthorizePost_def Let_def split: option.splits sum.splits if_splits)
      then have "consented std ev (cv_clientID cv) (cv_databaseID cv) (cv_capabilities cv)" by (simp add: consented_def ConsentPost)
      then show ?thesis using more unfolding v(4) by (auto simp: provenance_def put_code_def accounted_code_def)
    qed
  next
    case (TokenPost e form)
    then show ?thesis using more provenance_exchange [OF more] handleToken_store [of std e form s] by (metis serve.simps(2))
  next
    case (TokensPost owner e body)
    show ?thesis
    proof (rule handleTokensCreate_store [of std owner e body s])
      assume "fst (handleTokensCreate std owner e body s) = s"
      then show ?thesis using more by (simp add: TokensPost)
    next
      fix req caps creates expiresAt token
      assume q: owner "body = Some req" "parse_requested (tq_capabilities req) [] False = Inr (caps, creates)" "tq_databaseID req = [] \<longrightarrow> creates"
        and step: "fst (handleTokensCreate std owner e body s) = fst (create_grant (cs_api std) (cs_hash std) e (requested_grant req caps expiresAt) token s)"
      have ask: "owner_asked ev (tq_databaseID req) caps" using q by (simp add: owner_asked_def TokensPost)
      have "provenance std (evs @ [ev]) (fst (create_grant (cs_api std) (cs_hash std) e (requested_grant req caps expiresAt) token s))"
      proof (cases rule: create_grant_cases [of "cs_api std" "cs_hash std" e "requested_grant req caps expiresAt" token s])
        case (stored gid)
        have "accounted_grant std (evs @ [ev]) (filled_grant (cs_hash std) e token gid (requested_grant req caps expiresAt))"
          using ask by (simp add: accounted_grant_def requested_grant_def)
        then show ?thesis using more unfolding stored(2) by (intro provenance_store_grant)
      qed (simp add: more)
      then show ?thesis by (simp add: TokensPost step)
    qed
  next
    case (TokensDelete owner e i)
    then show ?thesis using more provenance_revoke [OF more assms(2), of e i] by (cases owner) (simp_all add: handleTokensRevoke_store)
  qed
qed

lemma provenance_all:
  "provenance std evs s \<Longrightarrow> store_inv (cs_api std) s \<Longrightarrow> provenance std (evs @ later) (serve_all std later s)"
proof (induction later arbitrary: evs s)
  case (Cons ev later)
  then show ?case using Cons.IH [OF provenance_serve [OF Cons.prems, of ev] serve_inv [OF Cons.prems(2)]] by (simp add: serve_all_def)
qed (simp add: serve_all_def)

lemma parse_requested_creates:
  "parse_requested cs caps creates = Inr (caps', creates') \<Longrightarrow> creates' \<longleftrightarrow> creates \<or> (\<exists>c \<in> set (drop (length caps) caps'). cap_action c = CapDatabasesCreate)"
proof -
  have "parse_requested cs caps creates = Inr (caps', creates') \<Longrightarrow> \<exists>new. caps' = caps @ new \<and> (creates' \<longleftrightarrow> creates \<or> (\<exists>c \<in> set new. cap_action c = CapDatabasesCreate))"
  proof (induction cs arbitrary: caps creates)
    case (Cons x cs)
    then obtain c where "parse_requested cs (caps @ [c]) (creates \<or> cap_action c = CapDatabasesCreate) = Inr (caps', creates')" by auto
    from Cons.IH [OF this] show ?case by auto
  qed simp
  then show "parse_requested cs caps creates = Inr (caps', creates') \<Longrightarrow> creates' \<longleftrightarrow> creates \<or> (\<exists>c \<in> set (drop (length caps) caps'). cap_action c = CapDatabasesCreate)"
    by auto
qed

lemma consented_database: "consented std ev client db caps \<Longrightarrow> db \<noteq> []"
  by (auto simp: consented_def validateConnect_def Let_def split: connect_event.splits option.splits sum.splits if_splits)

text \<open>
  C5. Every working token has an origin. Whatever requests the connect and token endpoints have served since the store was empty - refused
  ones, failing file systems and random sources included - a token that resolves belongs to a grant with exactly the client,
  database and capabilities of a consent form that was approved for a mounted database, or with the database and
  capabilities the owner asked for; and a grant for no particular database can create databases.
\<close>

theorem tokens_come_from_consent_or_owner:
  assumes "lookup_token (cs_hash std) now token (serve_all std evs empty_store) = Some g"
  shows "((\<exists>ev \<in> set evs. consented std ev (g_principalID g) (g_databaseID g) (g_capabilities g)) \<or>
      (\<exists>ev \<in> set evs. owner_asked ev (g_databaseID g) (g_capabilities g))) \<and>
     (g_databaseID g = [] \<longrightarrow> (\<exists>c \<in> set (g_capabilities g). cap_action c = CapDatabasesCreate))"
proof -
  let ?s = "serve_all std evs empty_store"
  have inv: "store_inv (cs_api std) ?s" by (rule serve_all_inv) simp
  have "provenance std [] empty_store" by (simp add: provenance_def empty_store_def)
  then have p: "provenance std evs ?s" using provenance_all [of std "[]" empty_store evs] by simp
  obtain a where "mget (grants ?s) (cs_hash std token) = Some a" "g = cells ?s ! a"
    using assms by (auto simp: lookup_token_def Let_def split: option.splits if_splits)
  then have "g \<in> set (cells ?s)" using inv by (auto simp: store_inv_def)
  then have acc: "accounted_grant std evs g" using p by (simp add: provenance_def)
  have "\<exists>c \<in> set (g_capabilities g). cap_action c = CapDatabasesCreate" if db: "g_databaseID g = []"
  proof -
    obtain ev where "owner_asked ev [] (g_capabilities g)" using acc db consented_database unfolding accounted_grant_def by metis
    then obtain cs where "parse_requested cs [] False = Inr (g_capabilities g, True)"
      by (auto simp: owner_asked_def split: connect_event.splits option.splits)
    from parse_requested_creates [OF this] show ?thesis by simp
  qed
  then show ?thesis using acc by (auto simp: accounted_grant_def)
qed

text \<open>A consent, an exchange and a token: the run of one application.\<close>

definition sample_connect :: connect_std where
  "sample_connect = \<lparr>cs_absolute = (\<lambda>u. u \<noteq> []), cs_duration = (\<lambda>d. None), cs_api = demo_api, cs_hash = (\<lambda>t. t)\<rparr>"

definition sample_consent :: connect_event where
  "sample_consent = ConsentPost (\<lambda>d. d = ''crm'') 1 (Some ''c'') (Some [(''client_id'', ''app''), (''redirect_uri'', ''https://app/cb''), (''db'', ''crm''),
     (''capabilities'', ''records:read''), (''decision'', ''approve'')])"

definition sample_exchange :: connect_event where
  "sample_exchange = TokenPost demo_env (Some [(''client_id'', ''app''), (''code'', ''63'')])"

definition sample_issued :: grant where
  "sample_issued = \<lparr>g_subject = None, g_actor = None, g_id = ''69'', g_label = [], g_tokenHash = ''ovdb_74'', g_principalType = ''application'',
     g_principalID = ''app'', g_databaseID = ''crm'', g_capabilities = [\<lparr>cap_action = ''records:read'', cap_collection = []\<rparr>],
     g_issuedAt = 1, g_expiresAt = 1 + TokenTTL, g_revokedAt = None\<rparr>"

lemma sample_capabilities: "parse_capabilities ''records:read'' = Inr [\<lparr>cap_action = ''records:read'', cap_collection = []\<rparr>]"
proof -
  have t: "trim_space ''records:read'' = ''records:read''" by (rule trim_space_id) (simp_all add: is_ascii_def is_space_def)
  show ?thesis using parse_cap_string [of "\<lparr>cap_action = ''records:read'', cap_collection = []\<rparr>"]
    by (simp add: parse_capabilities_def t cap_string_def wf_capability_def known_capabilities_def)
qed

lemma sample_lookup: "lookup_token (cs_hash sample_connect) 2 ''ovdb_74'' (serve_all sample_connect [sample_consent, sample_exchange] empty_store) = Some sample_issued"
  by (simp add: serve_all_def sample_consent_def sample_exchange_def sample_connect_def handleAuthorizePost_def handleToken_def validateConnect_def form_get_def
      sample_capabilities newAuthCode_def put_code_def exchange_code_def code_grant_def demo_eval lookup_token_def expired_def revoked_def TokenTTL_def
      CodeTTL_def sample_issued_def)

theorem tokens_come_from_consent_or_owner_witness:
  "lookup_token (cs_hash sample_connect) 2 ''ovdb_74'' (serve_all sample_connect [sample_consent, sample_exchange] empty_store) = Some sample_issued \<and>
   ((\<exists>ev \<in> set [sample_consent, sample_exchange]. consented sample_connect ev ''app'' ''crm'' (g_capabilities sample_issued)) \<or>
      (\<exists>ev \<in> set [sample_consent, sample_exchange]. owner_asked ev ''crm'' (g_capabilities sample_issued)))"
  using tokens_come_from_consent_or_owner [OF sample_lookup] sample_lookup by (simp add: sample_issued_def)

end
