(* ===== verification/Cors.thy ===== *)
theory Cors
  imports Go_Strings
begin

text \<open>
  \<^verbatim>\<open>src/pkg/server/cors.go\<close>: the configured origins and the middleware in front of the routes. A nil configuration is
  \<open>None\<close>. The middleware's result is the response headers it sets and whether it answers or passes the request on.
  \<^verbatim>\<open>httpguts.ValidHeaderFieldName\<close> is the parameter \<open>valid_name\<close>.
\<close>

record cors_config =
  cc_allowHeaders :: "string list"
  cc_exposeHeaders :: "string list"
  cc_allowAll :: bool
  cc_exact :: "string list"

definition no_origins :: cors_config where
  "no_origins = \<lparr>cc_allowHeaders = [], cc_exposeHeaders = [], cc_allowAll = False, cc_exact = []\<rparr>"

text \<open>The loops of \<^verbatim>\<open>ParseCORSOrigins\<close>: over the comma-separated parts of a value, and over the values; \<open>Inl\<close> is the return at a star.\<close>

fun parse_parts :: "cors_config \<Rightarrow> string list \<Rightarrow> cors_config + cors_config" where
  "parse_parts cfg [] = Inr cfg"
| "parse_parts cfg (raw # rest) =
     (let org = trim_space raw in
      if org = [] then parse_parts cfg rest
      else if org = ''*'' then Inl (cfg\<lparr>cc_allowAll := True\<rparr>)
      else parse_parts (cfg\<lparr>cc_exact := cc_exact cfg @ [org]\<rparr>) rest)"

fun parse_values :: "cors_config \<Rightarrow> string list \<Rightarrow> cors_config + cors_config" where
  "parse_values cfg [] = Inr cfg"
| "parse_values cfg (v # rest) = rbind (parse_parts cfg (split_on CHR '','' v)) (\<lambda>cfg'. parse_values cfg' rest)"

definition ParseCORSOrigins :: "string list \<Rightarrow> cors_config option" where
  "ParseCORSOrigins vals =
     (if vals = [] then None
      else case parse_values no_origins vals of
          Inl cfg \<Rightarrow> Some cfg
        | Inr cfg \<Rightarrow> if cc_exact cfg = [] then None else Some cfg)"

definition AllowedOrigin :: "cors_config option \<Rightarrow> string \<Rightarrow> string" where
  "AllowedOrigin c origin =
     (case c of None \<Rightarrow> []
      | Some cfg \<Rightarrow> if origin = [] then []
          else if cc_allowAll cfg then ''*''
          else if origin \<in> set (cc_exact cfg) then origin else [])"

definition corsAllowMethods :: string where "corsAllowMethods = ''GET,HEAD,POST,PUT,PATCH,DELETE''"
definition corsAllowHeaders :: string where "corsAllowHeaders = ''Authorization,Content-Type,OVDB-Page-Size,OVDB-Page-Token,OVDB-Page-Close''"
definition corsMaxAge :: string where "corsMaxAge = ''600''"

definition headerSuffix :: "string list \<Rightarrow> string" where
  "headerSuffix names = (if names = [] then [] else '','' @ join_with '','' names)"

datatype cors_action = NoContent | PassOn

text \<open>The slices of a nil configuration are never read: nothing is allowed then.\<close>

definition corsMiddleware :: "cors_config option \<Rightarrow> string \<Rightarrow> string \<Rightarrow> (string, string) gomap \<times> cors_action" where
  "corsMiddleware c meth origin =
     (let allowed = AllowedOrigin c origin;
          cfg = case_option no_origins id c;
          h0 = mput ''Vary'' ''Origin'' []
      in if meth = ''OPTIONS'' \<and> origin \<noteq> [] then
           (if allowed \<noteq> [] then
              mput ''Access-Control-Max-Age'' corsMaxAge
                (mput ''Access-Control-Allow-Headers'' (corsAllowHeaders @ headerSuffix (cc_allowHeaders cfg))
                  (mput ''Access-Control-Allow-Methods'' corsAllowMethods (mput ''Access-Control-Allow-Origin'' allowed h0)))
            else h0, NoContent)
         else
           (if allowed \<noteq> [] then
              (let h1 = mput ''Access-Control-Allow-Origin'' allowed h0
               in if cc_exposeHeaders cfg \<noteq> [] then mput ''Access-Control-Expose-Headers'' (join_with '','' (cc_exposeHeaders cfg)) h1 else h1)
            else h0, PassOn))"

text \<open>\<^verbatim>\<open>WithHeaders\<close>: names are added once up to case; one invalid name refuses all.\<close>

fun add_names :: "(string \<Rightarrow> bool) \<Rightarrow> string list \<Rightarrow> string list \<Rightarrow> string list option" where
  "add_names valid_name target [] = Some target"
| "add_names valid_name target (n # names) =
     (if \<not> valid_name n then None
      else add_names valid_name (if list_ex (\<lambda>existing. equal_fold existing n) target then target else target @ [n]) names)"

datatype cors_error = NoOrigins | BadHeaderName

definition WithHeaders :: "(string \<Rightarrow> bool) \<Rightarrow> cors_config option \<Rightarrow> string list \<Rightarrow> string list \<Rightarrow> cors_error + cors_config" where
  "WithHeaders valid_name c allowed exposed =
     (case c of None \<Rightarrow> Inl NoOrigins
      | Some cfg \<Rightarrow>
         (case add_names valid_name (cc_allowHeaders cfg) allowed of None \<Rightarrow> Inl BadHeaderName
          | Some ah \<Rightarrow>
             (case add_names valid_name (cc_exposeHeaders cfg) exposed of None \<Rightarrow> Inl BadHeaderName
              | Some eh \<Rightarrow> Inr (cfg\<lparr>cc_allowHeaders := ah, cc_exposeHeaders := eh\<rparr>))))"

section \<open>Specification\<close>

text \<open>The origins an operator listed, blanks dropped.\<close>

definition listed_origins :: "string list \<Rightarrow> string list" where
  "listed_origins vals = filter (\<lambda>s. s \<noteq> []) (map trim_space (concat (map (split_on CHR '','') vals)))"

text \<open>A configuration made by \<^verbatim>\<open>ParseCORSOrigins\<close> and any number of \<^verbatim>\<open>WithHeaders\<close>.\<close>

fun with_all :: "(string \<Rightarrow> bool) \<Rightarrow> cors_config option \<Rightarrow> (string list \<times> string list) list \<Rightarrow> cors_error + cors_config option" where
  "with_all valid_name c [] = Inr c"
| "with_all valid_name c ((allowed, exposed) # hs) = rbind (WithHeaders valid_name c allowed exposed) (\<lambda>cfg. with_all valid_name (Some cfg) hs)"

lemma parse_parts_spec:
  "parse_parts cfg parts = (let os = filter (\<lambda>s. s \<noteq> []) (map trim_space parts) in
     if ''*'' \<in> set os then Inl (cfg\<lparr>cc_allowAll := True, cc_exact := cc_exact cfg @ takeWhile (\<lambda>s. s \<noteq> ''*'') os\<rparr>)
     else Inr (cfg\<lparr>cc_exact := cc_exact cfg @ os\<rparr>))"
  by (induction parts arbitrary: cfg) (auto simp: Let_def)

lemma parse_values_spec:
  "parse_values cfg vals =
     (if ''*'' \<in> set (listed_origins vals) then Inl (cfg\<lparr>cc_allowAll := True, cc_exact := cc_exact cfg @ takeWhile (\<lambda>s. s \<noteq> ''*'') (listed_origins vals)\<rparr>)
      else Inr (cfg\<lparr>cc_exact := cc_exact cfg @ listed_origins vals\<rparr>))"
proof (induction vals arbitrary: cfg)
  case (Cons v vals)
  let ?a = "filter (\<lambda>s. s \<noteq> []) (map trim_space (split_on CHR '','' v))"
  have l: "listed_origins (v # vals) = ?a @ listed_origins vals" by (simp add: listed_origins_def)
  show ?case
  proof (cases "''*'' \<in> set ?a")
    case True
    then have "takeWhile (\<lambda>s. s \<noteq> ''*'') (?a @ listed_origins vals) = takeWhile (\<lambda>s. s \<noteq> ''*'') ?a" by (intro takeWhile_append1) auto
    with True show ?thesis unfolding l by (simp add: parse_parts_spec Let_def)
  next
    case False
    then have "takeWhile (\<lambda>s. s \<noteq> ''*'') (?a @ listed_origins vals) = ?a @ takeWhile (\<lambda>s. s \<noteq> ''*'') (listed_origins vals)"
      by (intro takeWhile_append2) (auto simp: image_iff)
    with False show ?thesis unfolding l by (simp add: parse_parts_spec Let_def Cons.IH)
  qed
qed (simp add: listed_origins_def)

lemma allowed_spec:
  "AllowedOrigin (ParseCORSOrigins vals) origin =
     (if origin = [] then [] else if ''*'' \<in> set (listed_origins vals) then ''*'' else if origin \<in> set (listed_origins vals) then origin else [])"
proof (cases "vals = []")
  case False
  then show ?thesis by (auto simp: ParseCORSOrigins_def parse_values_spec AllowedOrigin_def no_origins_def)
qed (simp add: ParseCORSOrigins_def AllowedOrigin_def listed_origins_def)

lemma WithHeaders_origins: "WithHeaders valid_name c allowed exposed = Inr cfg \<Longrightarrow> AllowedOrigin (Some cfg) = AllowedOrigin c"
  by (rule ext) (auto simp: WithHeaders_def AllowedOrigin_def split: option.splits)

lemma with_all_origins: "with_all valid_name c hs = Inr c' \<Longrightarrow> AllowedOrigin c' = AllowedOrigin c"
proof (induction hs arbitrary: c)
  case (Cons h hs)
  then show ?case using WithHeaders_origins by (cases h) fastforce
qed simp

text \<open>
  Cross-origin access is exactly what was configured. Whatever header names are added later, the middleware sends
  \<^verbatim>\<open>Access-Control-Allow-Origin\<close> only to a request that names an origin: a star if a star is listed, otherwise the request's own origin if
  it is listed, and nothing in every other case; and it keeps a request from the handler exactly when it is a preflight.
\<close>

theorem cross_origin_access_is_configured:
  assumes "with_all valid_name (ParseCORSOrigins vals) hs = Inr c"
  shows "mget (fst (corsMiddleware c meth origin)) ''Access-Control-Allow-Origin'' =
       (if origin = [] then None else if ''*'' \<in> set (listed_origins vals) then Some ''*''
        else if origin \<in> set (listed_origins vals) then Some origin else None) \<and>
     (snd (corsMiddleware c meth origin) = NoContent \<longleftrightarrow> meth = ''OPTIONS'' \<and> origin \<noteq> [])"
proof -
  have "mget (fst (corsMiddleware c meth origin)) ''Access-Control-Allow-Origin'' =
      (if AllowedOrigin c origin = [] then None else Some (AllowedOrigin c origin))"
    by (simp add: corsMiddleware_def Let_def)
  moreover have "snd (corsMiddleware c meth origin) = NoContent \<longleftrightarrow> meth = ''OPTIONS'' \<and> origin \<noteq> []"
    by (simp add: corsMiddleware_def Let_def)
  ultimately show ?thesis unfolding with_all_origins [OF assms] allowed_spec by auto
qed

theorem cross_origin_access_is_configured_witness:
  "mget (fst (corsMiddleware (Some \<lparr>cc_allowHeaders = [''X''], cc_exposeHeaders = [], cc_allowAll = False, cc_exact = [''a'', ''b'']\<rparr>) ''OPTIONS'' ''b''))
     ''Access-Control-Allow-Origin'' = Some ''b''"
proof -
  have trim: "trim_space ''a'' = ''a''" "trim_space ''b'' = ''b''" by (rule trim_space_id; simp add: is_ascii_def is_space_def)+
  have "with_all (\<lambda>n. True) (ParseCORSOrigins [''a,b'']) [([''X''], [])] =
      Inr (Some \<lparr>cc_allowHeaders = [''X''], cc_exposeHeaders = [], cc_allowAll = False, cc_exact = [''a'', ''b'']\<rparr>)"
    by (simp add: ParseCORSOrigins_def no_origins_def WithHeaders_def trim Let_def)
  from cross_origin_access_is_configured [OF this, of "''OPTIONS''" "''b''"] show ?thesis
    by (simp add: listed_origins_def trim)
qed

end
