(* ===== verification/Routes.thy ===== *)
theory Routes
  imports Auth_Store Database Cors
begin

text \<open>
  The way of a request through \<^verbatim>\<open>src/pkg/server/server.go\<close> - the middleware chain of \<^verbatim>\<open>handler\<close>, the route table, capability checks - and
  the record and batch handlers of \<^verbatim>\<open>src/pkg/server/records.go\<close> up to the call of the database.

  A request carries the escaped segments of its path; \<open>url_path\<close> is \<^verbatim>\<open>r.URL.Path\<close> and \<open>escaped_path\<close> is \<^verbatim>\<open>r.URL.EscapedPath()\<close>. A body is what
  \<^verbatim>\<open>encoding/json\<close> decodes, \<open>None\<close> where it fails. The guards of provider profiles and of no-retention databases,
  which only refuse, are the parameter \<open>sv_admits\<close>, and the principal resolver's verdict is \<open>sv_resolves\<close>. \<^verbatim>\<open>http.ServeMux\<close> is
  modelled as its documentation describes it: a clean path, segments matched after unescaping, a pattern that ends in a slash
  as a prefix. The table lists a more specific pattern before a more general one.
\<close>

section \<open>Requests\<close>

record wire_op =
  wo_op :: string
  wo_keyPath :: string
  wo_data :: "gobject option"
  wo_updates :: "update_op list"

record http_request =
  h_method :: string
  h_segments :: "string list"
  h_origin :: string
  h_authorization :: string
  h_contentType :: string
  h_data :: "gobject option option"
  h_updates :: "update_op list option"
  h_ops :: "wire_op list option"

definition decode_segment :: "string \<Rightarrow> string" where
  "decode_segment s = case_option s id (path_unescape s)"

definition escaped_path :: "http_request \<Rightarrow> string" where
  "escaped_path r = ''/'' @ join_with ''/'' (h_segments r)"

definition url_path :: "http_request \<Rightarrow> string" where
  "url_path r = ''/'' @ join_with ''/'' (map decode_segment (h_segments r))"

definition has_suffix :: "string \<Rightarrow> string \<Rightarrow> bool" where
  "has_suffix s suf \<longleftrightarrow> has_prefix (rev s) (rev suf)"

text \<open>The rest of a string after the first occurrence of a pattern: \<^verbatim>\<open>strings.Index\<close> and the slice after it.\<close>

fun after_first :: "string \<Rightarrow> string \<Rightarrow> string option" where
  "after_first pat [] = (if pat = [] then Some [] else None)"
| "after_first pat (c # s) = (if has_prefix (c # s) pat then Some (drop (length pat) (c # s)) else after_first pat s)"

definition contains :: "string \<Rightarrow> string \<Rightarrow> bool" where
  "contains s pat \<longleftrightarrow> after_first pat s \<noteq> None"

definition isTugQLEndpointPath :: "string \<Rightarrow> bool" where
  "isTugQLEndpointPath path = has_suffix path ''/tugql''"

definition crossDatabaseTugQLPath :: string where "crossDatabaseTugQLPath = ''/v1/tugql''"

definition isReadCacheEndpoint :: "http_request \<Rightarrow> bool" where
  "isReadCacheEndpoint r =
     (if h_method r \<noteq> ''GET'' \<and> h_method r \<noteq> ''HEAD'' then False
      else if url_path r = crossDatabaseTugQLPath then True
      else has_prefix (url_path r) ''/v1/databases/'' \<and>
        (has_suffix (url_path r) ''/read'' \<or> has_suffix (url_path r) ''/query'' \<or> isTugQLEndpointPath (url_path r)))"

definition isMutation :: "http_request \<Rightarrow> bool" where
  "isMutation r =
     (if h_method r \<in> {''PUT'', ''PATCH'', ''DELETE''} then True
      else if h_method r = ''POST'' then
        (let path = url_path r in path = ''/v1/databases'' \<or> path = ''/authorize'' \<or> path = ''/token'' \<or> path = ''/v1/tokens'' \<or>
           contains path ''/records/'' \<or> has_suffix path ''/batch'')
      else False)"

section \<open>The server\<close>

record server =
  sv_dbs :: "(string, database) gomap"
  sv_configError :: bool
  sv_readProfileErr :: bool
  sv_auth :: "auth_config option"
  sv_cors :: "cors_config option"
  sv_readOnly :: bool
  sv_resolves :: "principal \<Rightarrow> bool"
  sv_coordinated :: "database \<Rightarrow> bool"
  sv_admits :: "http_request \<Rightarrow> database \<Rightarrow> bool"

definition getDB :: "server \<Rightarrow> string \<Rightarrow> database option" where
  "getDB sv i = mget (sv_dbs sv) i"

definition databaseIDs :: "server \<Rightarrow> string list" where
  "databaseIDs sv = sort (mkeys (sv_dbs sv))"

definition dbID :: "database \<Rightarrow> string" where
  "dbID d = db_id (m_database (d_manifest d))"

definition isNoStoreResponseEndpoint :: "(database \<Rightarrow> bool) \<Rightarrow> server \<Rightarrow> http_request \<Rightarrow> bool" where
  "isNoStoreResponseEndpoint no_retention sv r =
     (if isReadCacheEndpoint r then True
      else case List.find (has_prefix (url_path r)) [''/v1/databases/'', ''/ovdb/dbs/''] of
          None \<Rightarrow> False
        | Some pre \<Rightarrow>
           (case getDB sv (hd (split_on CHR ''/'' (drop (length pre) (url_path r)))) of None \<Rightarrow> False | Some db \<Rightarrow> no_retention db))"

section \<open>Capability checks\<close>

definition isOwner :: "server \<Rightarrow> principal option \<Rightarrow> bool" where
  "isOwner sv mp = (if sv_auth sv = None then True else case mp of None \<Rightarrow> False | Some p \<Rightarrow> p_owner p)"

definition enforce :: "principal option \<Rightarrow> string \<Rightarrow> string \<Rightarrow> string list \<Rightarrow> bool" where
  "enforce mp databaseID action collections = list_ex (allows mp databaseID action) collections"

definition authorize :: "server \<Rightarrow> principal option \<Rightarrow> string \<Rightarrow> string \<Rightarrow> string \<Rightarrow> bool" where
  "authorize sv mp databaseID action collection = (if sv_auth sv = None then True else enforce mp databaseID action [collection])"

definition authorizeKey :: "server \<Rightarrow> principal option \<Rightarrow> database \<Rightarrow> string \<Rightarrow> string \<Rightarrow> bool" where
  "authorizeKey sv mp db action collection =
     (if sv_auth sv = None then True else enforce mp (dbID db) action (CollectionSpellings (d_names db) collection))"

section \<open>Record handlers\<close>

definition trim_slash :: "string \<Rightarrow> string" where
  "trim_slash s = (if s \<noteq> [] \<and> last s = CHR ''/'' then butlast s else s)"

datatype path_error = KeyMissing | KeyInvalid key_error

definition parseRecordKey :: "http_request \<Rightarrow> path_error + rkey" where
  "parseRecordKey r =
     (case after_first ''/records/'' (escaped_path r) of None \<Rightarrow> Inl KeyMissing
      | Some rest \<Rightarrow>
         (let raw = trim_slash rest
          in if raw = [] then Inl KeyMissing else case ParseKeyPath raw of Inl e \<Rightarrow> Inl (KeyInvalid e) | Inr k \<Rightarrow> Inr k))"

definition isProtectedUpdate :: "http_request \<Rightarrow> bool" where
  "isProtectedUpdate r \<longleftrightarrow> h_method r = ''PATCH'' \<and> hd (split_on CHR '';'' (h_contentType r)) = ''application/vnd.tugql.operation+json''"

datatype handler =
    HWellKnown | HHumanServer | HHumanDatabases | HHumanDatabase | HHumanCollection | HHumanStyle | HStatus | HDatabases | HDatabaseCreate
  | HDatabase | HInferredSchema | HRead | HRecord | HBatch | HQuery | HTugQL | HCrossDatabase | HEvaluate | HEvidence | HLayers | HPolicies
  | HAuthorizeGet | HAuthorizePost | HToken | HTokensCreate | HTokensList | HTokensRevoke

datatype outcome =
    Preflight | Misconfigured | ReadOnlyServer | NotAuthenticated | PrincipalRefused | NoRoute | NoDatabase | NotAdmitted | InvalidKey path_error
  | Forbidden | ProtectedProfile | BadBody | MethodNotAllowed
  | ReadRecord database rkey | HeadRecord database rkey | ProtectedUpdate database rkey
  | Applies database "op list"
  | Runs handler

definition record_action :: "string \<Rightarrow> string" where
  "record_action meth =
     (if meth = ''GET'' \<or> meth = ''HEAD'' then ''records:read''
      else if meth = ''PUT'' \<or> meth = ''POST'' \<or> meth = ''PATCH'' then ''records:write''
      else if meth = ''DELETE'' then ''records:delete'' else [])"

definition route_db :: "server \<Rightarrow> http_request \<Rightarrow> outcome + database" where
  "route_db sv r =
     (case getDB sv (decode_segment (h_segments r ! 2)) of None \<Rightarrow> Inl NoDatabase
      | Some db \<Rightarrow> if sv_admits sv r db then Inr db else Inl NotAdmitted)"

definition record_dispatch :: "http_request \<Rightarrow> database \<Rightarrow> rkey \<Rightarrow> outcome" where
  "record_dispatch r db key =
     (let meth = h_method r in
      if meth = ''GET'' then ReadRecord db key
      else if meth = ''HEAD'' then HeadRecord db key
      else if meth = ''PUT'' \<or> meth = ''POST'' then
        (case h_data r of
           Some (Some body) \<Rightarrow> Applies db [\<lparr>op_op = (if meth = ''POST'' then ''insert'' else ''set''), op_key = Some key, op_data = Some body, op_updates = []\<rparr>]
         | _ \<Rightarrow> BadBody)
      else if meth = ''PATCH'' then
        (if isProtectedUpdate r then ProtectedUpdate db key
         else case h_updates r of
             Some us \<Rightarrow> if us = [] then BadBody else Applies db [\<lparr>op_op = ''update'', op_key = Some key, op_data = None, op_updates = us\<rparr>]
           | None \<Rightarrow> BadBody)
      else if meth = ''DELETE'' then Applies db [\<lparr>op_op = ''delete'', op_key = Some key, op_data = None, op_updates = []\<rparr>]
      else MethodNotAllowed)"

definition handleRecord :: "server \<Rightarrow> principal option \<Rightarrow> http_request \<Rightarrow> outcome" where
  "handleRecord sv mp r =
     (case route_db sv r of Inl refusal \<Rightarrow> refusal | Inr db \<Rightarrow>
      (case parseRecordKey r of Inl e \<Rightarrow> InvalidKey e | Inr key \<Rightarrow>
       (let collection = RootCollection key; action = record_action (h_method r);
            allowed = (if isProtectedUpdate r then authorize sv mp (dbID db) action collection else authorizeKey sv mp db action collection)
        in if action \<noteq> [] \<and> \<not> allowed then Forbidden
           else if sv_coordinated sv db \<and> (h_method r \<in> {''PUT'', ''POST'', ''DELETE''} \<or> h_method r = ''PATCH'' \<and> \<not> isProtectedUpdate r)
           then ProtectedProfile
           else record_dispatch r db key)))"

fun parse_ops :: "wire_op list \<Rightarrow> path_error + op list" where
  "parse_ops [] = Inr []"
| "parse_ops (w # ws) =
     (case ParseKeyPath (wo_keyPath w) of Inl e \<Rightarrow> Inl (KeyInvalid e)
      | Inr k \<Rightarrow> rbind (parse_ops ws) (\<lambda>ops.
          Inr (\<lparr>op_op = wo_op w, op_key = Some k, op_data = wo_data w, op_updates = wo_updates w\<rparr> # ops)))"

definition op_action :: "op \<Rightarrow> string" where
  "op_action op = (if op_op op = ''delete'' then ''records:delete'' else ''records:write'')"

definition op_allowed :: "server \<Rightarrow> principal option \<Rightarrow> database \<Rightarrow> op \<Rightarrow> bool" where
  "op_allowed sv mp db op = (case op_key op of None \<Rightarrow> False | Some k \<Rightarrow> authorizeKey sv mp db (op_action op) (RootCollection k))"

definition handleBatch :: "server \<Rightarrow> principal option \<Rightarrow> http_request \<Rightarrow> outcome" where
  "handleBatch sv mp r =
     (case route_db sv r of Inl refusal \<Rightarrow> refusal | Inr db \<Rightarrow>
      if sv_coordinated sv db then ProtectedProfile
      else case h_ops r of None \<Rightarrow> BadBody | Some ws \<Rightarrow>
        if ws = [] then BadBody
        else case parse_ops ws of Inl e \<Rightarrow> InvalidKey e | Inr ops \<Rightarrow>
          if list_all (op_allowed sv mp db) ops then Applies db ops else Forbidden)"

section \<open>Routes\<close>

datatype seg_pattern = Lit string | Wild

record route =
  rt_methods :: "string list"
  rt_pattern :: "seg_pattern list"
  rt_prefix :: bool
  rt_handler :: handler

fun seg_matches :: "seg_pattern \<Rightarrow> string \<Rightarrow> bool" where
  "seg_matches (Lit l) s = (s = l)"
| "seg_matches Wild s = (s \<noteq> [])"

text \<open>\<^verbatim>\<open>GET\<close> routes serve \<^verbatim>\<open>HEAD\<close> too; a route without a method serves all.\<close>

definition route_matches :: "route \<Rightarrow> http_request \<Rightarrow> bool" where
  "route_matches rt r \<longleftrightarrow>
     (rt_methods rt = [] \<or> h_method r \<in> set (rt_methods rt)) \<and>
     (let segs = map decode_segment (h_segments r); n = length (rt_pattern rt)
      in (if rt_prefix rt then length segs > n else length segs = n) \<and> list_all2 seg_matches (rt_pattern rt) (take n segs))"

abbreviation get_route :: "seg_pattern list \<Rightarrow> handler \<Rightarrow> route" where
  "get_route p h \<equiv> \<lparr>rt_methods = [''GET'', ''HEAD''], rt_pattern = p, rt_prefix = False, rt_handler = h\<rparr>"

abbreviation post_route :: "seg_pattern list \<Rightarrow> handler \<Rightarrow> route" where
  "post_route p h \<equiv> \<lparr>rt_methods = [''POST''], rt_pattern = p, rt_prefix = False, rt_handler = h\<rparr>"

abbreviation get_tree :: "seg_pattern list \<Rightarrow> handler \<Rightarrow> route" where
  "get_tree p h \<equiv> \<lparr>rt_methods = [''GET'', ''HEAD''], rt_pattern = p, rt_prefix = True, rt_handler = h\<rparr>"

text \<open>The routes that can change state, by name.\<close>

definition databases_route :: route where
  "databases_route = post_route [Lit ''v1'', Lit ''databases''] HDatabaseCreate"

definition batch_route :: route where
  "batch_route = post_route [Lit ''v1'', Lit ''databases'', Wild, Lit ''batch''] HBatch"

definition consent_route :: route where
  "consent_route = post_route [Lit ''authorize''] HAuthorizePost"

definition token_route :: route where
  "token_route = post_route [Lit ''token''] HToken"

definition tokens_route :: route where
  "tokens_route = post_route [Lit ''v1'', Lit ''tokens''] HTokensCreate"

definition revoke_route :: route where
  "revoke_route = \<lparr>rt_methods = [''DELETE''], rt_pattern = [Lit ''v1'', Lit ''tokens'', Wild], rt_prefix = False, rt_handler = HTokensRevoke\<rparr>"

definition record_route :: route where
  "record_route = \<lparr>rt_methods = [], rt_pattern = [Lit ''v1'', Lit ''databases'', Wild, Lit ''records''], rt_prefix = True, rt_handler = HRecord\<rparr>"

lemmas route_defs = databases_route_def batch_route_def consent_route_def token_route_def tokens_route_def revoke_route_def record_route_def

definition base_routes :: "route list" where
  "base_routes =
    [get_route [Lit ''.well-known'', Lit ''openvaultdb''] HWellKnown,
     get_route [Lit ''ovdb'', Lit ''dbs'', Wild, Lit ''collections'', Wild] HHumanCollection,
     get_route [Lit ''ovdb'', Lit ''dbs'', Wild] HHumanDatabase,
     get_tree [Lit ''ovdb'', Lit ''dbs''] HHumanDatabases,
     get_route [Lit ''ovdb'', Lit ''style.css''] HHumanStyle,
     get_tree [Lit ''ovdb''] HHumanServer,
     get_route [Lit ''v1'', Lit ''status''] HStatus,
     get_route [Lit ''v1'', Lit ''databases''] HDatabases,
     databases_route,
     get_route [Lit ''v1'', Lit ''databases'', Wild] HDatabase,
     get_route [Lit ''v1'', Lit ''databases'', Wild, Lit ''inferred-schema''] HInferredSchema,
     get_route [Lit ''v1'', Lit ''databases'', Wild, Lit ''read''] HRead,
     record_route,
     batch_route,
     post_route [Lit ''v1'', Lit ''databases'', Wild, Lit ''query''] HQuery,
     get_route [Lit ''v1'', Lit ''databases'', Wild, Lit ''query''] HQuery,
     post_route [Lit ''v1'', Lit ''databases'', Wild, Lit ''tugql''] HTugQL,
     get_route [Lit ''v1'', Lit ''databases'', Wild, Lit ''tugql''] HTugQL,
     post_route [Lit ''v1'', Lit ''tugql''] HCrossDatabase,
     get_route [Lit ''v1'', Lit ''tugql''] HCrossDatabase,
     post_route [Lit ''v1'', Lit ''databases'', Wild, Lit ''access'', Lit ''evaluate''] HEvaluate,
     post_route [Lit ''v1'', Lit ''databases'', Wild, Lit ''access'', Lit ''evidence''] HEvidence,
     get_route [Lit ''v1'', Lit ''databases'', Wild, Lit ''access'', Lit ''layers''] HLayers,
     get_route [Lit ''v1'', Lit ''databases'', Wild, Lit ''access'', Lit ''policies''] HPolicies]"

definition auth_routes :: "route list" where
  "auth_routes =
    [get_route [Lit ''authorize''] HAuthorizeGet,
     consent_route,
     token_route,
     tokens_route,
     get_route [Lit ''v1'', Lit ''tokens''] HTokensList,
     revoke_route]"

definition routes :: "server \<Rightarrow> route list" where
  "routes sv = base_routes @ (if sv_auth sv = None then [] else auth_routes)"

text \<open>A path the mux does not redirect: no dot segments, no empty segment but the last.\<close>

definition clean_path :: "http_request \<Rightarrow> bool" where
  "clean_path r \<longleftrightarrow> h_segments r \<noteq> [] \<and> list_all (\<lambda>s. s \<noteq> ''.'' \<and> s \<noteq> ''..'') (h_segments r) \<and> list_all (\<lambda>s. s \<noteq> []) (butlast (h_segments r))"

definition mux :: "server \<Rightarrow> http_request \<Rightarrow> handler option" where
  "mux sv r = (if \<not> clean_path r then None else map_option rt_handler (List.find (\<lambda>rt. route_matches rt r) (routes sv)))"

definition run_handler :: "server \<Rightarrow> principal option \<Rightarrow> http_request \<Rightarrow> outcome" where
  "run_handler sv mp r =
     (case mux sv r of None \<Rightarrow> NoRoute
      | Some h \<Rightarrow> if h = HRecord then handleRecord sv mp r else if h = HBatch then handleBatch sv mp r else Runs h)"

text \<open>
  \<^verbatim>\<open>handler\<close>: configuration errors, CORS, the no-store default (a header only), the read-only switch, authentication, the principal
  resolver, the mux. \<^verbatim>\<open>now\<close> and the token hash are those of the authentication.
\<close>

definition resolve_and_run :: "server \<Rightarrow> principal option \<Rightarrow> http_request \<Rightarrow> outcome" where
  "resolve_and_run sv mp r =
     (case mp of Some p \<Rightarrow> if sv_resolves sv p then run_handler sv mp r else PrincipalRefused | None \<Rightarrow> run_handler sv mp r)"

definition authenticate :: "(string \<Rightarrow> string) \<Rightarrow> int \<Rightarrow> server \<Rightarrow> http_request \<Rightarrow> mw_result" where
  "authenticate H now sv r =
     (case sv_auth sv of None \<Rightarrow> Serve None | Some cfg \<Rightarrow> auth_middleware H cfg now (url_path r) (h_authorization r))"

definition serve_request :: "(string \<Rightarrow> string) \<Rightarrow> int \<Rightarrow> server \<Rightarrow> http_request \<Rightarrow> outcome" where
  "serve_request H now sv r =
     (if sv_configError sv then Misconfigured
      else if sv_cors sv \<noteq> None \<and> snd (corsMiddleware (sv_cors sv) (h_method r) (h_origin r)) = NoContent then Preflight
      else if sv_readProfileErr sv then Misconfigured
      else if sv_readOnly sv \<and> isMutation r then ReadOnlyServer
      else case authenticate H now sv r of
          Unauthorized _ \<Rightarrow> NotAuthenticated
        | Serve mp \<Rightarrow> resolve_and_run sv mp r)"

section \<open>Read-only servers\<close>

text \<open>The handlers that change the server's state, by method for the record route.\<close>

definition changes_state :: "handler \<Rightarrow> string \<Rightarrow> bool" where
  "changes_state h meth \<longleftrightarrow> h \<in> {HDatabaseCreate, HBatch, HAuthorizePost, HToken, HTokensCreate, HTokensRevoke} \<or>
     h = HRecord \<and> meth \<in> {''PUT'', ''POST'', ''PATCH'', ''DELETE''}"

lemma has_prefix_append [simp]: "has_prefix (p @ s) p"
  by (simp add: has_prefix_def)

lemma has_suffix_append: "has_suffix (s @ suf) suf"
  by (simp add: has_suffix_def has_prefix_def)

lemma contains_middle: "contains (a @ pat @ b) pat"
proof (induction a)
  case Nil
  show ?case using has_prefix_append [of pat b] by (cases "pat @ b") (auto simp: contains_def simp del: has_prefix_append)
next
  case (Cons c a)
  then show ?case by (simp add: contains_def)
qed

lemma record_table: "list_all (\<lambda>rt. rt_handler rt = HRecord \<longrightarrow> rt = record_route) (base_routes @ auth_routes)"
  by (simp add: base_routes_def auth_routes_def route_defs)

lemma record_route_path:
  assumes "route_matches rt r" and "rt_handler rt = HRecord" and "rt \<in> set (routes sv)"
  shows "contains (url_path r) ''/records/''"
proof -
  let ?segs = "map decode_segment (h_segments r)"
  have rt: "rt_pattern rt = [Lit ''v1'', Lit ''databases'', Wild, Lit ''records'']" "rt_prefix rt"
  proof -
    have "rt \<in> set (base_routes @ auth_routes)" using assms(3) by (auto simp: routes_def split: if_splits)
    then have "rt = record_route" using record_table assms(2) unfolding list_all_iff by blast
    then show "rt_pattern rt = [Lit ''v1'', Lit ''databases'', Wild, Lit ''records'']" "rt_prefix rt" by (simp_all add: record_route_def)
  qed
  have len: "4 < length ?segs" and m: "list_all2 seg_matches (rt_pattern rt) (take 4 ?segs)"
    using assms(1) rt by (auto simp: route_matches_def Let_def numeral_eq_Suc)
  then obtain z where t: "take 4 ?segs = [''v1'', ''databases'', z, ''records'']"
    by (auto simp: rt(1) list_all2_Cons1)
  have ne: "take 4 ?segs \<noteq> []" "drop 4 ?segs \<noteq> []" using len by auto
  have "join_with ''/'' (take 4 ?segs @ drop 4 ?segs) = join_with ''/'' (take 4 ?segs) @ ''/'' @ join_with ''/'' (drop 4 ?segs)"
    by (rule join_with_append [OF ne])
  then have "join_with ''/'' ?segs = join_with ''/'' (take 4 ?segs) @ ''/'' @ join_with ''/'' (drop 4 ?segs)"
    by (simp only: append_take_drop_id)
  then have "url_path r = (''/v1/databases/'' @ z) @ ''/records/'' @ join_with ''/'' (drop 4 ?segs)"
    by (simp add: url_path_def t)
  then show ?thesis using contains_middle by metis
qed

lemma exact_route_segments:
  assumes "route_matches rt r" and "\<not> rt_prefix rt"
  shows "list_all2 seg_matches (rt_pattern rt) (map decode_segment (h_segments r))"
  using assms by (auto simp: route_matches_def Let_def)

lemma mutating_table:
  "[rt \<leftarrow> base_routes @ auth_routes. changes_state (rt_handler rt) meth \<and> rt_handler rt \<noteq> HRecord] =
     [databases_route, batch_route, consent_route, token_route, tokens_route, revoke_route]"
  by (simp add: base_routes_def auth_routes_def changes_state_def route_defs)

lemma mutating_route:
  assumes "rt \<in> set (routes sv)" and "route_matches rt r" and "changes_state (rt_handler rt) (h_method r)"
  shows "isMutation r"
proof (cases "rt_handler rt = HRecord")
  case True
  then show ?thesis using record_route_path [OF assms(2) True assms(1)] assms(3) by (auto simp: isMutation_def changes_state_def)
next
  case False
  have segs: "\<not> rt_prefix rt \<Longrightarrow> list_all2 seg_matches (rt_pattern rt) (map decode_segment (h_segments r))"
    using exact_route_segments [OF assms(2)] .
  have meth: "rt_methods rt = [] \<or> h_method r \<in> set (rt_methods rt)" using assms(2) by (simp add: route_matches_def)
  have batch: "has_suffix (CHR ''/'' # ''v1/databases/'' @ x @ ''/batch'') ''/batch''" for x
    using has_suffix_append [of "CHR ''/'' # ''v1/databases/'' @ x" "''/batch''"] by simp
  have "rt \<in> set (base_routes @ auth_routes)" using assms(1) by (auto simp: routes_def split: if_splits)
  then have "rt \<in> set [rt \<leftarrow> base_routes @ auth_routes. changes_state (rt_handler rt) (h_method r) \<and> rt_handler rt \<noteq> HRecord]"
    using assms(3) False by simp
  then consider "rt = databases_route" | "rt = batch_route" | "rt = consent_route" | "rt = token_route" | "rt = tokens_route" | "rt = revoke_route"
    unfolding mutating_table by auto
  then show ?thesis
  proof cases
    case 2
    then obtain z where "map decode_segment (h_segments r) = [''v1'', ''databases'', z, ''batch'']" "h_method r = ''POST''"
      using segs meth by (auto simp: list_all2_Cons1 route_defs)
    then show ?thesis using batch [of z] by (simp add: isMutation_def url_path_def)
  qed (use segs meth in \<open>auto simp: isMutation_def url_path_def list_all2_Cons1 Let_def route_defs\<close>)
qed

lemma mux_route: "mux sv r = Some h \<Longrightarrow> \<exists>rt \<in> set (routes sv). route_matches rt r \<and> rt_handler rt = h"
  by (auto simp: mux_def find_Some_iff split: if_splits)

text \<open>What a handler can do: refuse, or dispatch a request that was authorised.\<close>

fun refusal :: "outcome \<Rightarrow> bool" where
  "refusal (ReadRecord db key) = False"
| "refusal (HeadRecord db key) = False"
| "refusal (ProtectedUpdate db key) = False"
| "refusal (Applies db ops) = False"
| "refusal (Runs h) = False"
| "refusal _ = True"

lemma route_db_refusal: "route_db sv r = Inl x \<Longrightarrow> refusal x"
  by (auto simp: route_db_def split: option.splits if_splits)

lemma handleRecord_effect:
  "refusal (handleRecord sv mp r) \<or>
   (\<exists>db key. route_db sv r = Inr db \<and> parseRecordKey r = Inr key \<and> handleRecord sv mp r = record_dispatch r db key \<and>
      (record_action (h_method r) = [] \<or>
       (if isProtectedUpdate r then authorize sv mp (dbID db) (record_action (h_method r)) (RootCollection key)
        else authorizeKey sv mp db (record_action (h_method r)) (RootCollection key))))"
proof (cases "route_db sv r")
  case (Inl x)
  then show ?thesis using route_db_refusal [OF Inl] by (simp add: handleRecord_def)
next
  case db: (Inr db)
  show ?thesis
  proof (cases "parseRecordKey r")
    case (Inl e)
    then show ?thesis using db by (simp add: handleRecord_def)
  next
    case (Inr key)
    then show ?thesis using db by (auto simp: handleRecord_def Let_def)
  qed
qed

lemma handleBatch_effect:
  "refusal (handleBatch sv mp r) \<or>
   (\<exists>db ws ops. route_db sv r = Inr db \<and> h_ops r = Some ws \<and> parse_ops ws = Inr ops \<and> handleBatch sv mp r = Applies db ops \<and> list_all (op_allowed sv mp db) ops)"
  using route_db_refusal [of sv r] by (auto simp: handleBatch_def split: sum.splits option.splits)

lemma record_dispatch_safe:
  "h_method r \<notin> {''PUT'', ''POST'', ''PATCH'', ''DELETE''} \<Longrightarrow> record_dispatch r d k \<in> {ReadRecord d k, HeadRecord d k, MethodNotAllowed}"
  by (auto simp: record_dispatch_def Let_def)

lemma run_handler_safe:
  assumes "\<not> isMutation r"
  shows "(case run_handler sv mp r of Applies db ops \<Rightarrow> False | ProtectedUpdate db key \<Rightarrow> False | Runs h \<Rightarrow> \<not> changes_state h (h_method r) | _ \<Rightarrow> True)"
proof (cases "mux sv r")
  case None
  then show ?thesis by (simp add: run_handler_def)
next
  case (Some h)
  have not: "\<not> changes_state h (h_method r)" using mux_route [OF Some] mutating_route assms by metis
  show ?thesis
  proof (cases "h = HRecord")
    case True
    then have d: "record_dispatch r db key \<in> {ReadRecord db key, HeadRecord db key, MethodNotAllowed}" for db key
      using not record_dispatch_safe [of r db key] by (simp add: changes_state_def)
    have "refusal (handleRecord sv mp r) \<or> (\<exists>db key. handleRecord sv mp r \<in> {ReadRecord db key, HeadRecord db key, MethodNotAllowed})"
      using handleRecord_effect [of sv mp r] d by metis
    then show ?thesis using Some True by (auto simp: run_handler_def split: outcome.splits)
  next
    case False
    then have "h \<noteq> HBatch" using not by (auto simp: changes_state_def)
    then show ?thesis using Some False not by (simp add: run_handler_def)
  qed
qed

text \<open>
  C10. A read-only server changes nothing: whatever credentials, path escapes and method a request has, it never reaches a
  handler that creates a database, a code or a token, revokes a token, or writes a record - no write to a database, plain or
  protected, is ever attempted.
\<close>

theorem read_only_server_changes_nothing:
  assumes "sv_readOnly sv"
  shows "serve_request H now sv r \<noteq> Applies db ops \<and> serve_request H now sv r \<noteq> ProtectedUpdate db key \<and>
     (\<forall>h. serve_request H now sv r = Runs h \<longrightarrow> \<not> changes_state h (h_method r))"
proof (cases "isMutation r")
  case True
  then show ?thesis using assms by (simp add: serve_request_def)
next
  case False
  then show ?thesis using run_handler_safe [OF False, of sv]
    by (auto simp: serve_request_def resolve_and_run_def split: mw_result.splits option.splits if_splits) (metis outcome.simps)+
qed

section \<open>Writes\<close>

lemma parse_ops_keys: "parse_ops ws = Inr ops \<Longrightarrow> op \<in> set ops \<Longrightarrow> \<exists>w \<in> set ws. \<exists>k. op_key op = Some k \<and> ParseKeyPath (wo_keyPath w) = Inr k"
  by (induction ws arbitrary: ops) (fastforce split: sum.splits)+

lemma record_dispatch_writes:
  assumes "record_dispatch r d k = Applies db ops"
  shows "d = db \<and> \<not> isProtectedUpdate r \<and> (\<forall>op \<in> set ops. op_key op = Some k \<and> op_action op = record_action (h_method r))"
  using assms by (auto simp: record_dispatch_def Let_def op_action_def record_action_def isProtectedUpdate_def split: if_splits option.splits)

lemma handler_writes:
  assumes "run_handler sv mp r = Applies db ops"
  shows "route_db sv r = Inr db \<and> list_all (op_allowed sv mp db) ops"
proof -
  obtain h where h: "mux sv r = Some h" using assms by (auto simp: run_handler_def split: option.splits)
  consider "h = HRecord" "handleRecord sv mp r = Applies db ops" | "h = HBatch" "handleBatch sv mp r = Applies db ops"
    using assms h by (auto simp: run_handler_def split: if_splits)
  then show ?thesis
  proof cases
    case 1
    then obtain d k where d: "route_db sv r = Inr d" "parseRecordKey r = Inr k" "record_dispatch r d k = Applies db ops"
      "record_action (h_method r) = [] \<or> (if isProtectedUpdate r then authorize sv mp (dbID d) (record_action (h_method r)) (RootCollection k)
        else authorizeKey sv mp d (record_action (h_method r)) (RootCollection k))"
      using handleRecord_effect [of sv mp r] by auto
    note w = record_dispatch_writes [OF d(3)]
    have "record_action (h_method r) = [] \<Longrightarrow> ops = []" using d(3)
      by (auto simp: record_action_def record_dispatch_def Let_def split: if_splits)
    then show ?thesis using d w by (auto simp: list_all_iff op_allowed_def)
  next
    case 2
    then show ?thesis using handleBatch_effect [of sv mp r] by auto
  qed
qed

lemma writes_nonempty: "run_handler sv mp r = Applies db ops \<Longrightarrow> ops \<noteq> []"
proof -
  have p: "parse_ops ws = Inr [] \<Longrightarrow> ws = []" for ws by (cases ws) (auto split: sum.splits)
  assume "run_handler sv mp r = Applies db ops"
  then consider "handleRecord sv mp r = Applies db ops" | "handleBatch sv mp r = Applies db ops"
    by (auto simp: run_handler_def split: option.splits if_splits)
  then show ?thesis
  proof cases
    case 1
    then obtain d k where "record_dispatch r d k = Applies db ops" using handleRecord_effect [of sv mp r] by auto
    then show ?thesis by (auto simp: record_dispatch_def Let_def split: if_splits option.splits)
  next
    case 2
    then show ?thesis using p route_db_refusal [of sv r] by (auto simp: handleBatch_def split: sum.splits option.splits if_splits)
  qed
qed


section \<open>The key in a record's path\<close>

lemma after_first_skip: "CHR ''/'' \<notin> set a \<Longrightarrow> after_first (CHR ''/'' # pat) (a @ s) = after_first (CHR ''/'' # pat) s"
  by (induction a) (auto simp: has_prefix_def)

lemma has_prefix_segment:
  assumes "CHR ''/'' \<notin> set a" and "CHR ''/'' \<notin> set b"
  shows "has_prefix (a @ CHR ''/'' # s) (b @ ''/'') \<longleftrightarrow> a = b"
  using assms
proof (induction a arbitrary: b)
  case Nil
  then show ?case by (cases b) (auto simp: has_prefix_def)
next
  case (Cons x a)
  then show ?case by (cases b) (auto simp: has_prefix_def)
qed

text \<open>The first occurrence of \<^verbatim>\<open>/records/\<close> begins at the first segment of that name.\<close>

lemma after_first_segment:
  assumes "CHR ''/'' \<notin> set a"
  shows "after_first ''/records/'' (CHR ''/'' # a @ CHR ''/'' # s) =
     (if a = ''records'' then Some s else after_first ''/records/'' (CHR ''/'' # s))"
proof -
  have p: "has_prefix (CHR ''/'' # a @ CHR ''/'' # s) ''/records/'' \<longleftrightarrow> a = ''records''"
    using has_prefix_segment [OF assms, of "''records''" s] by (simp add: has_prefix_def)
  show ?thesis
  proof (cases "a = ''records''")
    case False
    then have "after_first ''/records/'' (CHR ''/'' # a @ CHR ''/'' # s) = after_first ''/records/'' (a @ CHR ''/'' # s)" using p by simp
    also have "\<dots> = after_first ''/records/'' (CHR ''/'' # s)" by (rule after_first_skip [OF assms])
    finally show ?thesis using False by simp
  qed (simp add: has_prefix_def)
qed

definition record_segments :: "string \<Rightarrow> string list \<Rightarrow> string list" where
  "record_segments db ks = [''v1'', ''databases'', db, ''records''] @ ks"

lemma parse_record_path:
  assumes "h_segments r = record_segments db ks" and "CHR ''/'' \<notin> set db" and "ks \<noteq> []" and "last (join_with ''/'' ks) \<noteq> CHR ''/''" and "join_with ''/'' ks \<noteq> []"
  shows "parseRecordKey r =
     (case ParseKeyPath (if db = ''records'' then ''records/'' @ join_with ''/'' ks else join_with ''/'' ks) of Inl e \<Rightarrow> Inl (KeyInvalid e) | Inr k \<Rightarrow> Inr k)"
proof -
  let ?k = "join_with ''/'' ks"
  have j: "join_with ''/'' (x # y # zs) = x @ CHR ''/'' # join_with ''/'' (y # zs)" for x y zs by simp
  have path: "escaped_path r = CHR ''/'' # ''v1'' @ CHR ''/'' # ''databases'' @ CHR ''/'' # db @ CHR ''/'' # ''records'' @ CHR ''/'' # ?k"
    using assms(1,3) by (cases ks) (simp_all add: escaped_path_def record_segments_def)
  have "after_first ''/records/'' (escaped_path r) = (if db = ''records'' then Some (''records'' @ CHR ''/'' # ?k) else Some ?k)"
    unfolding path using assms(2) after_first_segment [of "''v1''" "''databases'' @ CHR ''/'' # db @ CHR ''/'' # ''records'' @ CHR ''/'' # ?k"]
      after_first_segment [of "''databases''" "db @ CHR ''/'' # ''records'' @ CHR ''/'' # ?k"]
      after_first_segment [of db "''records'' @ CHR ''/'' # ?k"] after_first_segment [of "''records''" ?k]
    by (simp del: after_first.simps)
  moreover have "trim_slash (''records'' @ CHR ''/'' # ?k) = ''records/'' @ ?k" "trim_slash ?k = ?k"
    using assms(4,5) by (simp_all add: trim_slash_def)
  ultimately show ?thesis using assms(5) by (simp add: parseRecordKey_def Let_def)
qed

text \<open>
  C39. The key a record route works on. For a path \<open>/v1/databases/<db>/records/<key>\<close> the handlers parse exactly the part after the
  route's own \<open>records\<close> segment - except for a database whose id is \<open>records\<close> itself, where the first \<open>/records/\<close> of the path is the
  database's, and the key read is \<open>records/<key>\<close>.
\<close>

theorem record_path_key:
  assumes "h_segments r = record_segments db ks" and "CHR ''/'' \<notin> set db" and "ks \<noteq> []" and "last (join_with ''/'' ks) \<noteq> CHR ''/''" and "join_with ''/'' ks \<noteq> []"
  shows "parseRecordKey r =
     (case ParseKeyPath (if db = ''records'' then ''records/'' @ join_with ''/'' ks else join_with ''/'' ks) of Inl e \<Rightarrow> Inl (KeyInvalid e) | Inr k \<Rightarrow> Inr k)"
  using parse_record_path [OF assms] .

section \<open>A request that writes\<close>

definition sample_server :: server where
  "sample_server = \<lparr>sv_dbs = [(''crm'', demo_database)], sv_configError = False, sv_readProfileErr = False,
     sv_auth = Some \<lparr>cfg_owner_token = ''top'', cfg_store = None\<rparr>, sv_cors = None, sv_readOnly = False, sv_resolves = (\<lambda>p. True),
     sv_coordinated = (\<lambda>d. False), sv_admits = (\<lambda>r d. True)\<rparr>"

definition sample_put :: http_request where
  "sample_put = \<lparr>h_method = ''PUT'', h_segments = record_segments ''crm'' [''orders'', ''o1''], h_origin = [], h_authorization = ''Bearer top'',
     h_contentType = [], h_data = Some (Some []), h_updates = None, h_ops = None\<rparr>"

definition sample_write :: op where
  "sample_write = \<lparr>op_op = ''set'', op_key = Some (Key None ''orders'' ''o1''), op_data = Some [], op_updates = []\<rparr>"

lemma sample_key: "parseRecordKey sample_put = Inr (Key None ''orders'' ''o1'')"
proof -
  have "ParseKeyPath ''orders/o1'' = Inr (Key None ''orders'' ''o1'')" by code_simp
  then show ?thesis using parse_record_path [of sample_put "''crm''" "[''orders'', ''o1'']"] by (simp add: sample_put_def)
qed

text \<open>The same key in a database called \<open>records\<close> is misread: three segments are no key.\<close>

definition sample_misread :: http_request where
  "sample_misread = sample_put\<lparr>h_segments := record_segments ''records'' [''orders'', ''o1'']\<rparr>"

theorem record_path_key_witness:
  "parseRecordKey sample_misread = Inl (KeyInvalid (SegmentCount 3)) \<and> parseRecordKey sample_put = Inr (Key None ''orders'' ''o1'')"
proof -
  have "ParseKeyPath ''records/orders/o1'' = Inl (SegmentCount 3)" "ParseKeyPath ''orders/o1'' = Inr (Key None ''orders'' ''o1'')" by code_simp+
  then show ?thesis
    using record_path_key [of sample_misread "''records''" "[''orders'', ''o1'']"] record_path_key [of sample_put "''crm''" "[''orders'', ''o1'']"]
    by (simp add: sample_misread_def sample_put_def)
qed

lemma sample_mux: "mux sample_server sample_put = Some HRecord"
proof -
  have d: "map decode_segment (h_segments sample_put) = [''v1'', ''databases'', ''crm'', ''records'', ''orders'', ''o1'']"
    by (simp add: sample_put_def record_segments_def decode_segment_def)
  have "clean_path sample_put" by (simp add: clean_path_def sample_put_def record_segments_def)
  moreover have "List.find (\<lambda>rt. route_matches rt sample_put) (base_routes @ auth_routes) = Some record_route"
    by (simp add: base_routes_def route_matches_def d Let_def route_defs)
  ultimately show ?thesis by (simp add: mux_def routes_def sample_server_def record_route_def)
qed

lemma sample_authenticated: "authenticate H now sample_server sample_put = Serve (Some \<lparr>p_owner = True, p_grant = None\<rparr>)"
proof -
  have "trim_space ''top'' = ''top''" by (rule trim_space_id) (simp_all add: is_ascii_def is_space_def)
  then have "bearer_token ''Bearer top'' = ''top''" by (simp add: bearer_token_def equal_fold_def)
  moreover have "\<not> public_path (url_path sample_put)"
    by (simp add: public_path_def url_path_def sample_put_def record_segments_def decode_segment_def has_prefix_def)
  ultimately show ?thesis by (simp add: authenticate_def auth_middleware_def sample_server_def) (simp add: sample_put_def)
qed

lemma sample_spellings: "CollectionSpellings (d_names demo_database) ''orders'' \<noteq> []"
  by code_simp

lemma sample_served: "serve_request H now sample_server sample_put = Applies demo_database [sample_write]"
proof -
  let ?p = "Some \<lparr>p_owner = True, p_grant = None\<rparr>"
  have db: "route_db sample_server sample_put = Inr demo_database"
    by (simp add: route_db_def getDB_def sample_server_def sample_put_def record_segments_def decode_segment_def)
  have "authorizeKey sample_server ?p demo_database ''records:write'' ''orders''"
    using sample_spellings by (cases "CollectionSpellings (d_names demo_database) ''orders''") (auto simp: authorizeKey_def enforce_def allows_def)
  moreover have "\<not> isProtectedUpdate sample_put" "h_method sample_put = ''PUT''" "h_data sample_put = Some (Some [])" "\<not> sv_coordinated sample_server demo_database"
    by (simp_all add: isProtectedUpdate_def sample_put_def sample_server_def)
  ultimately have "handleRecord sample_server ?p sample_put = Applies demo_database [sample_write]"
    using db sample_key by (simp add: handleRecord_def record_action_def record_dispatch_def sample_write_def)
  then have "run_handler sample_server ?p sample_put = Applies demo_database [sample_write]" by (simp add: run_handler_def sample_mux)
  then show ?thesis using sample_authenticated [of H now]
    by (simp add: serve_request_def resolve_and_run_def) (simp add: sample_server_def)
qed


theorem read_only_server_changes_nothing_witness:
  "sv_readOnly (sample_server\<lparr>sv_readOnly := True\<rparr>) \<and> serve_request (\<lambda>t. t) 1 (sample_server\<lparr>sv_readOnly := True\<rparr>) sample_put \<noteq> Applies demo_database [sample_write] \<and>
   serve_request (\<lambda>t. t) 1 sample_server sample_put = Applies demo_database [sample_write]"
  using read_only_server_changes_nothing [of "sample_server\<lparr>sv_readOnly := True\<rparr>" "\<lambda>t. t" 1 sample_put demo_database "[sample_write]"]
  by (simp add: sample_served)

end
