(* ===== verification/Mounts.thy ===== *)
theory Mounts
  imports Go_Strings
begin

text \<open>
  \<^verbatim>\<open>src/pkg/server/server.go\<close>: databases mounted and unmounted while requests run. A database instance is a number; what \<^verbatim>\<open>Mount\<close> asks
  of it is a record of facts. Each critical section of \<^verbatim>\<open>Server.mu\<close> is one operation, and so is the end of the goroutine that waits
  for the leases of an unmounted instance and closes it. A wait group is a cell with the instance it was made for and its
  counter; a lease is a request with the cell it will decrement.
\<close>

section \<open>State\<close>

record instance_facts =
  if_id :: string
  if_retentionOK :: bool
  if_ianaHTTP :: bool
  if_immutableKeys :: bool
  if_licensed :: bool

record mount_config =
  mc_readOnly :: bool
  mc_rightsServerID :: string
  mc_readProfiles :: "string list"
  mc_providerProfiles :: "string list"
  mc_ianaAdmitted :: "nat list"
  mc_providerBound :: "nat list"
  mc_facts :: "nat \<Rightarrow> instance_facts"

record mount_state =
  ms_dbs :: "(string, nat) gomap"
  ms_inflight :: "(nat, nat) gomap"
  ms_groups :: "(nat \<times> nat) list"
  ms_leases :: "(nat \<times> nat) list"
  ms_readBound :: "nat list"
  ms_remounts :: "string list"
  ms_retiring :: "nat list"
  ms_waiting :: "(nat \<times> nat option) list"
  ms_closed :: "nat list"
  ms_seen :: "nat list"

datatype mount_error =
    RetentionCache | AlreadyMounted string | ProviderProfileStartup | IANAStartup | Retiring | ProfileRequirements | TermsNeedIdentity | NotMounted string

section \<open>Operations\<close>

text \<open>\<^verbatim>\<open>Mount\<close>; the database given is not nil. \<open>ms_seen\<close> only records which instances the server was ever given.\<close>

definition Mount :: "mount_config \<Rightarrow> nat \<Rightarrow> mount_state \<Rightarrow> mount_error + mount_state" where
  "Mount cfg d st =
     (let f = mc_facts cfg d; i = if_id f; configured = i \<in> set (mc_readProfiles cfg) \<or> i \<in> set (ms_remounts st)
      in if \<not> if_retentionOK f then Inl RetentionCache
         else if mget (ms_dbs st) i \<noteq> None then Inl (AlreadyMounted i)
         else if i \<in> set (mc_providerProfiles cfg) then Inl ProviderProfileStartup
         else if if_ianaHTTP f \<and> d \<notin> set (mc_ianaAdmitted cfg) then Inl IANAStartup
         else if d \<in> set (ms_retiring st) then Inl Retiring
         else if configured \<and> (\<not> mc_readOnly cfg \<or> \<not> if_immutableKeys f) then Inl ProfileRequirements
         else if if_licensed f \<and> mc_rightsServerID cfg = [] then Inl TermsNeedIdentity
         else Inr (st\<lparr>ms_dbs := mput i d (ms_dbs st), ms_readBound := (if configured then List.insert d (ms_readBound st) else ms_readBound st),
                     ms_seen := List.insert d (ms_seen st)\<rparr>))"

text \<open>The locked part of \<^verbatim>\<open>UnmountContext\<close>, after which the goroutine waits.\<close>

definition bound :: "mount_config \<Rightarrow> mount_state \<Rightarrow> nat \<Rightarrow> bool" where
  "bound cfg st d \<longleftrightarrow> d \<in> set (ms_readBound st) \<or> d \<in> set (mc_providerBound cfg)"

definition routed :: "mount_state \<Rightarrow> nat \<Rightarrow> bool" where
  "routed st d \<longleftrightarrow> list_ex (\<lambda>i. mget (ms_dbs st) i = Some d) (mkeys (ms_dbs st))"

definition UnmountContext :: "mount_config \<Rightarrow> string \<Rightarrow> mount_state \<Rightarrow> mount_error + mount_state" where
  "UnmountContext cfg i st =
     (case mget (ms_dbs st) i of None \<Rightarrow> Inl (NotMounted i)
      | Some d \<Rightarrow>
         (let st1 = st\<lparr>ms_dbs := mdel i (ms_dbs st)\<rparr>
          in if bound cfg st d \<and> routed st1 d then Inr st1
             else Inr (st1\<lparr>ms_retiring := (if bound cfg st d then List.insert d (ms_retiring st) else ms_retiring st),
                            ms_inflight := mdel d (ms_inflight st), ms_waiting := ms_waiting st @ [(d, mget (ms_inflight st) d)]\<rparr>)))"

text \<open>\<^verbatim>\<open>inflightFor\<close>: the cell of an instance, made on first use.\<close>

definition inflightFor :: "nat \<Rightarrow> mount_state \<Rightarrow> mount_state \<times> nat" where
  "inflightFor d st =
     (case mget (ms_inflight st) d of Some w \<Rightarrow> (st, w)
      | None \<Rightarrow> (st\<lparr>ms_inflight := mput d (length (ms_groups st)) (ms_inflight st), ms_groups := ms_groups st @ [(d, 0)]\<rparr>, length (ms_groups st)))"

definition count_up :: "nat \<Rightarrow> (nat \<times> nat) list \<Rightarrow> (nat \<times> nat) list" where
  "count_up w gs = gs[w := (fst (gs ! w), snd (gs ! w) + 1)]"

definition count_down :: "nat \<Rightarrow> (nat \<times> nat) list \<Rightarrow> (nat \<times> nat) list" where
  "count_down w gs = gs[w := (fst (gs ! w), snd (gs ! w) - 1)]"

text \<open>\<^verbatim>\<open>acquire\<close> for request \<open>q\<close>, and \<^verbatim>\<open>release\<close> when its handler returns.\<close>

definition acquire_db :: "nat \<Rightarrow> string \<Rightarrow> mount_state \<Rightarrow> mount_state \<times> nat option" where
  "acquire_db q i st =
     (case mget (ms_dbs st) i of None \<Rightarrow> (st, None)
      | Some d \<Rightarrow>
         (case inflightFor d st of (st1, w) \<Rightarrow>
            (st1\<lparr>ms_groups := count_up w (ms_groups st1), ms_leases := ms_leases st1 @ [(q, w)]\<rparr>, Some d)))"

definition release_all :: "nat \<Rightarrow> mount_state \<Rightarrow> mount_state" where
  "release_all q st =
     st\<lparr>ms_groups := fold count_down (map snd (filter (\<lambda>l. fst l = q) (ms_leases st))) (ms_groups st),
        ms_leases := filter (\<lambda>l. fst l \<noteq> q) (ms_leases st)\<rparr>"

text \<open>The goroutine of an unmounted instance: when its cell is at zero, or there is none, it closes the instance.\<close>

definition can_close :: "mount_state \<Rightarrow> nat \<times> nat option \<Rightarrow> bool" where
  "can_close st x \<longleftrightarrow> x \<in> set (ms_waiting st) \<and> (case snd x of None \<Rightarrow> True | Some w \<Rightarrow> snd (ms_groups st ! w) = 0)"

definition close_db :: "nat \<times> nat option \<Rightarrow> mount_state \<Rightarrow> mount_state" where
  "close_db x st = st\<lparr>ms_waiting := remove1 x (ms_waiting st), ms_closed := ms_closed st @ [fst x]\<rparr>"

section \<open>Interleavings\<close>

text \<open>
  The server owns an instance from the moment it is mounted, so a caller mounts a new one, or one that a profile binds, which
  the server checks itself.
\<close>

inductive mount_step :: "mount_config \<Rightarrow> mount_state \<Rightarrow> mount_state \<Rightarrow> bool" for cfg :: mount_config where
  step_mount: "d \<notin> set (ms_seen st) \<or> bound cfg st d \<Longrightarrow> Mount cfg d st = Inr st' \<Longrightarrow> mount_step cfg st st'"
| step_unmount: "UnmountContext cfg i st = Inr st' \<Longrightarrow> mount_step cfg st st'"
| step_acquire: "mount_step cfg st (fst (acquire_db q i st))"
| step_release: "mount_step cfg st (release_all q st)"
| step_close: "can_close st x \<Longrightarrow> mount_step cfg st (close_db x st)"

text \<open>\<^verbatim>\<open>New\<close>: the given databases; an instance no profile binds is given under one id.\<close>

definition started :: "mount_config \<Rightarrow> (string, nat) gomap \<Rightarrow> nat list \<Rightarrow> string list \<Rightarrow> mount_state" where
  "started cfg dbs readBound remounts =
     \<lparr>ms_dbs = dbs, ms_inflight = [], ms_groups = [], ms_leases = [], ms_readBound = readBound, ms_remounts = remounts, ms_retiring = [],
      ms_waiting = [], ms_closed = [], ms_seen = map snd dbs\<rparr>"

definition one_id :: "mount_config \<Rightarrow> mount_state \<Rightarrow> bool" where
  "one_id cfg st \<longleftrightarrow> (\<forall>i j d. mget (ms_dbs st) i = Some d \<longrightarrow> mget (ms_dbs st) j = Some d \<longrightarrow> bound cfg st d \<or> i = j)"

text \<open>The invariant, clause by clause: what is routed is live; one id for an unbound instance; cells belong to routed instances; waiting cells; where a lease's cell is; counters count leases; each instance goes once; what is gone is known, and refused a remount.\<close>

definition gone :: "mount_state \<Rightarrow> nat list" where
  "gone st = map fst (ms_waiting st) @ ms_closed st"

definition routes_live :: "mount_state \<Rightarrow> bool" where
  "routes_live st \<longleftrightarrow> (\<forall>i d. mget (ms_dbs st) i = Some d \<longrightarrow> d \<in> set (ms_seen st) \<and> d \<notin> set (gone st))"

definition cells_routed :: "mount_state \<Rightarrow> bool" where
  "cells_routed st \<longleftrightarrow> (\<forall>d w. mget (ms_inflight st) d = Some w \<longrightarrow> routed st d \<and> w < length (ms_groups st) \<and> fst (ms_groups st ! w) = d)"

definition cells_waiting :: "mount_state \<Rightarrow> bool" where
  "cells_waiting st \<longleftrightarrow> (\<forall>d w. (d, Some w) \<in> set (ms_waiting st) \<longrightarrow> w < length (ms_groups st) \<and> fst (ms_groups st ! w) = d)"

definition leases_placed :: "mount_state \<Rightarrow> bool" where
  "leases_placed st \<longleftrightarrow> (\<forall>q w. (q, w) \<in> set (ms_leases st) \<longrightarrow>
     w < length (ms_groups st) \<and>
     (mget (ms_inflight st) (fst (ms_groups st ! w)) = Some w \<or> (fst (ms_groups st ! w), Some w) \<in> set (ms_waiting st)))"

definition leases_counted :: "mount_state \<Rightarrow> bool" where
  "leases_counted st \<longleftrightarrow> (\<forall>w < length (ms_groups st). snd (ms_groups st ! w) = count_list (map snd (ms_leases st)) w)"

definition gone_once :: "mount_config \<Rightarrow> mount_state \<Rightarrow> bool" where
  "gone_once cfg st \<longleftrightarrow>
     distinct (gone st) \<and> (\<forall>d \<in> set (gone st). d \<in> set (ms_seen st) \<and> (bound cfg st d \<longrightarrow> d \<in> set (ms_retiring st)))"

definition lease_inv :: "mount_config \<Rightarrow> mount_state \<Rightarrow> bool" where
  "lease_inv cfg st \<longleftrightarrow>
     routes_live st \<and> one_id cfg st \<and> cells_routed st \<and> cells_waiting st \<and> leases_placed st \<and> leases_counted st \<and> gone_once cfg st"

lemmas lease_inv_clauses = routes_live_def one_id_def cells_routed_def cells_waiting_def leases_placed_def leases_counted_def gone_once_def gone_def

lemma lease_invI [inv_intros]:
  assumes "routes_live st" and "one_id cfg st" and "cells_routed st" and "cells_waiting st" and "leases_placed st" and "leases_counted st"
    and "gone_once cfg st"
  shows "lease_inv cfg st"
  using assms by (simp add: lease_inv_def)

lemma routed_iff: "routed st d \<longleftrightarrow> (\<exists>i. mget (ms_dbs st) i = Some d)"
proof -
  have "(\<exists>i \<in> set (mkeys (ms_dbs st)). mget (ms_dbs st) i = Some d) \<longleftrightarrow> (\<exists>i. mget (ms_dbs st) i = Some d)"
    by (metis mget_keys option.distinct(1))
  then show ?thesis by (simp add: routed_def list_ex_iff)
qed

subsection \<open>Counting leases\<close>

lemma count_up_nth:
  "w < length gs \<Longrightarrow> v < length gs \<Longrightarrow> count_up w gs ! v = (fst (gs ! v), snd (gs ! v) + (if v = w then 1 else 0))"
  by (auto simp: count_up_def nth_list_update)

lemma length_count [simp]: "length (count_up w gs) = length gs" "length (count_down w gs) = length gs"
  by (simp_all add: count_up_def count_down_def)

lemma length_count_downs [simp]: "length (fold count_down ws gs) = length gs"
  by (induction ws arbitrary: gs) auto

lemma count_downs_nth:
  "v < length gs \<Longrightarrow> set ws \<subseteq> {..<length gs} \<Longrightarrow> fold count_down ws gs ! v = (fst (gs ! v), snd (gs ! v) - count_list ws v)"
proof (induction ws arbitrary: gs)
  case (Cons w ws)
  have "fold count_down ws (count_down w gs) ! v = (fst (count_down w gs ! v), snd (count_down w gs ! v) - count_list ws v)"
    using Cons by simp
  also have "\<dots> = (fst (gs ! v), snd (gs ! v) - count_list (w # ws) v)"
    using Cons.prems by (auto simp: count_down_def nth_list_update)
  finally show ?case by simp
qed simp

lemma count_list_split: "count_list (map f xs) v = count_list (map f (filter P xs)) v + count_list (map f (filter (\<lambda>x. \<not> P x) xs)) v"
  by (induction xs) auto

subsection \<open>Every operation keeps the invariant\<close>

lemma Mount_Inr:
  assumes "Mount cfg d st = Inr st'"
  shows "mget (ms_dbs st) (if_id (mc_facts cfg d)) = None \<and> d \<notin> set (ms_retiring st) \<and>
    set (ms_readBound st) \<subseteq> set (ms_readBound st') \<and> set (ms_readBound st') \<subseteq> insert d (set (ms_readBound st)) \<and>
    st' = st\<lparr>ms_dbs := mput (if_id (mc_facts cfg d)) d (ms_dbs st), ms_readBound := ms_readBound st', ms_seen := List.insert d (ms_seen st)\<rparr>"
  using assms by (auto simp: Mount_def Let_def split: if_splits)

lemma Mount_inv:
  assumes inv: "lease_inv cfg st" and own: "d \<notin> set (ms_seen st) \<or> bound cfg st d" and st': "Mount cfg d st = Inr st'"
  shows "lease_inv cfg st'"
proof -
  let ?i = "if_id (mc_facts cfg d)"
  obtain rb where new: "mget (ms_dbs st) ?i = None" "d \<notin> set (ms_retiring st)"
    and rb: "set (ms_readBound st) \<subseteq> set rb" "set rb \<subseteq> insert d (set (ms_readBound st))"
    and eq: "st' = st\<lparr>ms_dbs := mput ?i d (ms_dbs st), ms_readBound := rb, ms_seen := List.insert d (ms_seen st)\<rparr>"
    using Mount_Inr [OF st'] by metis
  have live: "d \<notin> set (gone st)"
    using inv own new(2) by (auto simp: lease_inv_def gone_once_def)
  have b: "bound cfg st e \<Longrightarrow> bound cfg st' e" "e \<noteq> d \<Longrightarrow> bound cfg st' e \<longleftrightarrow> bound cfg st e" for e
    using rb by (auto simp: bound_def eq)
  have g: "gone st' = gone st" by (simp add: gone_def eq)
  show ?thesis
  proof (rule lease_invI)
    show "routes_live st'" using inv live by (auto simp: lease_inv_def routes_live_def g) (auto simp: eq split: if_splits)
    show "one_id cfg st'"
      unfolding one_id_def
    proof (intro allI impI)
      fix i j e assume ij: "mget (ms_dbs st') i = Some e" "mget (ms_dbs st') j = Some e"
      show "bound cfg st' e \<or> i = j"
      proof (cases "e = d")
        case True
        then show ?thesis using inv own ij b(1) by (auto simp: eq lease_inv_def routes_live_def split: if_splits)
      next
        case False
        then have "mget (ms_dbs st) i = Some e" "mget (ms_dbs st) j = Some e" using ij by (auto simp: eq split: if_splits)
        then show ?thesis using inv b(1) by (auto simp: lease_inv_def one_id_def)
      qed
    qed
    have "routed st' e" if r: "routed st e" for e
    proof -
      obtain i where i: "mget (ms_dbs st) i = Some e" using r by (auto simp: routed_iff)
      then have "mget (ms_dbs st') i = Some e" using new(1) by (auto simp: eq)
      then show ?thesis by (auto simp: routed_iff)
    qed
    then show "cells_routed st'" using inv by (simp add: lease_inv_def cells_routed_def eq)
    have "bound cfg st' e \<longleftrightarrow> bound cfg st e" if "e \<in> set (gone st)" for e using that live b(2) [of e] by metis
    then show "gone_once cfg st'" using inv by (simp add: lease_inv_def gone_once_def g) (simp add: eq)
  qed (use inv in \<open>auto simp: lease_inv_def cells_waiting_def leases_placed_def leases_counted_def eq\<close>)
qed

lemma unroute_inv:
  assumes inv: "lease_inv cfg st" and i: "mget (ms_dbs st) i = Some d" and b: "bound cfg st d" and r: "routed (st\<lparr>ms_dbs := mdel i (ms_dbs st)\<rparr>) d"
  shows "lease_inv cfg (st\<lparr>ms_dbs := mdel i (ms_dbs st)\<rparr>)"
proof -
  let ?st = "st\<lparr>ms_dbs := mdel i (ms_dbs st)\<rparr>"
  have r': "routed ?st e" if e: "routed st e" for e
  proof (cases "e = d")
    case True
    then show ?thesis using r by simp
  next
    case False
    obtain j where j: "mget (ms_dbs st) j = Some e" using e by (auto simp: routed_iff)
    then have "mget (ms_dbs ?st) j = Some e" using i False by auto
    then show ?thesis unfolding routed_iff by blast
  qed
  show ?thesis
  proof (rule lease_invI)
    show "cells_routed ?st" using inv r' by (simp add: lease_inv_def cells_routed_def)
    show "one_id cfg ?st" using inv by (simp add: lease_inv_def one_id_def bound_def)
  qed (use inv in \<open>auto simp: lease_inv_def routes_live_def cells_waiting_def leases_placed_def leases_counted_def gone_once_def gone_def bound_def\<close>)
qed

lemma retire_inv:
  assumes inv: "lease_inv cfg st" and i: "mget (ms_dbs st) i = Some d" and last: "\<not> routed (st\<lparr>ms_dbs := mdel i (ms_dbs st)\<rparr>) d"
    and ret: "set (ms_retiring st) \<subseteq> set ret" "bound cfg st d \<Longrightarrow> d \<in> set ret"
  shows "lease_inv cfg (st\<lparr>ms_dbs := mdel i (ms_dbs st), ms_retiring := ret, ms_inflight := mdel d (ms_inflight st),
      ms_waiting := ms_waiting st @ [(d, mget (ms_inflight st) d)]\<rparr>)" (is "lease_inv cfg ?st")
proof -
  have d: "d \<in> set (ms_seen st)" "d \<notin> set (gone st)" using inv i by (auto simp: lease_inv_def routes_live_def)
  have only: "j = i" if j: "mget (ms_dbs st) j = Some d" for j
  proof (rule ccontr)
    assume "j \<noteq> i"
    then have "mget (mdel i (ms_dbs st)) j = Some d" using j by simp
    then show False using last by (auto simp: routed_iff simp del: gomap_laws)
  qed
  have other: "mget (ms_dbs ?st) j = Some e \<longleftrightarrow> mget (ms_dbs st) j = Some e \<and> e \<noteq> d" for j e
  proof (cases "j = i")
    case False
    then have "mget (ms_dbs st) j \<noteq> Some d" using only by blast
    then show ?thesis using False by auto
  qed (use i in auto)
  have b: "bound cfg ?st e = bound cfg st e" for e by (simp add: bound_def)
  show ?thesis
  proof (rule lease_invI)
    have "set (gone ?st) = insert d (set (gone st))" by (auto simp: gone_def)
    then show "routes_live ?st" using inv other unfolding lease_inv_def routes_live_def by auto
    show "one_id cfg ?st" using inv other b unfolding lease_inv_def one_id_def by blast
    show "cells_routed ?st" using inv other unfolding lease_inv_def cells_routed_def routed_iff by auto
    show "cells_waiting ?st" using inv by (auto simp: lease_inv_def cells_waiting_def cells_routed_def)
    have "leases_placed st" using inv by (simp add: lease_inv_def)
    then show "leases_placed ?st" by (simp add: leases_placed_def) metis
    show "leases_counted ?st" using inv by (auto simp: lease_inv_def leases_counted_def)
    show "gone_once cfg ?st" using inv d ret by (auto simp: lease_inv_def gone_once_def gone_def bound_def)
  qed
qed

lemma UnmountContext_inv:
  assumes inv: "lease_inv cfg st" and st': "UnmountContext cfg i st = Inr st'"
  shows "lease_inv cfg st'"
proof -
  obtain d where i: "mget (ms_dbs st) i = Some d" using st' by (auto simp: UnmountContext_def split: option.splits)
  let ?st = "st\<lparr>ms_dbs := mdel i (ms_dbs st)\<rparr>"
  show ?thesis
  proof (cases "bound cfg st d \<and> routed ?st d")
    case True
    then show ?thesis using unroute_inv [OF inv i] st' i by (simp add: UnmountContext_def Let_def)
  next
    case False
    have "\<not> routed ?st d"
    proof
      assume r: "routed ?st d"
      then obtain j where "mget (mdel i (ms_dbs st)) j = Some d" by (auto simp: routed_iff simp del: gomap_laws)
      then have "j \<noteq> i" "mget (ms_dbs st) j = Some d" by (auto split: if_splits)
      then show False using inv i False r by (auto simp: lease_inv_def one_id_def)
    qed
    then show ?thesis
      using retire_inv [OF inv i, where ret = "if bound cfg st d then List.insert d (ms_retiring st) else ms_retiring st"] st' i False
      by (auto simp: UnmountContext_def Let_def subset_insertI)
  qed
qed

lemma inflightFor_inv:
  assumes inv: "lease_inv cfg st" and r: "routed st d"
  shows "lease_inv cfg (fst (inflightFor d st)) \<and> mget (ms_inflight (fst (inflightFor d st))) d = Some (snd (inflightFor d st)) \<and>
    ms_dbs (fst (inflightFor d st)) = ms_dbs st"
proof (cases "mget (ms_inflight st) d")
  case None
  let ?st = "st\<lparr>ms_inflight := mput d (length (ms_groups st)) (ms_inflight st), ms_groups := ms_groups st @ [(d, 0)]\<rparr>"
  have no: "(q, length (ms_groups st)) \<notin> set (ms_leases st)" for q using inv by (auto simp: lease_inv_def leases_placed_def)
  have "lease_inv cfg ?st"
  proof (rule lease_invI)
    have "routed st e \<and> v < length (ms_groups st) \<and> fst (ms_groups st ! v) = e" if "mget (ms_inflight st) e = Some v" for e v
      using inv that by (auto simp: lease_inv_def cells_routed_def)
    with r show "cells_routed ?st" by (auto simp: cells_routed_def routed_def nth_append less_SucI)
    show "cells_waiting ?st" using inv by (auto simp: lease_inv_def cells_waiting_def nth_append less_SucI)
    show "leases_placed ?st"
      unfolding leases_placed_def
    proof (intro allI impI)
      fix q v assume "(q, v) \<in> set (ms_leases ?st)"
      then have "v < length (ms_groups st)" "mget (ms_inflight st) (fst (ms_groups st ! v)) = Some v \<or> (fst (ms_groups st ! v), Some v) \<in> set (ms_waiting st)"
        using inv by (simp_all add: lease_inv_def leases_placed_def)
      then show "v < length (ms_groups ?st) \<and> (mget (ms_inflight ?st) (fst (ms_groups ?st ! v)) = Some v \<or> (fst (ms_groups ?st ! v), Some v) \<in> set (ms_waiting ?st))"
        using None by (auto simp: nth_append)
    qed
    have "count_list (map snd (ms_leases st)) (length (ms_groups st)) = 0" using no by (auto simp: count_list_0_iff)
    then show "leases_counted ?st" using inv by (auto simp: lease_inv_def leases_counted_def nth_append less_Suc_eq)
  qed (use inv in \<open>auto simp: lease_inv_def routes_live_def one_id_def gone_once_def gone_def bound_def\<close>)
  then show ?thesis using None by (simp add: inflightFor_def)
qed (use inv in \<open>simp add: inflightFor_def\<close>)

lemma lease_inv_add:
  assumes inv: "lease_inv cfg st" and d: "mget (ms_inflight st) d = Some w"
  shows "lease_inv cfg (st\<lparr>ms_groups := count_up w (ms_groups st), ms_leases := ms_leases st @ [(q, w)]\<rparr>)" (is "lease_inv cfg ?st")
proof -
  have w: "w < length (ms_groups st)" "fst (ms_groups st ! w) = d" using inv d by (auto simp: lease_inv_def cells_routed_def)
  have fst_eq: "fst (count_up w (ms_groups st) ! v) = fst (ms_groups st ! v)" if "v < length (ms_groups st)" for v
    using count_up_nth [OF w(1) that] by simp
  show ?thesis
  proof (rule lease_invI)
    show "cells_routed ?st" using inv fst_eq by (auto simp: lease_inv_def cells_routed_def routed_def)
    show "cells_waiting ?st" using inv fst_eq by (auto simp: lease_inv_def cells_waiting_def)
    show "leases_placed ?st" using inv fst_eq w d by (auto simp: lease_inv_def leases_placed_def)
    show "leases_counted ?st" using inv count_up_nth [OF w(1)] by (auto simp: lease_inv_def leases_counted_def)
  qed (use inv in \<open>auto simp: lease_inv_def routes_live_def one_id_def gone_once_def gone_def bound_def\<close>)
qed

lemma acquire_db_inv:
  assumes "lease_inv cfg st"
  shows "lease_inv cfg (fst (acquire_db q i st))"
proof (cases "mget (ms_dbs st) i")
  case (Some d)
  then have "routed st d" by (auto simp: routed_iff)
  from inflightFor_inv [OF assms this] show ?thesis
    using Some by (auto simp: acquire_db_def lease_inv_add split: prod.splits)
qed (use assms in \<open>simp add: acquire_db_def\<close>)

lemma release_all_inv:
  assumes inv: "lease_inv cfg st"
  shows "lease_inv cfg (release_all q st)" (is "lease_inv cfg ?st")
proof -
  let ?ws = "map snd (filter (\<lambda>l. fst l = q) (ms_leases st))"
  have ws: "set ?ws \<subseteq> {..<length (ms_groups st)}" using inv by (auto simp: lease_inv_def leases_placed_def)
  note nth = count_downs_nth [OF _ ws]
  show ?thesis
  proof (rule lease_invI)
    show "cells_routed ?st" using inv nth by (auto simp: lease_inv_def cells_routed_def routed_def release_all_def)
    show "cells_waiting ?st" using inv nth by (auto simp: lease_inv_def cells_waiting_def release_all_def)
    have "v < length (ms_groups st)" if "(p, v) \<in> set (ms_leases st)" for p v using inv that by (auto simp: lease_inv_def leases_placed_def)
    then show "leases_placed ?st" using inv nth by (fastforce simp: lease_inv_def leases_placed_def release_all_def)
    have "count_list (map snd (ms_leases st)) v - count_list ?ws v = count_list (map snd (filter (\<lambda>l. fst l \<noteq> q) (ms_leases st))) v" for v
      using count_list_split [of snd "ms_leases st" v "\<lambda>l. fst l = q"] by simp
    then show "leases_counted ?st" using inv nth by (auto simp: lease_inv_def leases_counted_def release_all_def)
  qed (use inv in \<open>auto simp: lease_inv_def routes_live_def one_id_def gone_once_def gone_def bound_def release_all_def\<close>)
qed

lemma distinct_to_end:
  "distinct (xs @ x # ys @ zs) \<Longrightarrow> set (xs @ ys @ zs @ [x]) = set (xs @ x # ys @ zs)"
  "distinct (xs @ x # ys @ zs) \<Longrightarrow> distinct (xs @ ys @ zs @ [x])"
  by auto

lemma close_db_inv:
  assumes inv: "lease_inv cfg st" and c: "can_close st x"
  shows "lease_inv cfg (close_db x st)" (is "lease_inv cfg ?st")
proof -
  have x: "x \<in> set (ms_waiting st)" using c by (simp add: can_close_def)
  have d: "distinct (gone st)" using inv by (simp add: lease_inv_def gone_once_def)
  obtain ys zs where w: "ms_waiting st = ys @ x # zs" "remove1 x (ms_waiting st) = ys @ zs"
    using split_list_first [OF x] by (auto simp: remove1_append)
  have e: "gone ?st = map fst ys @ map fst zs @ ms_closed st @ [fst x]" "gone st = map fst ys @ fst x # map fst zs @ ms_closed st"
    by (simp add: gone_def close_db_def w(2)) (simp add: gone_def w(1))
  have g: "set (gone ?st) = set (gone st)" "distinct (gone ?st)" unfolding e
    using d [unfolded e(2)] by (rule distinct_to_end)+
  show ?thesis
  proof (rule lease_invI)
    show "routes_live ?st" using inv g by (simp add: lease_inv_def routes_live_def) (simp add: close_db_def)
    show "gone_once cfg ?st" using inv g by (simp add: lease_inv_def gone_once_def) (simp add: close_db_def bound_def)
    show "cells_waiting ?st" using inv by (auto simp: lease_inv_def cells_waiting_def close_db_def dest: notin_set_remove1)
    show "leases_placed ?st"
      unfolding leases_placed_def
    proof (intro allI impI)
      fix q v assume l: "(q, v) \<in> set (ms_leases ?st)"
      then have "v \<in> snd ` set (ms_leases st)" by (force simp: close_db_def)
      then have n: "count_list (map snd (ms_leases st)) v \<noteq> 0" by (simp add: count_list_0_iff)
      from l have v: "v < length (ms_groups st)" and p: "mget (ms_inflight st) (fst (ms_groups st ! v)) = Some v \<or> (fst (ms_groups st ! v), Some v) \<in> set (ms_waiting st)"
        using inv by (auto simp: lease_inv_def leases_placed_def close_db_def)
      have "(fst (ms_groups st ! v), Some v) \<noteq> x"
        using inv c v n by (auto simp: lease_inv_def leases_counted_def can_close_def)
      with v p show "v < length (ms_groups ?st) \<and> (mget (ms_inflight ?st) (fst (ms_groups ?st ! v)) = Some v \<or> (fst (ms_groups ?st ! v), Some v) \<in> set (ms_waiting ?st))"
        by (auto simp: close_db_def in_set_remove1)
    qed
  qed (use inv in \<open>auto simp: lease_inv_def one_id_def cells_routed_def routed_def leases_counted_def bound_def close_db_def\<close>)
qed

inductive_cases mount_stepE: "mount_step cfg st st'"

lemma mount_step_inv: "mount_step cfg st st' \<Longrightarrow> lease_inv cfg st \<Longrightarrow> lease_inv cfg st'"
  by (erule mount_stepE) (auto intro: Mount_inv UnmountContext_inv acquire_db_inv release_all_inv close_db_inv)

interpretation mounts: step_system "mount_step cfg" "lease_inv cfg" for cfg
  by unfold_locales (rule mount_step_inv)

lemma started_inv:
  assumes "one_id cfg (started cfg dbs rb rem)"
  shows "lease_inv cfg (started cfg dbs rb rem)"
proof (rule lease_invI)
  show "routes_live (started cfg dbs rb rem)"
    by (force simp: routes_live_def gone_def started_def dest: map_of_SomeD)
qed (use assms in \<open>simp_all add: started_def cells_routed_def cells_waiting_def leases_placed_def leases_counted_def gone_once_def gone_def\<close>)

lemma leased_live:
  assumes "lease_inv cfg st" and "(q, w) \<in> set (ms_leases st)"
  shows "fst (ms_groups st ! w) \<notin> set (ms_closed st)"
proof -
  let ?d = "fst (ms_groups st ! w)"
  consider "mget (ms_inflight st) ?d = Some w" | "(?d, Some w) \<in> set (ms_waiting st)"
    using assms by (auto simp: lease_inv_def leases_placed_def)
  then show ?thesis
  proof cases
    case 1
    then have "routed st ?d" using assms(1) unfolding lease_inv_def cells_routed_def by blast
    then obtain i where "mget (ms_dbs st) i = Some ?d" by (auto simp: routed_iff)
    then show ?thesis using assms(1) by (auto simp: lease_inv_def routes_live_def gone_def)
  next
    case 2
    then have "?d \<in> set (map fst (ms_waiting st))" by force
    then show ?thesis using assms(1) by (auto simp: lease_inv_def gone_once_def gone_def simp del: set_map)
  qed
qed

subsection \<open>Draining\<close>

lemma releases_leases: "ms_leases (fold release_all qs st) = filter (\<lambda>l. fst l \<notin> set qs) (ms_leases st)"
  by (induction qs arbitrary: st) (auto simp: release_all_def conj_commute)

lemma releases_waiting: "ms_waiting (fold release_all qs st) = ms_waiting st"
  by (induction qs arbitrary: st) (auto simp: release_all_def)

lemma releases_run: "(mount_step cfg)\<^sup>*\<^sup>* st (fold release_all qs st)"
proof (induction qs arbitrary: st)
  case (Cons q qs)
  have "mount_step cfg st (release_all q st)" by (rule step_release)
  then show ?case using Cons.IH by (simp add: converse_rtranclp_into_rtranclp)
qed simp

definition drained :: "mount_state \<Rightarrow> mount_state" where
  "drained st = fold release_all (map fst (ms_leases st)) st"

lemma drained_can_close:
  assumes inv: "lease_inv cfg st" and x: "x \<in> set (ms_waiting st)" and none: "ms_leases st = []"
  shows "can_close st x"
proof (cases "snd x")
  case (Some w)
  then have "(fst x, Some w) \<in> set (ms_waiting st)" using x by (metis prod.collapse)
  then have "w < length (ms_groups st)" using inv by (auto simp: lease_inv_def cells_waiting_def)
  then show ?thesis using inv x none Some by (auto simp: can_close_def lease_inv_def leases_counted_def)
qed (use x in \<open>simp add: can_close_def\<close>)

section \<open>Properties\<close>

lemma acquire_db_leases:
  assumes inv: "lease_inv cfg st" and a: "acquire_db q i st = (st', Some d)"
  shows "d \<notin> set (ms_closed st) \<and> list_ex (\<lambda>(p, w). p = q \<and> fst (ms_groups st' ! w) = d) (ms_leases st')"
proof -
  have i: "mget (ms_dbs st) i = Some d" using a by (auto simp: acquire_db_def split: option.splits prod.splits)
  then have r: "routed st d" by (auto simp: routed_iff)
  obtain st1 w where f: "inflightFor d st = (st1, w)" by fastforce
  have "lease_inv cfg st1" "mget (ms_inflight st1) d = Some w" using inflightFor_inv [OF inv r] f by simp_all
  then have w: "w < length (ms_groups st1)" "fst (ms_groups st1 ! w) = d" unfolding lease_inv_def cells_routed_def by blast+
  have "st' = st1\<lparr>ms_groups := count_up w (ms_groups st1), ms_leases := ms_leases st1 @ [(q, w)]\<rparr>" using a i f by (simp add: acquire_db_def)
  then show ?thesis using w inv i count_up_nth [OF w(1) w(1)] by (auto simp: lease_inv_def routes_live_def gone_def)
qed

text \<open>
  C12. No request works on a closed database. However mounts, unmounts, requests and drained unmounts interleave on a server
  that was started with each unprofiled instance under one id, an instance is closed at most once, no closed instance is
  routed or leased, and a request that finds a database gets an open one and holds a lease of it.
\<close>

theorem closed_database_is_unused:
  assumes "one_id cfg (started cfg dbs readBound remounts)" and "(mount_step cfg)\<^sup>*\<^sup>* (started cfg dbs readBound remounts) st"
  shows "distinct (ms_closed st) \<and> list_all (\<lambda>d. \<not> routed st d) (ms_closed st) \<and>
    list_all (\<lambda>(q, w). fst (ms_groups st ! w) \<notin> set (ms_closed st)) (ms_leases st) \<and>
    (\<forall>q i st' d. acquire_db q i st = (st', Some d) \<longrightarrow>
       d \<notin> set (ms_closed st) \<and> list_ex (\<lambda>(p, w). p = q \<and> fst (ms_groups st' ! w) = d) (ms_leases st'))"
proof -
  have inv: "lease_inv cfg st" using assms(2) by (rule mounts.run_inv) (rule started_inv [OF assms(1)])
  have "distinct (ms_closed st)" using inv by (simp add: lease_inv_def gone_once_def gone_def)
  moreover have "list_all (\<lambda>d. \<not> routed st d) (ms_closed st)"
    using inv by (auto simp: list_all_iff routed_iff lease_inv_def routes_live_def gone_def)
  moreover have "list_all (\<lambda>(q, w). fst (ms_groups st ! w) \<notin> set (ms_closed st)) (ms_leases st)"
    using leased_live [OF inv] by (auto simp: list_all_iff)
  ultimately show ?thesis using acquire_db_leases [OF inv] by blast
qed


text \<open>One database, one request that holds it, an unmount while it runs, the request's return and the close.\<close>

definition sample_mounts :: mount_config where
  "sample_mounts = \<lparr>mc_readOnly = False, mc_rightsServerID = [], mc_readProfiles = [], mc_providerProfiles = [], mc_ianaAdmitted = [], mc_providerBound = [],
     mc_facts = (\<lambda>d. \<lparr>if_id = ''crm'', if_retentionOK = True, if_ianaHTTP = False, if_immutableKeys = False, if_licensed = False\<rparr>)\<rparr>"

definition sample_held :: mount_state where
  "sample_held = fst (acquire_db 1 ''crm'' (started sample_mounts [(''crm'', 0)] [] []))"

definition sample_unmounted :: mount_state where
  "sample_unmounted = sample_held\<lparr>ms_dbs := [], ms_inflight := [], ms_waiting := [(0, Some 0)]\<rparr>"

lemmas sample_mount_defs = sample_held_def sample_unmounted_def sample_mounts_def started_def acquire_db_def inflightFor_def count_up_def

lemma sample_one_id: "one_id sample_mounts (started sample_mounts [(''crm'', 0)] [] [])"
  by (auto simp: one_id_def started_def split: if_splits)

lemma sample_unmount: "UnmountContext sample_mounts ''crm'' sample_held = Inr sample_unmounted"
  by (simp add: UnmountContext_def bound_def sample_mount_defs)

lemma sample_held_run: "(mount_step sample_mounts)\<^sup>*\<^sup>* (started sample_mounts [(''crm'', 0)] [] []) sample_held"
  unfolding sample_held_def by (rule r_into_rtranclp) (rule step_acquire)

lemma sample_closed_run: "(mount_step sample_mounts)\<^sup>*\<^sup>* (started sample_mounts [(''crm'', 0)] [] []) (close_db (0, Some 0) (release_all 1 sample_unmounted))"
proof -
  have "can_close (release_all 1 sample_unmounted) (0, Some 0)"
    by (simp add: can_close_def release_all_def count_down_def sample_mount_defs)
  then have "mount_step sample_mounts (release_all 1 sample_unmounted) (close_db (0, Some 0) (release_all 1 sample_unmounted))" by (rule step_close)
  with sample_held_run step_unmount [OF sample_unmount] step_release [of sample_mounts sample_unmounted 1] show ?thesis
    by (meson rtranclp.rtrancl_into_rtrancl)
qed

theorem closed_database_is_unused_witness:
  "ms_closed (close_db (0, Some 0) (release_all 1 sample_unmounted)) = [0] \<and>
   list_all (\<lambda>d. \<not> routed (close_db (0, Some 0) (release_all 1 sample_unmounted)) d) [0]"
  using closed_database_is_unused [OF sample_one_id sample_closed_run]
  by (simp add: close_db_def release_all_def sample_mount_defs)


end
