(* ===== verification/Query_Tree.thy ===== *)
theory Query_Tree
  imports Go_Base
begin

text \<open>
  The structured queries of DALgo as the walks of \<^verbatim>\<open>src/pkg/core\<close> and \<^verbatim>\<open>src/pkg/joinexec\<close> read them: a constructor for each node type
  a walk distinguishes, its fields the values the walk asks the node for. A nil interface is a constructor of its own
  (\<open>NilQuery\<close> and the like), and every node type that a walk does not know is one constructor (\<open>OtherSource\<close> and the like).
\<close>

section \<open>Nodes\<close>

record money_config =
  mo_minorUnitScale :: int
  mo_divisionScale :: int
  mo_rounding :: string

record query_settings =
  qs_limit :: int
  qs_offset :: int
  qs_startFrom :: string
  qs_startAfter :: string
  qs_money :: "money_config option"

record collection_ref =
  cr_database :: string
  cr_schema :: string
  cr_name :: string
  cr_alias :: string
  cr_hasParent :: bool
  cr_scanLimit :: int

datatype literal_kind = FloatConstant | OtherConstant

datatype join_type = JoinInner | JoinLeft | OtherJoin

datatype dal_query =
    NilQuery
  | Query query_settings from_source dal_cond "dal_expr list" dal_cond "ordering list" "dal_column list"
and from_source = NilFrom | From dal_source "dal_join list"
and dal_join = Join join_type from_source dal_source "dal_cond list"
and dal_source =
    NilSource
  | CollectionRef collection_ref "ordering list"
  | CollectionGroupRef
  | QuerySource string dal_query
  | OtherSource
and ordering = NilOrder | Order dal_expr
and dal_column = Column string "(string \<times> string list) option" dal_expr
and dal_cond =
    NilCond
  | Comparison string dal_expr dal_expr
  | GroupCond string "dal_cond list"
  | IsNullCond bool dal_expr
  | ExistsCond bool dal_query
  | OtherCond
and dal_expr =
    NilExpr
  | FieldRef string string
  | Constant literal_kind
  | ArrayExpr
  | Param string
  | StarExpr
  | Binary string dal_expr dal_expr
  | Aggregate string "dal_expr list"
  | QueryExpr string dal_query
  | OtherExpr

section \<open>Loops over a state\<close>

text \<open>A loop that stops at the first error and threads a state.\<close>

fun each :: "('a \<Rightarrow> 's \<Rightarrow> 'e + 's) \<Rightarrow> 'a list \<Rightarrow> 's \<Rightarrow> 'e + 's" where
  "each f [] st = Inr st"
| "each f (x # xs) st = rbind (f x st) (each f xs)"

lemma each_cong [fundef_cong]:
  assumes "xs = ys" and "st = st'" and "\<And>x s. x \<in> set ys \<Longrightarrow> f x s = g x s"
  shows "each f xs st = each g ys st'"
  unfolding assms(1,2) using assms(3)
proof (induction ys arbitrary: st')
  case (Cons y ys)
  then show ?case by (cases "g y st'") auto
qed simp

lemma rbind_cong [fundef_cong]:
  "m = m' \<Longrightarrow> (\<And>y. m' = Inr y \<Longrightarrow> f y = g y) \<Longrightarrow> rbind m f = rbind m' g"
  by (cases m') auto

end
