(* ===== verification/Join_Walk.thy ===== *)
theory Join_Walk
  imports Database Query_Tree
begin

text \<open>
  \<^verbatim>\<open>src/pkg/joinexec/walk.go\<close>: the walk over a relational document that finds every collection it reads, before anything is
  authorised or read. The path a refusal reports is left out. What the walk asks of DALgo is the parameter \<open>api\<close>: the text of an
  aggregate and whether a parameter's name is valid.
\<close>

section \<open>Names\<close>

record dal_api =
  da_aggregate_text :: "string \<Rightarrow> dal_expr list \<Rightarrow> string"
  da_valid_param :: "string \<Rightarrow> bool"

definition maxWalkDepth :: nat where "maxWalkDepth = 16"
definition maxWalkNesting :: nat where "maxWalkNesting = 64"
definition maxNameLen :: nat where "maxNameLen = 256"

definition arithmeticOperators :: "string list" where "arithmeticOperators = [''+'', ''-'', ''*'', ''/'']"
definition aggregateFunctions :: "string list" where "aggregateFunctions = [''COUNT'', ''SUM'', ''AVG'', ''MIN'', ''MAX'']"

definition upper_char :: "char \<Rightarrow> char" where
  "upper_char c = (if 0x61 \<le> byte c \<and> byte c \<le> 0x7A then char_of (byte c - 0x20) else c)"

text \<open>\<^verbatim>\<open>isASCII\<close>, and the aggregate names of the walk: upper-casing is that of ASCII, which the test before it ensures.\<close>

definition isASCII :: "string \<Rightarrow> bool" where
  "isASCII s \<longleftrightarrow> list_all (\<lambda>c. byte c < 0x80) s"

definition walk_aggregate :: "string \<Rightarrow> bool" where
  "walk_aggregate name \<longleftrightarrow> isASCII name \<and> map upper_char name \<in> set aggregateFunctions"

definition isIdentifier :: "string \<Rightarrow> bool" where
  "isIdentifier name \<longleftrightarrow> length name \<le> maxNameLen \<and> plain_identifier name"

definition isCollectionName :: "string \<Rightarrow> bool" where
  "isCollectionName name =
     (if name = [] then False
      else if list_ex (\<lambda>(r, bs). r < 0x20 \<or> r = 0x7F) (runes name) then False
      else let parts = fields_func path_sep [] name
           in if parts = [] then False else list_all (\<lambda>part. part \<noteq> ''.'' \<and> part \<noteq> ''..'') parts)"

definition validNativePostgresFieldName :: "string \<Rightarrow> bool" where
  "validNativePostgresFieldName name =
     (if name = [] \<or> length name > 256 \<or> \<not> valid_utf8 name then False
      else if list_ex (\<lambda>(r, bs). is_control r \<or> r \<in> {0x22, 0x27, 0x60, 0x5C, 0x3B}) (runes name) then False
      else list_all (\<lambda>seg. seg \<noteq> [] \<and> \<not> is_space (fst (hd (runes seg))) \<and> \<not> is_space (fst (last (runes seg))))
             (split_on CHR ''.'' name))"

section \<open>The walk\<close>

record walked_source =
  ws_database :: string
  ws_collection :: string
  ws_scan :: bool

record walked_document =
  dc_sources :: "walked_source list"
  dc_hasSubquery :: bool
  dc_hasNull :: bool

record walker =
  wk_doc :: walked_document
  wk_scope :: "string list"
  wk_fields :: "string list"
  wk_identifiers :: "string list"
  wk_qualifiers :: "string list"
  wk_nest :: nat

datatype walk_error =
    QueryRequired | SubqueriesTooDeep | RelationsTooDeep | OrderingRequired | DuplicateOutputName string | ExpressionRequired
  | SourceRequired | JoinNeedsSource | UnsupportedNode | RootCollectionsOnly | BadRelationName | BadCollectionName string
  | NestsTooDeep | ConditionRequired | BadParameterName string | UnboundParameter string | BadOperator | BadAggregate
  | BadFieldName string | BadIdentifier string | BadQualifier string

definition anyScan :: "walked_document \<Rightarrow> bool" where
  "anyScan d = list_ex ws_scan (dc_sources d)"

definition mark_subquery :: "walker \<Rightarrow> walker" where
  "mark_subquery w = w\<lparr>wk_doc := (wk_doc w)\<lparr>dc_hasSubquery := True\<rparr>\<rparr>"

definition mark_null :: "walker \<Rightarrow> walker" where
  "mark_null w = w\<lparr>wk_doc := (wk_doc w)\<lparr>dc_hasNull := True\<rparr>\<rparr>"

definition add_identifier :: "string \<Rightarrow> walker \<Rightarrow> walker" where
  "add_identifier name w = w\<lparr>wk_identifiers := wk_identifiers w @ [name]\<rparr>"

definition add_scope :: "string \<Rightarrow> walker \<Rightarrow> walker" where
  "add_scope name w = w\<lparr>wk_scope := List.insert name (wk_scope w)\<rparr>"

definition add_qualifier :: "string \<Rightarrow> walker \<Rightarrow> walker" where
  "add_qualifier name w = (if name = [] then w else w\<lparr>wk_qualifiers := wk_qualifiers w @ [name]\<rparr>)"

definition add_fields :: "string list \<Rightarrow> walker \<Rightarrow> walker" where
  "add_fields names w = w\<lparr>wk_fields := wk_fields w @ names\<rparr>"

text \<open>\<^verbatim>\<open>enter\<close>, and the end of a level.\<close>

definition enter_level :: "walker \<Rightarrow> walk_error + walker" where
  "enter_level w = (let w' = w\<lparr>wk_nest := wk_nest w + 1\<rparr> in if wk_nest w' > maxWalkNesting then Inl NestsTooDeep else Inr w')"

definition leave :: "walker \<Rightarrow> walk_error + walker" where
  "leave w = Inr (w\<lparr>wk_nest := wk_nest w - 1\<rparr>)"

fun outputName :: "dal_api \<Rightarrow> dal_column \<Rightarrow> string" where
  "outputName api (Column alias wild e) =
     (if wild \<noteq> None then []
      else if alias \<noteq> [] then alias
      else case e of FieldRef name src \<Rightarrow> name | QueryExpr as q \<Rightarrow> as | Aggregate name args \<Rightarrow> da_aggregate_text api name args | _ \<Rightarrow> [])"

text \<open>\<^verbatim>\<open>collection\<close> up to the loop over the scan orders.\<close>

definition relation_id :: "collection_ref \<Rightarrow> walk_error + string" where
  "relation_id ref =
     (if cr_schema ref \<noteq> [] then
        (case NativePostgresCollectionID (cr_schema ref) (cr_name ref) of None \<Rightarrow> Inl BadRelationName | Some i \<Rightarrow> Inr i)
      else if \<not> isCollectionName (cr_name ref) then Inl (BadCollectionName (cr_name ref)) else Inr (cr_name ref))"

definition note_collection :: "collection_ref \<Rightarrow> ordering list \<Rightarrow> string \<Rightarrow> walker \<Rightarrow> walker" where
  "note_collection ref orders collection w =
     (let src = \<lparr>ws_database = cr_database ref, ws_collection = collection, ws_scan = (cr_scanLimit ref \<noteq> 0 \<or> orders \<noteq> [])\<rparr>;
          w1 = add_scope (cr_name ref) (w\<lparr>wk_doc := (wk_doc w)\<lparr>dc_sources := dc_sources (wk_doc w) @ [src]\<rparr>\<rparr>)
      in if cr_alias ref \<noteq> [] then add_scope (cr_alias ref) (add_identifier (cr_alias ref) w1) else w1)"

definition add_collection :: "collection_ref \<Rightarrow> ordering list \<Rightarrow> walker \<Rightarrow> walk_error + walker" where
  "add_collection ref orders w =
     (if cr_hasParent ref then Inl RootCollectionsOnly
      else rbind (relation_id ref) (\<lambda>collection. Inr (note_collection ref orders collection w)))"

text \<open>The output name of a column, checked against those before it.\<close>

definition add_output :: "dal_api \<Rightarrow> dal_column \<Rightarrow> string list \<Rightarrow> walk_error + string list" where
  "add_output api c names =
     (let name = outputName api c in
      if name \<noteq> [] then (if name \<in> set names then Inl (DuplicateOutputName name) else Inr (name # names)) else Inr names)"

definition column_names :: "string \<Rightarrow> (string \<times> string list) option \<Rightarrow> walker \<Rightarrow> walker" where
  "column_names alias wild w =
     (let w1 = (if alias \<noteq> [] then add_identifier alias w else w)
      in case wild of None \<Rightarrow> w1 | Some (src, exclude) \<Rightarrow> add_fields exclude (add_qualifier src w1))"

text \<open>A level of conditions or expressions, a relation at a depth (its base not nil), and the loop over the columns of a query.\<close>

definition level :: "(walker \<Rightarrow> walk_error + walker) \<Rightarrow> walker \<Rightarrow> walk_error + walker" where
  "level body w = rbind (enter_level w) (\<lambda>w. rbind (body w) leave)"

definition relation :: "dal_source \<Rightarrow> (nat \<Rightarrow> walker \<Rightarrow> walk_error + walker) \<Rightarrow> nat \<Rightarrow> walker \<Rightarrow> walk_error + walker" where
  "relation base walk d w =
     (if d > maxWalkDepth then Inl RelationsTooDeep else if base = NilSource then Inl SourceRequired else walk d w)"

definition walk_all :: "(nat \<Rightarrow> walker \<Rightarrow> walk_error + walker) list \<Rightarrow> nat \<Rightarrow> walker \<Rightarrow> walk_error + walker" where
  "walk_all walks d = each (\<lambda>walk. walk d) walks"

definition walk_columns :: "dal_api \<Rightarrow> (dal_column \<times> (nat \<Rightarrow> walker \<Rightarrow> walk_error + walker)) list \<Rightarrow> nat \<Rightarrow> walker \<Rightarrow> walk_error + walker" where
  "walk_columns api cols d w =
     rbind (each (\<lambda>(c, walk) (names, w). rbind (walk d w) (\<lambda>w. rbind (add_output api c names) (\<lambda>names. Inr (names, w)))) cols ([], w))
       (\<lambda>(names, w). Inr w)"

primrec walk_query :: "dal_api \<Rightarrow> dal_query \<Rightarrow> nat \<Rightarrow> walker \<Rightarrow> walk_error + walker"
  and walk_from :: "dal_api \<Rightarrow> from_source \<Rightarrow> nat \<Rightarrow> walker \<Rightarrow> walk_error + walker"
  and walk_join :: "dal_api \<Rightarrow> dal_join \<Rightarrow> nat \<Rightarrow> walker \<Rightarrow> walk_error + walker"
  and walk_source :: "dal_api \<Rightarrow> dal_source \<Rightarrow> nat \<Rightarrow> walker \<Rightarrow> walk_error + walker"
  and walk_order :: "dal_api \<Rightarrow> ordering \<Rightarrow> nat \<Rightarrow> walker \<Rightarrow> walk_error + walker"
  and walk_column :: "dal_api \<Rightarrow> dal_column \<Rightarrow> nat \<Rightarrow> walker \<Rightarrow> walk_error + walker"
  and walk_cond :: "dal_api \<Rightarrow> dal_cond \<Rightarrow> nat \<Rightarrow> walker \<Rightarrow> walk_error + walker"
  and walk_expr :: "dal_api \<Rightarrow> dal_expr \<Rightarrow> nat \<Rightarrow> walker \<Rightarrow> walk_error + walker"
where
  "walk_query api NilQuery = (\<lambda>d w. Inl QueryRequired)"
| "walk_query api (Query settings fr wh groupBy having orderBy columns) = (\<lambda>d w.
     if d > maxWalkDepth then Inl SubqueriesTooDeep
     else rbind (walk_from api fr d w) (\<lambda>w. rbind (walk_cond api wh d w) (\<lambda>w. rbind (walk_all (map (walk_expr api) groupBy) d w) (\<lambda>w.
       rbind (walk_cond api having d w) (\<lambda>w. rbind (walk_all (map (walk_order api) orderBy) d w)
         (walk_columns api (zip columns (map (walk_column api) columns)) d))))))"
| "walk_from api NilFrom = (\<lambda>d w. if d > maxWalkDepth then Inl RelationsTooDeep else Inl SourceRequired)"
| "walk_from api (From base joins) = (\<lambda>d w. rbind (relation base (walk_source api base) d w) (walk_all (map (walk_join api) joins) d))"
| "walk_join api (Join type child src on) = (\<lambda>d w.
     rbind (if child = NilFrom then (if src = NilSource then Inl JoinNeedsSource else relation src (walk_source api src) (d + 1) w)
            else walk_from api child (d + 1) w)
       (walk_all (map (walk_cond api) on) d))"
| "walk_source api NilSource = (\<lambda>d w. Inl UnsupportedNode)"
| "walk_source api (CollectionRef ref orders) = (\<lambda>d w. rbind (add_collection ref orders w) (walk_all (map (walk_order api) orders) d))"
| "walk_source api CollectionGroupRef = (\<lambda>d w. Inl UnsupportedNode)"
| "walk_source api (QuerySource alias q) = (\<lambda>d w. walk_query api q (d + 1) (add_scope alias (add_identifier alias (mark_subquery w))))"
| "walk_source api OtherSource = (\<lambda>d w. Inl UnsupportedNode)"
| "walk_order api NilOrder = (\<lambda>d w. Inl OrderingRequired)"
| "walk_order api (Order e) = (\<lambda>d w. walk_expr api e d w)"
| "walk_column api (Column alias wild e) = (\<lambda>d w.
     let w1 = column_names alias wild w in
     if e = NilExpr then (if wild \<noteq> None then Inr w1 else Inl ExpressionRequired) else walk_expr api e d w1)"
| "walk_cond api NilCond = (\<lambda>d w. Inr w)"
| "walk_cond api (Comparison opr l r) = (\<lambda>d. level (\<lambda>w. rbind (walk_expr api l d w) (walk_expr api r d)))"
| "walk_cond api (GroupCond opr cs) = (\<lambda>d. level (\<lambda>w.
     each (\<lambda>(c, walk) w. if c = NilCond then Inl ConditionRequired else walk d w) (zip cs (map (walk_cond api) cs)) w))"
| "walk_cond api (IsNullCond neg e) = (\<lambda>d. level (\<lambda>w. walk_expr api e d (mark_null w)))"
| "walk_cond api (ExistsCond neg q) = (\<lambda>d. level (\<lambda>w. walk_query api q (d + 1) (mark_subquery w)))"
| "walk_cond api OtherCond = (\<lambda>d. level (\<lambda>w. Inl UnsupportedNode))"
| "walk_expr api NilExpr = (\<lambda>d. level (\<lambda>w. Inl UnsupportedNode))"
| "walk_expr api (FieldRef name src) = (\<lambda>d. level (\<lambda>w. Inr (add_qualifier src (add_fields [name] w))))"
| "walk_expr api (Constant c) = (\<lambda>d. level (\<lambda>w. Inr w))"
| "walk_expr api ArrayExpr = (\<lambda>d. level (\<lambda>w. Inr w))"
| "walk_expr api (Param name) = (\<lambda>d. level (\<lambda>w. if \<not> da_valid_param api name then Inl (BadParameterName name) else Inl (UnboundParameter name)))"
| "walk_expr api StarExpr = (\<lambda>d. level (\<lambda>w. Inr w))"
| "walk_expr api (Binary opr l r) = (\<lambda>d. level (\<lambda>w.
     if opr \<notin> set arithmeticOperators then Inl BadOperator else rbind (walk_expr api l d w) (walk_expr api r d)))"
| "walk_expr api (Aggregate name args) = (\<lambda>d. level (\<lambda>w.
     if \<not> walk_aggregate name then Inl BadAggregate else walk_all (map (walk_expr api) args) d w))"
| "walk_expr api (QueryExpr as q) = (\<lambda>d. level (\<lambda>w.
     walk_query api q (d + 1) (let w1 = mark_subquery w in if as \<noteq> [] then add_identifier as w1 else w1)))"
| "walk_expr api OtherExpr = (\<lambda>d. level (\<lambda>w. Inl UnsupportedNode))"

text \<open>\<^verbatim>\<open>checkNames\<close>, \<^verbatim>\<open>inspectWithNativePostgresFields\<close> and \<^verbatim>\<open>checkProfile\<close>.\<close>

definition plain_field :: "unicode_classes \<Rightarrow> bool \<Rightarrow> string \<Rightarrow> bool" where
  "plain_field uni native name \<longleftrightarrow>
     length name \<le> maxNameLen \<and> fieldNameRe uni name \<and> \<not> double_dash name \<or> native \<and> validNativePostgresFieldName name"

definition checkNames :: "unicode_classes \<Rightarrow> bool \<Rightarrow> walker \<Rightarrow> walk_error option" where
  "checkNames uni native w =
     first_of
       [check_all (\<lambda>name. refuse (\<not> plain_field uni native name) (BadFieldName name)) (wk_fields w),
        check_all (\<lambda>name. refuse (\<not> isIdentifier name) (BadIdentifier name)) (wk_identifiers w),
        check_all (\<lambda>name. refuse (name \<notin> set (wk_scope w) \<and> \<not> isIdentifier name) (BadQualifier name)) (wk_qualifiers w)]"

definition new_walker :: walker where
  "new_walker = \<lparr>wk_doc = \<lparr>dc_sources = [], dc_hasSubquery = False, dc_hasNull = False\<rparr>, wk_scope = [], wk_fields = [], wk_identifiers = [],
     wk_qualifiers = [], wk_nest = 0\<rparr>"

definition inspect :: "dal_api \<Rightarrow> unicode_classes \<Rightarrow> bool \<Rightarrow> dal_query \<Rightarrow> walk_error + walked_document" where
  "inspect api uni native q =
     rbind (walk_query api q 0 new_walker) (\<lambda>w. case checkNames uni native w of Some e \<Rightarrow> Inl e | None \<Rightarrow> Inr (wk_doc w))"

record profile_claim =
  pf_sources :: "(string \<times> string) list"
  pf_hasSubquery :: bool

datatype profile_mismatch = SubqueryMismatch | SourcesMismatch

definition bump_count :: "int \<Rightarrow> string \<times> string \<Rightarrow> (string \<times> string, int) gomap \<Rightarrow> (string \<times> string, int) gomap" where
  "bump_count n k m = mput k (case_option 0 id (mget m k) + n) m"

definition checkProfile :: "walked_document \<Rightarrow> profile_claim \<Rightarrow> profile_mismatch option" where
  "checkProfile doc profile =
     (if pf_hasSubquery profile \<noteq> dc_hasSubquery doc then Some SubqueryMismatch
      else let counts = fold (bump_count 1) (map (\<lambda>s. (ws_database s, ws_collection s)) (dc_sources doc)) [];
               counts = fold (bump_count (-1)) (pf_sources profile) counts
           in if list_ex (\<lambda>(k, n). n \<noteq> 0) counts then Some SourcesMismatch else None)"

section \<open>The nodes of a document\<close>

text \<open>Every node of a document in the order it is written, whatever it is: the reference the walk is compared with.\<close>

datatype node = NQuery "dal_column list" | NSource dal_source | NOrder ordering | NColumn dal_column | NCond dal_cond | NExpr dal_expr

primrec nodes_query :: "dal_query \<Rightarrow> node list"
  and nodes_from :: "from_source \<Rightarrow> node list"
  and nodes_join :: "dal_join \<Rightarrow> node list"
  and nodes_source :: "dal_source \<Rightarrow> node list"
  and nodes_order :: "ordering \<Rightarrow> node list"
  and nodes_column :: "dal_column \<Rightarrow> node list"
  and nodes_cond :: "dal_cond \<Rightarrow> node list"
  and nodes_expr :: "dal_expr \<Rightarrow> node list"
where
  "nodes_query NilQuery = []"
| "nodes_query (Query settings fr wh groupBy having orderBy columns) =
     NQuery columns # nodes_from fr @ nodes_cond wh @ concat (map nodes_expr groupBy) @ nodes_cond having @ concat (map nodes_order orderBy) @
     concat (map nodes_column columns)"
| "nodes_from NilFrom = []"
| "nodes_from (From base joins) = nodes_source base @ concat (map nodes_join joins)"
| "nodes_join (Join type child src on) = (if child = NilFrom then nodes_source src else nodes_from child) @ concat (map nodes_cond on)"
| "nodes_source NilSource = [NSource NilSource]"
| "nodes_source (CollectionRef ref orders) = NSource (CollectionRef ref orders) # concat (map nodes_order orders)"
| "nodes_source CollectionGroupRef = [NSource CollectionGroupRef]"
| "nodes_source (QuerySource alias q) = NSource (QuerySource alias q) # nodes_query q"
| "nodes_source OtherSource = [NSource OtherSource]"
| "nodes_order NilOrder = [NOrder NilOrder]"
| "nodes_order (Order e) = NOrder (Order e) # nodes_expr e"
| "nodes_column (Column alias wild e) = NColumn (Column alias wild e) # (if e = NilExpr then [] else nodes_expr e)"
| "nodes_cond NilCond = []"
| "nodes_cond (Comparison opr l r) = NCond (Comparison opr l r) # nodes_expr l @ nodes_expr r"
| "nodes_cond (GroupCond opr cs) = NCond (GroupCond opr cs) # concat (map nodes_cond cs)"
| "nodes_cond (IsNullCond neg e) = NCond (IsNullCond neg e) # nodes_expr e"
| "nodes_cond (ExistsCond neg q) = NCond (ExistsCond neg q) # nodes_query q"
| "nodes_cond OtherCond = [NCond OtherCond]"
| "nodes_expr NilExpr = [NExpr NilExpr]"
| "nodes_expr (FieldRef name src) = [NExpr (FieldRef name src)]"
| "nodes_expr (Constant c) = [NExpr (Constant c)]"
| "nodes_expr ArrayExpr = [NExpr ArrayExpr]"
| "nodes_expr (Param name) = [NExpr (Param name)]"
| "nodes_expr StarExpr = [NExpr StarExpr]"
| "nodes_expr (Binary opr l r) = NExpr (Binary opr l r) # nodes_expr l @ nodes_expr r"
| "nodes_expr (Aggregate name args) = NExpr (Aggregate name args) # concat (map nodes_expr args)"
| "nodes_expr (QueryExpr as q) = NExpr (QueryExpr as q) # nodes_query q"
| "nodes_expr OtherExpr = [NExpr OtherExpr]"

text \<open>What the walk accepts of a node, and what it notes.\<close>

fun known_node :: "dal_api \<Rightarrow> node \<Rightarrow> bool" where
  "known_node api (NQuery columns) \<longleftrightarrow> distinct (filter (\<lambda>n. n \<noteq> []) (map (outputName api) columns))"
| "known_node api (NSource src) \<longleftrightarrow>
     (case src of CollectionRef ref orders \<Rightarrow> \<not> cr_hasParent ref \<and> (\<exists>i. relation_id ref = Inr i) | QuerySource alias q \<Rightarrow> True | _ \<Rightarrow> False)"
| "known_node api (NOrder ord) \<longleftrightarrow> ord \<noteq> NilOrder"
| "known_node api (NColumn (Column alias wild e)) \<longleftrightarrow> e \<noteq> NilExpr \<or> wild \<noteq> None"
| "known_node api (NCond c) \<longleftrightarrow> (case c of NilCond \<Rightarrow> False | OtherCond \<Rightarrow> False | GroupCond opr cs \<Rightarrow> NilCond \<notin> set cs | _ \<Rightarrow> True)"
| "known_node api (NExpr e) \<longleftrightarrow>
     (case e of NilExpr \<Rightarrow> False | OtherExpr \<Rightarrow> False | Param name \<Rightarrow> False | Binary opr l r \<Rightarrow> opr \<in> set arithmeticOperators
      | Aggregate name args \<Rightarrow> walk_aggregate name | _ \<Rightarrow> True)"

fun visit :: "node \<Rightarrow> walker \<Rightarrow> walker" where
  "visit (NSource (CollectionRef ref orders)) w = (case relation_id ref of Inl e \<Rightarrow> w | Inr i \<Rightarrow> note_collection ref orders i w)"
| "visit (NSource (QuerySource alias q)) w = add_scope alias (add_identifier alias (mark_subquery w))"
| "visit (NColumn (Column alias wild e)) w = column_names alias wild w"
| "visit (NCond (IsNullCond neg e)) w = mark_null w"
| "visit (NCond (ExistsCond neg q)) w = mark_subquery w"
| "visit (NExpr (FieldRef name src)) w = add_qualifier src (add_fields [name] w)"
| "visit (NExpr (QueryExpr as q)) w = (let w1 = mark_subquery w in if as \<noteq> [] then add_identifier as w1 else w1)"
| "visit _ w = w"

section \<open>The walk visits every node once\<close>

lemmas dal_induct = dal_query.induct from_source.induct dal_join.induct dal_source.induct ordering.induct dal_column.induct dal_cond.induct dal_expr.induct

lemmas note_defs = mark_subquery_def mark_null_def add_identifier_def add_scope_def add_qualifier_def add_fields_def column_names_def

lemma visit_nest: "visit n (w\<lparr>wk_nest := k\<rparr>) = (visit n w)\<lparr>wk_nest := k\<rparr>" "wk_nest (visit n w) = wk_nest w"
  by (induction n w rule: visit.induct)
    (simp_all add: note_collection_def note_defs Let_def split: sum.split option.split)

lemma visits_nest: "fold visit ns (w\<lparr>wk_nest := k\<rparr>) = (fold visit ns w)\<lparr>wk_nest := k\<rparr>" "wk_nest (fold visit ns w) = wk_nest w"
  by (induction ns arbitrary: w) (simp_all add: visit_nest)

definition visited :: "dal_api \<Rightarrow> node list \<Rightarrow> walker \<Rightarrow> walk_error + walker \<Rightarrow> bool" where
  "visited api ns w r \<longleftrightarrow> (\<forall>w'. r = Inr w' \<longrightarrow> w' = fold visit ns w \<and> list_all (known_node api) ns)"

lemma visitedD: "visited api ns w (Inr w') \<Longrightarrow> w' = fold visit ns w \<and> list_all (known_node api) ns"
  by (simp add: visited_def)

lemma visited_rbind:
  assumes "visited api ns w r" and "\<And>w'. visited api ms w' (f w')"
  shows "visited api (ns @ ms) w (rbind r f)"
  using assms by (auto simp: visited_def)

lemma visited_level:
  assumes "\<And>w. visited api ns w (body w)"
  shows "visited api ns w (level body w)"
  unfolding visited_def
proof (intro allI impI)
  fix w' assume "level body w = Inr w'"
  then obtain w1 where b: "body (w\<lparr>wk_nest := wk_nest w + 1\<rparr>) = Inr w1" and w': "w' = w1\<lparr>wk_nest := wk_nest w1 - 1\<rparr>"
    by (auto simp: level_def enter_level_def leave_def Let_def split: if_splits)
  have "w1 = fold visit ns (w\<lparr>wk_nest := wk_nest w + 1\<rparr>) \<and> list_all (known_node api) ns"
    using assms [of "w\<lparr>wk_nest := wk_nest w + 1\<rparr>"] b by (simp add: visited_def)
  then show "w' = fold visit ns w \<and> list_all (known_node api) ns"
    using w' visits_nest(2) [of ns w] by (simp add: visits_nest)
qed

lemma visited_all:
  assumes "\<And>x w. x \<in> set xs \<Longrightarrow> visited api (nodes x) w (f x d w)"
  shows "visited api (concat (map nodes xs)) w (walk_all (map f xs) d w)"
  using assms
proof (induction xs arbitrary: w)
  case Nil
  show ?case by (simp add: walk_all_def visited_def)
next
  case (Cons x xs)
  have "visited api (nodes x @ concat (map nodes xs)) w (rbind (f x d w) (walk_all (map f xs) d))"
    using Cons by (intro visited_rbind) auto
  then show ?case by (simp add: walk_all_def)
qed

lemma visited_columns:
  assumes "\<And>c w. c \<in> set cols \<Longrightarrow> visited api (nodes c) w (f c d w)"
  shows "visited api (NQuery cols # concat (map nodes cols)) w (walk_columns api (zip cols (map f cols)) d w)"
proof -
  let ?step = "\<lambda>(c, walk) (names, w). rbind (walk d w) (\<lambda>w. rbind (add_output api c names) (\<lambda>names. Inr (names, w)))"
  have "w' = fold visit (concat (map nodes cols)) w \<and> list_all (known_node api) (concat (map nodes cols)) \<and>
      (distinct names \<longrightarrow> distinct names') \<and> set names' = set names \<union> set (filter (\<lambda>n. n \<noteq> []) (map (outputName api) cols)) \<and>
      (distinct names \<longrightarrow> distinct (filter (\<lambda>n. n \<noteq> []) (map (outputName api) cols)) \<and>
        set names \<inter> set (filter (\<lambda>n. n \<noteq> []) (map (outputName api) cols)) = {})"
    if "each ?step (zip cols (map f cols)) (names, w) = Inr (names', w')" for names w names' w'
    using that assms
  proof (induction cols arbitrary: names w)
    case (Cons c cols)
    obtain w1 names1 where w1: "f c d w = Inr w1" and o: "add_output api c names = Inr names1"
      and rest: "each ?step (zip cols (map f cols)) (names1, w1) = Inr (names', w')"
      using Cons.prems(1) by auto
    have v: "w1 = fold visit (nodes c) w \<and> list_all (known_node api) (nodes c)" using Cons.prems(2) [of c w] w1 by (simp add: visited_def)
    note IH = Cons.IH [OF rest Cons.prems(2)]
    show ?case using IH v o by (auto simp: add_output_def Let_def split: if_splits)
  qed simp
  note steps = this
  show ?thesis
    unfolding visited_def
  proof (intro allI impI)
    fix w' assume "walk_columns api (zip cols (map f cols)) d w = Inr w'"
    then obtain names' where "each ?step (zip cols (map f cols)) ([], w) = Inr (names', w')" by (auto simp: walk_columns_def)
    from steps [OF this] show "w' = fold visit (NQuery cols # concat (map nodes cols)) w \<and> list_all (known_node api) (NQuery cols # concat (map nodes cols))"
      by simp
  qed
qed

lemma visited_group:
  assumes "\<And>c w. c \<in> set cs \<Longrightarrow> visited api (nodes c) w (f c d w)"
  shows "visited api (concat (map nodes cs)) w (each (\<lambda>(c, walk) w. if c = NilCond then Inl ConditionRequired else walk d w) (zip cs (map f cs)) w) \<and>
    (NilCond \<in> set cs \<longrightarrow> (\<exists>e. each (\<lambda>(c, walk) w. if c = NilCond then Inl ConditionRequired else walk d w) (zip cs (map f cs)) w = Inl e))"
  using assms
proof (induction cs arbitrary: w)
  case (Cons c cs)
  show ?case
  proof (cases "c = NilCond \<or> (\<exists>e. f c d w = Inl e)")
    case True
    then show ?thesis by (auto simp: visited_def)
  next
    case False
    then obtain w1 where w1: "f c d w = Inr w1" "c \<noteq> NilCond" by (cases "f c d w") auto
    have v: "w1 = fold visit (nodes c) w \<and> list_all (known_node api) (nodes c)" using Cons.prems [of c w] w1 by (simp add: visited_def)
    let ?r = "each (\<lambda>(c, walk) w. if c = NilCond then Inl ConditionRequired else walk d w) (zip cs (map f cs)) w1"
    have "visited api (concat (map nodes cs)) w1 ?r \<and> (NilCond \<in> set cs \<longrightarrow> (\<exists>e. ?r = Inl e))" by (rule Cons.IH) (simp add: Cons.prems)
    with v w1 show ?thesis by (simp add: visited_def)
  qed
qed (simp add: visited_def)

lemma visited_Cons:
  assumes "known_node api n" and "visited api ns (visit n w) r"
  shows "visited api (n # ns) w r"
  using assms by (simp add: visited_def)

lemma visited_Inl [simp]: "visited api ns w (Inl e)"
  by (simp add: visited_def)

lemma visited_Nil [simp]: "visited api [] w (Inr w)"
  by (simp add: visited_def)

lemma visited_collection:
  assumes "\<And>w. visited api ns w (f w)"
  shows "visited api (NSource (CollectionRef ref orders) # ns) w (rbind (add_collection ref orders w) f)"
proof (cases "cr_hasParent ref")
  case False
  then show ?thesis using assms by (cases "relation_id ref") (auto simp: add_collection_def intro!: visited_Cons)
qed (simp add: add_collection_def)

lemma visited_head:
  assumes "known_node api n" and "\<And>w. visit n w = w" and "visited api ns w r"
  shows "visited api (n # ns) w r"
  using assms by (simp add: visited_def)

lemma walk_visits:
  "\<And>d w. visited api (nodes_query q) w (walk_query api q d w)"
  "\<And>d w. visited api (nodes_from fr) w (walk_from api fr d w)"
  "\<And>d w. visited api (nodes_join j) w (walk_join api j d w)"
  "\<And>d w. visited api (nodes_source s) w (walk_source api s d w)"
  "\<And>d w. visited api (nodes_order ordr) w (walk_order api ordr d w)"
  "\<And>d w. visited api (nodes_column col) w (walk_column api col d w)"
  "\<And>d w. visited api (nodes_cond c) w (walk_cond api c d w)"
  "\<And>d w. visited api (nodes_expr e) w (walk_expr api e d w)"
proof (induction q and fr and j and s and ordr and col and c and e rule: dal_induct)
  case (Query settings fr wh groupBy having orderBy columns)
  have "visited api ((nodes_from fr @ nodes_cond wh @ concat (map nodes_expr groupBy) @ nodes_cond having @ concat (map nodes_order orderBy)) @
       NQuery columns # concat (map nodes_column columns)) w (walk_query api (Query settings fr wh groupBy having orderBy columns) d w)" for d w
    using Query by (simp add: visited_rbind visited_all visited_columns)
  then show ?case by (simp add: visited_def)
next
  case (From base joins)
  have "visited api (nodes_source base) w (relation base (walk_source api base) d w)" for d w
    using From(1) by (simp add: relation_def)
  then show ?case using From(2) by (simp add: visited_rbind visited_all)
next
  case (Join type child src on)
  have "visited api (nodes_source src) w (relation src (walk_source api src) d w)" for d w
    using Join(2) by (simp add: relation_def)
  then show ?case using Join by (simp add: visited_rbind visited_all)
next
  case (CollectionRef ref orders)
  then show ?case by (simp add: visited_collection visited_all)
next
  case (QuerySource al q)
  then show ?case by (simp add: visited_Cons)
next
  case (Order e)
  then show ?case by (simp add: visited_head)
next
  case (Column al wild e)
  then show ?case by (auto simp: Let_def intro: visited_Cons)
next
  case (Comparison opr l r)
  then show ?case by (simp add: visited_head visited_level visited_rbind)
next
  case (GroupCond opr cs)
  let ?body = "\<lambda>d w. each (\<lambda>(c, walk) w. if c = NilCond then Inl ConditionRequired else walk d w) (zip cs (map (walk_cond api) cs)) w"
  have "visited api (NCond (GroupCond opr cs) # concat (map nodes_cond cs)) w (?body d w)" for d w
    using visited_group [of cs api nodes_cond "walk_cond api" d w] GroupCond.IH by (cases "NilCond \<in> set cs") (auto intro: visited_head)
  then show ?case by (simp add: visited_level)
next
  case (IsNullCond neg e)
  then show ?case by (simp add: visited_level visited_Cons)
next
  case (ExistsCond neg q)
  then show ?case by (simp add: visited_level visited_Cons)
next
  case (FieldRef name src)
  show ?case by (simp add: visited_level visited_Cons)
next
  case (Binary opr l r)
  then show ?case by (simp add: visited_head visited_level visited_rbind)
next
  case (Aggregate name args)
  then show ?case by (simp add: visited_head visited_level visited_all)
next
  case (QueryExpr as q)
  then show ?case by (simp add: visited_level visited_Cons Let_def)
qed (simp_all add: visited_level visited_head)

section \<open>What the walk reports\<close>

text \<open>What a node contributes: the read of a collection, a subquery, a null test, field names and identifiers.\<close>

fun node_sources :: "node \<Rightarrow> walked_source list" where
  "node_sources (NSource (CollectionRef ref orders)) =
     (case relation_id ref of Inl e \<Rightarrow> []
      | Inr i \<Rightarrow> [\<lparr>ws_database = cr_database ref, ws_collection = i, ws_scan = (cr_scanLimit ref \<noteq> 0 \<or> orders \<noteq> [])\<rparr>])"
| "node_sources _ = []"

fun subquery_node :: "node \<Rightarrow> bool" where
  "subquery_node (NSource (QuerySource alias q)) = True"
| "subquery_node (NCond (ExistsCond neg q)) = True"
| "subquery_node (NExpr (QueryExpr as q)) = True"
| "subquery_node _ = False"

fun null_node :: "node \<Rightarrow> bool" where
  "null_node (NCond (IsNullCond neg e)) = True"
| "null_node _ = False"

fun node_fields :: "node \<Rightarrow> string list" where
  "node_fields (NColumn (Column alias (Some (src, exclude)) e)) = exclude"
| "node_fields (NExpr (FieldRef name src)) = [name]"
| "node_fields _ = []"

fun node_identifiers :: "node \<Rightarrow> string list" where
  "node_identifiers (NSource (CollectionRef ref orders)) = (if cr_alias ref \<noteq> [] then [cr_alias ref] else [])"
| "node_identifiers (NSource (QuerySource alias q)) = [alias]"
| "node_identifiers (NColumn (Column alias wild e)) = (if alias \<noteq> [] then [alias] else [])"
| "node_identifiers (NExpr (QueryExpr as q)) = (if as \<noteq> [] then [as] else [])"
| "node_identifiers _ = []"

lemma visit_notes:
  assumes "known_node api n"
  shows "dc_sources (wk_doc (visit n w)) = dc_sources (wk_doc w) @ node_sources n"
    and "dc_hasSubquery (wk_doc (visit n w)) \<longleftrightarrow> dc_hasSubquery (wk_doc w) \<or> subquery_node n"
    and "dc_hasNull (wk_doc (visit n w)) \<longleftrightarrow> dc_hasNull (wk_doc w) \<or> null_node n"
    and "wk_fields (visit n w) = wk_fields w @ node_fields n"
    and "wk_identifiers (visit n w) = wk_identifiers w @ node_identifiers n"
  using assms
  by (induction n w rule: visit.induct)
    (auto simp: note_collection_def note_defs Let_def split: sum.splits option.splits)

lemma visits_note:
  assumes "list_all (known_node api) ns"
  shows "dc_sources (wk_doc (fold visit ns w)) = dc_sources (wk_doc w) @ concat (map node_sources ns) \<and>
    (dc_hasSubquery (wk_doc (fold visit ns w)) \<longleftrightarrow> dc_hasSubquery (wk_doc w) \<or> list_ex subquery_node ns) \<and>
    (dc_hasNull (wk_doc (fold visit ns w)) \<longleftrightarrow> dc_hasNull (wk_doc w) \<or> list_ex null_node ns) \<and>
    wk_fields (fold visit ns w) = wk_fields w @ concat (map node_fields ns) \<and>
    wk_identifiers (fold visit ns w) = wk_identifiers w @ concat (map node_identifiers ns)"
  using assms
proof (induction ns arbitrary: w)
  case (Cons n ns)
  have n: "known_node api n" using Cons.prems by simp
  show ?case using Cons.IH [of "visit n w"] Cons.prems visit_notes [OF n, of w] by auto
qed simp

lemma inspect_Inr:
  assumes "inspect api uni native q = Inr doc"
  shows "list_all (known_node api) (nodes_query q) \<and> doc = wk_doc (fold visit (nodes_query q) new_walker) \<and>
    list_all (plain_field uni native) (wk_fields (fold visit (nodes_query q) new_walker)) \<and>
    list_all isIdentifier (wk_identifiers (fold visit (nodes_query q) new_walker))"
proof -
  obtain w where w: "walk_query api q 0 new_walker = Inr w" and n: "checkNames uni native w = None" and doc: "doc = wk_doc w"
    using assms by (auto simp: inspect_def split: option.splits)
  have "w = fold visit (nodes_query q) new_walker \<and> list_all (known_node api) (nodes_query q)"
    using walk_visits(1) [of api q new_walker 0] w by (simp add: visited_def)
  then show ?thesis using n doc by (auto simp: checkNames_def check_simps list_all_iff)
qed

subsection \<open>Profiles\<close>

lemma bump_counts_get: "case_option 0 id (mget (fold (bump_count n) ks m) k) = case_option 0 id (mget m k) + n * int (count_list ks k)"
proof (induction ks arbitrary: m)
  case (Cons a ks)
  show ?case unfolding fold_Cons comp_def Cons.IH by (simp add: bump_count_def algebra_simps)
qed simp

lemma bump_counts_wf: "wf_map m \<Longrightarrow> wf_map (fold (bump_count n) ks m)"
  by (induction ks arbitrary: m) (auto simp: bump_count_def)

lemma checkProfile_None:
  "checkProfile doc profile = None \<longleftrightarrow>
     pf_hasSubquery profile = dc_hasSubquery doc \<and>
     (\<forall>k. count_list (pf_sources profile) k = count_list (map (\<lambda>s. (ws_database s, ws_collection s)) (dc_sources doc)) k)"
proof -
  let ?ks = "map (\<lambda>s. (ws_database s, ws_collection s)) (dc_sources doc)"
  let ?m = "fold (bump_count (-1)) (pf_sources profile) (fold (bump_count 1) ?ks [])"
  have wf: "wf_map ?m" by (intro bump_counts_wf) (simp add: wf_map_def)
  have "\<not> list_ex (\<lambda>(k, n). n \<noteq> 0) ?m \<longleftrightarrow> (\<forall>k. case_option 0 id (mget ?m k) = 0)"
    using mget_in_set [OF wf] by (force simp: list_ex_iff split: option.splits)
  also have "\<dots> \<longleftrightarrow> (\<forall>k. count_list (pf_sources profile) k = count_list ?ks k)"
    by (simp add: bump_counts_get) (metis eq_diff_eq' )
  finally show ?thesis by (auto simp: checkProfile_def Let_def)
qed

section \<open>Properties\<close>

text \<open>
  C26. Nothing a document reads is out of sight. When the walk accepts a document, its sources are exactly the collection
  references written anywhere in it, in order, each with its database, its collection id and its scan clause; its flags say
  whether a subquery or a null test stands anywhere; it knows every node, and every field name, alias and result name is
  plain; and a profile it accepts lists those sources as often as the document reads them.
\<close>

theorem walk_sees_every_read:
  assumes "inspect api uni native q = Inr doc" and "checkProfile doc profile = None"
  shows "dc_sources doc = concat (map node_sources (nodes_query q)) \<and>
    (dc_hasSubquery doc \<longleftrightarrow> list_ex subquery_node (nodes_query q)) \<and> (dc_hasNull doc \<longleftrightarrow> list_ex null_node (nodes_query q)) \<and>
    list_all (known_node api) (nodes_query q) \<and>
    list_all (plain_field uni native) (concat (map node_fields (nodes_query q))) \<and>
    list_all isIdentifier (concat (map node_identifiers (nodes_query q))) \<and>
    (\<forall>db c. count_list (pf_sources profile) (db, c) =
       count_list (map (\<lambda>s. (ws_database s, ws_collection s)) (concat (map node_sources (nodes_query q)))) (db, c))"
proof -
  note i = inspect_Inr [OF assms(1)]
  then have n: "list_all (known_node api) (nodes_query q)" by simp
  show ?thesis using i visits_note [OF n, of new_walker] assms(2) by (simp add: new_walker_def checkProfile_None)
qed

text \<open>Orders joined to their customers, where a field is null.\<close>

definition sample_dal :: dal_api where
  "sample_dal = \<lparr>da_aggregate_text = (\<lambda>name args. name), da_valid_param = (\<lambda>name. True)\<rparr>"

definition sample_classes :: unicode_classes where
  "sample_classes = \<lparr>uni_letter = (\<lambda>r. False), uni_mark = (\<lambda>r. False), uni_digit = (\<lambda>r. False)\<rparr>"

definition sample_settings :: query_settings where
  "sample_settings = \<lparr>qs_limit = 10, qs_offset = 0, qs_startFrom = [], qs_startAfter = [], qs_money = None\<rparr>"

definition sample_ref :: "string \<Rightarrow> string \<Rightarrow> collection_ref" where
  "sample_ref name al = \<lparr>cr_database = [], cr_schema = [], cr_name = name, cr_alias = al, cr_hasParent = False, cr_scanLimit = 0\<rparr>"

definition sample_query :: dal_query where
  "sample_query = Query sample_settings
     (From (CollectionRef (sample_ref ''orders'' ''o'') [])
       [Join JoinInner NilFrom (CollectionRef (sample_ref ''people'' ''p'') []) [Comparison ''=='' (FieldRef ''person'' ''o'') (FieldRef ''id'' ''p'')]])
     (IsNullCond False (FieldRef ''paid'' ''o'')) [] NilCond [] [Column [] None (FieldRef ''name'' ''p'')]"

definition sample_document :: walked_document where
  "sample_document = \<lparr>dc_sources = [\<lparr>ws_database = [], ws_collection = ''orders'', ws_scan = False\<rparr>, \<lparr>ws_database = [], ws_collection = ''people'', ws_scan = False\<rparr>],
     dc_hasSubquery = False, dc_hasNull = True\<rparr>"

definition sample_profile :: profile_claim where
  "sample_profile = \<lparr>pf_sources = [([], ''people''), ([], ''orders'')], pf_hasSubquery = False\<rparr>"

lemma plain_field_ascii:
  assumes "is_ascii name" and "length name \<le> 256" and "list_all (field_segment uni) (split_runes 0x2E (map byte name))" and "\<not> double_dash name"
  shows "plain_field uni native name"
  using assms by (simp add: plain_field_def maxNameLen_def fieldNameRe_def runes_ascii comp_def)

lemma sample_walk_fields: "list_all (plain_field sample_classes native) [''person'', ''id'', ''paid'', ''name'']"
  by (simp add: plain_field_ascii is_ascii_def field_segment_def field_tail_def rune_letter_def sample_classes_def)

lemma sample_names: "isCollectionName ''orders'' \<and> isCollectionName ''people''"
  by (simp add: isCollectionName_def runes_ascii is_ascii_def path_sep_def Let_def)

lemma sample_inspected: "inspect sample_dal sample_classes False sample_query = Inr sample_document"
  using sample_walk_fields [of False] sample_names
  by (simp add: inspect_def sample_query_def sample_ref_def walk_all_def relation_def add_collection_def relation_id_def note_collection_def level_def enter_level_def
      leave_def maxWalkDepth_def maxWalkNesting_def maxNameLen_def note_defs new_walker_def walk_columns_def add_output_def Let_def checkNames_def first_of_def
      refuse_def isIdentifier_def plain_identifier_def ascii_letter_def sample_document_def)

lemma sample_claim: "checkProfile sample_document sample_profile = None"
  by (simp add: checkProfile_def sample_document_def sample_profile_def bump_count_def Let_def)

theorem walk_sees_every_read_witness:
  "inspect sample_dal sample_classes False sample_query = Inr sample_document \<and> checkProfile sample_document sample_profile = None \<and>
   dc_sources sample_document = concat (map node_sources (nodes_query sample_query)) \<and> list_ex null_node (nodes_query sample_query)"
  using walk_sees_every_read [OF sample_inspected sample_claim] sample_inspected sample_claim by (simp add: sample_document_def)

end
