(* ===== verification/Tugql_Profile.thy ===== *)
theory Tugql_Profile
  imports Join_Walk
begin

text \<open>
  \<^verbatim>\<open>src/pkg/core/tugql_profile.go\<close>: the walk that classifies a document, its bounds and the rules it refuses by
  (\<^verbatim>\<open>aggregate_functions.go\<close> for the aggregates); and that the walk of \<^verbatim>\<open>src/pkg/joinexec\<close> accepts what it accepted. The path of a
  refusal is left out.
\<close>

section \<open>Bounds and names\<close>

definition relationalMaxLimit :: int where "relationalMaxLimit = 1000"
definition relationalMaxOffset :: int where "relationalMaxOffset = 10000"
definition relationalMaxSources :: nat where "relationalMaxSources = 8"
definition relationalMaxSubqueryDepth :: nat where "relationalMaxSubqueryDepth = 4"
definition relationalMaxNesting :: nat where "relationalMaxNesting = 64"

definition profileAggregateFunctions :: "string list" where
  "profileAggregateFunctions = [''count'', ''sum'', ''avg'', ''min'', ''max'']"

definition lower_char :: "char \<Rightarrow> char" where
  "lower_char c = (if 0x41 \<le> byte c \<and> byte c \<le> 0x5A then char_of (byte c + 0x20) else c)"

definition foldAggregateName :: "string \<Rightarrow> string option" where
  "foldAggregateName name = (if list_ex (\<lambda>c. byte c \<ge> 0x80) name then None else Some (map lower_char name))"

definition IsAggregateFunction :: "string \<Rightarrow> bool" where
  "IsAggregateFunction name = (case foldAggregateName name of None \<Rightarrow> False | Some folded \<Rightarrow> folded \<in> set profileAggregateFunctions)"

section \<open>The profile walk\<close>

record profile_source =
  ps_database :: string
  ps_collection :: string
  ps_schema :: string
  ps_name :: string
  ps_alias :: string

record profile_walk =
  pw_sources :: "profile_source list"
  pw_nest :: nat

datatype profile_error =
    QueryShape | SubqueryDepth | Cursor | MoneyRule | LimitRule | OffsetRule | ExpressionShape | JoinTypeRule join_type | CollectionGroupRule | SourceShape
  | ParentSource | ScanRule | CollectionNameRule | CollectionKey key_error | DatabaseID manifest_error | SourceCount | Nesting | ConditionShape | MoneyNumber
  | AggregateRule

type_synonym profile_step = "profile_walk \<Rightarrow> profile_error + profile_walk"

definition profile_enter :: profile_step where
  "profile_enter w = (let w' = w\<lparr>pw_nest := pw_nest w + 1\<rparr> in if pw_nest w' > relationalMaxNesting then Inl Nesting else Inr w')"

definition profile_level :: "profile_step \<Rightarrow> profile_step" where
  "profile_level body w = rbind (profile_enter w) (\<lambda>w. rbind (body w) (\<lambda>w. Inr (w\<lparr>pw_nest := pw_nest w - 1\<rparr>)))"

text \<open>The checks of a query before its clauses; \<open>depth\<close> is the number of subquery levels above it.\<close>

definition check_settings :: "query_settings \<Rightarrow> nat \<Rightarrow> profile_error option" where
  "check_settings s depth =
     first_of
       [refuse (depth > relationalMaxSubqueryDepth) SubqueryDepth,
        refuse (qs_startFrom s \<noteq> [] \<or> qs_startAfter s \<noteq> []) Cursor,
        (case qs_money s of None \<Rightarrow> None
         | Some m \<Rightarrow> refuse (depth \<noteq> 0 \<or> mo_minorUnitScale m < 0 \<or> mo_minorUnitScale m > 18 \<or> mo_divisionScale m < 0 \<or> mo_divisionScale m > 18 \<or>
             mo_rounding m \<noteq> ''halfEven'') MoneyRule),
        refuse (qs_limit s < 0 \<or> depth = 0 \<and> qs_limit s > relationalMaxLimit) LimitRule,
        refuse (qs_offset s < 0 \<or> depth = 0 \<and> qs_offset s > relationalMaxOffset) OffsetRule]"

definition profile_relation :: "collection_ref \<Rightarrow> profile_error + string \<times> string \<times> string" where
  "profile_relation ref =
     (if cr_schema ref \<noteq> [] then
        (case NativePostgresCollectionID (cr_schema ref) (cr_name ref) of
           None \<Rightarrow> Inl CollectionNameRule | Some i \<Rightarrow> Inr (i, cr_schema ref, cr_name ref))
      else case ValidateCollectionName (cr_name ref) of Some e \<Rightarrow> Inl (CollectionKey e) | None \<Rightarrow> Inr (cr_name ref, [], []))"

definition profile_collection :: "collection_ref \<Rightarrow> ordering list \<Rightarrow> profile_step" where
  "profile_collection ref orders w =
     (if cr_hasParent ref then Inl ParentSource
      else if cr_scanLimit ref \<noteq> 0 \<or> orders \<noteq> [] then Inl ScanRule
      else rbind (profile_relation ref) (\<lambda>(collection, schemaName, physicalName).
        case (if cr_database ref \<noteq> [] then ValidateID (cr_database ref) else None) of Some e \<Rightarrow> Inl (DatabaseID e)
        | None \<Rightarrow>
           if length (pw_sources w) \<ge> relationalMaxSources then Inl SourceCount
           else Inr (w\<lparr>pw_sources := pw_sources w @ [\<lparr>ps_database = cr_database ref, ps_collection = collection, ps_schema = schemaName,
             ps_name = physicalName, ps_alias = cr_alias ref\<rparr>]\<rparr>)))"

definition profile_relation_of :: "dal_source \<Rightarrow> (nat \<Rightarrow> profile_step) \<Rightarrow> nat \<Rightarrow> profile_step" where
  "profile_relation_of base walk depth w = (if base = NilSource then Inl QueryShape else walk depth w)"

definition profile_all :: "(nat \<Rightarrow> profile_step) list \<Rightarrow> nat \<Rightarrow> profile_step" where
  "profile_all walks depth = each (\<lambda>walk. walk depth) walks"

primrec profile_query :: "bool \<Rightarrow> dal_query \<Rightarrow> nat \<Rightarrow> profile_step"
  and profile_from :: "bool \<Rightarrow> from_source \<Rightarrow> nat \<Rightarrow> profile_step"
  and profile_join :: "bool \<Rightarrow> dal_join \<Rightarrow> nat \<Rightarrow> profile_step"
  and profile_src :: "bool \<Rightarrow> dal_source \<Rightarrow> nat \<Rightarrow> profile_step"
  and profile_order :: "bool \<Rightarrow> ordering \<Rightarrow> nat \<Rightarrow> profile_step"
  and profile_column :: "bool \<Rightarrow> dal_column \<Rightarrow> nat \<Rightarrow> profile_step"
  and profile_cond :: "bool \<Rightarrow> dal_cond \<Rightarrow> nat \<Rightarrow> profile_step"
  and profile_expr :: "bool \<Rightarrow> dal_expr \<Rightarrow> nat \<Rightarrow> profile_step"
where
  "profile_query money NilQuery = (\<lambda>depth w. Inl QueryShape)"
| "profile_query money (Query settings fr wh groupBy having orderBy columns) = (\<lambda>depth w.
     case check_settings settings depth of Some e \<Rightarrow> Inl e
     | None \<Rightarrow>
        rbind (profile_from money fr depth w) (\<lambda>w. rbind (profile_cond money wh depth w) (\<lambda>w.
          rbind (profile_all (map (profile_expr money) groupBy) depth w) (\<lambda>w. rbind (profile_cond money having depth w) (\<lambda>w.
          rbind (profile_all (map (profile_order money) orderBy) depth w) (profile_all (map (profile_column money) columns) depth))))))"
| "profile_from money NilFrom = (\<lambda>depth w. Inl QueryShape)"
| "profile_from money (From base joins) = (\<lambda>depth w.
     rbind (profile_relation_of base (profile_src money base) depth w) (profile_all (map (profile_join money) joins) depth))"
| "profile_join money (Join type child src on) = (\<lambda>depth w.
     if type \<noteq> JoinInner \<and> type \<noteq> JoinLeft then Inl (JoinTypeRule type)
     else rbind (if child = NilFrom then profile_relation_of src (profile_src money src) depth w else profile_from money child depth w)
       (profile_all (map (profile_cond money) on) depth))"
| "profile_src money NilSource = (\<lambda>depth w. Inl SourceShape)"
| "profile_src money (CollectionRef ref orders) = (\<lambda>depth w. profile_collection ref orders w)"
| "profile_src money CollectionGroupRef = (\<lambda>depth w. Inl CollectionGroupRule)"
| "profile_src money (QuerySource alias q) = (\<lambda>depth w. profile_query money q (depth + 1) w)"
| "profile_src money OtherSource = (\<lambda>depth w. Inl SourceShape)"
| "profile_order money NilOrder = (\<lambda>depth w. Inl ExpressionShape)"
| "profile_order money (Order e) = (\<lambda>depth w. profile_expr money e depth w)"
| "profile_column money (Column alias wild e) = (\<lambda>depth w. if wild \<noteq> None \<and> e = NilExpr then Inr w else profile_expr money e depth w)"
| "profile_cond money NilCond = (\<lambda>depth w. Inr w)"
| "profile_cond money (Comparison opr l r) = (\<lambda>depth. profile_level (\<lambda>w. rbind (profile_expr money l depth w) (profile_expr money r depth)))"
| "profile_cond money (GroupCond opr cs) = (\<lambda>depth. profile_level (\<lambda>w.
     each (\<lambda>(c, walk) w. if c = NilCond then Inl ConditionShape else walk depth w) (zip cs (map (profile_cond money) cs)) w))"
| "profile_cond money (IsNullCond neg e) = (\<lambda>depth. profile_level (\<lambda>w. profile_expr money e depth w))"
| "profile_cond money (ExistsCond neg q) = (\<lambda>depth. profile_level (\<lambda>w. profile_query money q (depth + 1) w))"
| "profile_cond money OtherCond = (\<lambda>depth. profile_level (\<lambda>w. Inl ConditionShape))"
| "profile_expr money NilExpr = (\<lambda>depth. profile_level (\<lambda>w. Inl ExpressionShape))"
| "profile_expr money (FieldRef name src) = (\<lambda>depth. profile_level (\<lambda>w. Inr w))"
| "profile_expr money (Constant c) = (\<lambda>depth. profile_level (\<lambda>w. if money \<and> c = FloatConstant then Inl MoneyNumber else Inr w))"
| "profile_expr money ArrayExpr = (\<lambda>depth. profile_level (\<lambda>w. Inr w))"
| "profile_expr money (Param name) = (\<lambda>depth. profile_level (\<lambda>w. Inr w))"
| "profile_expr money StarExpr = (\<lambda>depth. profile_level (\<lambda>w. Inr w))"
| "profile_expr money (Binary opr l r) = (\<lambda>depth. profile_level (\<lambda>w. rbind (profile_expr money l depth w) (profile_expr money r depth)))"
| "profile_expr money (Aggregate name args) = (\<lambda>depth. profile_level (\<lambda>w.
     if \<not> IsAggregateFunction name then Inl AggregateRule else profile_all (map (profile_expr money) args) depth w))"
| "profile_expr money (QueryExpr as q) = (\<lambda>depth. profile_level (\<lambda>w. profile_query money q (depth + 1) w))"
| "profile_expr money OtherExpr = (\<lambda>depth. profile_level (\<lambda>w. Inl ExpressionShape))"

fun hasMoneyConfig :: "dal_query \<Rightarrow> bool" where
  "hasMoneyConfig NilQuery = False"
| "hasMoneyConfig (Query settings fr wh groupBy having orderBy columns) = (qs_money settings \<noteq> None)"

section \<open>The two walks agree\<close>

text \<open>Names: one rule in two spellings.\<close>

lemma fold_chars: "upper_char c = upper_char k \<longleftrightarrow> lower_char c = lower_char k"
proof -
  have u: "byte (upper_char x) = (if 0x61 \<le> byte x \<and> byte x \<le> 0x7A then byte x - 0x20 else byte x)" for x
    by (auto simp: upper_char_def)
  have l: "byte (lower_char x) = (if 0x41 \<le> byte x \<and> byte x \<le> 0x5A then byte x + 0x20 else byte x)" for x
    by (auto simp: lower_char_def)
  have "(if 0x61 \<le> a \<and> a \<le> 0x7A then a - 0x20 else a) = (if 0x61 \<le> b \<and> b \<le> 0x7A then b - 0x20 else b) \<longleftrightarrow>
      (if 0x41 \<le> a \<and> a \<le> 0x5A then a + 0x20 else a) = (if 0x41 \<le> b \<and> b \<le> 0x5A then b + 0x20 else b)" for a b :: nat
    by (auto split: if_splits)
  then have "byte (upper_char c) = byte (upper_char k) \<longleftrightarrow> byte (lower_char c) = byte (lower_char k)" unfolding u l .
  then show ?thesis by simp
qed

lemma fold_names: "map upper_char name = map upper_char word \<longleftrightarrow> map lower_char name = map lower_char word"
proof (induction name arbitrary: word)
  case (Cons c name)
  show ?case by (cases word) (simp_all add: Cons.IH fold_chars)
qed simp

lemma aggregates_agree: "IsAggregateFunction name \<longleftrightarrow> walk_aggregate name"
proof (cases "isASCII name")
  case True
  have words: "map (map upper_char) profileAggregateFunctions = aggregateFunctions" "map (map lower_char) profileAggregateFunctions = profileAggregateFunctions"
    by code_simp+
  have "map upper_char name \<in> set aggregateFunctions \<longleftrightarrow> (\<exists>word \<in> set profileAggregateFunctions. map upper_char name = map upper_char word)"
    unfolding words(1) [symmetric] by auto
  also have "\<dots> \<longleftrightarrow> (\<exists>word \<in> set profileAggregateFunctions. map lower_char name = map lower_char word)"
    by (simp add: fold_names)
  also have "\<dots> \<longleftrightarrow> map lower_char name \<in> set (map (map lower_char) profileAggregateFunctions)" by auto
  finally show ?thesis using True words(2)
    by (auto simp: IsAggregateFunction_def foldAggregateName_def walk_aggregate_def isASCII_def list_ex_iff list_all_iff)
next
  case False
  then show ?thesis by (auto simp: IsAggregateFunction_def foldAggregateName_def walk_aggregate_def isASCII_def list_ex_iff list_all_iff)
qed

lemma collection_names_agree: "isCollectionName name \<longleftrightarrow> ValidateCollectionName name = None"
  by (auto simp: isCollectionName_def ValidateCollectionName_def ValidateSegment_def Let_def check_simps list_all_iff split: if_splits)

lemma relations_agree: "profile_relation ref = Inr (i, sn, pn) \<Longrightarrow> relation_id ref = Inr i"
  by (auto simp: profile_relation_def relation_id_def collection_names_agree split: if_splits option.splits)

text \<open>What the executing walk asks beyond the profile walk: parameters are bound, operators are arithmetic, output names differ.\<close>

fun runnable :: "dal_api \<Rightarrow> node \<Rightarrow> bool" where
  "runnable api (NQuery columns) \<longleftrightarrow> distinct (filter (\<lambda>n. n \<noteq> []) (map (outputName api) columns))"
| "runnable api (NExpr (Param name)) \<longleftrightarrow> False"
| "runnable api (NExpr (Binary opr l r)) \<longleftrightarrow> opr \<in> set arithmeticOperators"
| "runnable api _ \<longleftrightarrow> True"

definition as_walked :: "profile_source \<Rightarrow> walked_source" where
  "as_walked s = \<lparr>ws_database = ps_database s, ws_collection = ps_collection s, ws_scan = False\<rparr>"

definition in_step :: "profile_walk \<Rightarrow> walker \<Rightarrow> bool" where
  "in_step pw w \<longleftrightarrow> wk_nest w = pw_nest pw \<and> dc_sources (wk_doc w) = map as_walked (pw_sources pw) \<and> length (pw_sources pw) \<le> relationalMaxSources"

text \<open>
  The executing walk follows the profile walk. Its depth counts joins too, and each join on the way down has a source before it:
  \<open>D + k\<close> is at most the subquery depth and the sources so far; \<open>g\<close> is how many sources the part has at least.
\<close>

definition follows :: "nat \<Rightarrow> nat \<Rightarrow> bool \<Rightarrow> (nat \<Rightarrow> profile_step) \<Rightarrow> (nat \<Rightarrow> walker \<Rightarrow> walk_error + walker) \<Rightarrow> bool" where
  "follows k g ok p f \<longleftrightarrow>
     (\<forall>depth D pw pw' w. ok \<longrightarrow> p depth pw = Inr pw' \<longrightarrow> in_step pw w \<longrightarrow> D + k \<le> depth + length (pw_sources pw) \<longrightarrow> depth \<le> relationalMaxSubqueryDepth \<longrightarrow>
        (\<exists>w'. f D w = Inr w' \<and> in_step pw' w' \<and> pw_nest pw' = pw_nest pw \<and> length (pw_sources pw) + g \<le> length (pw_sources pw')))"

lemma followsD:
  assumes "follows k g True p f" and "p depth pw = Inr pw'" and "in_step pw w" and "D + k \<le> depth + length (pw_sources pw)" and "depth \<le> relationalMaxSubqueryDepth"
  obtains w' where "f D w = Inr w'" "in_step pw' w'" "pw_nest pw' = pw_nest pw" "length (pw_sources pw) + g \<le> length (pw_sources pw')"
  using assms unfolding follows_def by blast

lemma in_step_note [simp]:
  "in_step pw (mark_subquery w) = in_step pw w" "in_step pw (mark_null w) = in_step pw w" "in_step pw (add_identifier n w) = in_step pw w"
  "in_step pw (add_scope n w) = in_step pw w" "in_step pw (add_qualifier n w) = in_step pw w" "in_step pw (add_fields ns w) = in_step pw w"
  "in_step pw (column_names n wild w) = in_step pw w"
  by (simp_all add: in_step_def note_defs Let_def split: option.split)

lemma followsI:
  assumes "\<And>depth D pw pw' w. ok \<Longrightarrow> p depth pw = Inr pw' \<Longrightarrow> in_step pw w \<Longrightarrow> D + k \<le> depth + length (pw_sources pw) \<Longrightarrow> depth \<le> relationalMaxSubqueryDepth \<Longrightarrow>
     \<exists>w'. f D w = Inr w' \<and> in_step pw' w' \<and> pw_nest pw' = pw_nest pw \<and> length (pw_sources pw) + g \<le> length (pw_sources pw')"
  shows "follows k g ok p f"
  using assms unfolding follows_def by blast

lemma follows_note:
  assumes "\<And>w pw. in_step pw w \<Longrightarrow> in_step pw (obs w)"
  shows "follows k 0 ok (\<lambda>d. Inr) (\<lambda>D w. Inr (obs w))"
  by (rule followsI) (auto simp: assms)

lemma follows_Inl: "follows k g ok (\<lambda>d w. Inl e) f"
  by (simp add: follows_def)

lemma follows_after:
  assumes "follows k g ok p f" and "\<And>w pw. in_step pw w \<Longrightarrow> in_step pw (obs w)"
  shows "follows k g ok p (\<lambda>D w. f D (obs w))"
  using assms unfolding follows_def by blast

lemma follows_weaken: "follows k g ok p f \<Longrightarrow> (ok' \<Longrightarrow> ok) \<Longrightarrow> g' \<le> g \<Longrightarrow> follows k g' ok' p f"
  unfolding follows_def by (meson add_left_mono le_trans)

lemma follows_seq:
  assumes a: "follows k g ok p f" and b: "follows k' g' ok' p' f'" and k: "k' \<le> k + g"
  shows "follows k g (ok \<and> ok') (\<lambda>d w. rbind (p d w) (p' d)) (\<lambda>D w. rbind (f D w) (f' D))"
proof (rule followsI)
  fix depth D pw pw' w
  assume ok: "ok \<and> ok'" and p: "rbind (p depth pw) (p' depth) = Inr pw'" and i: "in_step pw w" and D: "D + k \<le> depth + length (pw_sources pw)"
    and d: "depth \<le> relationalMaxSubqueryDepth"
  obtain pw1 where p1: "p depth pw = Inr pw1" "p' depth pw1 = Inr pw'" using p by auto
  obtain w1 where w1: "f D w = Inr w1" "in_step pw1 w1" "pw_nest pw1 = pw_nest pw" "length (pw_sources pw) + g \<le> length (pw_sources pw1)"
    using a ok p1(1) i D d unfolding follows_def by blast
  have "D + k' \<le> depth + length (pw_sources pw1)" using D k w1(4) by linarith
  then obtain w2 where "f' D w1 = Inr w2" "in_step pw' w2" "pw_nest pw' = pw_nest pw1" "length (pw_sources pw1) + g' \<le> length (pw_sources pw')"
    using b ok p1(2) w1(2) d unfolding follows_def by blast
  with w1 show "\<exists>w'. rbind (f D w) (f' D) = Inr w' \<and> in_step pw' w' \<and> pw_nest pw' = pw_nest pw \<and> length (pw_sources pw) + g \<le> length (pw_sources pw')" by auto
qed

lemma follows_level:
  assumes "follows 0 0 ok p f"
  shows "follows 0 0 ok (\<lambda>d. profile_level (p d)) (\<lambda>D. level (f D))"
proof (rule followsI)
  fix depth D pw pw' w
  assume ok: ok and p: "profile_level (p depth) pw = Inr pw'" and i: "in_step pw w" and D: "D + 0 \<le> depth + length (pw_sources pw)"
    and d: "depth \<le> relationalMaxSubqueryDepth"
  let ?pw = "pw\<lparr>pw_nest := pw_nest pw + 1\<rparr>" and ?w = "w\<lparr>wk_nest := wk_nest w + 1\<rparr>"
  obtain pw1 where n: "pw_nest pw + 1 \<le> relationalMaxNesting" and p1: "p depth ?pw = Inr pw1" "pw' = pw1\<lparr>pw_nest := pw_nest pw1 - 1\<rparr>"
    using p by (auto simp: profile_level_def profile_enter_def Let_def split: if_splits)
  have i1: "in_step ?pw ?w" and D1: "D + 0 \<le> depth + length (pw_sources ?pw)" using i D by (simp_all add: in_step_def)
  obtain w1 where w1: "f D ?w = Inr w1" "in_step pw1 w1" "pw_nest pw1 = pw_nest ?pw" "length (pw_sources ?pw) + 0 \<le> length (pw_sources pw1)"
    using assms [unfolded follows_def, rule_format, OF ok p1(1) i1 D1 d] by blast
  have e: "enter_level w = Inr ?w" using n i by (simp add: enter_level_def in_step_def maxWalkNesting_def relationalMaxNesting_def)
  show "\<exists>w'. level (f D) w = Inr w' \<and> in_step pw' w' \<and> pw_nest pw' = pw_nest pw \<and> length (pw_sources pw) + 0 \<le> length (pw_sources pw')"
    using e w1 p1(2) by (simp add: level_def leave_def in_step_def)
qed

lemma follows_all:
  assumes "\<And>x. x \<in> set xs \<Longrightarrow> follows k 0 (list_all R (nodes x)) (p x) (f x)"
  shows "follows k 0 (list_all R (concat (map nodes xs))) (profile_all (map p xs)) (walk_all (map f xs))"
  using assms
proof (induction xs)
  case Nil
  show ?case by (simp add: follows_def profile_all_def walk_all_def)
next
  case (Cons x xs)
  have "follows k 0 (list_all R (nodes x) \<and> list_all R (concat (map nodes xs))) (\<lambda>d w. rbind (p x d w) (profile_all (map p xs) d))
      (\<lambda>D w. rbind (f x D w) (walk_all (map f xs) D))"
    using Cons by (intro follows_seq) auto
  then show ?case by (simp add: profile_all_def walk_all_def)
qed

lemma follows_group:
  assumes "\<And>c. c \<in> set cs \<Longrightarrow> follows 0 0 (list_all R (nodes c)) (p c) (f c)"
  shows "follows 0 0 (list_all R (concat (map nodes cs)))
    (\<lambda>d w. each (\<lambda>(c, walk) w. if c = NilCond then Inl e else walk d w) (zip cs (map p cs)) w)
    (\<lambda>D w. each (\<lambda>(c, walk) w. if c = NilCond then Inl ConditionRequired else walk D w) (zip cs (map f cs)) w)"
proof -
  have "follows 0 0 (list_all R (nodes c)) (\<lambda>d w. if c = NilCond then Inl e else p c d w) (\<lambda>D w. if c = NilCond then Inl ConditionRequired else f c D w)"
    if "c \<in> set cs" for c
    using assms [OF that] by (cases "c = NilCond") (simp_all add: follows_Inl)
  then have "follows 0 0 (list_all R (concat (map nodes cs))) (profile_all (map (\<lambda>c d w. if c = NilCond then Inl e else p c d w) cs))
      (walk_all (map (\<lambda>c D w. if c = NilCond then Inl ConditionRequired else f c D w) cs))"
    by (rule follows_all)
  moreover have "profile_all (map (\<lambda>c d w. if c = NilCond then Inl e else p c d w) cs) =
      (\<lambda>d w. each (\<lambda>(c, walk) w. if c = NilCond then Inl e else walk d w) (zip cs (map p cs)) w)"
    "walk_all (map (\<lambda>c D w. if c = NilCond then Inl ConditionRequired else f c D w) cs) =
      (\<lambda>D w. each (\<lambda>(c, walk) w. if c = NilCond then Inl ConditionRequired else walk D w) (zip cs (map f cs)) w)"
    by (rule ext, rule ext, induct cs; auto simp: profile_all_def walk_all_def intro: rbind_cong)+
  ultimately show ?thesis by simp
qed

lemma follows_columns:
  assumes c: "\<And>c. c \<in> set cols \<Longrightarrow> follows 0 0 (list_all (runnable api) (nodes c)) (p c) (f c)"
  shows "follows 0 0 (runnable api (NQuery cols) \<and> list_all (runnable api) (concat (map nodes cols))) (profile_all (map p cols))
    (walk_columns api (zip cols (map f cols)))"
proof (rule followsI)
  fix depth D pw pw' w
  assume ok: "runnable api (NQuery cols) \<and> list_all (runnable api) (concat (map nodes cols))" and p: "profile_all (map p cols) depth pw = Inr pw'"
    and i: "in_step pw w" and D: "D + 0 \<le> depth + length (pw_sources pw)" and d: "depth \<le> relationalMaxSubqueryDepth"
  let ?names = "\<lambda>cols. filter (\<lambda>n. n \<noteq> []) (map (outputName api) cols)"
  let ?step = "\<lambda>(c, walk) (names, w). rbind (walk D w) (\<lambda>w. rbind (add_output api c names) (\<lambda>names. Inr (names, w)))"
  have "\<exists>names' w'. each ?step (zip cols (map f cols)) (names, w) = Inr (names', w') \<and> in_step pw' w' \<and> pw_nest pw' = pw_nest pw \<and>
      length (pw_sources pw) \<le> length (pw_sources pw')" if "set names \<inter> set (?names cols) = {}" for names
    using c ok p i D that
  proof (induction cols arbitrary: pw w names)
    case Nil
    then show ?case by (simp add: profile_all_def)
  next
    case (Cons col cols)
    obtain pw1 where p1: "p col depth pw = Inr pw1" "profile_all (map p cols) depth pw1 = Inr pw'" using Cons.prems(3) by (auto simp: profile_all_def)
    have fc: "follows 0 0 True (p col) (f col)" using Cons.prems(1) [of col] Cons.prems(2) by simp
    obtain w1 where w1: "f col D w = Inr w1" "in_step pw1 w1" "pw_nest pw1 = pw_nest pw" "length (pw_sources pw) + 0 \<le> length (pw_sources pw1)"
      by (rule followsD [OF fc p1(1) Cons.prems(4,5) d])
    obtain names1 where names1: "add_output api col names = Inr names1" "set names1 \<inter> set (?names cols) = {}"
      using Cons.prems(2,6) by (cases "outputName api col = []") (auto simp: add_output_def Let_def)
    have "distinct (?names cols)" using Cons.prems(2) by (cases "outputName api col = []") auto
    then have "\<exists>names' w'. each ?step (zip cols (map f cols)) (names1, w1) = Inr (names', w') \<and> in_step pw' w' \<and> pw_nest pw' = pw_nest pw1 \<and>
      length (pw_sources pw1) \<le> length (pw_sources pw')"
      by (intro Cons.IH) (use Cons.prems p1(2) w1 names1(2) in auto)
    then show ?case using w1 names1(1) by auto
  qed
  from this [of "[]"] show "\<exists>w'. walk_columns api (zip cols (map f cols)) D w = Inr w' \<and> in_step pw' w' \<and> pw_nest pw' = pw_nest pw \<and>
      length (pw_sources pw) + 0 \<le> length (pw_sources pw')" by (auto simp: walk_columns_def)
qed

lemma profile_query_depth: "profile_query money q depth pw = Inr pw' \<Longrightarrow> depth \<le> relationalMaxSubqueryDepth"
  by (cases q) (auto simp: check_settings_def check_simps split: option.splits)

lemma follows_sub:
  assumes "follows 0 g ok (profile_query money q) f"
  shows "follows 0 g ok (\<lambda>d w. profile_query money q (d + 1) w) (\<lambda>D w. f (D + 1) w)"
proof (rule followsI)
  fix depth D pw pw' w
  assume ok: ok and p: "profile_query money q (depth + 1) pw = Inr pw'" and i: "in_step pw w" and D: "D + 0 \<le> depth + length (pw_sources pw)"
  have "D + 1 + 0 \<le> depth + 1 + length (pw_sources pw)" using D by simp
  from assms [unfolded follows_def, rule_format, OF ok p i this profile_query_depth [OF p]]
  show "\<exists>w'. f (D + 1) w = Inr w' \<and> in_step pw' w' \<and> pw_nest pw' = pw_nest pw \<and> length (pw_sources pw) + g \<le> length (pw_sources pw')" .
qed

lemma follows_shift: "follows 0 g ok p f \<Longrightarrow> follows 1 g ok p (\<lambda>D w. f (D + 1) w)"
  by (simp add: follows_def)

lemma in_step_depth:
  assumes "in_step pw w" and "D + k \<le> depth + length (pw_sources pw)" and "depth \<le> relationalMaxSubqueryDepth"
  shows "D \<le> maxWalkDepth"
  using assms by (simp add: in_step_def relationalMaxSubqueryDepth_def relationalMaxSources_def maxWalkDepth_def)

lemma follows_relation:
  assumes "follows 0 g ok p f"
  shows "follows 0 g ok (profile_relation_of base p) (relation base f)"
proof (rule followsI)
  fix depth D pw pw' w
  assume ok: ok and p: "profile_relation_of base p depth pw = Inr pw'" and i: "in_step pw w" and D: "D + 0 \<le> depth + length (pw_sources pw)"
    and d: "depth \<le> relationalMaxSubqueryDepth"
  have base: "base \<noteq> NilSource" and p': "p depth pw = Inr pw'" using p by (auto simp: profile_relation_of_def split: if_splits)
  have "relation base f D w = f D w" using in_step_depth [OF i D d] base by (simp add: relation_def)
  with assms [unfolded follows_def, rule_format, OF ok p' i D d]
  show "\<exists>w'. relation base f D w = Inr w' \<and> in_step pw' w' \<and> pw_nest pw' = pw_nest pw \<and> length (pw_sources pw) + g \<le> length (pw_sources pw')" by simp
qed

lemma follows_collection: "follows 0 1 ok (\<lambda>d w. profile_collection ref orders w) (\<lambda>D w. rbind (add_collection ref orders w) (walk_all (map (walk_order api) orders) D))"
proof (rule followsI)
  fix depth D pw pw' w
  assume p: "profile_collection ref orders pw = Inr pw'" and i: "in_step pw w"
  obtain i0 sn pn where r: "profile_relation ref = Inr (i0, sn, pn)" and ref: "\<not> cr_hasParent ref" "cr_scanLimit ref = 0" "orders = []"
    and len: "length (pw_sources pw) < relationalMaxSources"
    and pw': "pw' = pw\<lparr>pw_sources := pw_sources pw @ [\<lparr>ps_database = cr_database ref, ps_collection = i0, ps_schema = sn, ps_name = pn, ps_alias = cr_alias ref\<rparr>]\<rparr>"
    using p by (auto simp: profile_collection_def split: if_splits option.splits prod.splits)
  have "add_collection ref orders w = Inr (note_collection ref orders i0 w)" using ref relations_agree [OF r] by (simp add: add_collection_def)
  moreover have "in_step pw' (note_collection ref orders i0 w)"
    using i ref len by (simp add: pw' in_step_def note_collection_def note_defs as_walked_def Let_def)
  ultimately show "\<exists>w'. rbind (add_collection ref orders w) (walk_all (map (walk_order api) orders) D) = Inr w' \<and> in_step pw' w' \<and> pw_nest pw' = pw_nest pw \<and>
      length (pw_sources pw) + 1 \<le> length (pw_sources pw')"
    using ref(3) by (simp add: walk_all_def pw')
qed

lemma follows_query:
  assumes "follows 0 1 ok p f"
  shows "follows 0 1 ok (\<lambda>depth w. case check_settings settings depth of Some e \<Rightarrow> Inl e | None \<Rightarrow> p depth w)
    (\<lambda>D w. if D > maxWalkDepth then Inl SubqueriesTooDeep else f D w)"
proof (rule followsI)
  fix depth D pw pw' w
  assume ok: ok and p: "(case check_settings settings depth of Some e \<Rightarrow> Inl e | None \<Rightarrow> p depth pw) = Inr pw'" and i: "in_step pw w"
    and D: "D + 0 \<le> depth + length (pw_sources pw)" and d: "depth \<le> relationalMaxSubqueryDepth"
  have p': "p depth pw = Inr pw'" using p by (auto split: option.splits)
  from assms [unfolded follows_def, rule_format, OF ok p' i D d] in_step_depth [OF i D d]
  show "\<exists>w'. (if D > maxWalkDepth then Inl SubqueriesTooDeep else f D w) = Inr w' \<and> in_step pw' w' \<and> pw_nest pw' = pw_nest pw \<and>
      length (pw_sources pw) + 1 \<le> length (pw_sources pw')" by simp
qed

lemma level_refuses: "profile_level (\<lambda>w. Inl e) pw \<noteq> Inr pw'"
  by (simp add: profile_level_def profile_enter_def)

lemma walk_follows:
  "follows 0 1 (list_all (runnable api) (nodes_query q)) (profile_query money q) (walk_query api q)"
  "follows 0 1 (list_all (runnable api) (nodes_from fr)) (profile_from money fr) (walk_from api fr)"
  "follows 1 0 (list_all (runnable api) (nodes_join j)) (profile_join money j) (walk_join api j)"
  "follows 0 1 (list_all (runnable api) (nodes_source s)) (profile_src money s) (walk_source api s)"
  "follows 0 0 (list_all (runnable api) (nodes_order ordr)) (profile_order money ordr) (walk_order api ordr)"
  "follows 0 0 (list_all (runnable api) (nodes_column col)) (profile_column money col) (walk_column api col)"
  "follows 0 0 (list_all (runnable api) (nodes_cond c)) (profile_cond money c) (walk_cond api c)"
  "follows 0 0 (list_all (runnable api) (nodes_expr e)) (profile_expr money e) (walk_expr api e)"
proof (induction q and fr and j and s and ordr and col and c and e rule: dal_induct)
  case (Query settings fr wh groupBy having orderBy columns)
  let ?R = "list_all (runnable api)"
  have "follows 0 1 (?R (nodes_from fr) \<and> ?R (nodes_cond wh) \<and> ?R (concat (map nodes_expr groupBy)) \<and> ?R (nodes_cond having) \<and> ?R (concat (map nodes_order orderBy)) \<and>
      runnable api (NQuery columns) \<and> ?R (concat (map nodes_column columns)))
    (\<lambda>d w. rbind (profile_from money fr d w) (\<lambda>w. rbind (profile_cond money wh d w) (\<lambda>w.
          rbind (profile_all (map (profile_expr money) groupBy) d w) (\<lambda>w. rbind (profile_cond money having d w) (\<lambda>w.
          rbind (profile_all (map (profile_order money) orderBy) d w) (profile_all (map (profile_column money) columns) d))))))
    (\<lambda>d w. rbind (walk_from api fr d w) (\<lambda>w. rbind (walk_cond api wh d w) (\<lambda>w. rbind (walk_all (map (walk_expr api) groupBy) d w) (\<lambda>w.
       rbind (walk_cond api having d w) (\<lambda>w. rbind (walk_all (map (walk_order api) orderBy) d w)
         (walk_columns api (zip columns (map (walk_column api) columns)) d))))))"
    by (rule follows_seq [OF Query(1)], rule follows_seq [OF Query(2)], rule follows_seq [OF follows_all [OF Query(3)]], assumption,
        rule follows_seq [OF Query(4)], rule follows_seq [OF follows_all [OF Query(5)]], assumption, rule follows_columns [OF Query(6)]) simp_all
  from follows_query [OF this, of settings] show ?case by (auto elim: follows_weaken)
next
  case (From base joins)
  have "follows 0 1 (list_all (runnable api) (nodes_source base) \<and> list_all (runnable api) (concat (map nodes_join joins)))
     (\<lambda>d w. rbind (profile_relation_of base (profile_src money base) d w) (profile_all (map (profile_join money) joins) d))
     (\<lambda>D w. rbind (relation base (walk_source api base) D w) (walk_all (map (walk_join api) joins) D))"
    using From by (intro follows_seq [OF follows_relation follows_all]) auto
  then show ?case by simp
next
  case (Join type child src on)
  have c: "follows 1 0 (list_all (runnable api) (if child = NilFrom then nodes_source src else nodes_from child))
     (\<lambda>d w. if child = NilFrom then profile_relation_of src (profile_src money src) d w else profile_from money child d w)
     (\<lambda>D w. if child = NilFrom then (if src = NilSource then Inl JoinNeedsSource else relation src (walk_source api src) (D + 1) w)
            else walk_from api child (D + 1) w)"
  proof (cases "child = NilFrom")
    case True
    have "follows 1 0 (list_all (runnable api) (nodes_source src)) (profile_relation_of src (profile_src money src)) (\<lambda>D w. relation src (walk_source api src) (D + 1) w)"
      by (rule follows_weaken [OF follows_shift [OF follows_relation [OF Join(2)]]]) simp_all
    then show ?thesis using True by (cases "src = NilSource") (simp_all add: profile_relation_of_def [abs_def] follows_Inl)
  next
    case False
    then show ?thesis using follows_weaken [OF follows_shift [OF Join(1)], where g' = 0] by simp
  qed
  have on: "follows 0 0 (list_all (runnable api) (concat (map nodes_cond on))) (profile_all (map (profile_cond money) on)) (walk_all (map (walk_cond api) on))"
    by (rule follows_all) (rule Join(3))
  have "follows 1 0 (list_all (runnable api) (nodes_join (Join type child src on)))
     (\<lambda>d w. rbind (if child = NilFrom then profile_relation_of src (profile_src money src) d w else profile_from money child d w) (profile_all (map (profile_cond money) on) d))
     (walk_join api (Join type child src on))"
    using follows_seq [OF c on] by (simp split del: if_split)
  then show ?case by (cases "type \<noteq> JoinInner \<and> type \<noteq> JoinLeft") (auto simp: follows_Inl)
next
  case (CollectionRef ref orders)
  show ?case using follows_collection [of _ ref orders api] by simp
next
  case (QuerySource al q)
  show ?case using follows_after [OF follows_sub [OF QuerySource], where obs = "\<lambda>w. add_scope al (add_identifier al (mark_subquery w))"] by simp
next
  case (Order e)
  then show ?case by simp
next
  case (Column al wild e)
  show ?case
  proof (cases "e = NilExpr")
    case True
    then show ?thesis using follows_note [where obs = "column_names al wild"]
      by (cases "wild = None") (auto simp: follows_def Let_def profile_level_def profile_enter_def split: if_splits)
  next
    case False
    then show ?thesis using follows_after [OF Column, where obs = "column_names al wild"] by (simp add: Let_def)
  qed
next
  case (Comparison opr l r)
  then show ?case using follows_level [OF follows_seq [OF Comparison]] by simp
next
  case (GroupCond opr cs)
  then show ?case using follows_level [OF follows_group [of cs "runnable api" nodes_cond "profile_cond money" "walk_cond api" ConditionShape]] by simp
next
  case (IsNullCond neg e)
  then show ?case using follows_level [OF follows_after [OF IsNullCond, where obs = mark_null]] by simp
next
  case (ExistsCond neg q)
  then show ?case using follows_weaken [OF follows_after [OF follows_sub [OF ExistsCond], where obs = mark_subquery], where g' = 0]
    by (simp add: follows_level)
next
  case (FieldRef name src)
  show ?case using follows_level [OF follows_note [where obs = "\<lambda>w. add_qualifier src (add_fields [name] w)"]] by simp
next
  case (Constant l)
  show ?case using follows_level [OF follows_note [where obs = "\<lambda>w. w"]] by (cases "money \<and> l = FloatConstant") (auto intro: follows_level follows_Inl)
next
  case ArrayExpr
  show ?case using follows_level [OF follows_note [where obs = "\<lambda>w. w"]] by simp
next
  case StarExpr
  show ?case using follows_level [OF follows_note [where obs = "\<lambda>w. w"]] by simp
next
  case (Binary opr l r)
  show ?case using follows_level [OF follows_seq [OF Binary]] by (auto simp: follows_def)
next
  case (Aggregate name args)
  show ?case using follows_level [OF follows_all [OF Aggregate]] by (cases "walk_aggregate name") (simp_all add: aggregates_agree follows_level follows_Inl)
next
  case (QueryExpr as q)
  show ?case using follows_level [OF follows_weaken [OF follows_after [OF follows_sub [OF QueryExpr], where obs = "\<lambda>w. let w1 = mark_subquery w in if as \<noteq> [] then add_identifier as w1 else w1"], where g' = 0]]
    by (simp add: Let_def)
qed (simp_all add: follows_Inl follows_def level_refuses)

section \<open>Properties\<close>

definition new_profile_walk :: profile_walk where
  "new_profile_walk = \<lparr>pw_sources = [], pw_nest = 0\<rparr>"

lemma walk_accepts:
  assumes "profile_query money q 0 new_profile_walk = Inr pw" and "list_all (runnable api) (nodes_query q)"
  shows "\<exists>w. walk_query api q 0 new_walker = Inr w \<and> dc_sources (wk_doc w) = map as_walked (pw_sources pw) \<and> 1 \<le> length (pw_sources pw)"
proof -
  have f: "follows 0 1 True (profile_query money q) (walk_query api q)" using walk_follows(1) [of api q money] assms(2) by simp
  have "in_step new_profile_walk new_walker" by (simp add: in_step_def new_profile_walk_def new_walker_def relationalMaxSources_def)
  then show ?thesis
    by (rule followsD [OF f assms(1)]) (auto simp: new_profile_walk_def in_step_def)
qed


text \<open>A chain of nested joins, as deep as eight sources allow.\<close>

primrec nested_joins :: "nat \<Rightarrow> from_source" where
  "nested_joins 0 = From (CollectionRef (sample_ref ''orders'' []) []) []"
| "nested_joins (Suc n) = From (CollectionRef (sample_ref ''orders'' []) []) [Join JoinLeft (nested_joins n) NilSource []]"

definition deep_query :: dal_query where
  "deep_query = Query sample_settings (nested_joins 7) NilCond [] NilCond [] []"

lemma sample_collection: "ValidateCollectionName ''orders'' = None"
  using sample_names by (simp add: collection_names_agree)

lemma deep_profile: "\<exists>pw. profile_query False deep_query 0 new_profile_walk = Inr pw \<and> length (pw_sources pw) = 8"
  using sample_collection
  by (simp add: deep_query_def eval_nat_numeral profile_relation_of_def profile_all_def profile_collection_def profile_relation_def sample_ref_def new_profile_walk_def
      relationalMaxSources_def check_settings_def sample_settings_def first_of_def refuse_def relationalMaxSubqueryDepth_def relationalMaxLimit_def relationalMaxOffset_def)


end
