(* ===== verification/Join_Errors.thy ===== *)
theory Join_Errors
  imports Go_Base Go_Strings
begin

text \<open>
  \<^verbatim>\<open>src/pkg/joinexec/errors.go\<close>, \<^verbatim>\<open>execute_errors.go\<close> and \<^verbatim>\<open>dalgo_errors.go\<close>: the errors a joined read ends with, their chains, and how
  DALgo's own bounds are read back from what it reports. An error is its type and the error it wraps; a sentinel wrapped in more
  text is the sentinel. The text of an error (\<^verbatim>\<open>Error()\<close>) is the parameter \<open>err_text\<close>: most errors are made outside the program.

  The regular expressions are matchers of the same language: a run of digits or of characters that are not a space ends where the
  text that follows it begins, and a greedy \<^verbatim>\<open>.+\<close> stops at the last place where the rest of the pattern fits.
\<close>

section \<open>Errors\<close>

definition RouteInMemory :: string where "RouteInMemory = ''in-memory''"
definition RouteDatabase :: string where "RouteDatabase = ''database''"

datatype budget_name =
    BudgetSourceRows | BudgetSourceBytes | BudgetResponseRows | BudgetResponseBytes
  | BudgetJoinRows | BudgetJoinResultRows | BudgetJoinFetchedRows | BudgetJoinRetainedBytes | BudgetJoinScan | BudgetJoinCandidateEvaluations
  | BudgetAggregationGroups | BudgetAggregationStates | BudgetAggregationBytes | BudgetAggregationDistinctValues | BudgetAggregationTotalDistinct

record budget =
  bg_name :: budget_name
  bg_limit :: int
  bg_route :: string
  bg_path :: string

datatype join_error =
    IoEOF
  | NoMoreRecords
  | Foreign string
  | Wrapped string join_error
  | Flattened join_error
  | QueryValidationError string string string
  | JoinValidationError string string string "join_error option"
  | BudgetError budget
  | SourceDeniedError string string
  | SourceError string string join_error
  | UnknownDatabaseError string
  | EngineNotQueryableError string string
  | EngineNotJoinableError string string
  | CapacityError string
  | InvalidDocument
  | ProfileMismatch
  | SourceWithoutDatabase
  | ScanOnProtectedSource string string
  | ReadTxSkipped
  | NoReader
  | ReadTruncated
  | RegistryMismatch string
  | NotSingleSource
  | UnsupportedSource
  | RecordsetUnsupported
  | NoExecutor string
  | RowNotEncodable

text \<open>The errors of a chain, outermost first, and \<^verbatim>\<open>errors.Is\<close> and \<^verbatim>\<open>errors.As\<close> over it.\<close>

fun chain :: "join_error \<Rightarrow> join_error list" where
  "chain (Wrapped t e) = Wrapped t e # chain e"
| "chain (SourceError d c e) = SourceError d c e # chain e"
| "chain (JoinValidationError c p m (Some e)) = JoinValidationError c p m (Some e) # chain e"
| "chain NoMoreRecords = [NoMoreRecords, IoEOF]"
| "chain e = [e]"

definition errors_Is :: "join_error \<Rightarrow> join_error \<Rightarrow> bool" where
  "errors_Is e target \<longleftrightarrow> target \<in> set (chain e)"

definition end_of_stream :: "join_error \<Rightarrow> bool" where
  "end_of_stream e \<longleftrightarrow> e = IoEOF \<or> errors_Is e NoMoreRecords"

fun is_budget :: "join_error \<Rightarrow> bool" where
  "is_budget (BudgetError b) = True"
| "is_budget (SourceDeniedError d c) = True"
| "is_budget e = False"

fun as_query :: "join_error list \<Rightarrow> (string \<times> string \<times> string) option" where
  "as_query [] = None"
| "as_query (QueryValidationError c p m # es) = Some (c, p, m)"
| "as_query (e # es) = as_query es"

fun as_join :: "join_error list \<Rightarrow> (string \<times> string \<times> string) option" where
  "as_join [] = None"
| "as_join (JoinValidationError c p m cause # es) = Some (c, p, m)"
| "as_join (e # es) = as_join es"

text \<open>\<^verbatim>\<open>withoutEOFChain\<close>: the text of an error and no chain, where the chain holds \<^verbatim>\<open>io.EOF\<close>.\<close>

definition withoutEOFChain :: "join_error \<Rightarrow> join_error" where
  "withoutEOFChain e = (if errors_Is e IoEOF then Flattened e else e)"

section \<open>The bounds of DALgo\<close>

definition dalgoJoinRows :: int where "dalgoJoinRows = 10000"
definition dalgoJoinBytes :: int where "dalgoJoinBytes = 16 * 2 ^ 20"
definition dalgoJoinCandidates :: int where "dalgoJoinCandidates = dalgoJoinRows * 10"

definition joinPlanBounds :: "(string, budget_name \<times> int) gomap" where
  "joinPlanBounds =
     [(''joined row bound exceeded'', BudgetJoinRows, dalgoJoinRows),
      (''joined byte bound exceeded'', BudgetJoinRetainedBytes, dalgoJoinBytes),
      (''relation scan exceeds row or byte bound'', BudgetJoinScan, 0),
      (''candidate evaluation bound exceeded'', BudgetJoinCandidateEvaluations, dalgoJoinCandidates)]"

definition queryLimitBounds :: "(string, budget_name \<times> int) gomap" where
  "queryLimitBounds =
     [(''result_rows'', BudgetJoinResultRows, dalgoJoinRows),
      (''retained_bytes'', BudgetJoinRetainedBytes, dalgoJoinBytes),
      (''fetched_rows'', BudgetJoinFetchedRows, dalgoJoinRows),
      (''candidate_evaluations'', BudgetJoinCandidateEvaluations, dalgoJoinCandidates)]"

definition after_prefix :: "string \<Rightarrow> string \<Rightarrow> string option" where
  "after_prefix p s = (if take (length p) s = p then Some (drop (length p) s) else None)"

text \<open>The patterns of \<^verbatim>\<open>aggregationBounds\<close>: a name, the words before the number, and whether the text goes on after it.\<close>

definition aggregationBounds :: "(budget_name \<times> string \<times> bool) list" where
  "aggregationBounds =
     [(BudgetAggregationGroups, ''dalgo aggregation: group limit '', False),
      (BudgetAggregationStates, ''dalgo aggregation: aggregate-state limit '', False),
      (BudgetAggregationBytes, ''dalgo aggregation: retained aggregation byte limit '', False),
      (BudgetAggregationDistinctValues, ''dalgo aggregation: distinct-value limit '', True),
      (BudgetAggregationTotalDistinct, ''dalgo aggregation: total distinct-value limit '', False)]"

definition bound_here :: "string \<Rightarrow> bool \<Rightarrow> string \<Rightarrow> int option" where
  "bound_here words goes_on s =
     (case after_prefix words s of
        None \<Rightarrow> None
      | Some rest \<Rightarrow>
          let digits = takeWhile is_digit rest; tail = dropWhile is_digit rest in
          if 1 \<le> length digits \<and> length digits \<le> 18 \<and>
             (if goes_on then (case after_prefix '' exceeded for '' tail of Some (_ # _) \<Rightarrow> True | _ \<Rightarrow> False) else tail = '' exceeded'')
          then Some (int (digits_value digits)) else None)"

fun bound_after_colon :: "string \<Rightarrow> bool \<Rightarrow> string \<Rightarrow> int option" where
  "bound_after_colon words goes_on [] = None"
| "bound_after_colon words goes_on (c # s) =
     (case Option.bind (after_prefix '': '' (c # s)) (bound_here words goes_on) of
        Some n \<Rightarrow> Some n
      | None \<Rightarrow> bound_after_colon words goes_on s)"

definition find_bound :: "string \<Rightarrow> bool \<Rightarrow> string \<Rightarrow> int option" where
  "find_bound words goes_on text =
     (case bound_here words goes_on text of Some n \<Rightarrow> Some n | None \<Rightarrow> bound_after_colon words goes_on text)"

fun aggregation_bound :: "(budget_name \<times> string \<times> bool) list \<Rightarrow> string \<Rightarrow> string \<Rightarrow> join_error option" where
  "aggregation_bound [] text route = None"
| "aggregation_bound ((name, words, goes_on) # bounds) text route =
     (case find_bound words goes_on text of
        Some n \<Rightarrow> Some (BudgetError \<lparr>bg_name = name, bg_limit = n, bg_route = route, bg_path = []\<rparr>)
      | None \<Rightarrow> aggregation_bound bounds text route)"

section \<open>Text of a derived source\<close>

definition not_space :: "char \<Rightarrow> bool" where
  "not_space c \<longleftrightarrow> byte c \<notin> {0x09, 0x0A, 0x0C, 0x0D, 0x20}"

text \<open>\<^verbatim>\<open>(\S+): \<close> at the front of a text: the run of characters that are not a space is the word and the colon.\<close>

definition word_colon :: "string \<Rightarrow> (string \<times> string) option" where
  "word_colon s =
     (let w = takeWhile not_space s; rest = dropWhile not_space s in
      if length w \<ge> 2 \<and> last w = CHR '':'' \<and> rest \<noteq> [] \<and> hd rest = CHR '' '' then Some (butlast w, tl rest) else None)"

text \<open>\<^verbatim>\<open>(?: at (\S+))?: (.*)\<close>: the path, if there is one, and the message.\<close>

definition at_path :: "string \<Rightarrow> (string \<times> string) option" where
  "at_path s =
     (case Option.bind (after_prefix '' at '' s) word_colon of
        Some pm \<Rightarrow> Some pm
      | None \<Rightarrow> (case after_prefix '': '' s of Some m \<Rightarrow> Some ([], m) | None \<Rightarrow> None))"

text \<open>\<^verbatim>\<open>(?:cannot )?scan \<close>.\<close>

definition after_scan :: "string \<Rightarrow> string option" where
  "after_scan s = (case after_prefix ''cannot scan '' s of Some r \<Rightarrow> Some r | None \<Rightarrow> after_prefix ''scan '' s)"

text \<open>The tail of \<^verbatim>\<open>flattenedBoundPattern\<close> at one place, and at the last place it fits.\<close>

definition bound_tail :: "string \<Rightarrow> (string, budget_name \<times> int) gomap \<Rightarrow> string \<Rightarrow> (string \<times> budget_name \<times> int) option" where
  "bound_tail category bounds s =
     (case Option.bind (after_prefix ('': '' @ category) s) at_path of
        Some (path, message) \<Rightarrow> (case mget bounds message of Some b \<Rightarrow> Some (path, b) | None \<Rightarrow> None)
      | None \<Rightarrow> None)"

fun last_fit :: "(string \<Rightarrow> 'a option) \<Rightarrow> string \<Rightarrow> 'a option" where
  "last_fit f [] = None"
| "last_fit f (c # s) = (case last_fit f s of Some r \<Rightarrow> Some r | None \<Rightarrow> f (c # s))"

definition flattened :: "string \<Rightarrow> (string, budget_name \<times> int) gomap \<Rightarrow> string \<Rightarrow> (string \<times> budget_name \<times> int) option" where
  "flattened category bounds message =
     (case after_scan message of Some (_ # rest) \<Rightarrow> last_fit (bound_tail category bounds) rest | _ \<Rightarrow> None)"

definition flattenedBound :: "string \<Rightarrow> string \<Rightarrow> join_error option" where
  "flattenedBound message route =
     (case flattened ''query_limit'' queryLimitBounds message of
        Some (path, name, limit) \<Rightarrow> Some (BudgetError \<lparr>bg_name = name, bg_limit = limit, bg_route = route, bg_path = path\<rparr>)
      | None \<Rightarrow>
          (case flattened ''join_plan'' joinPlanBounds message of
             Some (path, name, limit) \<Rightarrow> Some (BudgetError \<lparr>bg_name = name, bg_limit = limit, bg_route = route, bg_path = path\<rparr>)
           | None \<Rightarrow> None))"

definition refusalCategories :: "string list" where
  "refusalCategories =
     [''scope'', ''shape'', ''cardinality'', ''query_shape'', ''join_shape'', ''join_scope'', ''join_key_type'', ''join_field'', ''join_cycle'',
      ''join_algorithm'', ''join_type'', ''join_operator'']"

definition joinPlanRefusals :: "string list" where
  "joinPlanRefusals =
     [''wildcard expansion requires ordered schema metadata'', ''generic JOIN does not support provider cursors'',
      ''IN or NOT IN requires an array'', ''IS NULL requires an operand'']"

definition joinPlanOperatorRefusal :: string where "joinPlanOperatorRefusal = ''unsupported operator ''"

definition joinPlanTypeRefusal :: "string \<Rightarrow> bool" where
  "joinPlanTypeRefusal message \<longleftrightarrow>
     (\<exists>what \<in> set [''unsupported expression '', ''unsupported condition '']. case after_prefix what message of
        Some rest \<Rightarrow> rest \<noteq> [] \<and> list_all not_space rest | None \<Rightarrow> False)"

definition IsJoinPlanRefusal :: "string \<Rightarrow> bool" where
  "IsJoinPlanRefusal message \<longleftrightarrow>
     message \<in> set joinPlanRefusals \<or> has_prefix message joinPlanOperatorRefusal \<or> joinPlanTypeRefusal message"

text \<open>\<^verbatim>\<open>flattenedRefusalPattern\<close>: the category, the path and the message.\<close>

fun category_tail :: "string list \<Rightarrow> string \<Rightarrow> (string \<times> string \<times> string) option" where
  "category_tail [] s = None"
| "category_tail (c # cs) s =
     (case Option.bind (after_prefix c s) at_path of Some (path, m) \<Rightarrow> Some (c, path, m) | None \<Rightarrow> category_tail cs s)"

definition flattenedRefusalPattern :: "string \<Rightarrow> (string \<times> string \<times> string) option" where
  "flattenedRefusalPattern message =
     (case Option.bind (after_scan message) word_colon of
        Some (alias_, rest) \<Rightarrow> category_tail (''join_plan'' # refusalCategories) rest
      | None \<Rightarrow> None)"

definition typed_refusal :: "string \<Rightarrow> string \<Rightarrow> string \<Rightarrow> join_error" where
  "typed_refusal category path message =
     (if has_prefix category ''join_'' then JoinValidationError category path message None else QueryValidationError category path message)"

lemma after_prefix_length: "after_prefix p s = Some r \<Longrightarrow> length s = length p + length r"
  unfolding after_prefix_def
proof (simp split: if_splits)
  assume t: "take (length p) s = p" and d: "drop (length p) s = r"
  have "s = p @ r" using append_take_drop_id [of "length p" s] t d by simp
  then show "length s = length p + length r" by simp
qed

lemma word_colon_length:
  assumes "word_colon s = Some (w, r)"
  shows "length r < length s"
proof -
  have "r = tl (dropWhile not_space s)" "dropWhile not_space s \<noteq> []" using assms by (auto simp: word_colon_def Let_def split: if_splits)
  moreover have "length (takeWhile not_space s) + length (dropWhile not_space s) = length s" by (metis length_append takeWhile_dropWhile_id)
  ultimately show ?thesis by (cases "dropWhile not_space s") auto
qed

lemma at_path_length: "at_path s = Some (p, m) \<Longrightarrow> length m < length s"
  by (auto simp: at_path_def split: option.splits bind_splits dest!: after_prefix_length word_colon_length)

lemma category_tail_length: "category_tail cs s = Some (c, p, m) \<Longrightarrow> length m < length s"
proof (induction cs)
  case (Cons a cs)
  then show ?case by (fastforce split: option.splits bind_splits dest!: after_prefix_length at_path_length)
qed simp

lemma after_scan_length: "after_scan s = Some r \<Longrightarrow> length r \<le> length s"
  by (auto simp: after_scan_def split: option.splits dest!: after_prefix_length)

lemma refusal_pattern_length:
  assumes "flattenedRefusalPattern s = Some (c, p, m)"
  shows "length m < length s"
proof -
  obtain r w rest where "after_scan s = Some r" "word_colon r = Some (w, rest)" "category_tail (''join_plan'' # refusalCategories) rest = Some (c, p, m)"
    using assms by (auto simp: flattenedRefusalPattern_def simp del: category_tail.simps split: option.splits bind_splits)
  then have "length r \<le> length s" "length rest < length r" "length m < length rest"
    by (blast dest: after_scan_length word_colon_length category_tail_length)+
  then show ?thesis by linarith
qed

text \<open>The loop of \<^verbatim>\<open>flattenedRefusal\<close>: each turn reads a shorter text.\<close>

function flattened_refusal :: "string \<Rightarrow> string \<Rightarrow> bool \<Rightarrow> join_error option" where
  "flattened_refusal path message peeled =
     (case flattenedRefusalPattern message of
        None \<Rightarrow> if peeled \<and> IsJoinPlanRefusal message then Some (typed_refusal ''join_plan'' path message) else None
      | Some (category, inner, m) \<Rightarrow>
          let path = path @ ''.query'' @ (if inner \<noteq> [] then ''.'' @ inner else []) in
          if category \<noteq> ''join_plan'' then Some (typed_refusal category path m) else flattened_refusal path m True)"
  by pat_completeness auto
termination by (relation "measure (\<lambda>(path, message, peeled). length message)") (auto dest: refusal_pattern_length)

declare flattened_refusal.simps [simp del]

definition MapDalgoError :: "(join_error \<Rightarrow> string) \<Rightarrow> join_error \<Rightarrow> string \<Rightarrow> join_error" where
  "MapDalgoError err_text err route =
     (if list_ex is_budget (chain err) then err
      else case (case as_query (chain err) of
                   Some (category, path, message) \<Rightarrow>
                     if category = ''query_limit'' then
                       map_option (\<lambda>(name, limit). BudgetError \<lparr>bg_name = name, bg_limit = limit, bg_route = route, bg_path = path\<rparr>) (mget queryLimitBounds message)
                     else None
                 | None \<Rightarrow> None) of
        Some e \<Rightarrow> e
      | None \<Rightarrow>
          case (case as_join (chain err) of
                  Some (category, path, message) \<Rightarrow>
                    if category = ''join_plan'' then
                      (case mget joinPlanBounds message of
                         Some (name, limit) \<Rightarrow> Some (BudgetError \<lparr>bg_name = name, bg_limit = limit, bg_route = route, bg_path = path\<rparr>)
                       | None \<Rightarrow> (case flattenedBound message route of Some e \<Rightarrow> Some e | None \<Rightarrow> flattened_refusal path message False))
                    else None
                | None \<Rightarrow> None) of
            Some e \<Rightarrow> e
          | None \<Rightarrow> (case aggregation_bound aggregationBounds (err_text err) route of Some e \<Rightarrow> e | None \<Rightarrow> err))"


section \<open>A bound is read back\<close>

lemma after_prefix_Some: "after_prefix p s = Some r \<longleftrightarrow> s = p @ r"
  unfolding after_prefix_def by (auto simp: append_eq_conv_conj) (metis append_take_drop_id)

lemma bound_here_Some:
  assumes "bound_here words False s = Some n"
  shows "\<exists>ds. s = words @ ds @ '' exceeded'' \<and> list_all is_digit ds \<and> n = int (digits_value ds)"
proof -
  obtain rest where "s = words @ rest" "dropWhile is_digit rest = '' exceeded''" "n = int (digits_value (takeWhile is_digit rest))"
    using assms by (auto simp: bound_here_def after_prefix_Some Let_def split: option.splits if_splits)
  moreover have "rest = takeWhile is_digit rest @ dropWhile is_digit rest" by simp
  moreover have "list_all is_digit (takeWhile is_digit rest)" by (auto simp: list_all_iff dest: set_takeWhileD)
  ultimately show ?thesis by metis
qed

lemma bound_after_colon_Some: "bound_after_colon words g tx = Some n \<Longrightarrow> \<exists>q s. tx = q @ s \<and> bound_here words g s = Some n"
proof (induction tx)
  case (Cons c tx)
  show ?case
  proof (cases "Option.bind (after_prefix '': '' (c # tx)) (bound_here words g)")
    case None
    then have "bound_after_colon words g tx = Some n" using Cons.prems by simp
    from Cons.IH [OF this] obtain q s where "tx = q @ s" "bound_here words g s = Some n" by blast
    then show ?thesis by (intro exI [of _ "c # q"] exI [of _ s]) simp
  next
    case (Some m)
    then obtain r where "c # tx = '': '' @ r" "bound_here words g r = Some m" by (cases "after_prefix '': '' (c # tx)") (auto simp: after_prefix_Some)
    then show ?thesis using Some Cons.prems by (intro exI [of _ "'': ''"] exI [of _ r]) simp
  qed
qed simp

lemma bound_after_colon_found: "bound_here words g s = Some n \<Longrightarrow> bound_after_colon words g (q @ '': '' @ s) \<noteq> None"
proof (induction q)
  case Nil
  then show ?case by (simp add: after_prefix_def)
next
  case (Cons c q)
  then show ?case by (simp split: option.split)
qed

lemma digit_run:
  assumes "a @ ds = b @ es" and "list_all is_digit ds" and "list_all is_digit es" and "a \<noteq> []" "\<not> is_digit (last a)" and "b \<noteq> []" "\<not> is_digit (last b)"
  shows "ds = es"
proof -
  have "takeWhile is_digit (rev (a @ ds)) = rev ds" if "list_all is_digit ds" "a \<noteq> []" "\<not> is_digit (last a)" for a ds
    using that by (cases a rule: rev_cases) (auto simp: takeWhile_append list_all_iff)
  from this [OF assms(2,4,5)] this [OF assms(3,6,7)] show ?thesis using assms(1) by (metis rev_rev_ident)
qed

lemma digit_not_space: "\<not> is_digit CHR '' ''"
  by (simp add: is_digit_def)

lemma find_bound_reads_back:
  assumes "words \<noteq> []" "last words = CHR '' ''" and "pre = [] \<or> (\<exists>p. pre = p @ '': '')" and "list_all is_digit ds" "1 \<le> length ds" "length ds \<le> 18"
  shows "find_bound words False (pre @ words @ ds @ '' exceeded'') = Some (int (digits_value ds))"
proof -
  let ?text = "pre @ words @ ds @ '' exceeded''"
  have tw: "takeWhile is_digit (ds @ '' exceeded'') = ds" "dropWhile is_digit (ds @ '' exceeded'') = '' exceeded''"
    using assms(4) digit_not_space by (auto simp: takeWhile_append dropWhile_append list_all_iff)
  have here: "bound_here words False (words @ ds @ '' exceeded'') = Some (int (digits_value ds))"
    unfolding bound_here_def using assms(5,6) by (simp add: after_prefix_def tw [simplified] Let_def)
  have unique: "n = int (digits_value ds)" if "?text = q @ s" "bound_here words False s = Some n" for q s n
  proof -
    obtain es where es: "s = words @ es @ '' exceeded''" "list_all is_digit es" "n = int (digits_value es)" using bound_here_Some [OF \<open>bound_here words False s = Some n\<close>] by blast
    have "(q @ words) @ es = (pre @ words) @ ds" using \<open>?text = q @ s\<close> es(1) by simp
    from digit_run [OF this es(2) assms(4)] have "es = ds" using assms(1,2) digit_not_space by simp
    then show ?thesis using es by simp
  qed
  show ?thesis
  proof (cases "bound_here words False ?text")
    case (Some n)
    then show ?thesis using unique [of "[]" ?text n] by (simp add: find_bound_def)
  next
    case None
    then obtain p where p: "pre = p @ '': ''" using assms(3) here by auto
    obtain n where n: "bound_after_colon words False ?text = Some n" using bound_after_colon_found [OF here, of p] p by auto
    from bound_after_colon_Some [OF n] show ?thesis using unique None n by (auto simp: find_bound_def)
  qed
qed

text \<open>
  A bound of DALgo is answered as a budget with its own figure: an error that carries no typed error of its own, and whose text
  ends in the message of the group bound, alone or behind the prefixes DALgo's wrapping adds, becomes the budget error of
  aggregation groups with the number the message holds.
\<close>

theorem group_bound_read_back:
  assumes "err_text err = pre @ ''dalgo aggregation: group limit '' @ decimal_digits n @ '' exceeded''" and "pre = [] \<or> (\<exists>p. pre = p @ '': '')"
    and "length (decimal_digits n) \<le> 18" and "\<not> list_ex is_budget (chain err)" and "as_query (chain err) = None" and "as_join (chain err) = None"
  shows "MapDalgoError err_text err route = BudgetError \<lparr>bg_name = BudgetAggregationGroups, bg_limit = int n, bg_route = route, bg_path = []\<rparr>"
proof -
  have "1 \<le> length (decimal_digits n)" using decimal_digits_not_Nil [of n] by (cases "decimal_digits n") auto
  then have "find_bound ''dalgo aggregation: group limit '' False (err_text err) = Some (int n)"
    using find_bound_reads_back [of "''dalgo aggregation: group limit ''" pre "decimal_digits n"] decimal_digits_are_digits [of n] assms(1-3) by (simp add: digits_value_decimal)
  then show ?thesis using assms(4-6) by (simp add: MapDalgoError_def aggregationBounds_def)
qed

theorem group_bound_read_back_witness:
  "MapDalgoError (\<lambda>e. ''scan orders: dalgo aggregation: group limit 42 exceeded'') (Foreign []) RouteInMemory =
     BudgetError \<lparr>bg_name = BudgetAggregationGroups, bg_limit = 42, bg_route = RouteInMemory, bg_path = []\<rparr>"
proof -
  have d: "decimal_digits 42 = ''42''" by code_simp
  have "''scan orders: dalgo aggregation: group limit 42 exceeded'' = ''scan orders: '' @ ''dalgo aggregation: group limit '' @ decimal_digits 42 @ '' exceeded''"
    unfolding d by simp
  moreover have "\<exists>p. ''scan orders: '' = p @ '': ''" by (rule exI [of _ "''scan orders''"]) simp
  ultimately show ?thesis
    using group_bound_read_back [of "\<lambda>e. ''scan orders: dalgo aggregation: group limit 42 exceeded''" "Foreign []" "''scan orders: ''" 42 RouteInMemory] d by simp
qed

end
