(* ===== verification/Join_Guard.thy ===== *)
theory Join_Guard
  imports Join_Errors Join_Walk
begin

text \<open>
  \<^verbatim>\<open>src/pkg/joinexec/guard.go\<close>, \<^verbatim>\<open>limits.go\<close>, \<^verbatim>\<open>leaf.go\<close>, \<^verbatim>\<open>router.go\<close> and \<^verbatim>\<open>row_size.go\<close>: the guard of one request, the leaves every read of a source goes
  through, and the readers that charge each row to the request's budget.

  DALgo drives the leaves: which calls it makes, in which order and on which readers, is a step relation that allows every
  sequence of calls. What a source answers (an error, a row, a context that ended) is an input of the call. A call that reaches a
  source leaves an \<open>effect\<close>: a read it began, a question for its fields, a row handed on.
\<close>

section \<open>Row sizes\<close>

text \<open>
  \<^verbatim>\<open>encodeRow\<close>: \<^verbatim>\<open>json.Marshal\<close> is the parameter \<open>marshal\<close>, whose error is an \<^verbatim>\<open>UnsupportedValueError\<close> or another one.
\<close>

datatype marshal_error = UnsupportedValue | OtherMarshalError string

definition spelledFloat :: "float64 \<Rightarrow> gvalue" where
  "spelledFloat n = (case n of NaN \<Rightarrow> VStr ''NaN'' | PInf \<Rightarrow> VStr ''Infinity'' | NInf \<Rightarrow> VStr ''-Infinity'' | Fin r \<Rightarrow> VFloat n)"

fun withSpelledFloats :: "gvalue \<Rightarrow> gvalue" where
  "withSpelledFloats (VFloat f) = spelledFloat f"
| "withSpelledFloats (VObj m) = VObj (map (\<lambda>(k, v). (k, withSpelledFloats v)) m)"
| "withSpelledFloats (VArr vs) = VArr (map withSpelledFloats vs)"
| "withSpelledFloats v = v"

definition encodeRow :: "(gvalue \<Rightarrow> marshal_error + string) \<Rightarrow> gvalue \<Rightarrow> marshal_error + string" where
  "encodeRow marshal data =
     (case marshal data of Inl UnsupportedValue \<Rightarrow> marshal (withSpelledFloats data) | r \<Rightarrow> r)"

section \<open>The guard\<close>

record limits =
  li_maxSourceRows :: int
  li_maxSourceBytes :: int
  li_timeout :: int

definition DefaultLimits :: limits where
  "DefaultLimits = \<lparr>li_maxSourceRows = 100000, li_maxSourceBytes = 64 * 2 ^ 20, li_timeout = 10 * 10 ^ 9\<rparr>"

definition withDefaults :: "limits \<Rightarrow> limits" where
  "withDefaults l =
     (let d = DefaultLimits;
          l = (if li_maxSourceRows l \<le> 0 then l\<lparr>li_maxSourceRows := li_maxSourceRows d\<rparr> else l);
          l = (if li_maxSourceBytes l \<le> 0 then l\<lparr>li_maxSourceBytes := li_maxSourceBytes d\<rparr> else l)
      in if li_timeout l \<le> 0 then l\<lparr>li_timeout := li_timeout d\<rparr> else l)"

record source_stats =
  st_database :: string
  st_collection :: string
  st_rows :: int
  st_elapsed :: int
  st_protected :: bool

type_synonym authority = "(string \<Rightarrow> string \<Rightarrow> bool) option"

record guard =
  gd_authorize :: authority
  gd_limits :: limits
  gd_rows :: int
  gd_bytes :: int
  gd_failure :: "join_error option"
  gd_stats :: "source_stats list"
  gd_index :: "(string \<times> string, nat) gomap"

definition NewGuard :: "authority \<Rightarrow> limits \<Rightarrow> guard" where
  "NewGuard authorize l =
     \<lparr>gd_authorize = authorize, gd_limits = withDefaults l, gd_rows = 0, gd_bytes = 0, gd_failure = None, gd_stats = [], gd_index = []\<rparr>"

definition fail :: "join_error \<Rightarrow> guard \<Rightarrow> guard \<times> join_error" where
  "fail e g = (case gd_failure g of None \<Rightarrow> (g\<lparr>gd_failure := Some e\<rparr>, e) | Some f \<Rightarrow> (g, f))"

text \<open>\<^verbatim>\<open>int64\<close> addition.\<close>

definition add64 :: "int \<Rightarrow> int \<Rightarrow> int" where
  "add64 a b = (a + b + 2 ^ 63) mod 2 ^ 64 - 2 ^ 63"

definition charge :: "int \<Rightarrow> string \<Rightarrow> guard \<Rightarrow> guard \<times> join_error option" where
  "charge n path g =
     (case gd_failure g of
        Some f \<Rightarrow> (g, Some f)
      | None \<Rightarrow>
          let refused = (\<lambda>name limit. Some (BudgetError \<lparr>bg_name = name, bg_limit = limit, bg_route = RouteInMemory, bg_path = path\<rparr>));
              g' = (if add64 (gd_rows g) 1 > li_maxSourceRows (gd_limits g) then g\<lparr>gd_failure := refused BudgetSourceRows (li_maxSourceRows (gd_limits g))\<rparr>
                    else if add64 (gd_bytes g) n > li_maxSourceBytes (gd_limits g) then g\<lparr>gd_failure := refused BudgetSourceBytes (li_maxSourceBytes (gd_limits g))\<rparr>
                    else g\<lparr>gd_rows := add64 (gd_rows g) 1, gd_bytes := add64 (gd_bytes g) n\<rparr>)
          in (g', gd_failure g'))"

definition record_read :: "string \<Rightarrow> string \<Rightarrow> bool \<Rightarrow> int \<Rightarrow> int \<Rightarrow> guard \<Rightarrow> guard" where
  "record_read database collection protected rows elapsed g =
     (let key = (database, collection);
          (i, g) = (case mget (gd_index g) key of
              Some i \<Rightarrow> (i, g)
            | None \<Rightarrow> (length (gd_stats g), g\<lparr>gd_index := mput key (length (gd_stats g)) (gd_index g),
                gd_stats := gd_stats g @ [\<lparr>st_database = database, st_collection = collection, st_rows = 0, st_elapsed = 0, st_protected = False\<rparr>]\<rparr>));
          s = gd_stats g ! i
      in g\<lparr>gd_stats := (gd_stats g)[i := s\<lparr>st_rows := st_rows s + rows, st_elapsed := st_elapsed s + elapsed, st_protected := (st_protected s \<or> protected)\<rparr>]\<rparr>)"

definition Classify :: "(join_error \<Rightarrow> string) \<Rightarrow> guard \<Rightarrow> join_error option \<Rightarrow> string \<Rightarrow> join_error option" where
  "Classify err_text g err route =
     (case gd_failure g of Some f \<Rightarrow> Some f | None \<Rightarrow> map_option (\<lambda>e. MapDalgoError err_text e route) err)"

section \<open>Leaves\<close>

text \<open>
  A registered database: \<^verbatim>\<open>NativePostgresReadOnly\<close> and \<^verbatim>\<open>CanQuery\<close> are optional methods (\<open>None\<close> when the source does not have one). What
  is asked of its executor: whether there is one, and whether it serves fields.
\<close>

record db_source =
  so_id :: string
  so_engine :: string
  so_policies :: bool
  so_nativeReadOnly :: "bool option"
  so_canQuery :: "bool option"
  so_hasExecutor :: bool
  so_servesFields :: bool

text \<open>The base of a query or a node of FROM, by its Go type; and a query: its base, how many joins, and \<^verbatim>\<open>dal.HasSubquery\<close> of it.\<close>

datatype leaf_base = RefValue collection_ref | RefPointer "collection_ref option" | DerivedValue | DerivedPointer bool | OtherBase

datatype leaf_query = TextQuery | Structured "(leaf_base \<times> nat) option" bool

datatype effect = Read string string | LoadFields string string | Deliver string string gvalue nat

text \<open>The reference of a base, the logical id of its collection, and the caller's right to read it.\<close>

fun ref_of :: "leaf_base \<Rightarrow> collection_ref option" where
  "ref_of (RefValue r) = Some r"
| "ref_of (RefPointer p) = p"
| "ref_of base = None"

definition leaf_collection :: "db_source \<Rightarrow> collection_ref \<Rightarrow> string option" where
  "leaf_collection src ref =
     (if cr_hasParent ref then None
      else if cr_schema ref \<noteq> [] then
        (if so_nativeReadOnly src \<noteq> Some True then None else NativePostgresCollectionID (cr_schema ref) (cr_name ref))
      else Some (cr_name ref))"

definition authorised :: "guard \<Rightarrow> string \<Rightarrow> string \<Rightarrow> bool" where
  "authorised g database collection = (case gd_authorize g of None \<Rightarrow> False | Some ok \<Rightarrow> ok database collection)"

definition leaf_resolve :: "db_source \<Rightarrow> leaf_base \<Rightarrow> guard \<Rightarrow> guard \<times> (join_error + string)" where
  "leaf_resolve src base g =
     (case ref_of base of
        None \<Rightarrow> apsnd Inl (fail NotSingleSource g)
      | Some ref \<Rightarrow>
          (case leaf_collection src ref of
             None \<Rightarrow> apsnd Inl (fail UnsupportedSource g)
           | Some collection \<Rightarrow>
               if cr_database ref \<noteq> [] \<and> cr_database ref \<noteq> so_id src then apsnd Inl (fail (SourceDeniedError (cr_database ref) collection) g)
               else if \<not> authorised g (so_id src) collection then apsnd Inl (fail (SourceDeniedError (so_id src) collection) g)
               else (g, Inr collection)))"

definition failSource :: "db_source \<Rightarrow> string \<Rightarrow> join_error \<Rightarrow> guard \<Rightarrow> guard \<times> join_error" where
  "failSource src collection e g = fail (SourceError (so_id src) collection e) g"

record counting_reader =
  rd_source :: db_source
  rd_collection :: string
  rd_started :: int
  rd_rows :: int
  rd_finished :: bool

text \<open>What the leaf meets while it opens a read: the context, the executor's answer and the clock.\<close>

record open_answer =
  oa_ctx :: "join_error option"
  oa_error :: "join_error option"
  oa_now :: int

text \<open>A structured query over a base and no joins: the base, and whether it holds a subquery.\<close>

fun single_source :: "leaf_query \<Rightarrow> (leaf_base \<times> bool) option" where
  "single_source (Structured (Some (base, 0)) sub) = Some (base, sub)"
| "single_source query = None"

definition leaf_execute :: "db_source \<Rightarrow> leaf_query \<Rightarrow> open_answer \<Rightarrow> guard \<Rightarrow> guard \<times> effect list \<times> (join_error + counting_reader)" where
  "leaf_execute src query ans g =
     (case gd_failure g of
        Some f \<Rightarrow> (g, [], Inl f)
      | None \<Rightarrow>
          (case single_source query of
             None \<Rightarrow> (let (g, e) = fail NotSingleSource g in (g, [], Inl e))
           | Some (base, sub) \<Rightarrow>
               (case leaf_resolve src base g of
                  (g, Inl e) \<Rightarrow> (g, [], Inl e)
                | (g, Inr collection) \<Rightarrow>
                    if sub then (let (g, e) = fail NotSingleSource g in (g, [], Inl e))
                    else if \<not> so_hasExecutor src then (let (g, e) = fail (NoExecutor (so_id src)) g in (g, [], Inl e))
                    else case oa_ctx ans of
                      Some e \<Rightarrow> (let (g, e) = failSource src collection e g in (g, [], Inl e))
                    | None \<Rightarrow>
                        (case oa_error ans of
                           Some e \<Rightarrow> (let (g, e) = failSource src collection e g in (g, [Read (so_id src) collection], Inl e))
                         | None \<Rightarrow> (g, [Read (so_id src) collection],
                             Inr \<lparr>rd_source = src, rd_collection = collection, rd_started = oa_now ans, rd_rows = 0, rd_finished = False\<rparr>)))))"

definition leaf_recordset :: "join_error + counting_reader" where
  "leaf_recordset = Inl RecordsetUnsupported"

definition leaf_JoinFields :: "db_source \<Rightarrow> leaf_base \<Rightarrow> join_error + string list \<Rightarrow> guard \<Rightarrow> guard \<times> effect list \<times> (join_error + string list)" where
  "leaf_JoinFields src base ans g =
     (case gd_failure g of
        Some f \<Rightarrow> (g, [], Inl f)
      | None \<Rightarrow>
          if base = DerivedValue \<or> base = DerivedPointer True then (g, [], Inr [])
          else case leaf_resolve src base g of
            (g, Inl e) \<Rightarrow> (g, [], Inl e)
          | (g, Inr collection) \<Rightarrow>
              if so_policies src then (g, [], Inr [])
              else if so_hasExecutor src \<and> so_servesFields src then
                (case ans of
                   Inl e \<Rightarrow> (let (g, e) = failSource src collection e g in (g, [LoadFields (so_id src) collection], Inl e))
                 | Inr fields_ \<Rightarrow> (g, [LoadFields (so_id src) collection], Inr fields_))
              else (g, [], Inr []))"

section \<open>Readers\<close>

definition finish :: "int \<Rightarrow> counting_reader \<Rightarrow> guard \<Rightarrow> counting_reader \<times> guard" where
  "finish now r g =
     (if rd_finished r then (r, g)
      else (r\<lparr>rd_finished := True\<rparr>,
        record_read (so_id (rd_source r)) (rd_collection r) (so_policies (rd_source r)) (rd_rows r) (now - rd_started r) g))"

record next_answer =
  na_ctx :: "join_error option"
  na_row :: "join_error + gvalue"
  na_now :: int

text \<open>A call that ends the read: the statistics, then the error the guard records (or the end of the stream).\<close>

definition reader_Next :: "(gvalue \<Rightarrow> marshal_error + string) \<Rightarrow> next_answer \<Rightarrow> counting_reader \<Rightarrow> guard \<Rightarrow>
    counting_reader \<times> guard \<times> effect list \<times> (join_error + gvalue)" where
  "reader_Next marshal ans r g =
     (let src = rd_source r; collection = rd_collection r in
      case gd_failure g of
        Some f \<Rightarrow> (let (r, g) = finish (na_now ans) r g in (r, g, [], Inl (withoutEOFChain f)))
      | None \<Rightarrow>
          (case na_ctx ans of
             Some e \<Rightarrow> (let (r, g) = finish (na_now ans) r g; (g, f) = failSource src collection e g in (r, g, [], Inl (withoutEOFChain f)))
           | None \<Rightarrow>
               (case na_row ans of
                  Inl e \<Rightarrow>
                    let (r, g) = finish (na_now ans) r g in
                    if e = IoEOF then (r, g, [], Inl NoMoreRecords)
                    else if errors_Is e NoMoreRecords then (r, g, [], Inl e)
                    else (let (g, f) = failSource src collection e g in (r, g, [], Inl (withoutEOFChain f)))
                | Inr data \<Rightarrow>
                    (case encodeRow marshal data of
                       Inl e \<Rightarrow> (let (r, g) = finish (na_now ans) r g; (g, f) = fail RowNotEncodable g in (r, g, [], Inl f))
                     | Inr encoded \<Rightarrow>
                         (case charge (int (length encoded)) (so_id src @ ''.'' @ collection) g of
                            (g, Some f) \<Rightarrow> (let (r, g) = finish (na_now ans) r g in (r, g, [], Inl f))
                          | (g, None) \<Rightarrow> (r\<lparr>rd_rows := rd_rows r + 1\<rparr>, g, [Deliver (so_id src) collection data (length encoded)], Inr data))))))"

definition reader_Close :: "join_error option \<Rightarrow> int \<Rightarrow> counting_reader \<Rightarrow> guard \<Rightarrow> counting_reader \<times> guard \<times> join_error option" where
  "reader_Close ans now r g =
     (let (r, g) = finish now r g in
      case ans of None \<Rightarrow> (r, g, None)
      | Some e \<Rightarrow> (let (g, f) = failSource (rd_source r) (rd_collection r) e g in (r, g, Some (withoutEOFChain f))))"

section \<open>The router\<close>

text \<open>The databases the preflight resolved, and the database of a collection that names none.\<close>

record router =
  ro_sources :: "(string, db_source) gomap"
  ro_fallback :: string

definition newRouter :: "(string, db_source) gomap \<Rightarrow> string list \<Rightarrow> router" where
  "newRouter sources databases = \<lparr>ro_sources = sources, ro_fallback = (case databases of [d] \<Rightarrow> d | _ \<Rightarrow> [])\<rparr>"

definition run_leaf :: "router \<Rightarrow> string \<Rightarrow> guard \<Rightarrow> guard \<times> (join_error + db_source)" where
  "run_leaf rt database g =
     (case mget (ro_sources rt) database of
        None \<Rightarrow> apsnd Inl (fail (UnknownDatabaseError database) g)
      | Some src \<Rightarrow> (g, Inr src))"

definition leafOf :: "router \<Rightarrow> leaf_base \<Rightarrow> guard \<Rightarrow> guard \<times> (join_error + db_source)" where
  "leafOf rt base g =
     (case base of
        RefValue ref \<Rightarrow> run_leaf rt (if cr_database ref = [] then ro_fallback rt else cr_database ref) g
      | _ \<Rightarrow> apsnd Inl (fail NotSingleSource g))"

definition router_execute :: "router \<Rightarrow> leaf_query \<Rightarrow> open_answer \<Rightarrow> guard \<Rightarrow> guard \<times> effect list \<times> (join_error + counting_reader)" where
  "router_execute rt query ans g =
     (case query of
        Structured (Some (base, joins)) sub \<Rightarrow>
          (case leafOf rt base g of (g, Inl e) \<Rightarrow> (g, [], Inl e) | (g, Inr src) \<Rightarrow> leaf_execute src query ans g)
      | _ \<Rightarrow> (let (g, e) = fail NotSingleSource g in (g, [], Inl e)))"

definition router_JoinFields :: "router \<Rightarrow> leaf_base \<Rightarrow> join_error + string list \<Rightarrow> guard \<Rightarrow> guard \<times> effect list \<times> (join_error + string list)" where
  "router_JoinFields rt base ans g =
     (if base = DerivedValue then (g, [], Inr [])
      else case leafOf rt base g of (g, Inl e) \<Rightarrow> (g, [], Inl e) | (g, Inr src) \<Rightarrow> leaf_JoinFields src base ans g)"


section \<open>A session\<close>

text \<open>The readers a request has opened, and the effects of its calls in order.\<close>

record session =
  se_guard :: guard
  se_readers :: "counting_reader list"
  se_trace :: "effect list"

datatype call =
    CallExecute leaf_query open_answer
  | CallResolved string leaf_query open_answer
  | CallFields leaf_base "join_error + string list"
  | CallResolvedFields string leaf_base "join_error + string list"
  | CallNext nat next_answer
  | CallClose nat "join_error option" int

definition opened :: "guard \<times> effect list \<times> (join_error + counting_reader) \<Rightarrow> session \<Rightarrow> session" where
  "opened out s =
     (case out of (g, es, r) \<Rightarrow> s\<lparr>se_guard := g, se_trace := se_trace s @ es, se_readers := se_readers s @ (case r of Inl e \<Rightarrow> [] | Inr rd \<Rightarrow> [rd])\<rparr>)"

definition noted :: "guard \<times> effect list \<times> 'r \<Rightarrow> session \<Rightarrow> session" where
  "noted out s = (case out of (g, es, r) \<Rightarrow> s\<lparr>se_guard := g, se_trace := se_trace s @ es\<rparr>)"

text \<open>One call of DALgo: through the router, through the leaf its database resolver returned, or on an open reader.\<close>

fun perform :: "router \<Rightarrow> (gvalue \<Rightarrow> marshal_error + string) \<Rightarrow> call \<Rightarrow> session \<Rightarrow> session" where
  "perform rt marshal (CallExecute query ans) s = opened (router_execute rt query ans (se_guard s)) s"
| "perform rt marshal (CallResolved database query ans) s =
     (case run_leaf rt database (se_guard s) of
        (g, Inl e) \<Rightarrow> s\<lparr>se_guard := g\<rparr>
      | (g, Inr src) \<Rightarrow> opened (leaf_execute src query ans g) s)"
| "perform rt marshal (CallFields base ans) s = noted (router_JoinFields rt base ans (se_guard s)) s"
| "perform rt marshal (CallResolvedFields database base ans) s =
     (case run_leaf rt database (se_guard s) of
        (g, Inl e) \<Rightarrow> s\<lparr>se_guard := g\<rparr>
      | (g, Inr src) \<Rightarrow> noted (leaf_JoinFields src base ans g) s)"
| "perform rt marshal (CallNext i ans) s =
     (if i < length (se_readers s) then
        (case reader_Next marshal ans (se_readers s ! i) (se_guard s) of
           (r, g, es, _) \<Rightarrow> s\<lparr>se_guard := g, se_trace := se_trace s @ es, se_readers := (se_readers s)[i := r]\<rparr>)
      else s)"
| "perform rt marshal (CallClose i ans now) s =
     (if i < length (se_readers s) then
        (case reader_Close ans now (se_readers s ! i) (se_guard s) of (r, g, _) \<Rightarrow> s\<lparr>se_guard := g, se_readers := (se_readers s)[i := r]\<rparr>)
      else s)"

definition new_session :: "authority \<Rightarrow> limits \<Rightarrow> session" where
  "new_session authorize l = \<lparr>se_guard = NewGuard authorize l, se_readers = [], se_trace = []\<rparr>"

inductive session_step :: "router \<Rightarrow> (gvalue \<Rightarrow> marshal_error + string) \<Rightarrow> session \<Rightarrow> session \<Rightarrow> bool" for rt marshal where
  "session_step rt marshal s (perform rt marshal c s)"

inductive_cases session_stepE: "session_step rt marshal s t"

lemma fold_session: "(session_step rt marshal)\<^sup>*\<^sup>* s (fold (perform rt marshal) cs s)"
  by (induction cs arbitrary: s) (auto intro: session_step.intros converse_rtranclp_into_rtranclp)

section \<open>What a call leaves of the guard\<close>

text \<open>A guard that differs from another in its failure only, or in its statistics and failure, where a recorded failure stays.\<close>

definition failed_at_most :: "guard \<Rightarrow> guard \<Rightarrow> bool" where
  "failed_at_most g g' \<longleftrightarrow> (\<exists>f. g' = g\<lparr>gd_failure := f\<rparr>) \<and> (gd_failure g \<noteq> None \<longrightarrow> g' = g)"

lemma failed_at_most_refl [simp]: "failed_at_most g g"
  unfolding failed_at_most_def by (metis guard.surjective guard.update_convs(5))

lemma failed_at_most_trans: "failed_at_most g h \<Longrightarrow> failed_at_most h k \<Longrightarrow> failed_at_most g k"
  unfolding failed_at_most_def by auto

lemma fail_at_most [simp]: "failed_at_most g (fst (fail e g))"
  by (cases "gd_failure g") (auto simp: fail_def failed_at_most_def)

lemma failed_at_mostD:
  assumes "failed_at_most g g'"
  shows "gd_authorize g' = gd_authorize g" "gd_limits g' = gd_limits g" "gd_rows g' = gd_rows g" "gd_bytes g' = gd_bytes g"
    "gd_stats g' = gd_stats g" "gd_index g' = gd_index g" "gd_failure g = Some f \<Longrightarrow> g' = g"
  using assms by (auto simp: failed_at_most_def)

lemma fail_fails: "gd_failure (fst (fail e g)) \<noteq> None"
  by (cases "gd_failure g") (simp_all add: fail_def)

lemma resolve_out:
  assumes "leaf_resolve src base g = (g', r)"
  shows "(\<exists>x. apsnd Inl (fail x g) = (g', r)) \<or> (\<exists>c. r = Inr c \<and> g' = g \<and> authorised g (so_id src) c)"
proof (cases "ref_of base")
  case None
  then have "apsnd Inl (fail NotSingleSource g) = (g', r)" using assms by (simp add: leaf_resolve_def)
  then show ?thesis by blast
next
  case (Some ref)
  show ?thesis
  proof (cases "leaf_collection src ref")
    case None
    then have "apsnd Inl (fail UnsupportedSource g) = (g', r)" using assms Some by (simp add: leaf_resolve_def)
    then show ?thesis by blast
  next
    case (Some c)
    consider "apsnd Inl (fail (SourceDeniedError (cr_database ref) c) g) = (g', r)" | "apsnd Inl (fail (SourceDeniedError (so_id src) c) g) = (g', r)"
      | "authorised g (so_id src) c" "(g, Inr c) = (g', r)"
      using assms Some \<open>ref_of base = Some ref\<close> unfolding leaf_resolve_def option.case by (cases "authorised g (so_id src) c"; cases "cr_database ref \<noteq> [] \<and> cr_database ref \<noteq> so_id src") simp_all
    then show ?thesis by cases blast+
  qed
qed

lemma resolve_cases:
  assumes "leaf_resolve src base g = (g', r)"
  obtains (refused) e where "r = Inl e" "failed_at_most g g'" "gd_failure g' \<noteq> None"
  | (granted) collection where "r = Inr collection" "g' = g" "authorised g (so_id src) collection"
  using resolve_out [OF assms]
proof
  assume "\<exists>x. apsnd Inl (fail x g) = (g', r)"
  then obtain x where "apsnd Inl (fail x g) = (g', r)" by blast
  then have "g' = fst (fail x g)" "r = Inl (snd (fail x g))" by (cases "fail x g", simp)+
  then show thesis using refused fail_at_most fail_fails by metis
qed (use granted in blast)

text \<open>What one call of a leaf does: the failure at most, and the effects it leaves.\<close>

definition leaf_call :: "db_source \<Rightarrow> guard \<Rightarrow> guard \<Rightarrow> effect list \<Rightarrow> bool" where
  "leaf_call src g g' es \<longleftrightarrow> failed_at_most g g' \<and> (gd_failure g \<noteq> None \<longrightarrow> es = []) \<and>
     (es = [] \<or> (\<exists>c. authorised g (so_id src) c \<and> (es = [Read (so_id src) c] \<or> es = [LoadFields (so_id src) c] \<and> \<not> so_policies src)))"

lemma leaf_execute_call:
  assumes "leaf_execute src query ans g = (g', es, r)"
  shows "leaf_call src g g' es \<and> (\<forall>rd. r = Inr rd \<longrightarrow> rd_source rd = src \<and> authorised g (so_id src) (rd_collection rd) \<and> rd_rows rd = 0 \<and> \<not> rd_finished rd)"
proof (cases "gd_failure g")
  case (Some f)
  then show ?thesis using assms by (auto simp: leaf_execute_def leaf_call_def)
next
  case None
  have f: "fail x g = (h, e) \<Longrightarrow> failed_at_most g h" for x h e using fail_at_most [of g x] by simp
  show ?thesis
  proof (cases "single_source query")
    case n: None
    then show ?thesis using assms None f by (auto simp: leaf_execute_def leaf_call_def split: prod.splits)
  next
    case (Some q)
    obtain base sub where q: "q = (base, sub)" by fastforce
    obtain h r' where b: "leaf_resolve src base g = (h, r')" by fastforce
    then show ?thesis
    proof (cases rule: resolve_cases)
      case (refused e)
      then show ?thesis using assms None Some b by (auto simp: leaf_execute_def leaf_call_def q)
    next
      case (granted c)
      then show ?thesis using assms None Some b f
        by (auto simp: leaf_execute_def leaf_call_def failSource_def q split: if_splits option.splits prod.splits)
    qed
  qed
qed

lemma leaf_JoinFields_call:
  assumes "leaf_JoinFields src base ans g = (g', es, r)"
  shows "leaf_call src g g' es"
proof (cases "gd_failure g")
  case (Some f)
  then show ?thesis using assms by (auto simp: leaf_JoinFields_def leaf_call_def)
next
  case None
  have f: "fail x g = (h, e) \<Longrightarrow> failed_at_most g h" for x h e using fail_at_most [of g x] by simp
  obtain h r' where "leaf_resolve src base g = (h, r')" by fastforce
  then show ?thesis
  proof (cases rule: resolve_cases)
    case (refused e)
    then show ?thesis using assms None \<open>leaf_resolve src base g = (h, r')\<close> by (auto simp: leaf_JoinFields_def leaf_call_def split: if_splits)
  next
    case (granted c)
    then show ?thesis using assms None \<open>leaf_resolve src base g = (h, r')\<close> f
      by (auto simp: leaf_JoinFields_def leaf_call_def failSource_def split: if_splits sum.splits prod.splits)
  qed
qed


text \<open>How a read ends: its statistics are recorded, and a failure at most.\<close>

definition ended :: "counting_reader \<Rightarrow> guard \<Rightarrow> counting_reader \<Rightarrow> guard \<Rightarrow> bool" where
  "ended r g r' g' \<longleftrightarrow> r' = r\<lparr>rd_finished := True\<rparr> \<and> (\<exists>now f. g' = (snd (finish now r g))\<lparr>gd_failure := f\<rparr> \<and> (gd_failure g \<noteq> None \<longrightarrow> f = gd_failure g))"

lemma finish_reader: "fst (finish now r g) = r\<lparr>rd_finished := True\<rparr>"
  by (cases r) (simp add: finish_def)

lemma record_read_keeps:
  "gd_authorize (record_read d c p n el g) = gd_authorize g" "gd_limits (record_read d c p n el g) = gd_limits g"
  "gd_rows (record_read d c p n el g) = gd_rows g" "gd_bytes (record_read d c p n el g) = gd_bytes g"
  "gd_failure (record_read d c p n el g) = gd_failure g"
  by (simp_all add: record_read_def Let_def split: option.split)

lemma finish_keeps:
  "gd_authorize (snd (finish now r g)) = gd_authorize g" "gd_limits (snd (finish now r g)) = gd_limits g"
  "gd_rows (snd (finish now r g)) = gd_rows g" "gd_bytes (snd (finish now r g)) = gd_bytes g"
  "gd_failure (snd (finish now r g)) = gd_failure g"
  by (simp_all add: finish_def record_read_keeps)

lemma record_read_failure: "record_read d c p n el (g\<lparr>gd_failure := f\<rparr>) = (record_read d c p n el g)\<lparr>gd_failure := f\<rparr>"
  by (cases g) (simp add: record_read_def Let_def split: option.split)

lemma finish_failure: "snd (finish now r (g\<lparr>gd_failure := f\<rparr>)) = (snd (finish now r g))\<lparr>gd_failure := f\<rparr>"
  by (simp add: finish_def record_read_failure)

lemma same_failure: "gd_failure g = f \<Longrightarrow> g\<lparr>gd_failure := f\<rparr> = g"
  by (cases g) simp

lemma ended_finish:
  assumes "failed_at_most g g0" and "failed_at_most (snd (finish now r g0)) g'" and "r' = fst (finish now r g0)"
  shows "ended r g r' g'"
proof -
  obtain f where f: "g0 = g\<lparr>gd_failure := f\<rparr>" "gd_failure g \<noteq> None \<longrightarrow> g0 = g" using assms(1) by (auto simp: failed_at_most_def)
  obtain f' where f': "g' = (snd (finish now r g0))\<lparr>gd_failure := f'\<rparr>" "gd_failure g0 \<noteq> None \<longrightarrow> g' = snd (finish now r g0)"
    using assms(2) by (auto simp: failed_at_most_def finish_keeps)
  have 1: "g' = (snd (finish now r g))\<lparr>gd_failure := f'\<rparr>" using f' f(1) by (simp add: finish_failure)
  have 2: "gd_failure g \<noteq> None \<longrightarrow> f' = gd_failure g"
  proof
    assume n: "gd_failure g \<noteq> None"
    then have "g' = snd (finish now r g)" using f(2) f'(2) by auto
    then have "gd_failure g' = gd_failure g" by (simp add: finish_keeps)
    then show "f' = gd_failure g" using 1 by simp
  qed
  show ?thesis unfolding ended_def using 1 2 assms(3) finish_reader by blast
qed

lemma charge_refused: "charge n path g = (g', Some f) \<Longrightarrow> failed_at_most g g'"
proof (cases "gd_failure g")
  case None
  then show "charge n path g = (g', Some f) \<Longrightarrow> failed_at_most g g'"
    by (auto simp: charge_def Let_def failed_at_most_def split: if_splits)
qed (auto simp: charge_def)

lemma reader_Close_ended:
  assumes "reader_Close ans now r g = (r', g', out)"
  shows "ended r g r' g'"
proof -
  obtain r1 g1 where f: "finish now r g = (r1, g1)" by fastforce
  show ?thesis
  proof (cases ans)
    case None
    then show ?thesis using assms f ended_finish [of g g now r g1 r1] by (simp add: reader_Close_def)
  next
    case (Some e)
    let ?f = "fail (SourceError (so_id (rd_source r1)) (rd_collection r1) e) g1"
    have g': "g' = fst ?f" "r' = r1" using assms f Some by (auto simp: reader_Close_def failSource_def split_beta)
    have "failed_at_most (snd (finish now r g)) g'" "r' = fst (finish now r g)" unfolding g' f by simp_all
    then show ?thesis by (rule ended_finish [OF failed_at_most_refl])
  qed
qed

lemma reader_Next_cases:
  assumes "reader_Next marshal ans r g = (r', g', es, out)"
  obtains (end_of_read) e where "es = []" "out = Inl e" "ended r g r' g'"
  | (delivered) data encoded where "gd_failure g = None" "encodeRow marshal data = Inr encoded" "out = Inr data"
      "charge (int (length encoded)) (so_id (rd_source r) @ ''.'' @ rd_collection r) g = (g', None)" "r' = r\<lparr>rd_rows := rd_rows r + 1\<rparr>"
      "es = [Deliver (so_id (rd_source r)) (rd_collection r) data (length encoded)]"
proof -
  let ?now = "na_now ans"
  have fin: "fst (finish ?now r h) = r\<lparr>rd_finished := True\<rparr>" for h by (rule finish_reader)
  have end0: "thesis" if "es = []" "out = Inl e" "r' = r\<lparr>rd_finished := True\<rparr>" "failed_at_most g h" "failed_at_most (snd (finish ?now r h)) g'" for e h
    using end_of_read [OF that(1,2) ended_finish [OF that(4,5)]] that(3) by (simp add: fin)
  let ?fs = "\<lambda>e. fail (SourceError (so_id (rd_source r)) (rd_collection r) e) (snd (finish ?now r g))"
  have fail_end: "thesis" if "es = []" "out = Inl e" "r' = r\<lparr>rd_finished := True\<rparr>" "g' = fst (fail x (snd (finish ?now r g)))" for e x
    using end0 [OF that(1-3), of g] that(4) by simp
  show thesis
  proof (cases "gd_failure g")
    case (Some f)
    then show thesis using assms by (intro end0 [of "withoutEOFChain f" g]) (auto simp: reader_Next_def Let_def split_beta fin)
  next
    case None
    show thesis
    proof (cases "na_ctx ans")
      case (Some e)
      with None show thesis using assms by (intro fail_end [of "withoutEOFChain (snd (?fs e))"]) (auto simp: reader_Next_def Let_def split_beta fin failSource_def)
    next
      case ctx: None
      show thesis
      proof (cases "na_row ans")
        case (Inl e)
        consider "e = IoEOF" | "e \<noteq> IoEOF" "errors_Is e NoMoreRecords" | "e \<noteq> IoEOF" "\<not> errors_Is e NoMoreRecords" by blast
        then show thesis
        proof cases
          case 1
          with None ctx Inl show thesis using assms by (intro end0 [of NoMoreRecords g]) (auto simp: reader_Next_def Let_def split_beta fin)
        next
          case 2
          with None ctx Inl show thesis using assms by (intro end0 [of e g]) (auto simp: reader_Next_def Let_def split_beta fin)
        next
          case 3
          with None ctx Inl show thesis using assms
            by (intro fail_end [of "withoutEOFChain (snd (?fs e))"]) (auto simp: reader_Next_def Let_def split_beta fin failSource_def)
        qed
      next
        case (Inr data)
        show thesis
        proof (cases "encodeRow marshal data")
          case (Inl e)
          with None ctx Inr show thesis using assms
            by (intro fail_end [of "snd (fail RowNotEncodable (snd (finish ?now r g)))"]) (auto simp: reader_Next_def Let_def split_beta fin)
        next
          case (Inr encoded)
          let ?c = "charge (int (length encoded)) (so_id (rd_source r) @ ''.'' @ rd_collection r) g"
          show thesis
          proof (cases "snd ?c")
            case n: None
            with None ctx Inr \<open>na_row ans = Inr data\<close> show thesis using assms
              by (intro delivered) (auto simp: reader_Next_def Let_def split_beta prod_eq_iff split: prod.splits)
          next
            case (Some f)
            have "?c = (fst ?c, Some f)" using Some by (metis surjective_pairing)
            then have "failed_at_most g (fst ?c)" by (rule charge_refused)
            then show thesis using assms None ctx Inr \<open>na_row ans = Inr data\<close> Some
              by (intro end0 [of f "fst ?c"]) (auto simp: reader_Next_def Let_def split_beta fin)
          qed
        qed
      qed
    qed
  qed
qed


section \<open>What a call does\<close>

definition fresh_reader :: "db_source \<Rightarrow> guard \<Rightarrow> counting_reader \<Rightarrow> bool" where
  "fresh_reader src g rd \<longleftrightarrow> rd_source rd = src \<and> authorised g (so_id src) (rd_collection rd) \<and> rd_rows rd = 0 \<and> \<not> rd_finished rd"

definition known_source :: "router \<Rightarrow> db_source \<Rightarrow> bool" where
  "known_source rt src \<longleftrightarrow> src \<in> snd ` set (ro_sources rt)"

text \<open>A call that opens a read or asks for fields, as a relation between sessions.\<close>

definition leaf_step :: "router \<Rightarrow> session \<Rightarrow> session \<Rightarrow> bool" where
  "leaf_step rt s t \<longleftrightarrow> (\<exists>src g es rds. t = s\<lparr>se_guard := g, se_trace := se_trace s @ es, se_readers := se_readers s @ rds\<rparr> \<and>
     leaf_call src (se_guard s) g es \<and> (es \<noteq> [] \<or> rds \<noteq> [] \<longrightarrow> known_source rt src) \<and> (\<forall>rd \<in> set rds. fresh_reader src (se_guard s) rd))"

lemma leaf_stepI:
  assumes "leaf_call src (se_guard s) g es" and "known_source rt src" and "\<And>rd. rd \<in> set rds \<Longrightarrow> fresh_reader src (se_guard s) rd"
  shows "leaf_step rt s (s\<lparr>se_guard := g, se_trace := se_trace s @ es, se_readers := se_readers s @ rds\<rparr>)"
  unfolding leaf_step_def using assms by blast

lemma leaf_step_fail:
  assumes "failed_at_most (se_guard s) g"
  shows "leaf_step rt s (s\<lparr>se_guard := g\<rparr>)"
proof -
  have "leaf_call src (se_guard s) g []" for src using assms by (simp add: leaf_call_def)
  moreover have "s\<lparr>se_guard := g\<rparr> = s\<lparr>se_guard := g, se_trace := se_trace s @ [], se_readers := se_readers s @ []\<rparr>" by (cases s) simp
  ultimately show ?thesis unfolding leaf_step_def by (metis empty_iff list.set(1))
qed

lemma leaf_step_refl: "leaf_step rt s s"
  using leaf_step_fail [of s "se_guard s" rt] by (cases s) simp

lemma opened_step:
  assumes "leaf_execute src query ans (se_guard s) = out" and "known_source rt src"
  shows "leaf_step rt s (opened out s)"
proof -
  obtain g es r where out: "out = (g, es, r)" by (cases out) auto
  have "leaf_call src (se_guard s) g es" "\<And>rd. r = Inr rd \<Longrightarrow> fresh_reader src (se_guard s) rd"
    using leaf_execute_call [OF assms(1) [unfolded out]] by (auto simp: fresh_reader_def)
  then have "leaf_step rt s (s\<lparr>se_guard := g, se_trace := se_trace s @ es, se_readers := se_readers s @ (case r of Inl e \<Rightarrow> [] | Inr rd \<Rightarrow> [rd])\<rparr>)"
    using assms(2) by (intro leaf_stepI) (auto split: sum.splits)
  then show ?thesis by (simp add: opened_def out)
qed

lemma noted_step:
  assumes "leaf_JoinFields src base ans (se_guard s) = out" and "known_source rt src"
  shows "leaf_step rt s (noted out s)"
proof -
  obtain g es r where out: "out = (g, es, r)" by (cases out) auto
  have "leaf_step rt s (s\<lparr>se_guard := g, se_trace := se_trace s @ es, se_readers := se_readers s @ []\<rparr>)"
    using leaf_JoinFields_call [OF assms(1) [unfolded out]] assms(2) by (intro leaf_stepI) auto
  moreover have "noted out s = s\<lparr>se_guard := g, se_trace := se_trace s @ es, se_readers := se_readers s @ []\<rparr>" by (cases s) (simp add: noted_def out)
  ultimately show ?thesis by simp
qed

lemma run_leaf_cases:
  assumes "run_leaf rt database g = (g', r)"
  obtains (unknown) e where "r = Inl e" "failed_at_most g g'" | (known) src where "r = Inr src" "g' = g" "known_source rt src"
proof (cases "mget (ro_sources rt) database")
  case None
  then have "g' = fst (fail (UnknownDatabaseError database) g)" "r = Inl (snd (fail (UnknownDatabaseError database) g))"
    using assms by (cases "fail (UnknownDatabaseError database) g"; simp add: run_leaf_def)+
  then show thesis using unknown fail_at_most by metis
next
  case (Some src)
  then have "known_source rt src" by (auto simp: known_source_def dest!: map_of_SomeD intro: rev_image_eqI)
  moreover have "r = Inr src" "g' = g" using assms Some by (auto simp: run_leaf_def)
  ultimately show thesis using known by blast
qed

lemma leafOf_cases:
  assumes "leafOf rt base g = (g', r)"
  obtains (refused) e where "r = Inl e" "failed_at_most g g'" | (known) src where "r = Inr src" "g' = g" "known_source rt src"
proof (cases "\<exists>ref. base = RefValue ref")
  case True
  then obtain ref where "base = RefValue ref" by blast
  with assms have "run_leaf rt (if cr_database ref = [] then ro_fallback rt else cr_database ref) g = (g', r)" by (simp add: leafOf_def)
  then show thesis by (rule run_leaf_cases) (use refused known in blast)+
next
  case False
  then have "g' = fst (fail NotSingleSource g)" "r = Inl (snd (fail NotSingleSource g))"
    using assms by (cases base; cases "fail NotSingleSource g"; simp add: leafOf_def)+
  then show thesis using refused fail_at_most by metis
qed

lemma router_execute_step: "leaf_step rt s (opened (router_execute rt query ans (se_guard s)) s)"
proof (cases "\<exists>base joins sub. query = Structured (Some (base, joins)) sub")
  case True
  then obtain base joins sub where q: "query = Structured (Some (base, joins)) sub" by blast
  obtain g r where l: "leafOf rt base (se_guard s) = (g, r)" by fastforce
  then show ?thesis
  proof (cases rule: leafOf_cases)
    case (refused e)
    then have "opened (router_execute rt query ans (se_guard s)) s = s\<lparr>se_guard := g\<rparr>" using l q by (cases s) (simp add: router_execute_def opened_def)
    then show ?thesis using leaf_step_fail refused by metis
  next
    case (known src)
    then show ?thesis using l q opened_step [OF refl known(3), of s query ans] by (simp add: router_execute_def)
  qed
next
  case False
  then have "router_execute rt query ans (se_guard s) = (fst (fail NotSingleSource (se_guard s)), [], Inl (snd (fail NotSingleSource (se_guard s))))"
    by (cases query) (auto simp: router_execute_def split_beta split: option.split)
  then have "opened (router_execute rt query ans (se_guard s)) s = s\<lparr>se_guard := fst (fail NotSingleSource (se_guard s))\<rparr>" by (cases s) (simp add: opened_def)
  then show ?thesis using leaf_step_fail [OF fail_at_most] by metis
qed

lemma router_JoinFields_step: "leaf_step rt s (noted (router_JoinFields rt base ans (se_guard s)) s)"
proof (cases "base = DerivedValue")
  case True
  then have "noted (router_JoinFields rt base ans (se_guard s)) s = s" by (cases s) (simp add: router_JoinFields_def noted_def)
  then show ?thesis by (simp add: leaf_step_refl)
next
  case False
  obtain g r where l: "leafOf rt base (se_guard s) = (g, r)" by fastforce
  then show ?thesis
  proof (cases rule: leafOf_cases)
    case (refused e)
    then have "noted (router_JoinFields rt base ans (se_guard s)) s = s\<lparr>se_guard := g\<rparr>" using l False by (cases s) (simp add: router_JoinFields_def noted_def)
    then show ?thesis using leaf_step_fail refused by metis
  next
    case (known src)
    then show ?thesis using l False noted_step [OF refl known(3), of s base ans] by (simp add: router_JoinFields_def)
  qed
qed

lemma perform_cases:
  assumes "t = perform rt marshal c s"
  obtains (leaf) "leaf_step rt s t"
  | (end_of_read) i r g where "i < length (se_readers s)" "ended (se_readers s ! i) (se_guard s) r g"
      "t = s\<lparr>se_guard := g, se_readers := (se_readers s)[i := r]\<rparr>"
  | (delivered) i ans data encoded g r where "c = CallNext i ans" "i < length (se_readers s)" "r = se_readers s ! i" "gd_failure (se_guard s) = None" "encodeRow marshal data = Inr encoded"
      "charge (int (length encoded)) (so_id (rd_source r) @ ''.'' @ rd_collection r) (se_guard s) = (g, None)"
      "t = s\<lparr>se_guard := g, se_trace := se_trace s @ [Deliver (so_id (rd_source r)) (rd_collection r) data (length encoded)],
            se_readers := (se_readers s)[i := r\<lparr>rd_rows := rd_rows r + 1\<rparr>]\<rparr>"
proof (cases c)
  case (CallExecute query ans)
  then show thesis using leaf router_execute_step assms by simp
next
  case (CallResolved database query ans)
  obtain g r where l: "run_leaf rt database (se_guard s) = (g, r)" by fastforce
  then show thesis
  proof (cases rule: run_leaf_cases)
    case (unknown e)
    then show thesis using leaf leaf_step_fail assms CallResolved l by simp
  next
    case (known src)
    then show thesis using leaf opened_step [OF refl known(3)] assms CallResolved l by simp
  qed
next
  case (CallFields base ans)
  then show thesis using leaf router_JoinFields_step assms by simp
next
  case (CallResolvedFields database base ans)
  obtain g r where l: "run_leaf rt database (se_guard s) = (g, r)" by fastforce
  then show thesis
  proof (cases rule: run_leaf_cases)
    case (unknown e)
    then show thesis using leaf leaf_step_fail assms CallResolvedFields l by simp
  next
    case (known src)
    then show thesis using leaf noted_step [OF refl known(3)] assms CallResolvedFields l by simp
  qed
next
  case (CallNext i ans)
  show thesis
  proof (cases "i < length (se_readers s)")
    case True
    obtain r g es out where n: "reader_Next marshal ans (se_readers s ! i) (se_guard s) = (r, g, es, out)" using prod_cases4 by blast
    then have t: "t = s\<lparr>se_guard := g, se_trace := se_trace s @ es, se_readers := (se_readers s)[i := r]\<rparr>" using assms CallNext True by simp
    from n show thesis
    proof (cases rule: reader_Next_cases)
      case (end_of_read e)
      then have "t = s\<lparr>se_guard := g, se_readers := (se_readers s)[i := r]\<rparr>" using t by (cases s) simp
      then show thesis using that(2) True end_of_read(3) by blast
    next
      case (delivered data encoded)
      then show thesis using that(3) [OF CallNext True refl delivered(1,2,4)] t by simp
    qed
  qed (use assms CallNext leaf leaf_step_refl in simp)
next
  case (CallClose i ans now)
  show thesis
  proof (cases "i < length (se_readers s)")
    case True
    obtain r g out where n: "reader_Close ans now (se_readers s ! i) (se_guard s) = (r, g, out)" using prod_cases3 by blast
    then have "t = s\<lparr>se_guard := g, se_readers := (se_readers s)[i := r]\<rparr>" using assms CallClose True by simp
    then show thesis using end_of_read True reader_Close_ended [OF n] by blast
  qed (use assms CallClose leaf leaf_step_refl in simp)
qed


section \<open>Budgets\<close>

text \<open>
  What a budget of rows and bytes promises its client: a row that is admitted is counted, and the count is within the limits. The
  client's lemma is proved here once; the guard of a request and the cap of a result both provide it.
\<close>

definition in_budget :: "int \<Rightarrow> int \<Rightarrow> int \<Rightarrow> int \<Rightarrow> nat list \<Rightarrow> bool" where
  "in_budget rows bytes max_rows max_bytes ns \<longleftrightarrow>
     rows = int (length ns) \<and> bytes = int (sum_list ns) \<and> rows \<le> max_rows \<and> bytes \<le> max_bytes"

locale meter =
  fixes admit :: "nat \<Rightarrow> 's \<Rightarrow> 's option"
    and rows bytes :: "'s \<Rightarrow> int"
    and max_rows max_bytes :: "'s \<Rightarrow> int"
    and sound :: "nat \<Rightarrow> 's \<Rightarrow> bool"
  assumes admit_counts: "admit n s = Some t \<Longrightarrow> sound n s \<Longrightarrow> rows t = rows s + 1 \<and> bytes t = bytes s + int n"
    and admit_limits: "admit n s = Some t \<Longrightarrow> sound n s \<Longrightarrow> rows t \<le> max_rows t \<and> bytes t \<le> max_bytes t"
begin

lemma admit_in_budget:
  assumes "in_budget (rows s) (bytes s) (max_rows s) (max_bytes s) ns" and "admit n s = Some t" and "sound n s"
  shows "in_budget (rows t) (bytes t) (max_rows t) (max_bytes t) (ns @ [n])"
  using assms admit_counts [OF assms(2,3)] admit_limits [OF assms(2,3)] by (simp add: in_budget_def)

end

lemma add64_exact: "- (2 ^ 63) \<le> a + b \<Longrightarrow> a + b < 2 ^ 63 \<Longrightarrow> add64 a b = a + b"
  by (simp add: add64_def)

definition admit_source_row :: "string \<Rightarrow> nat \<Rightarrow> guard \<Rightarrow> guard option" where
  "admit_source_row path n g = (case charge (int n) path g of (g', None) \<Rightarrow> Some g' | _ \<Rightarrow> None)"

definition countable_row :: "nat \<Rightarrow> guard \<Rightarrow> bool" where
  "countable_row n g \<longleftrightarrow> n < 2 ^ 62 \<and> 0 \<le> gd_rows g \<and> gd_rows g < 2 ^ 62 \<and> 0 \<le> gd_bytes g \<and> gd_bytes g < 2 ^ 62"

lemma charge_admits:
  assumes "charge n path g = (g', None)"
  shows "gd_failure g = None" "g' = g\<lparr>gd_rows := add64 (gd_rows g) 1, gd_bytes := add64 (gd_bytes g) n\<rparr>"
    "add64 (gd_rows g) 1 \<le> li_maxSourceRows (gd_limits g)" "add64 (gd_bytes g) n \<le> li_maxSourceBytes (gd_limits g)"
  using assms by (auto simp: charge_def Let_def split: option.splits if_splits)

lemma countable_sums:
  assumes "countable_row n g"
  shows "add64 (gd_rows g) 1 = gd_rows g + 1" "add64 (gd_bytes g) (int n) = gd_bytes g + int n"
proof -
  have n: "int n < 2 ^ 62" using assms unfolding countable_row_def by (metis of_nat_less_iff of_nat_numeral of_nat_power)
  show "add64 (gd_rows g) 1 = gd_rows g + 1" "add64 (gd_bytes g) (int n) = gd_bytes g + int n"
    using assms n by (auto simp: countable_row_def intro!: add64_exact)
qed

interpretation source_budget: meter "admit_source_row path" gd_rows gd_bytes "\<lambda>g. li_maxSourceRows (gd_limits g)" "\<lambda>g. li_maxSourceBytes (gd_limits g)" countable_row
  for path
proof unfold_locales
  fix n s t
  assume a: "admit_source_row path n s = Some t" and c: "countable_row n s"
  have ch: "charge (int n) path s = (t, None)" using a by (auto simp: admit_source_row_def split: prod.splits option.splits)
  note sums = countable_sums [OF c] charge_admits [OF ch]
  show "gd_rows t = gd_rows s + 1 \<and> gd_bytes t = gd_bytes s + int n" using sums by simp
  show "gd_rows t \<le> li_maxSourceRows (gd_limits t) \<and> gd_bytes t \<le> li_maxSourceBytes (gd_limits t)" using sums by simp
qed

section \<open>Invariants of a session\<close>

fun row_sizes :: "effect list \<Rightarrow> nat list" where
  "row_sizes [] = []"
| "row_sizes (Deliver d c v n # es) = n # row_sizes es"
| "row_sizes (e # es) = row_sizes es"

lemma row_sizes_append [simp]: "row_sizes (es @ fs) = row_sizes es @ row_sizes fs"
  by (induction es rule: row_sizes.induct) auto

text \<open>The guard keeps its limits and its authorisation, and its counters are the rows handed on.\<close>

definition budget_inv :: "authority \<Rightarrow> limits \<Rightarrow> session \<Rightarrow> bool" where
  "budget_inv authorize l s \<longleftrightarrow> gd_authorize (se_guard s) = authorize \<and> gd_limits (se_guard s) = withDefaults l \<and>
     in_budget (gd_rows (se_guard s)) (gd_bytes (se_guard s)) (li_maxSourceRows (withDefaults l)) (li_maxSourceBytes (withDefaults l)) (row_sizes (se_trace s))"

definition small_limits :: "limits \<Rightarrow> bool" where
  "small_limits l \<longleftrightarrow> li_maxSourceRows l < 2 ^ 62 \<and> li_maxSourceBytes l < 2 ^ 62"

definition small_rows :: "(gvalue \<Rightarrow> marshal_error + string) \<Rightarrow> bool" where
  "small_rows marshal \<longleftrightarrow> (\<forall>v e. marshal v = Inr e \<longrightarrow> length e < 2 ^ 62)"

lemma small_defaults: "small_limits l \<Longrightarrow> small_limits (withDefaults l)"
  by (simp add: small_limits_def withDefaults_def DefaultLimits_def Let_def)

lemma positive_defaults: "0 < li_maxSourceRows (withDefaults l) \<and> 0 < li_maxSourceBytes (withDefaults l)"
  by (simp add: withDefaults_def DefaultLimits_def Let_def)

lemma leaf_stepE:
  assumes "leaf_step rt s t"
  obtains src g es rds where "t = s\<lparr>se_guard := g, se_trace := se_trace s @ es, se_readers := se_readers s @ rds\<rparr>" "leaf_call src (se_guard s) g es"
    "es \<noteq> [] \<or> rds \<noteq> [] \<longrightarrow> known_source rt src" "\<forall>rd \<in> set rds. fresh_reader src (se_guard s) rd"
  using assms unfolding leaf_step_def by blast

lemma leaf_call_sizes: "leaf_call src g g' es \<Longrightarrow> row_sizes es = []"
  by (auto simp: leaf_call_def)

lemma endedD:
  assumes "ended r g r' g'"
  shows "gd_authorize g' = gd_authorize g" "gd_limits g' = gd_limits g" "gd_rows g' = gd_rows g" "gd_bytes g' = gd_bytes g"
    "gd_failure g = Some f \<Longrightarrow> gd_failure g' = Some f" "rd_source r' = rd_source r" "rd_collection r' = rd_collection r"
  using assms by (auto simp: ended_def finish_keeps)

lemma encodeRow_small: "small_rows marshal \<Longrightarrow> encodeRow marshal v = Inr e \<Longrightarrow> length e < 2 ^ 62"
  by (auto simp: encodeRow_def small_rows_def split: sum.splits marshal_error.splits)

lemma budget_inv_step:
  assumes "small_limits l" and "small_rows marshal" and "budget_inv authorize l s"
  shows "budget_inv authorize l (perform rt marshal c s)"
proof -
  define t where "t = perform rt marshal c s"
  note inv = assms(3) [unfolded budget_inv_def]
  from t_def have "budget_inv authorize l t"
  proof (cases rule: perform_cases)
    case leaf
    then obtain src g es rds where t: "t = s\<lparr>se_guard := g, se_trace := se_trace s @ es, se_readers := se_readers s @ rds\<rparr>" and c: "leaf_call src (se_guard s) g es"
      by (rule leaf_stepE)
    from c have "failed_at_most (se_guard s) g" by (simp add: leaf_call_def)
    then show ?thesis using inv leaf_call_sizes [OF c] by (simp add: budget_inv_def t failed_at_mostD(1-4))
  next
    case (end_of_read i r g)
    then show ?thesis using inv endedD(1-4) [OF end_of_read(2)] by (simp add: budget_inv_def)
  next
    case (delivered i ans data encoded g r)
    let ?g = "se_guard s" and ?n = "length encoded"
    have lim: "small_limits (withDefaults l)" by (rule small_defaults [OF assms(1)])
    have c: "countable_row ?n ?g"
      using inv lim encodeRow_small [OF assms(2) delivered(5)] by (auto simp: countable_row_def in_budget_def small_limits_def)
    have a: "admit_source_row (so_id (rd_source r) @ ''.'' @ rd_collection r) ?n ?g = Some g" using delivered(6) by (simp add: admit_source_row_def)
    have w: "in_budget (gd_rows ?g) (gd_bytes ?g) (li_maxSourceRows (gd_limits ?g)) (li_maxSourceBytes (gd_limits ?g)) (row_sizes (se_trace s))"
      using inv by simp
    show ?thesis using source_budget.admit_in_budget [OF w a c] inv charge_admits(2) [OF delivered(6)] by (simp add: budget_inv_def delivered(7))
  qed
  then show ?thesis by (simp add: t_def)
qed

interpretation budget_system: step_system "session_step rt marshal" "\<lambda>s. small_limits l \<and> small_rows marshal \<and> budget_inv authorize l s"
  for rt marshal authorize l
  by unfold_locales (auto elim!: session_stepE intro: budget_inv_step)

lemma budget_inv_new: "budget_inv authorize l (new_session authorize l)"
  using positive_defaults [of l] by (simp add: budget_inv_def new_session_def NewGuard_def in_budget_def)

lemma budget_inv_run:
  assumes "small_limits l" and "small_rows marshal"
  shows "budget_inv authorize l (fold (perform rt marshal) cs (new_session authorize l))"
  using budget_system.run_inv [OF fold_session] assms budget_inv_new by blast

text \<open>Whatever reachable_session a source was authorised, on a source of the preflight.\<close>

fun effect_allowed :: "router \<Rightarrow> authority \<Rightarrow> effect \<Rightarrow> bool" where
  "effect_allowed rt authorize (Read d c) \<longleftrightarrow> (\<exists>ok. authorize = Some ok \<and> ok d c) \<and> (\<exists>src. known_source rt src \<and> so_id src = d)"
| "effect_allowed rt authorize (LoadFields d c) \<longleftrightarrow> (\<exists>ok. authorize = Some ok \<and> ok d c) \<and> (\<exists>src. known_source rt src \<and> so_id src = d \<and> \<not> so_policies src)"
| "effect_allowed rt authorize (Deliver d c v n) \<longleftrightarrow> (\<exists>ok. authorize = Some ok \<and> ok d c) \<and> (\<exists>src. known_source rt src \<and> so_id src = d)"

definition authority_inv :: "router \<Rightarrow> authority \<Rightarrow> session \<Rightarrow> bool" where
  "authority_inv rt authorize s \<longleftrightarrow> gd_authorize (se_guard s) = authorize \<and> list_all (effect_allowed rt authorize) (se_trace s) \<and>
     list_all (\<lambda>r. known_source rt (rd_source r) \<and> (\<exists>ok. authorize = Some ok \<and> ok (so_id (rd_source r)) (rd_collection r))) (se_readers s)"

lemma authorised_some: "authorised g d c \<Longrightarrow> gd_authorize g = authorize \<Longrightarrow> \<exists>ok. authorize = Some ok \<and> ok d c"
  by (auto simp: authorised_def split: option.splits)

lemma list_all_update: "list_all P xs \<Longrightarrow> P x \<Longrightarrow> list_all P (xs[i := x])"
  by (auto simp: list_all_iff dest!: set_update_subset_insert [THEN subsetD])

lemma authority_inv_step:
  assumes "authority_inv rt authorize s"
  shows "authority_inv rt authorize (perform rt marshal c s)"
proof -
  define t where "t = perform rt marshal c s"
  let ?ok = "\<lambda>d c. \<exists>ok. authorize = Some ok \<and> ok d c"
  let ?reader = "\<lambda>r. known_source rt (rd_source r) \<and> ?ok (so_id (rd_source r)) (rd_collection r)"
  note inv = assms [unfolded authority_inv_def]
  from t_def have "authority_inv rt authorize t"
  proof (cases rule: perform_cases)
    case leaf
    then obtain src g es rds where t: "t = s\<lparr>se_guard := g, se_trace := se_trace s @ es, se_readers := se_readers s @ rds\<rparr>" and c: "leaf_call src (se_guard s) g es"
      and r: "es \<noteq> [] \<or> rds \<noteq> [] \<longrightarrow> known_source rt src" and f: "\<forall>rd \<in> set rds. fresh_reader src (se_guard s) rd"
      by (rule leaf_stepE)
    have g: "gd_authorize g = authorize" using c inv by (auto simp: leaf_call_def dest: failed_at_mostD(1))
    have es: "list_all (effect_allowed rt authorize) es"
    proof (cases "es = []")
      case False
      then obtain col where a: "authorised (se_guard s) (so_id src) col" and e: "es = [Read (so_id src) col] \<or> es = [LoadFields (so_id src) col] \<and> \<not> so_policies src"
        using c by (auto simp: leaf_call_def)
      have "?ok (so_id src) col" using authorised_some [OF a] inv by blast
      then show ?thesis using e r False by auto
    qed simp
    have rds: "list_all ?reader rds"
    proof -
      have "?reader rd" if "rd \<in> set rds" for rd
      proof -
        have fr: "fresh_reader src (se_guard s) rd" using f that by blast
        have "?ok (so_id src) (rd_collection rd)" using authorised_some [of "se_guard s" "so_id src" "rd_collection rd" authorize] fr inv by (simp add: fresh_reader_def)
        then show ?thesis using fr r that by (auto simp: fresh_reader_def)
      qed
      then show ?thesis by (simp add: list_all_iff)
    qed
    show ?thesis using inv g es rds by (simp add: authority_inv_def t)
  next
    case (end_of_read i r g)
    have "?reader (se_readers s ! i)" using inv end_of_read(1) by (simp add: list_all_length)
    then have "?reader r" using endedD(6,7) [OF end_of_read(2)] by simp
    then have "list_all ?reader ((se_readers s)[i := r])" using inv by (intro list_all_update) simp_all
    then show ?thesis using inv endedD(1) [OF end_of_read(2)] by (simp add: authority_inv_def end_of_read(3))
  next
    case (delivered i ans data encoded g r)
    have r: "?reader r" using inv delivered(2,3) by (simp add: list_all_length)
    then have "?reader (r\<lparr>rd_rows := rd_rows r + 1\<rparr>)" by simp
    then have "list_all ?reader ((se_readers s)[i := r\<lparr>rd_rows := rd_rows r + 1\<rparr>])" using inv by (intro list_all_update) simp_all
    then show ?thesis using inv r charge_admits(2) [OF delivered(6)] by (auto simp: authority_inv_def delivered(7))
  qed
  then show ?thesis by (simp add: t_def)
qed

interpretation authority_system: step_system "session_step rt marshal" "authority_inv rt authorize" for rt marshal authorize
  by unfold_locales (auto elim!: session_stepE intro: authority_inv_step)

text \<open>Once a failure is recorded, no call reaches a source and the failure stays.\<close>

definition failed_with :: "join_error \<Rightarrow> effect list \<Rightarrow> session \<Rightarrow> bool" where
  "failed_with f trace s \<longleftrightarrow> gd_failure (se_guard s) = Some f \<and> se_trace s = trace"

lemma failed_step:
  assumes "failed_with f trace s"
  shows "failed_with f trace (perform rt marshal c s)"
proof -
  define t where "t = perform rt marshal c s"
  from t_def have "failed_with f trace t"
  proof (cases rule: perform_cases)
    case leaf
    then obtain src g es rds where t: "t = s\<lparr>se_guard := g, se_trace := se_trace s @ es, se_readers := se_readers s @ rds\<rparr>" and c: "leaf_call src (se_guard s) g es"
      by (rule leaf_stepE)
    have "es = []" "g = se_guard s" using c assms by (auto simp: leaf_call_def failed_with_def dest: failed_at_mostD(7))
    then show ?thesis using assms by (simp add: t failed_with_def)
  next
    case (end_of_read i r g)
    then show ?thesis using assms endedD(5) [OF end_of_read(2)] by (simp add: failed_with_def)
  next
    case (delivered i ans data encoded g r)
    then show ?thesis using assms by (simp add: failed_with_def)
  qed
  then show ?thesis by (simp add: t_def)
qed

interpretation failed_system: step_system "session_step rt marshal" "failed_with f trace" for rt marshal f trace
  by unfold_locales (auto elim!: session_stepE intro: failed_step)


section \<open>Statistics\<close>

definition stat_key :: "source_stats \<Rightarrow> string \<times> string" where
  "stat_key x = (st_database x, st_collection x)"

definition reader_key :: "counting_reader \<Rightarrow> string \<times> string" where
  "reader_key r = (so_id (rd_source r), rd_collection r)"

text \<open>The index of the statistics holds each collection once, at its place.\<close>

definition indexed :: "guard \<Rightarrow> bool" where
  "indexed g \<longleftrightarrow> (\<forall>k i. mget (gd_index g) k = Some i \<longleftrightarrow> i < length (gd_stats g) \<and> stat_key (gd_stats g ! i) = k)"

definition stat_rows :: "guard \<Rightarrow> string \<times> string \<Rightarrow> int" where
  "stat_rows g k = (case mget (gd_index g) k of None \<Rightarrow> 0 | Some i \<Rightarrow> st_rows (gd_stats g ! i))"

fun rows_of :: "string \<times> string \<Rightarrow> effect list \<Rightarrow> int" where
  "rows_of k [] = 0"
| "rows_of k (Deliver d c v n # es) = (if k = (d, c) then 1 else 0) + rows_of k es"
| "rows_of k (e # es) = rows_of k es"

lemma rows_of_append [simp]: "rows_of k (es @ fs) = rows_of k es + rows_of k fs"
  by (induction k es rule: rows_of.induct) auto

definition open_rows :: "string \<times> string \<Rightarrow> counting_reader \<Rightarrow> int" where
  "open_rows k r = (if \<not> rd_finished r \<and> reader_key r = k then rd_rows r else 0)"

definition stats_inv :: "session \<Rightarrow> bool" where
  "stats_inv s \<longleftrightarrow> indexed (se_guard s) \<and> (\<forall>k. stat_rows (se_guard s) k + sum_list (map (open_rows k) (se_readers s)) = rows_of k (se_trace s))"

lemma sum_list_replace: "i < length xs \<Longrightarrow> sum_list (map f (xs[i := x])) = sum_list (map f xs) - f (xs ! i) + (f x :: int)"
proof (induction xs arbitrary: i)
  case (Cons a xs)
  then show ?case by (cases i) auto
qed simp

lemma indexedD: "indexed g \<Longrightarrow> mget (gd_index g) k = Some i \<Longrightarrow> i < length (gd_stats g) \<and> stat_key (gd_stats g ! i) = k"
  unfolding indexed_def by blast

lemma indexed_unique: "indexed g \<Longrightarrow> i < length (gd_stats g) \<Longrightarrow> mget (gd_index g) (stat_key (gd_stats g ! i)) = Some i"
  unfolding indexed_def by blast

text \<open>The row a read is added to, made when the collection is new.\<close>

definition stat_slot :: "string \<Rightarrow> string \<Rightarrow> guard \<Rightarrow> nat \<times> guard" where
  "stat_slot d c g =
     (case mget (gd_index g) (d, c) of
        Some i \<Rightarrow> (i, g)
      | None \<Rightarrow> (length (gd_stats g), g\<lparr>gd_index := mput (d, c) (length (gd_stats g)) (gd_index g),
          gd_stats := gd_stats g @ [\<lparr>st_database = d, st_collection = c, st_rows = 0, st_elapsed = 0, st_protected = False\<rparr>]\<rparr>))"

lemma stat_slot_indexed:
  assumes "indexed g" and "stat_slot d c g = (i, h)"
  shows "indexed h \<and> mget (gd_index h) (d, c) = Some i \<and> (\<forall>k. stat_rows h k = stat_rows g k)"
proof (cases "mget (gd_index g) (d, c)")
  case (Some j)
  then show ?thesis using assms by (auto simp: stat_slot_def)
next
  case None
  let ?new = "\<lparr>st_database = d, st_collection = c, st_rows = 0, st_elapsed = 0, st_protected = False\<rparr>"
  have h: "gd_index h = mput (d, c) (length (gd_stats g)) (gd_index g)" "gd_stats h = gd_stats g @ [?new]" and i: "i = length (gd_stats g)"
    using assms(2) None by (auto simp: stat_slot_def)
  have new: "stat_key (gd_stats g ! j) \<noteq> (d, c)" if "j < length (gd_stats g)" for j
    using indexed_unique [OF assms(1) that] None by auto
  have "indexed h"
    unfolding indexed_def h
  proof (intro allI)
    fix k j
    show "mget (mput (d, c) (length (gd_stats g)) (gd_index g)) k = Some j \<longleftrightarrow> j < length (gd_stats g @ [?new]) \<and> stat_key ((gd_stats g @ [?new]) ! j) = k"
    proof (cases "k = (d, c)")
      case True
      then show ?thesis using new by (auto simp: update_conv' nth_append stat_key_def less_Suc_eq)
    next
      case False
      have "mget (gd_index g) k = Some j \<longleftrightarrow> j < length (gd_stats g) \<and> stat_key (gd_stats g ! j) = k" using assms(1) unfolding indexed_def by blast
      moreover have "stat_key ?new \<noteq> k" using False by (simp add: stat_key_def)
      ultimately show ?thesis using False by (auto simp: update_conv' nth_append less_Suc_eq)
    qed
  qed
  moreover have "stat_rows h k = stat_rows g k" for k
  proof (cases "k = (d, c)")
    case True
    then show ?thesis using None by (simp add: stat_rows_def h update_conv')
  next
    case False
    then show ?thesis using indexedD [OF assms(1)] by (auto simp: stat_rows_def h update_conv' nth_append split: option.splits)
  qed
  ultimately show ?thesis by (simp add: h i update_conv')
qed

lemma record_read_slot:
  assumes "stat_slot d c g = (i, h)"
  shows "record_read d c p n el g = h\<lparr>gd_stats := (gd_stats h)[i := (gd_stats h ! i)\<lparr>st_rows := st_rows (gd_stats h ! i) + n,
    st_elapsed := st_elapsed (gd_stats h ! i) + el, st_protected := (st_protected (gd_stats h ! i) \<or> p)\<rparr>]\<rparr>"
  using assms by (auto simp: record_read_def stat_slot_def Let_def split: option.splits)

lemma record_read_stats:
  assumes "indexed g"
  shows "indexed (record_read d c p n el g) \<and> (\<forall>k. stat_rows (record_read d c p n el g) k = stat_rows g k + (if k = (d, c) then n else 0))"
proof -
  obtain i h where slot: "stat_slot d c g = (i, h)" by fastforce
  have h: "indexed h" "mget (gd_index h) (d, c) = Some i" "\<And>k. stat_rows h k = stat_rows g k" using stat_slot_indexed [OF assms slot] by blast+
  have i: "i < length (gd_stats h)" "stat_key (gd_stats h ! i) = (d, c)" using indexedD [OF h(1,2)] by blast+
  define x where "x = (gd_stats h ! i)\<lparr>st_rows := st_rows (gd_stats h ! i) + n, st_elapsed := st_elapsed (gd_stats h ! i) + el, st_protected := (st_protected (gd_stats h ! i) \<or> p)\<rparr>"
  have x: "stat_key x = (d, c)" "st_rows x = st_rows (gd_stats h ! i) + n" using i by (simp_all add: x_def stat_key_def)
  have r: "record_read d c p n el g = h\<lparr>gd_stats := (gd_stats h)[i := x]\<rparr>" unfolding record_read_slot [OF slot] x_def ..
  have key: "stat_key ((gd_stats h)[i := x] ! j) = stat_key (gd_stats h ! j)" if "j < length (gd_stats h)" for j
    using that i x by (cases "j = i") auto
  have "indexed (h\<lparr>gd_stats := (gd_stats h)[i := x]\<rparr>)" unfolding indexed_def using h(1) key by (auto simp: indexed_def)
  moreover have "stat_rows (h\<lparr>gd_stats := (gd_stats h)[i := x]\<rparr>) k = stat_rows g k + (if k = (d, c) then n else 0)" for k
  proof (cases "k = (d, c)")
    case True
    then show ?thesis using h(2) i x(2) h(3) [of k] by (simp add: stat_rows_def)
  next
    case False
    show ?thesis
    proof (cases "mget (gd_index h) k")
      case None
      then show ?thesis using h(3) [of k] False by (simp add: stat_rows_def)
    next
      case (Some j)
      then have "j \<noteq> i" using False i indexedD [OF h(1) Some] by auto
      then show ?thesis using h(3) [of k] False Some by (simp add: stat_rows_def)
    qed
  qed
  ultimately show ?thesis unfolding r by blast
qed

lemma stats_only: "gd_stats g' = gd_stats g \<Longrightarrow> gd_index g' = gd_index g \<Longrightarrow> indexed g' = indexed g \<and> stat_rows g' = stat_rows g"
  by (simp add: indexed_def stat_rows_def fun_eq_iff split: option.split)

lemma ended_stats:
  assumes "ended r g r' g'" and "indexed g"
  shows "indexed g' \<and> (\<forall>k. stat_rows g' k + open_rows k r' = stat_rows g k + open_rows k r)"
proof -
  obtain now f where r': "r' = r\<lparr>rd_finished := True\<rparr>" and g': "g' = (snd (finish now r g))\<lparr>gd_failure := f\<rparr>" using assms(1) by (auto simp: ended_def)
  have s: "indexed g' = indexed (snd (finish now r g))" "stat_rows g' = stat_rows (snd (finish now r g))" using stats_only [of g' "snd (finish now r g)"] by (simp_all add: g')
  show ?thesis
  proof (cases "rd_finished r")
    case True
    then show ?thesis using assms(2) s by (simp add: finish_def r' open_rows_def)
  next
    case False
    then have "snd (finish now r g) = record_read (so_id (rd_source r)) (rd_collection r) (so_policies (rd_source r)) (rd_rows r) (now - rd_started r) g"
      by (simp add: finish_def)
    then show ?thesis using record_read_stats [OF assms(2)] s False by (auto simp: r' open_rows_def reader_key_def)
  qed
qed

text \<open>A run that does not read on from a reader that has ended.\<close>

fun reads_on :: "call \<Rightarrow> session \<Rightarrow> bool" where
  "reads_on (CallNext i ans) s \<longleftrightarrow> i < length (se_readers s) \<and> rd_finished (se_readers s ! i)"
| "reads_on c s \<longleftrightarrow> False"

fun orderly :: "router \<Rightarrow> (gvalue \<Rightarrow> marshal_error + string) \<Rightarrow> call list \<Rightarrow> session \<Rightarrow> bool" where
  "orderly rt marshal [] s \<longleftrightarrow> True"
| "orderly rt marshal (c # cs) s \<longleftrightarrow> \<not> reads_on c s \<and> orderly rt marshal cs (perform rt marshal c s)"

lemma stats_inv_step:
  assumes "stats_inv s" and "\<not> reads_on c s"
  shows "stats_inv (perform rt marshal c s)"
proof -
  define t where "t = perform rt marshal c s"
  note inv = assms(1) [unfolded stats_inv_def]
  from t_def have "stats_inv t"
  proof (cases rule: perform_cases)
    case leaf
    then obtain src g es rds where t: "t = s\<lparr>se_guard := g, se_trace := se_trace s @ es, se_readers := se_readers s @ rds\<rparr>" and c: "leaf_call src (se_guard s) g es"
      and f: "\<forall>rd \<in> set rds. fresh_reader src (se_guard s) rd"
      by (rule leaf_stepE)
    have g: "gd_stats g = gd_stats (se_guard s)" "gd_index g = gd_index (se_guard s)" using c by (auto simp: leaf_call_def dest: failed_at_mostD(5,6))
    have "rows_of k es = 0" for k using c by (auto simp: leaf_call_def)
    moreover have "sum_list (map (open_rows k) rds) = 0" for k using f by (induction rds) (auto simp: fresh_reader_def open_rows_def)
    ultimately show ?thesis using inv stats_only [OF g] by (simp add: stats_inv_def t)
  next
    case (end_of_read i r g)
    have "sum_list (map (open_rows k) ((se_readers s)[i := r])) = sum_list (map (open_rows k) (se_readers s)) - open_rows k (se_readers s ! i) + open_rows k r" for k
      by (rule sum_list_replace [OF end_of_read(1)])
    moreover have "indexed g" "\<And>k. stat_rows g k + open_rows k r = stat_rows (se_guard s) k + open_rows k (se_readers s ! i)"
      using ended_stats [OF end_of_read(2)] inv by blast+
    moreover have "stat_rows (se_guard s) k + sum_list (map (open_rows k) (se_readers s)) = rows_of k (se_trace s)" for k using inv by blast
    ultimately show ?thesis by (simp add: stats_inv_def end_of_read(3)) (smt (verit, best))
  next
    case (delivered i ans data encoded g r)
    have g: "gd_stats g = gd_stats (se_guard s)" "gd_index g = gd_index (se_guard s)" using charge_admits(2) [OF delivered(6)] by simp_all
    have "\<not> rd_finished r" using assms(2) delivered(1-3) by simp
    then have "open_rows k (r\<lparr>rd_rows := rd_rows r + 1\<rparr>) = open_rows k r + (if k = reader_key r then 1 else 0)" for k by (auto simp: open_rows_def reader_key_def)
    moreover have "sum_list (map (open_rows k) ((se_readers s)[i := r\<lparr>rd_rows := rd_rows r + 1\<rparr>])) =
        sum_list (map (open_rows k) (se_readers s)) - open_rows k r + open_rows k (r\<lparr>rd_rows := rd_rows r + 1\<rparr>)" for k
      using sum_list_replace [OF delivered(2)] delivered(3) by simp
    ultimately show ?thesis using inv stats_only [OF g] by (simp add: stats_inv_def delivered(7) reader_key_def)
  qed
  then show ?thesis by (simp add: t_def)
qed

lemma stats_inv_run: "stats_inv s \<Longrightarrow> orderly rt marshal cs s \<Longrightarrow> stats_inv (fold (perform rt marshal) cs s)"
  by (induction cs arbitrary: s) (auto intro: stats_inv_step)

lemma stats_inv_new: "stats_inv (new_session authorize l)"
  by (simp add: stats_inv_def new_session_def NewGuard_def indexed_def stat_rows_def)


lemma finished_rows: "list_all rd_finished rs \<Longrightarrow> sum_list (map (open_rows k) rs) = 0"
  by (induction rs) (auto simp: open_rows_def)

section \<open>Properties\<close>

text \<open>
  C14. The request budget holds whatever DALgo asks of the leaves, on however many readers and in whatever order: the rows handed on
  from all sources together are at most the row limit, and their encoded bytes at most the byte limit.
\<close>

theorem source_budget_holds:
  assumes "small_limits l" and "small_rows marshal"
  shows "int (length (row_sizes (se_trace (fold (perform rt marshal) cs (new_session authorize l))))) \<le> li_maxSourceRows (withDefaults l) \<and>
    int (sum_list (row_sizes (se_trace (fold (perform rt marshal) cs (new_session authorize l))))) \<le> li_maxSourceBytes (withDefaults l)"
  using budget_inv_run [OF assms, of authorize rt cs] by (simp add: budget_inv_def in_budget_def)

text \<open>
  Nothing reaches a source that was not authorised. Every read that was begun, every list of fields that was loaded and every row
  handed on is of a collection the caller may read, in a database of the preflight; and a source with access policies is never
  asked for its fields.
\<close>

theorem reads_are_authorised:
  "list_all (effect_allowed rt authorize) (se_trace (fold (perform rt marshal) cs (new_session authorize l)))"
proof -
  have "authority_inv rt authorize (new_session authorize l)" by (simp add: authority_inv_def new_session_def NewGuard_def)
  from authority_system.run_inv [OF fold_session this] show ?thesis by (simp add: authority_inv_def)
qed


text \<open>
  The statistics of a request are what its readers delivered: once every reader has ended, and none was read on after its end,
  there is one entry for a collection, it counts the rows handed on from it, and no collection that delivered a row is missing.
\<close>

theorem statistics_count_deliveries:
  assumes "orderly rt marshal cs (new_session authorize l)"
    and "list_all rd_finished (se_readers (fold (perform rt marshal) cs (new_session authorize l)))"
  shows "map st_rows (gd_stats (se_guard (fold (perform rt marshal) cs (new_session authorize l)))) =
      map (\<lambda>x. rows_of (stat_key x) (se_trace (fold (perform rt marshal) cs (new_session authorize l))))
        (gd_stats (se_guard (fold (perform rt marshal) cs (new_session authorize l)))) \<and>
    distinct (map stat_key (gd_stats (se_guard (fold (perform rt marshal) cs (new_session authorize l))))) \<and>
    (\<forall>k. k \<in> stat_key ` set (gd_stats (se_guard (fold (perform rt marshal) cs (new_session authorize l)))) \<or>
       rows_of k (se_trace (fold (perform rt marshal) cs (new_session authorize l))) = 0)"
proof -
  define s where "s = fold (perform rt marshal) cs (new_session authorize l)"
  let ?g = "se_guard s"
  have inv: "stats_inv s" unfolding s_def by (rule stats_inv_run [OF stats_inv_new assms(1)])
  then have ix: "indexed ?g" by (simp add: stats_inv_def)
  have "sum_list (map (open_rows k) (se_readers s)) = 0" for k
    by (rule finished_rows [OF assms(2) [folded s_def]])
  then have rows: "stat_rows ?g k = rows_of k (se_trace s)" for k using inv by (cases k) (simp add: stats_inv_def)
  have "st_rows x = rows_of (stat_key x) (se_trace s)" if x: "x \<in> set (gd_stats ?g)" for x
  proof -
    obtain i where i: "i < length (gd_stats ?g)" "x = gd_stats ?g ! i" using x by (auto simp: in_set_conv_nth)
    then have "stat_rows ?g (stat_key x) = st_rows x" using indexed_unique [OF ix] by (simp add: stat_rows_def)
    then show ?thesis using rows by simp
  qed
  moreover have "distinct (map stat_key (gd_stats ?g))"
    unfolding distinct_conv_nth using indexed_unique [OF ix] by (auto, metis option.inject)
  moreover have "k \<in> stat_key ` set (gd_stats ?g) \<or> rows_of k (se_trace s) = 0" for k
  proof (cases "mget (gd_index ?g) k")
    case None
    then show ?thesis using rows [of k] by (simp add: stat_rows_def)
  next
    case (Some i)
    then show ?thesis using indexedD [OF ix Some] by (metis imageI nth_mem)
  qed
  ultimately show ?thesis unfolding s_def [symmetric] by simp
qed

section \<open>Witnesses\<close>

definition shop :: db_source where
  "shop = \<lparr>so_id = ''shop'', so_engine = ''sqlite'', so_policies = False, so_nativeReadOnly = None, so_canQuery = Some True, so_hasExecutor = True, so_servesFields = False\<rparr>"

definition shop_router :: router where
  "shop_router = newRouter [(''shop'', shop)] [''shop'']"

definition shop_authorize :: authority where
  "shop_authorize = Some (\<lambda>d c. d = ''shop'' \<and> c = ''orders'')"

definition two_byte_rows :: "gvalue \<Rightarrow> marshal_error + string" where
  "two_byte_rows v = Inr ''{}''"

definition one_row_limits :: limits where
  "one_row_limits = \<lparr>li_maxSourceRows = 1, li_maxSourceBytes = 0, li_timeout = 0\<rparr>"

definition row_ready :: next_answer where
  "row_ready = \<lparr>na_ctx = None, na_row = Inr (VObj []), na_now = 5\<rparr>"

definition open_orders :: call where
  "open_orders = CallExecute (Structured (Some (RefValue (sample_ref ''orders'' []), 0)) False) \<lparr>oa_ctx = None, oa_error = None, oa_now = 1\<rparr>"

text \<open>The read is opened, one row fits, the second one does not, and the reader is closed.\<close>

definition over_budget :: "call list" where
  "over_budget = [open_orders, CallNext 0 row_ready, CallNext 0 row_ready, CallClose 0 None 9]"

lemmas guard_run = perform.simps opened_def router_execute_def leafOf_def run_leaf_def leaf_execute_def leaf_resolve_def leaf_collection_def authorised_def
  reader_Next_def reader_Close_def finish_def record_read_def encodeRow_def charge_def new_session_def NewGuard_def Let_def
  shop_def shop_router_def newRouter_def shop_authorize_def two_byte_rows_def row_ready_def open_orders_def sample_ref_def

lemma one_row_defaults: "li_maxSourceRows (withDefaults one_row_limits) = 1" "li_maxSourceBytes (withDefaults one_row_limits) = 64 * 2 ^ 20"
  by (simp_all add: withDefaults_def one_row_limits_def DefaultLimits_def)

lemma over_budget_run:
  defines "s \<equiv> fold (perform shop_router two_byte_rows) over_budget (new_session shop_authorize one_row_limits)"
  shows "se_trace s = [Read ''shop'' ''orders'', Deliver ''shop'' ''orders'' (VObj []) 2]"
    "gd_failure (se_guard s) = Some (BudgetError \<lparr>bg_name = BudgetSourceRows, bg_limit = 1, bg_route = RouteInMemory, bg_path = ''shop.orders''\<rparr>)"
    "list_all rd_finished (se_readers s)"
    "map st_rows (gd_stats (se_guard s)) = [1]" "map stat_key (gd_stats (se_guard s)) = [(''shop'', ''orders'')]"
  unfolding s_def over_budget_def by (simp_all add: guard_run one_row_defaults add64_def stat_key_def)

lemma small_sample: "small_limits one_row_limits" "small_rows two_byte_rows"
  by (simp_all add: small_limits_def one_row_limits_def small_rows_def two_byte_rows_def)

theorem source_budget_holds_witness:
  "row_sizes (se_trace (fold (perform shop_router two_byte_rows) over_budget (new_session shop_authorize one_row_limits))) = [2] \<and>
   (1 :: int) \<le> li_maxSourceRows (withDefaults one_row_limits)"
  using source_budget_holds [OF small_sample, of shop_router over_budget shop_authorize] by (simp add: over_budget_run)


text \<open>The same read with room for it: two rows, and the end of the stream.\<close>

definition in_full :: "call list" where
  "in_full = [open_orders, CallNext 0 row_ready, CallNext 0 row_ready, CallNext 0 (row_ready\<lparr>na_row := Inl IoEOF\<rparr>), CallClose 0 None 9]"

lemma in_full_run:
  defines "s \<equiv> fold (perform shop_router two_byte_rows) in_full (new_session shop_authorize DefaultLimits)"
  shows "orderly shop_router two_byte_rows in_full (new_session shop_authorize DefaultLimits)"
    "list_all rd_finished (se_readers s)" "map st_rows (gd_stats (se_guard s)) = [2]"
    "gd_stats (se_guard s) = [\<lparr>st_database = ''shop'', st_collection = ''orders'', st_rows = 2, st_elapsed = 4, st_protected = False\<rparr>]"
  unfolding s_def in_full_def by (simp_all add: guard_run withDefaults_def DefaultLimits_def add64_def stat_key_def)

theorem statistics_count_deliveries_witness:
  "rows_of (''shop'', ''orders'') (se_trace (fold (perform shop_router two_byte_rows) in_full (new_session shop_authorize DefaultLimits))) = 2"
  using statistics_count_deliveries [OF in_full_run(1,2)] in_full_run(3,4) by (simp add: stat_key_def)

end
