(* ===== verification/Join_Execute.thy ===== *)
theory Join_Execute
  imports Join_Guard
begin

text \<open>
  \<^verbatim>\<open>src/pkg/joinexec/execute.go\<close>: how a relational document is run. The preflight (the walk, the databases of the sources, the caller's rights, the
  registry, the engines), the choice of the route, and the read: through the guarded leaves on the in-memory route, in one read
  transaction on the database route.

  What the program does not decide is an input: DALgo's calls of the leaves and the answers of its reader (\<open>answers\<close>), the answer of the
  admission, the callback's errors and the request's context. The check of the scopes (\<^verbatim>\<open>scope.go\<close>) and the rewriting of aliases
  (\<^verbatim>\<open>aliases.go\<close>) are inputs too: a list of calls they make on the router and an error. A request leaves its effects in order.
\<close>

section \<open>Configuration\<close>

record config =
  cf_joinEngines :: "string list"
  cf_nativeEngines :: "string list"
  cf_nativePGFields :: bool
  cf_admission :: bool

datatype exec_option = WithJoinEngines "string list" | WithNativeEngines "string list" | WithNativePostgresFields | WithAdmission bool

fun apply_option :: "exec_option \<Rightarrow> config \<Rightarrow> config" where
  "apply_option (WithJoinEngines engines) c = (if engines \<noteq> [] then c\<lparr>cf_joinEngines := engines\<rparr> else c)"
| "apply_option (WithNativeEngines engines) c = (if engines \<noteq> [] then c\<lparr>cf_nativeEngines := engines\<rparr> else c)"
| "apply_option WithNativePostgresFields c = c\<lparr>cf_nativePGFields := True\<rparr>"
| "apply_option (WithAdmission admits) c = c\<lparr>cf_admission := admits\<rparr>"

definition newConfig :: "exec_option list \<Rightarrow> config" where
  "newConfig opts = fold apply_option opts
     \<lparr>cf_joinEngines = [''sqlite'', ''ingitdb''], cf_nativeEngines = [''sqlite''], cf_nativePGFields = False, cf_admission = False\<rparr>"

text \<open>What the code asks of the libraries.\<close>

record exec_api =
  ex_dal :: dal_api
  ex_uni :: unicode_classes
  ex_marshal :: "gvalue \<Rightarrow> marshal_error + string"
  ex_err_text :: "join_error \<Rightarrow> string"
  ex_hasAggregation :: "dal_query \<Rightarrow> bool"
  ex_unsupported :: "join_error \<Rightarrow> bool list"

section \<open>Preflight\<close>

definition settle_one :: "string \<Rightarrow> walked_source \<Rightarrow> walked_source list \<times> string list \<times> bool \<Rightarrow> join_error + walked_source list \<times> string list \<times> bool" where
  "settle_one defaultDatabase src st =
     (case st of (targets, databases, qualified) \<Rightarrow>
        let qualified = (qualified \<and> ws_database src \<noteq> []);
            src = (if ws_database src = [] then src\<lparr>ws_database := defaultDatabase\<rparr> else src)
        in if ws_database src = [] then Inl SourceWithoutDatabase
           else Inr (targets @ [src], if ws_database src \<in> set databases then databases else databases @ [ws_database src], qualified))"

definition settle :: "walked_source list \<Rightarrow> string \<Rightarrow> join_error + walked_source list \<times> string list \<times> bool" where
  "settle sources defaultDatabase =
     rbind (each (settle_one defaultDatabase) sources ([], [], True)) (\<lambda>(targets, databases, qualified).
       if length databases > 1 \<and> \<not> qualified then Inl SourceWithoutDatabase else Inr (targets, databases, qualified))"

datatype exec_effect = Lookup string | Acquire string | Release | RunInDatabase string | Leaf effect | Emit gvalue

definition may_read :: "authority \<Rightarrow> walked_source \<Rightarrow> bool" where
  "may_read authorize target = (case authorize of None \<Rightarrow> False | Some ok \<Rightarrow> ok (ws_database target) (ws_collection target))"

fun resolveSources :: "(string \<Rightarrow> db_source option) \<Rightarrow> string list \<Rightarrow> (string, db_source) gomap \<Rightarrow> exec_effect list \<times> (join_error + (string, db_source) gomap)" where
  "resolveSources lookup [] sources = ([], Inr sources)"
| "resolveSources lookup (database # databases) sources =
     apfst (\<lambda>es. Lookup database # es)
       (case lookup database of
          None \<Rightarrow> ([], Inl (UnknownDatabaseError database))
        | Some src \<Rightarrow>
            if so_id src \<noteq> database then ([], Inl (RegistryMismatch database))
            else resolveSources lookup databases (mput database src sources))"

definition source_of :: "(string, db_source) gomap \<Rightarrow> string \<Rightarrow> db_source" where
  "source_of sources database = the (mget sources database)"

definition checkEngines :: "config \<Rightarrow> string list \<Rightarrow> (string, db_source) gomap \<Rightarrow> join_error option" where
  "checkEngines c databases sources =
     first_of
       [check_all (\<lambda>d. refuse (so_canQuery (source_of sources d) \<noteq> Some True) (EngineNotQueryableError d (so_engine (source_of sources d)))) databases,
        check_all (\<lambda>d. refuse (so_engine (source_of sources d) \<notin> set (cf_joinEngines c)) (EngineNotJoinableError d (so_engine (source_of sources d)))) databases]"

definition checkScans :: "walked_source list \<Rightarrow> (string, db_source) gomap \<Rightarrow> join_error option" where
  "checkScans targets sources =
     check_all (\<lambda>t. refuse (ws_scan t \<and> so_policies (source_of sources (ws_database t))) (ScanOnProtectedSource (ws_database t) (ws_collection t))) targets"

definition choose_route :: "config \<Rightarrow> walked_document \<Rightarrow> string list \<Rightarrow> (string, db_source) gomap \<Rightarrow> string" where
  "choose_route c doc databases sources =
     (if length databases = 1 \<and> \<not> dc_hasSubquery doc \<and> \<not> dc_hasNull doc \<and> \<not> anyScan doc then
        let src = source_of sources (hd databases) in
        if so_engine src \<in> set (cf_nativeEngines c) \<and> \<not> so_policies src then RouteDatabase else RouteInMemory
      else RouteInMemory)"

fun hasMoney :: "dal_query \<Rightarrow> bool" where
  "hasMoney (Query settings fr wh groupBy having orderBy columns) = (qs_money settings \<noteq> None)"
| "hasMoney NilQuery = False"

section \<open>The reader\<close>

definition MaxResultRows :: int where "MaxResultRows = 1000"
definition MaxResultBytes :: int where "MaxResultBytes = 8 * 2 ^ 20"
definition maxColumnMetadataKeys :: nat where "maxColumnMetadataKeys = 8192"
definition maxColumnMetadataBytes :: nat where "maxColumnMetadataBytes = 256 * 2 ^ 10"

record result_cap =
  rc_rows :: int
  rc_bytes :: int

definition response_budget :: "budget_name \<Rightarrow> int \<Rightarrow> string \<Rightarrow> join_error" where
  "response_budget name limit route = BudgetError \<lparr>bg_name = name, bg_limit = limit, bg_route = route, bg_path = []\<rparr>"

text \<open>\<^verbatim>\<open>resultCap.Next\<close>, after the reader below it has answered.\<close>

definition cap_Next :: "(gvalue \<Rightarrow> marshal_error + string) \<Rightarrow> string \<Rightarrow> join_error + gvalue \<Rightarrow> result_cap \<Rightarrow> result_cap \<times> (join_error + gvalue)" where
  "cap_Next marshal route ans c =
     (case ans of
        Inl e \<Rightarrow> (c, Inl (if end_of_stream e then e else if errors_Is e IoEOF then ReadTruncated else e))
      | Inr data \<Rightarrow>
          (case encodeRow marshal data of
             Inl e \<Rightarrow> (c, Inl RowNotEncodable)
           | Inr encoded \<Rightarrow>
               let n = int (length encoded) in
               if rc_rows c + 1 > MaxResultRows then (c, Inl (response_budget BudgetResponseRows MaxResultRows route))
               else if add64 (rc_bytes c) n > MaxResultBytes then (c, Inl (response_budget BudgetResponseBytes MaxResultBytes route))
               else (\<lparr>rc_rows = rc_rows c + 1, rc_bytes = add64 (rc_bytes c) n\<rparr>, Inr data)))"

definition isMoneyEvaluationError :: "string \<Rightarrow> bool" where
  "isMoneyEvaluationError message \<longleftrightarrow>
     list_ex (has_prefix message)
       [''money division by zero'', ''money division result:'', ''money arithmetic '', ''money input '', ''money operand '', ''money result '',
        ''money left operand:'', ''money right operand:'', ''money AVG result:'', ''invalid money '', ''invalid money comparison operands '', ''unsupported money '']"

text \<open>\<^verbatim>\<open>moneyErrorReader.Next\<close>, and \<^verbatim>\<open>run.classify\<close>.\<close>

definition money_Next :: "exec_api \<Rightarrow> bool \<Rightarrow> guard \<Rightarrow> join_error + gvalue \<Rightarrow> join_error + gvalue" where
  "money_Next api money g ans =
     (case ans of
        Inl e \<Rightarrow> if money \<and> gd_failure g = None \<and> isMoneyEvaluationError (ex_err_text api e) then Inl InvalidDocument else Inl e
      | Inr data \<Rightarrow> Inr data)"

definition run_classify :: "exec_api \<Rightarrow> bool \<Rightarrow> guard \<Rightarrow> join_error option \<Rightarrow> string \<Rightarrow> join_error option" where
  "run_classify api money g err route =
     (if money \<and> gd_failure g = None \<and> (case err of None \<Rightarrow> False | Some e \<Rightarrow> isMoneyEvaluationError (ex_err_text api e)) then Some InvalidDocument
      else Classify (ex_err_text api) g err route)"

text \<open>The names a row carries that no row before it had, within the bounds of the column metadata.\<close>

fun note_keys :: "string list \<Rightarrow> string list \<times> nat \<Rightarrow> (string list \<times> nat) \<times> bool" where
  "note_keys [] st = (st, True)"
| "note_keys (key # rest) (known, used) =
     (if key \<in> set known then note_keys rest (known, used)
      else if length known + 1 > maxColumnMetadataKeys \<or> used + length key > maxColumnMetadataBytes then ((known, used), False)
      else note_keys rest (known @ [key], used + length key))"

fun row_keys :: "gvalue \<Rightarrow> string list" where
  "row_keys (VObj m) = mkeys m"
| "row_keys v = []"

text \<open>One turn of the reader: DALgo's calls of the leaves, the context before it, what DALgo answers, and what the callback returns.\<close>

record turn =
  tu_ctx :: "join_error option"
  tu_calls :: "call list"
  tu_row :: "join_error + gvalue"
  tu_emit :: "join_error option"

record consumption =
  cn_session :: session
  cn_cap :: result_cap
  cn_keys :: "string list"
  cn_keyBytes :: nat
  cn_rows :: int
  cn_emitted :: "gvalue list"

definition consume_turn :: "exec_api \<Rightarrow> router \<Rightarrow> bool \<Rightarrow> string \<Rightarrow> turn \<Rightarrow> consumption \<Rightarrow> (consumption \<times> join_error option) + consumption" where
  "consume_turn api rt money route tu st =
     (case tu_ctx tu of
        Some e \<Rightarrow> Inl (st, Some e)
      | None \<Rightarrow>
          let s = fold (perform rt (ex_marshal api)) (tu_calls tu) (cn_session st);
              (cap, ans) = cap_Next (ex_marshal api) route (tu_row tu) (cn_cap st);
              st = st\<lparr>cn_session := s, cn_cap := cap\<rparr>
          in case money_Next api money (se_guard s) ans of
            Inl e \<Rightarrow> Inl (st, if end_of_stream e then None else Some e)
          | Inr data \<Rightarrow>
              (case note_keys (row_keys data) (cn_keys st, cn_keyBytes st) of
                 ((known, used), fits) \<Rightarrow>
                   let st = st\<lparr>cn_keys := known, cn_keyBytes := used\<rparr> in
                   if \<not> fits then Inl (st, Some (response_budget BudgetResponseBytes (int maxColumnMetadataBytes) route))
                   else case tu_emit tu of
                     Some e \<Rightarrow> Inl (st, Some e)
                   | None \<Rightarrow> Inr (st\<lparr>cn_emitted := cn_emitted st @ [data], cn_rows := cn_rows st + 1\<rparr>)))"

lemma cap_Next_row:
  assumes "cap_Next marshal route ans c = (c', Inr data)"
  shows "rc_rows c' = rc_rows c + 1" "rc_rows c' \<le> MaxResultRows"
  using assms by (auto simp: cap_Next_def Let_def split: sum.splits if_splits)

lemma consume_turn_continues:
  assumes "consume_turn api rt money route tu st = Inr st'"
  shows "rc_rows (cn_cap st') = rc_rows (cn_cap st) + 1" "rc_rows (cn_cap st') \<le> MaxResultRows"
proof -
  obtain cap ans where c: "cap_Next (ex_marshal api) route (tu_row tu) (cn_cap st) = (cap, ans)" by fastforce
  obtain data where a: "ans = Inr data" and cap: "cn_cap st' = cap"
    using assms c by (auto simp: consume_turn_def Let_def money_Next_def split: option.splits sum.splits if_splits prod.splits)
  show "rc_rows (cn_cap st') = rc_rows (cn_cap st) + 1" "rc_rows (cn_cap st') \<le> MaxResultRows"
    using cap_Next_row [OF c [unfolded a]] by (simp_all add: cap)
qed

lemma consume_turn_room:
  "consume_turn api rt money route tu st = Inr st' \<Longrightarrow> rc_rows (cn_cap st) < MaxResultRows \<and> rc_rows (cn_cap st') = rc_rows (cn_cap st) + 1"
  using consume_turn_continues [of api rt money route tu st st'] by simp

text \<open>The loop of \<^verbatim>\<open>consume\<close>; it ends because the cap of the result does.\<close>

function consume_loop :: "exec_api \<Rightarrow> router \<Rightarrow> bool \<Rightarrow> string \<Rightarrow> (nat \<Rightarrow> turn) \<Rightarrow> nat \<Rightarrow> consumption \<Rightarrow> consumption \<times> join_error option" where
  "consume_loop api rt money route turns n st =
     (case consume_turn api rt money route (turns n) st of
        Inl out \<Rightarrow> out
      | Inr st' \<Rightarrow> consume_loop api rt money route turns (Suc n) st')"
  by pat_completeness auto
termination
  by (relation "measure (\<lambda>(api, rt, money, route, turns, n, st). nat (MaxResultRows - rc_rows (cn_cap st)))")
    (auto dest: consume_turn_room)

declare consume_loop.simps [simp del]

text \<open>How a read ends: DALgo's calls while its reader is closed, the error of Close, and the context after it.\<close>

record reader_end =
  re_calls :: "call list"
  re_close :: "join_error option"
  re_ctx :: "join_error option"

definition start_consumption :: "session \<Rightarrow> consumption" where
  "start_consumption s = \<lparr>cn_session = s, cn_cap = \<lparr>rc_rows = 0, rc_bytes = 0\<rparr>, cn_keys = [], cn_keyBytes = 0, cn_rows = 0, cn_emitted = []\<rparr>"

text \<open>What opening the read gave: an error, perhaps with a reader to close, no reader at all, or a reader.\<close>

datatype opened_reader = OpenFailed join_error bool | NoReaderReturned | ReaderReady

definition consume :: "exec_api \<Rightarrow> router \<Rightarrow> bool \<Rightarrow> string \<Rightarrow> opened_reader \<Rightarrow> (nat \<Rightarrow> turn) \<Rightarrow> reader_end \<Rightarrow> session \<Rightarrow> consumption \<times> join_error option" where
  "consume api rt money route rdr turns fin s =
     (let close = fold (perform rt (ex_marshal api)) (re_calls fin) in
      case rdr of
        OpenFailed e withReader \<Rightarrow>
          (let s = (if withReader then close s else s) in
           (start_consumption s, run_classify api money (se_guard s) (Some e) route))
      | NoReaderReturned \<Rightarrow> (start_consumption s, Classify (ex_err_text api) (se_guard s) (Some NoReader) route)
      | ReaderReady \<Rightarrow>
          (case consume_loop api rt money route turns 0 (start_consumption s) of
             (st, readErr) \<Rightarrow>
               let st = st\<lparr>cn_session := close (cn_session st)\<rparr>;
                   readErr = (if readErr = None then re_close fin else readErr);
                   readErr = (if readErr = None then re_ctx fin else readErr)
               in (st, run_classify api money (se_guard (cn_session st)) readErr route)))"

section \<open>The two routes\<close>

text \<open>\<^verbatim>\<open>CheckRead\<close>, and what \<^verbatim>\<open>ReadTx\<close> does: whether it runs the function it is given, and the error it returns for what the function returned.\<close>

record tx_answer =
  tx_check :: "join_error option"
  tx_runs :: bool
  tx_error :: "join_error option \<Rightarrow> join_error option"

record answers =
  an_slot :: bool
  an_release :: bool
  an_tx :: tx_answer
  an_scope :: "join_error option"
  an_scopeCalls :: "call list"
  an_fields :: "join_error option"
  an_openCalls :: "call list"
  an_open :: opened_reader
  an_turns :: "nat \<Rightarrow> turn"
  an_end :: reader_end

text \<open>The database runs the whole document: no leaf is called while its reader is read.\<close>

definition databaseStream :: "exec_api \<Rightarrow> router \<Rightarrow> bool \<Rightarrow> string \<Rightarrow> answers \<Rightarrow> session \<Rightarrow> exec_effect list \<times> consumption \<times> join_error option" where
  "databaseStream api rt money database ans s =
     (case tx_check (an_tx ans) of
        Some e \<Rightarrow> ([], start_consumption s, Classify (ex_err_text api) (se_guard s) (Some e) RouteDatabase)
      | None \<Rightarrow>
          if tx_runs (an_tx ans) then
            (case consume api rt money RouteDatabase (an_open ans) (\<lambda>n. (an_turns ans n)\<lparr>tu_calls := []\<rparr>) ((an_end ans)\<lparr>re_calls := []\<rparr>) s of
               (st, failure) \<Rightarrow>
                 ([RunInDatabase database], st, if failure \<noteq> None then failure else tx_error (an_tx ans) failure))
          else ([], start_consumption s, case tx_error (an_tx ans) None of Some e \<Rightarrow> Some e | None \<Rightarrow> Some ReadTxSkipped))"

text \<open>\<^verbatim>\<open>inMemory\<close>: the qualifiers, the scopes, then DALgo. An error before it is classified here and, as an open error, again by \<^verbatim>\<open>consume\<close>.\<close>

definition inMemory :: "exec_api \<Rightarrow> router \<Rightarrow> answers \<Rightarrow> session \<Rightarrow> session \<times> opened_reader" where
  "inMemory api rt ans s =
     (case an_scope ans of
        Some e \<Rightarrow> (s, OpenFailed (the (Classify (ex_err_text api) (se_guard s) (Some e) RouteInMemory)) False)
      | None \<Rightarrow>
          let s = fold (perform rt (ex_marshal api)) (an_scopeCalls ans) s in
          case an_fields ans of
            Some e \<Rightarrow> (s, OpenFailed (the (Classify (ex_err_text api) (se_guard s) (Some e) RouteInMemory)) False)
          | None \<Rightarrow> (fold (perform rt (ex_marshal api)) (an_openCalls ans) s, an_open ans))"

record exec_request =
  rq_config :: config
  rq_query :: dal_query
  rq_doc :: walked_document
  rq_databases :: "string list"
  rq_sources :: "(string, db_source) gomap"
  rq_authorize :: authority
  rq_limits :: limits

definition read_route :: "exec_api \<Rightarrow> exec_request \<Rightarrow> string \<Rightarrow> answers \<Rightarrow> exec_effect list \<times> consumption \<times> join_error option" where
  "read_route api rq route ans =
     (let rt = newRouter (rq_sources rq) (rq_databases rq);
          s = new_session (rq_authorize rq) (rq_limits rq);
          money = hasMoney (rq_query rq)
      in if route = RouteDatabase then databaseStream api rt money (hd (rq_databases rq)) ans s
         else case inMemory api rt ans s of (s, rdr) \<Rightarrow>
           ([], consume api rt money RouteInMemory rdr (an_turns ans) (an_end ans) s))"

text \<open>The effects of one attempt: those on the sources, the rows the callback took, and the slot around them.\<close>

definition attemptStream :: "exec_api \<Rightarrow> exec_request \<Rightarrow> string \<Rightarrow> answers \<Rightarrow> exec_effect list \<times> consumption \<times> join_error option" where
  "attemptStream api rq route ans =
     (if cf_admission (rq_config rq) \<and> \<not> an_slot ans then ([], start_consumption (new_session (rq_authorize rq) (rq_limits rq)), Some (CapacityError route))
      else
        let held = cf_admission (rq_config rq); (es, st, err) = read_route api rq route ans in
        ((if held then [Acquire route] else []) @ es @ map Leaf (se_trace (cn_session st)) @ map Emit (cn_emitted st) @
           (if held \<and> an_release ans then [Release] else []),
         st, err))"

definition retryInMemory :: "exec_api \<Rightarrow> exec_request \<Rightarrow> join_error \<Rightarrow> bool" where
  "retryInMemory api rq err =
     (if length (dc_sources (rq_doc rq)) < 2 \<or> ex_hasAggregation api (rq_query rq) then False
      else list_all (\<lambda>unsupported. unsupported) (ex_unsupported api err) \<and> length (ex_unsupported api err) > 0)"

section \<open>The answer\<close>

record execution_source =
  es_database :: string
  es_collection :: string
  es_rows :: "int option"
  es_elapsedMs :: "int option"

fun databaseSources :: "walked_source list \<Rightarrow> (string \<times> string) list \<Rightarrow> execution_source list" where
  "databaseSources [] seen = []"
| "databaseSources (t # ts) seen =
     (let key = (ws_database t, ws_collection t) in
      if key \<in> set seen then databaseSources ts seen
      else \<lparr>es_database = ws_database t, es_collection = ws_collection t, es_rows = None, es_elapsedMs = None\<rparr> # databaseSources ts (key # seen))"

definition milliseconds :: "int \<Rightarrow> int" where
  "milliseconds d = sgn d * (\<bar>d\<bar> div 10 ^ 6)"

definition inMemorySources :: "source_stats list \<Rightarrow> execution_source list" where
  "inMemorySources stats =
     map (\<lambda>x. \<lparr>es_database = st_database x, es_collection = st_collection x, es_rows = (if st_protected x then None else Some (st_rows x)),
        es_elapsedMs = Some (milliseconds (st_elapsed x))\<rparr>) stats"

record stream_result =
  sr_route :: string
  sr_rows :: int
  sr_keys :: "string list"
  sr_sources :: "execution_source list"

definition finish_stream :: "walked_source list \<Rightarrow> string \<Rightarrow> consumption \<Rightarrow> join_error option \<Rightarrow> join_error + stream_result" where
  "finish_stream targets route st err =
     (case err of Some e \<Rightarrow> Inl e
      | None \<Rightarrow> Inr \<lparr>sr_route = route, sr_rows = cn_rows st, sr_keys = cn_keys st,
          sr_sources = (if route = RouteDatabase then databaseSources targets [] else inMemorySources (gd_stats (se_guard (cn_session st))))\<rparr>)"

text \<open>\<^verbatim>\<open>ExecuteStream\<close> from the choice of the route; the answers of the first and of the second attempt.\<close>

definition run_request :: "exec_api \<Rightarrow> exec_request \<Rightarrow> walked_source list \<Rightarrow> answers \<Rightarrow> answers \<Rightarrow> exec_effect list \<times> (join_error + stream_result)" where
  "run_request api rq targets ans1 ans2 =
     (let route = (if hasMoney (rq_query rq) then RouteInMemory else choose_route (rq_config rq) (rq_doc rq) (rq_databases rq) (rq_sources rq));
          (es, st, err) = attemptStream api rq route ans1
      in if (case err of None \<Rightarrow> False | Some e \<Rightarrow> cn_rows st = 0 \<and> route = RouteDatabase \<and> retryInMemory api rq e) then
           (case attemptStream api rq RouteInMemory ans2 of (es', st', err') \<Rightarrow> (es @ es', finish_stream targets RouteInMemory st' err'))
         else (es, finish_stream targets route st err))"

definition ExecuteStream :: "exec_api \<Rightarrow> exec_option list \<Rightarrow> dal_query \<Rightarrow> profile_claim \<Rightarrow> string \<Rightarrow> (string \<Rightarrow> db_source option) option \<Rightarrow> authority \<Rightarrow> limits \<Rightarrow> bool \<Rightarrow>
    answers \<Rightarrow> answers \<Rightarrow> exec_effect list \<times> (join_error + stream_result)" where
  "ExecuteStream api opts query profile defaultDatabase registry authorize l hasEmit ans1 ans2 =
     (let cfg = newConfig opts in
      case (if hasEmit then registry else None) of
        None \<Rightarrow> ([], Inl InvalidDocument)
      | Some lookup \<Rightarrow>
          (case inspect (ex_dal api) (ex_uni api) (cf_nativePGFields cfg) query of
             Inl e \<Rightarrow> ([], Inl InvalidDocument)
           | Inr doc \<Rightarrow>
               if checkProfile doc profile \<noteq> None then ([], Inl ProfileMismatch)
               else case settle (dc_sources doc) defaultDatabase of
                 Inl e \<Rightarrow> ([], Inl e)
               | Inr (targets, databases, qualified) \<Rightarrow>
                   (case check_all (\<lambda>t. refuse (\<not> may_read authorize t) (SourceDeniedError (ws_database t) (ws_collection t))) targets of
                      Some e \<Rightarrow> ([], Inl e)
                    | None \<Rightarrow>
                        (case resolveSources lookup databases [] of
                           (es, Inl e) \<Rightarrow> (es, Inl e)
                         | (es, Inr sources) \<Rightarrow>
                             (case first_of [checkEngines cfg databases sources, checkScans targets sources] of
                                Some e \<Rightarrow> (es, Inl e)
                              | None \<Rightarrow>
                                  apfst (\<lambda>es'. es @ es')
                                    (run_request api \<lparr>rq_config = cfg, rq_query = query, rq_doc = doc, rq_databases = databases, rq_sources = sources,
                                       rq_authorize = authorize, rq_limits = l\<rparr> targets ans1 ans2))))))"


text \<open>\<^verbatim>\<open>Execute\<close>: the records the callback collected, when the stream ended well.\<close>

fun emitted :: "exec_effect list \<Rightarrow> gvalue list" where
  "emitted [] = []"
| "emitted (Emit v # es) = v # emitted es"
| "emitted (e # es) = emitted es"

definition Execute :: "exec_api \<Rightarrow> exec_option list \<Rightarrow> dal_query \<Rightarrow> profile_claim \<Rightarrow> string \<Rightarrow> (string \<Rightarrow> db_source option) option \<Rightarrow> authority \<Rightarrow> limits \<Rightarrow>
    answers \<Rightarrow> answers \<Rightarrow> join_error + gvalue list \<times> stream_result" where
  "Execute api opts query profile defaultDatabase registry authorize l ans1 ans2 =
     (case ExecuteStream api opts query profile defaultDatabase registry authorize l True ans1 ans2 of
        (es, Inl e) \<Rightarrow> Inl e
      | (es, Inr r) \<Rightarrow> Inr (emitted es, r))"

section \<open>The preflight\<close>

definition settled :: "string \<Rightarrow> walked_source \<Rightarrow> walked_source" where
  "settled defaultDatabase src = (if ws_database src = [] then src\<lparr>ws_database := defaultDatabase\<rparr> else src)"

lemma settle_loop:
  assumes "each (settle_one defaultDatabase) sources (targets, databases, q0) = Inr (targets', databases', q')"
    and "set databases = ws_database ` set targets"
  shows "targets' = targets @ map (settled defaultDatabase) sources \<and> set databases' = ws_database ` set targets'"
  using assms
proof (induction sources arbitrary: targets databases q0)
  case (Cons src sources)
  obtain st where st: "settle_one defaultDatabase src (targets, databases, q0) = Inr st" and
    rest: "each (settle_one defaultDatabase) sources st = Inr (targets', databases', q')" using Cons.prems(1) by auto
  obtain q where s: "st = (targets @ [settled defaultDatabase src],
      if ws_database (settled defaultDatabase src) \<in> set databases then databases else databases @ [ws_database (settled defaultDatabase src)], q)"
    using st by (auto simp: settle_one_def settled_def Let_def split: if_splits)
  show ?case using Cons.IH [OF rest [unfolded s]] Cons.prems(2) by (auto simp: insert_absorb)
qed simp

lemma settle_Inr:
  assumes "settle sources defaultDatabase = Inr (targets, databases, qualified)"
  shows "targets = map (settled defaultDatabase) sources \<and> set databases = ws_database ` set targets"
proof -
  have "each (settle_one defaultDatabase) sources ([], [], True) = Inr (targets, databases, qualified)"
    using assms by (auto simp: settle_def split: if_splits)
  from settle_loop [OF this] show ?thesis by simp
qed

lemma resolve_cases_Cons:
  assumes "resolveSources lookup (d # databases) sources = (es, r)"
  obtains (stops) e where "es = [Lookup d]" "r = Inl e"
  | (goes_on) src es' where "lookup d = Some src" "so_id src = d" "resolveSources lookup databases (mput d src sources) = (es', r)" "es = Lookup d # es'"
proof (cases "lookup d")
  case None
  then show thesis using assms stops by auto
next
  case (Some src)
  show thesis
  proof (cases "so_id src = d")
    case True
    obtain es' r' where "resolveSources lookup databases (mput d src sources) = (es', r')" by fastforce
    then show thesis using assms Some True goes_on by auto
  qed (use assms Some stops in auto)
qed

lemma resolveSources_Inr:
  assumes "resolveSources lookup databases sources = (es, Inr sources')"
  shows "es = map Lookup databases \<and> (\<forall>d. mget sources' d = (if d \<in> set databases then lookup d else mget sources d)) \<and>
    list_all (\<lambda>d. \<exists>src. lookup d = Some src \<and> so_id src = d) databases \<and> (wf_map sources \<longrightarrow> wf_map sources')"
  using assms
proof (induction databases arbitrary: sources es)
  case (Cons d databases)
  from Cons.prems show ?case
  proof (cases rule: resolve_cases_Cons)
    case (goes_on src es')
    show ?thesis using Cons.IH [OF goes_on(3)] goes_on(1,2,4) by (auto simp: update_conv')
  qed simp
qed simp

lemma resolveSources_lookups: "resolveSources lookup databases sources = (es, r) \<Longrightarrow> \<exists>ds. es = map Lookup ds \<and> set ds \<subseteq> set databases"
proof (induction databases arbitrary: sources es)
  case (Cons d databases)
  from Cons.prems show ?case
  proof (cases rule: resolve_cases_Cons)
    case (stops e)
    then show ?thesis by (intro exI [of _ "[d]"]) auto
  next
    case (goes_on src es')
    obtain ds where "es' = map Lookup ds" "set ds \<subseteq> set databases" using Cons.IH [OF goes_on(3)] by blast
    then show ?thesis using goes_on(4) by (intro exI [of _ "d # ds"]) auto
  qed
qed simp

text \<open>The sources of the router are the registry's, each under its own id.\<close>

lemma resolved_map:
  assumes "resolveSources lookup databases [] = (es, Inr sources)" and "known_source (newRouter sources databases) src"
  shows "so_id src \<in> set databases \<and> lookup (so_id src) = Some src"
proof -
  note r = resolveSources_Inr [OF assms(1)]
  have wf: "wf_map sources" using r by (simp add: wf_map_def)
  obtain k where k: "(k, src) \<in> set sources" using assms(2) by (auto simp: known_source_def newRouter_def)
  then have g: "mget sources k = Some src" using wf by (simp add: wf_map_def)
  have "mget sources k = (if k \<in> set databases then lookup k else mget [] k)" using r by blast
  then have kd: "k \<in> set databases" "lookup k = Some src" using g by (cases "k \<in> set databases", simp_all)+
  then have "so_id src = k" using r by (auto simp: list_all_iff)
  then show ?thesis using kd by simp
qed

section \<open>A read\<close>

text \<open>Every session of a request is made by calls from a new one.\<close>

definition reachable_session :: "exec_api \<Rightarrow> router \<Rightarrow> authority \<Rightarrow> limits \<Rightarrow> session \<Rightarrow> bool" where
  "reachable_session api rt authorize l s \<longleftrightarrow> (\<exists>cs. s = fold (perform rt (ex_marshal api)) cs (new_session authorize l))"

lemma reached_new: "reachable_session api rt authorize l (new_session authorize l)"
  unfolding reachable_session_def by (rule exI [of _ "[]"]) simp

lemma reached_fold: "reachable_session api rt authorize l s \<Longrightarrow> reachable_session api rt authorize l (fold (perform rt (ex_marshal api)) cs s)"
  unfolding reachable_session_def by (metis fold_append comp_apply)

definition cap_admit :: "nat \<Rightarrow> result_cap \<Rightarrow> result_cap option" where
  "cap_admit n c =
     (if rc_rows c + 1 > MaxResultRows \<or> add64 (rc_bytes c) (int n) > MaxResultBytes then None
      else Some \<lparr>rc_rows = rc_rows c + 1, rc_bytes = add64 (rc_bytes c) (int n)\<rparr>)"

interpretation result_budget: meter cap_admit rc_rows rc_bytes "\<lambda>c. MaxResultRows" "\<lambda>c. MaxResultBytes" "\<lambda>n c. n < 2 ^ 62 \<and> 0 \<le> rc_bytes c \<and> rc_bytes c < 2 ^ 62"
proof unfold_locales
  fix n s t
  assume a: "cap_admit n s = Some t" and n: "n < 2 ^ 62 \<and> 0 \<le> rc_bytes s \<and> rc_bytes s < 2 ^ 62"
  have "int n < 2 ^ 62" using n by (metis of_nat_less_iff of_nat_numeral of_nat_power)
  then have "add64 (rc_bytes s) (int n) = rc_bytes s + int n" using n by (intro add64_exact) auto
  then show "rc_rows t = rc_rows s + 1 \<and> rc_bytes t = rc_bytes s + int n" "rc_rows t \<le> MaxResultRows \<and> rc_bytes t \<le> MaxResultBytes"
    using a by (auto simp: cap_admit_def split: if_splits)
qed

definition row_length :: "exec_api \<Rightarrow> gvalue \<Rightarrow> nat" where
  "row_length api v = (case encodeRow (ex_marshal api) v of Inl e \<Rightarrow> 0 | Inr encoded \<Rightarrow> length encoded)"

lemma cap_Next_admits:
  assumes "cap_Next (ex_marshal api) route ans c = (c', Inr data)"
  shows "ans = Inr data" "cap_admit (row_length api data) c = Some c'" "\<exists>encoded. encodeRow (ex_marshal api) data = Inr encoded"
  using assms by (auto simp: cap_Next_def cap_admit_def row_length_def Let_def split: sum.splits if_splits)

lemma cap_Next_ends:
  assumes "cap_Next marshal route ans c = (c', Inl e)" and "end_of_stream e"
  shows "ans = Inl e"
  using assms by (auto simp: cap_Next_def Let_def end_of_stream_def errors_Is_def response_budget_def split: sum.splits if_splits)

definition consuming :: "exec_api \<Rightarrow> router \<Rightarrow> authority \<Rightarrow> limits \<Rightarrow> consumption \<Rightarrow> bool" where
  "consuming api rt authorize l st \<longleftrightarrow> reachable_session api rt authorize l (cn_session st) \<and> cn_rows st = int (length (cn_emitted st)) \<and>
     (small_rows (ex_marshal api) \<longrightarrow> cn_rows st \<le> MaxResultRows \<and> int (sum_list (map (row_length api) (cn_emitted st))) \<le> MaxResultBytes)"

text \<open>Between two turns the cap has counted exactly the rows the callback took.\<close>

definition counted :: "exec_api \<Rightarrow> consumption \<Rightarrow> bool" where
  "counted api st \<longleftrightarrow> (small_rows (ex_marshal api) \<longrightarrow>
     in_budget (rc_rows (cn_cap st)) (rc_bytes (cn_cap st)) MaxResultRows MaxResultBytes (map (row_length api) (cn_emitted st)))"


lemma consume_turn_cases:
  assumes "reachable_session api rt authorize l (cn_session st)"
  obtains (stops) st' err where "consume_turn api rt money route tu st = Inl (st', err)" "reachable_session api rt authorize l (cn_session st')"
      "cn_rows st' = cn_rows st" "cn_emitted st' = cn_emitted st" "err = None \<longrightarrow> (\<exists>e. tu_row tu = Inl e \<and> end_of_stream e)"
  | (takes) st' data where "consume_turn api rt money route tu st = Inr st'" "reachable_session api rt authorize l (cn_session st')" "tu_row tu = Inr data"
      "cap_admit (row_length api data) (cn_cap st) = Some (cn_cap st')" "cn_emitted st' = cn_emitted st @ [data]" "cn_rows st' = cn_rows st + 1"
      "\<exists>encoded. encodeRow (ex_marshal api) data = Inr encoded"
proof (cases "tu_ctx tu")
  case (Some e)
  then show thesis using stops [of st "Some e"] assms by (simp add: consume_turn_def)
next
  case None
  define s where "s = fold (perform rt (ex_marshal api)) (tu_calls tu) (cn_session st)"
  have r: "reachable_session api rt authorize l s" unfolding s_def by (rule reached_fold [OF assms])
  obtain cap ans where c: "cap_Next (ex_marshal api) route (tu_row tu) (cn_cap st) = (cap, ans)" by fastforce
  show thesis
  proof (cases "money_Next api money (se_guard s) ans")
    case (Inl e)
    have "end_of_stream e \<longrightarrow> (\<exists>e. tu_row tu = Inl e \<and> end_of_stream e)"
    proof
      assume e: "end_of_stream e"
      have "ans = Inl e" using Inl e by (auto simp: money_Next_def end_of_stream_def errors_Is_def split: sum.splits if_splits)
      then show "\<exists>e. tu_row tu = Inl e \<and> end_of_stream e" using cap_Next_ends [OF c [unfolded \<open>ans = Inl e\<close>] e] e by blast
    qed
    then show thesis using stops [of "st\<lparr>cn_session := s, cn_cap := cap\<rparr>" "if end_of_stream e then None else Some e"] None Inl c r
      by (simp add: consume_turn_def s_def)
  next
    case (Inr data)
    have a: "ans = Inr data" using Inr by (auto simp: money_Next_def split: sum.splits if_splits)
    note admits = cap_Next_admits [OF c [unfolded a]]
    obtain known used fits where k: "note_keys (row_keys data) (cn_keys st, cn_keyBytes st) = ((known, used), fits)" by (metis surj_pair)
    show thesis
    proof (cases "fits \<and> tu_emit tu = None")
      case True
      then show thesis using takes [of "st\<lparr>cn_session := s, cn_cap := cap, cn_keys := known, cn_keyBytes := used, cn_emitted := cn_emitted st @ [data], cn_rows := cn_rows st + 1\<rparr>" data]
        None Inr c k r admits by (simp add: consume_turn_def s_def)
    next
      case False
      then show thesis using stops [of "st\<lparr>cn_session := s, cn_cap := cap, cn_keys := known, cn_keyBytes := used\<rparr>"
          "if fits then tu_emit tu else Some (response_budget BudgetResponseBytes (int maxColumnMetadataBytes) route)"] None Inr c k r
        by (auto simp: consume_turn_def s_def)
    qed
  qed
qed

lemma consuming_takes:
  assumes "consuming api rt authorize l st" and "counted api st" and "reachable_session api rt authorize l (cn_session st')"
    and "cap_admit (row_length api data) (cn_cap st) = Some (cn_cap st')" and "cn_emitted st' = cn_emitted st @ [data]" and "cn_rows st' = cn_rows st + 1"
    and "encodeRow (ex_marshal api) data = Inr encoded"
  shows "consuming api rt authorize l st' \<and> counted api st'"
proof (cases "small_rows (ex_marshal api)")
  case True
  have b: "in_budget (rc_rows (cn_cap st)) (rc_bytes (cn_cap st)) MaxResultRows MaxResultBytes (map (row_length api) (cn_emitted st))"
    using assms(2) True by (simp add: counted_def)
  have "row_length api data < 2 ^ 62 \<and> 0 \<le> rc_bytes (cn_cap st) \<and> rc_bytes (cn_cap st) < 2 ^ 62"
    using b encodeRow_small [OF True assms(7)] by (auto simp: row_length_def assms(7) in_budget_def MaxResultBytes_def)
  from result_budget.admit_in_budget [OF b assms(4) this] show ?thesis
    using assms(1,3,5,6) by (auto simp: consuming_def counted_def in_budget_def)
next
  case False
  then show ?thesis using assms by (simp add: consuming_def counted_def)
qed

text \<open>
  What the loop leaves, from a turn where the cap and the callback agree: the counts stay right, and an end without an error is the
  end of the reader's stream, after rows the callback took one by one.
\<close>

lemma consume_loop_consuming:
  assumes "consuming api rt authorize l st" and "counted api st"
  shows "consuming api rt authorize l (fst (consume_loop api rt money route turns n st))"
  using assms
proof (induction api rt money route turns n st rule: consume_loop.induct)
  case (1 api rt money route turns n st)
  have r: "reachable_session api rt authorize l (cn_session st)" using 1 by (simp add: consuming_def)
  from r show ?case
  proof (cases rule: consume_turn_cases [where money = money and route = route and tu = "turns n"])
    case (stops st' err)
    then have "consuming api rt authorize l st'" using "1.prems"(1) unfolding consuming_def by metis
    then show ?thesis using stops(1) by (simp add: consume_loop.simps [of api rt money route turns n])
  next
    case (takes st' data)
    obtain encoded where "encodeRow (ex_marshal api) data = Inr encoded" using takes(7) by blast
    from consuming_takes [OF "1.prems" takes(2,4-6) this] have "consuming api rt authorize l st'" "counted api st'" by blast+
    from "1.IH" [OF takes(1) this] show ?thesis using takes(1) by (simp add: consume_loop.simps [of api rt money route turns n])
  qed
qed

definition ends_complete :: "(nat \<Rightarrow> turn) \<Rightarrow> nat \<Rightarrow> gvalue list \<Rightarrow> bool" where
  "ends_complete turns n rows \<longleftrightarrow> (\<exists>m. map (\<lambda>i. tu_row (turns (n + i))) [0..<m] = map Inr rows \<and> (\<exists>e. tu_row (turns (n + m)) = Inl e \<and> end_of_stream e))"

lemma ends_complete_Cons: "tu_row (turns n) = Inr v \<Longrightarrow> ends_complete turns (Suc n) rows \<Longrightarrow> ends_complete turns n (v # rows)"
  unfolding ends_complete_def
proof -
  assume v: "tu_row (turns n) = Inr v" and "\<exists>m. map (\<lambda>i. tu_row (turns (Suc n + i))) [0..<m] = map Inr rows \<and> (\<exists>e. tu_row (turns (Suc n + m)) = Inl e \<and> end_of_stream e)"
  then obtain m where m: "map (\<lambda>i. tu_row (turns (Suc n + i))) [0..<m] = map Inr rows" "\<exists>e. tu_row (turns (Suc n + m)) = Inl e \<and> end_of_stream e" by blast
  have "map (\<lambda>i. tu_row (turns (n + i))) [0..<Suc m] = tu_row (turns n) # map (\<lambda>i. tu_row (turns (Suc n + i))) [0..<m]"
    by (simp add: upt_conv_Cons map_Suc_upt [symmetric] del: upt_Suc)
  then show "\<exists>m. map (\<lambda>i. tu_row (turns (n + i))) [0..<m] = map Inr (v # rows) \<and> (\<exists>e. tu_row (turns (n + m)) = Inl e \<and> end_of_stream e)"
    using v m by (intro exI [of _ "Suc m"]) simp
qed

lemma consume_loop_complete:
  assumes "reachable_session api rt authorize l (cn_session st)" and "consume_loop api rt money route turns n st = (st', None)"
  shows "\<exists>rows. cn_emitted st' = cn_emitted st @ rows \<and> ends_complete turns n rows"
  using assms
proof (induction api rt money route turns n st rule: consume_loop.induct)
  case (1 api rt money route turns n st)
  from "1.prems"(1) show ?case
  proof (cases rule: consume_turn_cases [where money = money and route = route and tu = "turns n"])
    case (stops st1 err)
    then have "st1 = st'" "err = None" using "1.prems"(2) by (simp_all add: consume_loop.simps [of api rt money route turns n])
    then show ?thesis using stops(4,5) by (auto simp: ends_complete_def intro!: exI [of _ 0])
  next
    case (takes st1 data)
    have "consume_loop api rt money route turns (Suc n) st1 = (st', None)" using "1.prems"(2) takes(1) by (simp add: consume_loop.simps [of api rt money route turns n])
    from "1.IH" [OF takes(1,2) this] obtain rows where "cn_emitted st' = cn_emitted st1 @ rows" "ends_complete turns (Suc n) rows" by blast
    then show ?thesis using takes(3,5) by (intro exI [of _ "data # rows"]) (auto intro: ends_complete_Cons)
  qed
qed


lemma start_consuming: "reachable_session api rt authorize l s \<Longrightarrow> consuming api rt authorize l (start_consumption s) \<and> counted api (start_consumption s)"
  by (simp add: consuming_def counted_def start_consumption_def in_budget_def MaxResultRows_def MaxResultBytes_def)

lemma consuming_session: "consuming api rt authorize l st \<Longrightarrow> reachable_session api rt authorize l s \<Longrightarrow> consuming api rt authorize l (st\<lparr>cn_session := s\<rparr>)"
  by (auto simp: consuming_def)

lemma Classify_error: "Classify err_text g (Some e) route \<noteq> None"
  by (simp add: Classify_def split: option.split)

lemma run_classify_error: "run_classify api money g (Some e) route \<noteq> None"
  unfolding run_classify_def using Classify_error by simp

lemma run_classify_None: "run_classify api money g err route = None \<longleftrightarrow> err = None \<and> gd_failure g = None"
  by (cases err) (auto simp: run_classify_error, auto simp: run_classify_def Classify_def split: option.splits)

lemma consume_ready:
  assumes "consume_loop api rt money route turns 0 (start_consumption s) = (st, err)"
  shows "consume api rt money route ReaderReady turns fin s =
    (let st' = st\<lparr>cn_session := fold (perform rt (ex_marshal api)) (re_calls fin) (cn_session st)\<rparr>;
         e1 = (if err = None then re_close fin else err); e2 = (if e1 = None then re_ctx fin else e1)
     in (st', run_classify api money (se_guard (cn_session st')) e2 route))"
  using assms by (simp add: consume_def Let_def)

lemma consume_consuming:
  assumes "reachable_session api rt authorize l s"
  shows "consuming api rt authorize l (fst (consume api rt money route rdr turns fin s))"
proof (cases rdr)
  case (OpenFailed e withReader)
  then show ?thesis using start_consuming reached_fold [OF assms] assms by (auto simp: consume_def Let_def)
next
  case NoReaderReturned
  then show ?thesis using start_consuming [OF assms] by (simp add: consume_def Let_def)
next
  case ReaderReady
  obtain st err where c: "consume_loop api rt money route turns 0 (start_consumption s) = (st, err)" by fastforce
  have k: "consuming api rt authorize l st" using consume_loop_consuming [of api rt authorize l "start_consumption s" money route turns 0] start_consuming [OF assms] c by simp
  then have "reachable_session api rt authorize l (fold (perform rt (ex_marshal api)) (re_calls fin) (cn_session st))" by (intro reached_fold) (simp add: consuming_def)
  from consuming_session [OF k this] show ?thesis using ReaderReady by (simp add: consume_ready [OF c] Let_def)
qed

lemma consume_success:
  assumes "reachable_session api rt authorize l s" and "consume api rt money route rdr turns fin s = (st, None)"
  shows "ends_complete turns 0 (cn_emitted st) \<and> gd_failure (se_guard (cn_session st)) = None"
proof (cases rdr)
  case (OpenFailed e withReader)
  then show ?thesis using assms(2) by (auto simp: consume_def Let_def run_classify_error)
next
  case NoReaderReturned
  then show ?thesis using assms(2) by (auto simp: consume_def Let_def Classify_error)
next
  case ReaderReady
  obtain st1 err where c: "consume_loop api rt money route turns 0 (start_consumption s) = (st1, err)" by fastforce
  then have st: "cn_emitted st = cn_emitted st1" "err = None" "gd_failure (se_guard (cn_session st)) = None"
    using assms(2) ReaderReady by (auto simp: consume_ready [OF c] Let_def run_classify_None split: if_splits)
  have "reachable_session api rt authorize l (cn_session (start_consumption s))" using assms(1) by (simp add: start_consumption_def)
  from consume_loop_complete [OF this c [unfolded st(2)]] show ?thesis using st by (auto simp: start_consumption_def)
qed

text \<open>A reader no leaf stands behind leaves the session as it was.\<close>

lemma consume_turn_session:
  "tu_calls tu = [] \<Longrightarrow> consume_turn api rt money route tu st = Inl (st', err) \<Longrightarrow> cn_session st' = cn_session st"
  "tu_calls tu = [] \<Longrightarrow> consume_turn api rt money route tu st = Inr st' \<Longrightarrow> cn_session st' = cn_session st"
  by (auto simp: consume_turn_def Let_def split: option.splits sum.splits prod.splits if_splits)

lemma consume_loop_session:
  "(\<forall>i. tu_calls (turns i) = []) \<Longrightarrow> cn_session (fst (consume_loop api rt money route turns n st)) = cn_session st"
proof (induction api rt money route turns n st rule: consume_loop.induct)
  case (1 api rt money route turns n st)
  show ?case
  proof (cases "consume_turn api rt money route (turns n) st")
    case (Inl out)
    then show ?thesis using consume_turn_session(1) [of "turns n" api rt money route st "fst out" "snd out"] 1 by (simp add: consume_loop.simps [of api rt money route turns n])
  next
    case (Inr st')
    then show ?thesis using consume_turn_session(2) [of "turns n" api rt money route st st'] 1 by (simp add: consume_loop.simps [of api rt money route turns n])
  qed
qed

lemma consume_session:
  assumes "\<forall>i. tu_calls (turns i) = []" and "re_calls fin = []"
  shows "cn_session (fst (consume api rt money route rdr turns fin s)) = s"
proof (cases rdr)
  case ReaderReady
  obtain st err where c: "consume_loop api rt money route turns 0 (start_consumption s) = (st, err)" by fastforce
  have "cn_session st = s" using consume_loop_session [OF assms(1), of api rt money route 0 "start_consumption s"] c by (simp add: start_consumption_def)
  then show ?thesis using ReaderReady assms(2) by (simp add: consume_ready [OF c] Let_def)
qed (auto simp: consume_def Let_def start_consumption_def assms(2))

section \<open>An attempt\<close>

abbreviation request_router :: "exec_request \<Rightarrow> router" where
  "request_router rq \<equiv> newRouter (rq_sources rq) (rq_databases rq)"

lemma inMemory_reached:
  assumes "reachable_session api rt authorize l s" and "inMemory api rt ans s = (s', rdr)"
  shows "reachable_session api rt authorize l s'"
  using assms reached_fold by (auto simp: inMemory_def Let_def split: option.splits)

lemma databaseStream_out:
  assumes "reachable_session api rt authorize l s" and "databaseStream api rt money database ans s = (es, st, err)"
  shows "consuming api rt authorize l st \<and> cn_session st = s \<and> (es = [] \<or> es = [RunInDatabase database]) \<and>
    (err = None \<longrightarrow> ends_complete (an_turns ans) 0 (cn_emitted st) \<and> gd_failure (se_guard (cn_session st)) = None)"
proof -
  let ?turns = "\<lambda>n. (an_turns ans n)\<lparr>tu_calls := []\<rparr>" and ?fin = "(an_end ans)\<lparr>re_calls := []\<rparr>"
  have e: "ends_complete ?turns 0 rows = ends_complete (an_turns ans) 0 rows" for rows by (simp add: ends_complete_def)
  show ?thesis
  proof (cases "tx_check (an_tx ans) = None \<and> tx_runs (an_tx ans)")
    case False
    then have "st = start_consumption s" "es = []" "err \<noteq> None"
      using assms(2) Classify_error [of "ex_err_text api" "se_guard s"] by (cases "tx_error (an_tx ans) None"; auto simp: databaseStream_def split: option.splits if_splits)+
    then show ?thesis using start_consuming [OF assms(1)] by (auto simp: start_consumption_def)
  next
    case True
    obtain st1 failure where c: "consume api rt money RouteDatabase (an_open ans) ?turns ?fin s = (st1, failure)" by fastforce
    have out: "st = st1" "es = [RunInDatabase database]" "err = None \<Longrightarrow> failure = None" using assms(2) True c by (auto simp: databaseStream_def split: if_splits)
    have "consuming api rt authorize l st1" using consume_consuming [OF assms(1), of money RouteDatabase "an_open ans" ?turns ?fin] c by simp
    moreover have "cn_session st1 = s" using consume_session [of ?turns ?fin api rt money RouteDatabase "an_open ans" s] c by simp
    moreover have "failure = None \<Longrightarrow> ends_complete ?turns 0 (cn_emitted st1) \<and> gd_failure (se_guard (cn_session st1)) = None"
      using consume_success [OF assms(1)] c by blast
    ultimately show ?thesis using out e by metis
  qed
qed

lemma read_route_out:
  assumes "read_route api rq route ans = (es, st, err)"
  shows "consuming api (request_router rq) (rq_authorize rq) (rq_limits rq) st \<and>
    (es = [] \<or> route = RouteDatabase \<and> es = [RunInDatabase (hd (rq_databases rq))]) \<and> (route = RouteDatabase \<longrightarrow> se_trace (cn_session st) = []) \<and>
    (err = None \<longrightarrow> ends_complete (an_turns ans) 0 (cn_emitted st) \<and> gd_failure (se_guard (cn_session st)) = None)"
proof -
  let ?rt = "request_router rq" and ?s = "new_session (rq_authorize rq) (rq_limits rq)" and ?money = "hasMoney (rq_query rq)"
  have r: "reachable_session api ?rt (rq_authorize rq) (rq_limits rq) ?s" by (rule reached_new)
  show ?thesis
  proof (cases "route = RouteDatabase")
    case True
    then have d: "databaseStream api ?rt ?money (hd (rq_databases rq)) ans ?s = (es, st, err)" using assms by (simp add: read_route_def Let_def)
    from databaseStream_out [OF r d] show ?thesis using True by (auto simp: new_session_def)
  next
    case False
    obtain s rdr where m: "inMemory api ?rt ans ?s = (s, rdr)" by fastforce
    have s: "reachable_session api ?rt (rq_authorize rq) (rq_limits rq) s" by (rule inMemory_reached [OF r m])
    have c: "consume api ?rt ?money RouteInMemory rdr (an_turns ans) (an_end ans) s = (st, err)" and es: "es = []"
      using assms False m by (simp_all add: read_route_def Let_def)
    have "consuming api ?rt (rq_authorize rq) (rq_limits rq) st" using consume_consuming [OF s, of ?money RouteInMemory rdr "an_turns ans" "an_end ans"] c by simp
    moreover have "err = None \<Longrightarrow> ends_complete (an_turns ans) 0 (cn_emitted st) \<and> gd_failure (se_guard (cn_session st)) = None"
      using consume_success [OF s] c by blast
    ultimately show ?thesis using es False by auto
  qed
qed


text \<open>A slot is held while the sources are read and rows are handed on, one at a time, and none is held at the end.\<close>

fun slots_ok :: "bool \<Rightarrow> exec_effect list \<Rightarrow> bool" where
  "slots_ok held [] = (\<not> held)"
| "slots_ok held (Acquire r # es) = (\<not> held \<and> slots_ok True es)"
| "slots_ok held (Release # es) = (held \<and> slots_ok False es)"
| "slots_ok held (Lookup d # es) = (\<not> held \<and> slots_ok False es)"
| "slots_ok held (e # es) = (held \<and> slots_ok True es)"

lemma slots_ok_append: "slots_ok h xs \<Longrightarrow> slots_ok False ys \<Longrightarrow> slots_ok h (xs @ ys)"
  by (induction h xs rule: slots_ok.induct) auto

lemma slots_ok_leaf [simp]: "slots_ok True (map Leaf xs @ es) = slots_ok True es"
  by (induction xs) auto

lemma slots_ok_emit [simp]: "slots_ok True (map Emit xs @ es) = slots_ok True es"
  by (induction xs) auto

lemma slots_ok_lookup [simp]: "slots_ok False (map Lookup ds @ es) = slots_ok False es"
  by (induction ds) auto

lemma emitted_append [simp]: "emitted (xs @ ys) = emitted xs @ emitted ys"
  by (induction xs rule: emitted.induct) auto

lemma emitted_maps [simp]: "emitted (map Leaf ls) = []" "emitted (map Lookup ds) = []" "emitted (map Emit vs) = vs"
  subgoal by (induction ls) auto
  subgoal by (induction ds) auto
  by (induction vs) auto

text \<open>What an effect on a source has to be, given the session and the route that made it.\<close>

fun made_by :: "exec_request \<Rightarrow> string \<Rightarrow> consumption \<Rightarrow> exec_effect \<Rightarrow> bool" where
  "made_by rq route st (Leaf e) \<longleftrightarrow> e \<in> set (se_trace (cn_session st))"
| "made_by rq route st (RunInDatabase d) \<longleftrightarrow> route = RouteDatabase \<and> d = hd (rq_databases rq)"
| "made_by rq route st (Lookup d) \<longleftrightarrow> False"
| "made_by rq route st e \<longleftrightarrow> True"

lemma attemptStream_out:
  assumes "attemptStream api rq route ans = (es, st, err)"
  shows "consuming api (request_router rq) (rq_authorize rq) (rq_limits rq) st \<and> emitted es = cn_emitted st \<and> list_all (made_by rq route st) es \<and>
    (cf_admission (rq_config rq) \<and> an_release ans \<longrightarrow> slots_ok False es) \<and>
    (err = None \<longrightarrow> ends_complete (an_turns ans) 0 (cn_emitted st) \<and> gd_failure (se_guard (cn_session st)) = None)"
proof (cases "cf_admission (rq_config rq) \<and> \<not> an_slot ans")
  case True
  then have "es = []" "st = start_consumption (new_session (rq_authorize rq) (rq_limits rq))" "err \<noteq> None" using assms by (auto simp: attemptStream_def)
  then show ?thesis using start_consuming [OF reached_new, of api "request_router rq" "rq_authorize rq" "rq_limits rq"] by (auto simp: start_consumption_def)
next
  case False
  obtain es1 st1 err1 where r: "read_route api rq route ans = (es1, st1, err1)" by (metis surj_pair)
  have out: "st = st1" "err = err1" and es: "es = (if cf_admission (rq_config rq) then [Acquire route] else []) @ es1 @ map Leaf (se_trace (cn_session st1)) @ map Emit (cn_emitted st1) @
      (if cf_admission (rq_config rq) \<and> an_release ans then [Release] else [])"
    using assms False r by (auto simp: attemptStream_def Let_def)
  note o = read_route_out [OF r]
  have e1: "es1 = [] \<or> route = RouteDatabase \<and> es1 = [RunInDatabase (hd (rq_databases rq))]" using o by blast
  have "emitted es = cn_emitted st1" using e1 by (auto simp: es)
  moreover have "list_all (made_by rq route st1) es" using e1 by (auto simp: es list_all_iff)
  moreover have "cf_admission (rq_config rq) \<and> an_release ans \<longrightarrow> slots_ok False es" using e1 by (auto simp: es)
  ultimately show ?thesis using o out by blast
qed

lemma run_request_cases:
  assumes "run_request api rq targets ans1 ans2 = (es, r)"
  obtains (one) route st err where "attemptStream api rq route ans1 = (es, st, err)" "r = finish_stream targets route st err"
      "route = RouteDatabase \<longrightarrow> choose_route (rq_config rq) (rq_doc rq) (rq_databases rq) (rq_sources rq) = RouteDatabase"
  | (two) es1 st1 err1 es2 st2 err2 where "attemptStream api rq RouteDatabase ans1 = (es1, st1, err1)" "cn_rows st1 = 0"
      "attemptStream api rq RouteInMemory ans2 = (es2, st2, err2)" "es = es1 @ es2" "r = finish_stream targets RouteInMemory st2 err2"
      "choose_route (rq_config rq) (rq_doc rq) (rq_databases rq) (rq_sources rq) = RouteDatabase"
proof -
  define route where "route = (if hasMoney (rq_query rq) then RouteInMemory else choose_route (rq_config rq) (rq_doc rq) (rq_databases rq) (rq_sources rq))"
  have db: "route = RouteDatabase \<Longrightarrow> choose_route (rq_config rq) (rq_doc rq) (rq_databases rq) (rq_sources rq) = RouteDatabase"
    by (auto simp: route_def RouteInMemory_def RouteDatabase_def split: if_splits)
  obtain es1 st1 err1 where a1: "attemptStream api rq route ans1 = (es1, st1, err1)" by (metis surj_pair)
  obtain es2 st2 err2 where a2: "attemptStream api rq RouteInMemory ans2 = (es2, st2, err2)" by (metis surj_pair)
  show thesis
  proof (cases "\<exists>e. err1 = Some e \<and> cn_rows st1 = 0 \<and> route = RouteDatabase \<and> retryInMemory api rq e")
    case True
    then have "es = es1 @ es2 \<and> r = finish_stream targets RouteInMemory st2 err2"
      using assms a1 a2 by (auto simp: run_request_def route_def [symmetric] Let_def split: option.splits)
    then show thesis using two [of es1 st1 err1 es2 st2 err2] True a1 a2 db by auto
  next
    case False
    then have "es = es1 \<and> r = finish_stream targets route st1 err1"
      using assms a1 by (auto simp: run_request_def route_def [symmetric] Let_def split: option.splits)
    then show thesis using one [of route st1 err1] a1 db by blast
  qed
qed

text \<open>How far a request gets: refused before the registry is asked, refused with lookups only, or run.\<close>

lemma ExecuteStream_cases:
  assumes "ExecuteStream api opts query profile defaultDatabase registry authorize l hasEmit ans1 ans2 = (es, r)"
  obtains (refused) e where "es = []" "r = Inl e"
  | (preflight) doc targets databases q lookup ds e where "registry = Some lookup" "inspect (ex_dal api) (ex_uni api) (cf_nativePGFields (newConfig opts)) query = Inr doc"
      "settle (dc_sources doc) defaultDatabase = Inr (targets, databases, q)" "list_all (may_read authorize) targets" "es = map Lookup ds" "r = Inl e"
  | (ran) doc targets databases q lookup sources es' where "registry = Some lookup" "inspect (ex_dal api) (ex_uni api) (cf_nativePGFields (newConfig opts)) query = Inr doc"
      "settle (dc_sources doc) defaultDatabase = Inr (targets, databases, q)" "list_all (may_read authorize) targets"
      "resolveSources lookup databases [] = (map Lookup databases, Inr sources)" "checkEngines (newConfig opts) databases sources = None" "checkScans targets sources = None"
      "run_request api \<lparr>rq_config = newConfig opts, rq_query = query, rq_doc = doc, rq_databases = databases, rq_sources = sources, rq_authorize = authorize, rq_limits = l\<rparr> targets ans1 ans2 = (es', r)"
      "es = map Lookup databases @ es'"
proof (cases "if hasEmit then registry else None")
  case None
  then show thesis using assms refused by (auto simp: ExecuteStream_def Let_def)
next
  case (Some lookup)
  then have reg: "registry = Some lookup" "hasEmit" by (auto split: if_splits)
  show thesis
  proof (cases "inspect (ex_dal api) (ex_uni api) (cf_nativePGFields (newConfig opts)) query")
    case (Inl e)
    then show thesis using assms refused Some by (auto simp: ExecuteStream_def Let_def)
  next
    case (Inr doc)
    show thesis
    proof (cases "settle (dc_sources doc) defaultDatabase")
      case (Inl e)
      then show thesis using assms refused Some Inr by (auto simp: ExecuteStream_def Let_def split: if_splits)
    next
      case s: (Inr out)
      obtain targets databases q where t: "out = (targets, databases, q)" by (metis surj_pair)
      let ?check = "check_all (\<lambda>t. refuse (\<not> may_read authorize t) (SourceDeniedError (ws_database t) (ws_collection t))) targets"
      show thesis
      proof (cases "checkProfile doc profile = None \<and> ?check = None")
        case False
        then show thesis using assms refused Some Inr s t by (auto simp: ExecuteStream_def Let_def split: if_splits)
      next
        case True
        then have m: "list_all (may_read authorize) targets" by (auto simp: check_simps list_all_iff)
        obtain es0 res where rs: "resolveSources lookup databases [] = (es0, res)" by fastforce
        obtain ds where ds: "es0 = map Lookup ds" using resolveSources_lookups [OF rs] by blast
        note pre = preflight [OF reg(1) Inr s [unfolded t] m]
        show thesis
        proof (cases res)
          case (Inl e)
          then show thesis using assms Some Inr s t True rs ds pre [of ds e] by (simp add: ExecuteStream_def Let_def)
        next
          case srcs: (Inr sources)
          have es0: "es0 = map Lookup databases" using resolveSources_Inr [OF rs [unfolded srcs]] by blast
          let ?first = "first_of [checkEngines (newConfig opts) databases sources, checkScans targets sources]"
          show thesis
          proof (cases ?first)
            case e: (Some e)
            then show thesis using assms Some Inr s t True rs srcs es0 pre [of databases e] by (simp add: ExecuteStream_def Let_def)
          next
            case None
            then have "checkEngines (newConfig opts) databases sources = None" "checkScans targets sources = None" by (auto simp: check_simps)
            moreover obtain es' r' where "run_request api \<lparr>rq_config = newConfig opts, rq_query = query, rq_doc = doc, rq_databases = databases, rq_sources = sources,
                rq_authorize = authorize, rq_limits = l\<rparr> targets ans1 ans2 = (es', r')" by fastforce
            moreover from this have "es = map Lookup databases @ es'" "r = r'" using assms Some Inr s t True rs srcs es0 None by (auto simp: ExecuteStream_def Let_def)
            ultimately show thesis using ran [OF reg(1) Inr s [unfolded t] m] rs srcs es0 by metis
          qed
        qed
      qed
    qed
  qed
qed


section \<open>Protected sources\<close>

definition protected_inv :: "router \<Rightarrow> session \<Rightarrow> bool" where
  "protected_inv rt s \<longleftrightarrow> indexed (se_guard s) \<and>
     list_all (\<lambda>x. \<exists>src. known_source rt src \<and> so_id src = st_database x \<and> (so_policies src \<longrightarrow> st_protected x)) (gd_stats (se_guard s))"

lemma in_list_update:
  assumes "x \<in> set (xs[i := y])"
  shows "x = y \<or> (\<exists>j < length xs. j \<noteq> i \<and> x = xs ! j)"
proof -
  obtain j where j: "j < length xs" "x = xs[i := y] ! j" using assms by (auto simp: in_set_conv_nth)
  then show ?thesis by (cases "j = i") auto
qed

lemma record_read_entries:
  assumes "indexed g" and "x \<in> set (gd_stats (record_read d c p n el g))"
  shows "x \<in> set (gd_stats g) \<or> st_database x = d \<and> (p \<longrightarrow> st_protected x)"
proof -
  obtain i h where slot: "stat_slot d c g = (i, h)" by fastforce
  have h: "indexed h" "mget (gd_index h) (d, c) = Some i" using stat_slot_indexed [OF assms(1) slot] by blast+
  have i: "i < length (gd_stats h)" "st_database (gd_stats h ! i) = d" using indexedD [OF h] by (auto simp: stat_key_def)
  have "set (gd_stats h) \<subseteq> insert \<lparr>st_database = d, st_collection = c, st_rows = 0, st_elapsed = 0, st_protected = False\<rparr> (set (gd_stats g))"
    using slot by (auto simp: stat_slot_def split: option.splits)
  moreover have "x = (gd_stats h ! i)\<lparr>st_rows := st_rows (gd_stats h ! i) + n, st_elapsed := st_elapsed (gd_stats h ! i) + el, st_protected := (st_protected (gd_stats h ! i) \<or> p)\<rparr> \<or>
      (\<exists>j < length (gd_stats h). j \<noteq> i \<and> x = gd_stats h ! j)"
    using assms(2) by (intro in_list_update) (simp add: record_read_slot [OF slot])
  moreover have "gd_stats h ! j \<in> set (gd_stats g)" if j: "j < length (gd_stats h)" "j \<noteq> i" for j
  proof (cases "mget (gd_index g) (d, c)")
    case None
    then have "gd_stats h = gd_stats g @ [\<lparr>st_database = d, st_collection = c, st_rows = 0, st_elapsed = 0, st_protected = False\<rparr>]" "i = length (gd_stats g)"
      using slot by (auto simp: stat_slot_def)
    then show ?thesis using j by (auto simp: nth_append less_Suc_eq)
  next
    case (Some k)
    then show ?thesis using slot j by (auto simp: stat_slot_def)
  qed
  ultimately show ?thesis using i by auto
qed

lemma protected_inv_step:
  assumes "protected_inv rt s" and "authority_inv rt authorize s"
  shows "protected_inv rt (perform rt marshal c s)"
proof -
  define t where "t = perform rt marshal c s"
  let ?P = "\<lambda>x. \<exists>src. known_source rt src \<and> so_id src = st_database x \<and> (so_policies src \<longrightarrow> st_protected x)"
  note inv = assms(1) [unfolded protected_inv_def]
  have same: "protected_inv rt t" if "gd_stats (se_guard t) = gd_stats (se_guard s)" "gd_index (se_guard t) = gd_index (se_guard s)"
    using inv stats_only [OF that] that by (simp add: protected_inv_def)
  from t_def have "protected_inv rt t"
  proof (cases rule: perform_cases)
    case leaf
    then obtain src g es rds where t: "t = s\<lparr>se_guard := g, se_trace := se_trace s @ es, se_readers := se_readers s @ rds\<rparr>" and c: "leaf_call src (se_guard s) g es"
      by (rule leaf_stepE)
    then show ?thesis using same failed_at_mostD(5,6) [of "se_guard s" g] by (simp add: leaf_call_def)
  next
    case (end_of_read i r g)
    let ?r = "se_readers s ! i"
    have rt: "known_source rt (rd_source ?r)" using assms(2) end_of_read(1) by (simp add: authority_inv_def list_all_length)
    obtain now f where g: "g = (snd (finish now ?r (se_guard s)))\<lparr>gd_failure := f\<rparr>" using end_of_read(2) by (auto simp: ended_def)
    have ix: "indexed g" using ended_stats [OF end_of_read(2)] inv by blast
    have "?P x" if x: "x \<in> set (gd_stats g)" for x
    proof -
      have "x \<in> set (gd_stats (se_guard s)) \<or> st_database x = so_id (rd_source ?r) \<and> (so_policies (rd_source ?r) \<longrightarrow> st_protected x)"
        using x record_read_entries inv by (auto simp: g finish_def split: if_splits)
      then show ?thesis using inv rt by (auto simp: list_all_iff)
    qed
    then show ?thesis using ix by (simp add: protected_inv_def end_of_read(3) list_all_iff)
  next
    case (delivered i ans data encoded g r)
    then show ?thesis using same charge_admits(2) [OF delivered(6)] by simp
  qed
  then show ?thesis by (simp add: t_def)
qed

interpretation protected_system: step_system "session_step rt marshal" "\<lambda>s. protected_inv rt s \<and> authority_inv rt authorize s" for rt marshal authorize
  by unfold_locales (auto elim!: session_stepE intro: protected_inv_step authority_inv_step)

lemma reached_inv:
  assumes "reachable_session api rt authorize l s"
  shows "protected_inv rt s \<and> authority_inv rt authorize s"
proof -
  have "protected_inv rt (new_session authorize l) \<and> authority_inv rt authorize (new_session authorize l)"
    by (simp add: protected_inv_def authority_inv_def new_session_def NewGuard_def indexed_def)
  then show ?thesis using assms protected_system.run_inv [OF fold_session] unfolding reachable_session_def by blast
qed

section \<open>Properties\<close>

abbreviation document_sources :: "dal_query \<Rightarrow> walked_source list" where
  "document_sources q \<equiv> concat (map node_sources (nodes_query q))"

text \<open>
  What each effect of a request needs: the caller's right to every source written in the document, and, where a source is read, the
  right to the collection and a database of the registry - one without access policies where it runs the document itself or
  serves its fields.
\<close>

fun read_allowed :: "authority \<Rightarrow> (string \<Rightarrow> db_source option) \<Rightarrow> string \<Rightarrow> dal_query \<Rightarrow> exec_effect \<Rightarrow> bool" where
  "read_allowed authorize lookup def q (Leaf (Read d c)) \<longleftrightarrow>
     list_all (\<lambda>x. may_read authorize (settled def x)) (document_sources q) \<and> (\<exists>ok. authorize = Some ok \<and> ok d c) \<and> lookup d \<noteq> None"
| "read_allowed authorize lookup def q (Leaf (Deliver d c v n)) \<longleftrightarrow>
     list_all (\<lambda>x. may_read authorize (settled def x)) (document_sources q) \<and> (\<exists>ok. authorize = Some ok \<and> ok d c) \<and> lookup d \<noteq> None"
| "read_allowed authorize lookup def q (Leaf (LoadFields d c)) \<longleftrightarrow>
     list_all (\<lambda>x. may_read authorize (settled def x)) (document_sources q) \<and> (\<exists>ok. authorize = Some ok \<and> ok d c) \<and>
     (\<exists>src. lookup d = Some src \<and> \<not> so_policies src)"
| "read_allowed authorize lookup def q (RunInDatabase d) \<longleftrightarrow>
     list_all (\<lambda>x. may_read authorize (settled def x)) (document_sources q) \<and>
     list_all (\<lambda>x. ws_database (settled def x) = d) (document_sources q) \<and> (\<exists>src. lookup d = Some src \<and> \<not> so_policies src)"
| "read_allowed authorize lookup def q e \<longleftrightarrow> list_all (\<lambda>x. may_read authorize (settled def x)) (document_sources q)"

lemma made_by_allowed:
  assumes "resolveSources lookup databases [] = (map Lookup databases, Inr sources)"
    and "rq_databases rq = databases" and "rq_sources rq = sources" and "rq_authorize rq = authorize"
    and "consuming api (request_router rq) (rq_authorize rq) (rq_limits rq) st" and "made_by rq route st e"
    and "list_all (\<lambda>x. may_read authorize (settled def x)) (document_sources q)"
    and "route = RouteDatabase \<Longrightarrow> list_all (\<lambda>x. ws_database (settled def x) = hd databases) (document_sources q) \<and> (\<exists>src. lookup (hd databases) = Some src \<and> \<not> so_policies src)"
  shows "read_allowed authorize lookup def q e"
proof -
  have "authority_inv (newRouter sources databases) authorize (cn_session st)"
    using reached_inv [of api "request_router rq" "rq_authorize rq" "rq_limits rq" "cn_session st"] assms(2-5) by (simp add: consuming_def)
  then have leaf: "effect_allowed (newRouter sources databases) authorize x" if "x \<in> set (se_trace (cn_session st))" for x
    using that by (simp add: authority_inv_def list_all_iff)
  note known = resolved_map [OF assms(1)]
  show ?thesis
  proof (cases e)
    case (Leaf x)
    then have "effect_allowed (newRouter sources databases) authorize x" using leaf assms(6) by simp
    then show ?thesis using Leaf assms(7) known by (cases x) fastforce+
  qed (use assms in auto)
qed

text \<open>
  C4. A joined read touches nothing the caller may not read. Before the registry is even asked for a database, every collection
  written anywhere in the document has been authorised; every read, every list of fields and every row is of an authorised
  collection in a registered database; and a database runs a document itself only if the whole document is in it and it has no
  access policies.
\<close>

theorem joined_reads_are_authorised:
  "list_all (read_allowed authorize lookup defaultDatabase query)
     (fst (ExecuteStream api opts query profile defaultDatabase (Some lookup) authorize l hasEmit ans1 ans2))"
proof -
  obtain es r where x: "ExecuteStream api opts query profile defaultDatabase (Some lookup) authorize l hasEmit ans1 ans2 = (es, r)" by fastforce
  have doc: "dc_sources doc = document_sources query" if "inspect (ex_dal api) (ex_uni api) (cf_nativePGFields (newConfig opts)) query = Inr doc" for doc
    using inspect_Inr [OF that] visits_note [of "ex_dal api" "nodes_query query" new_walker] by (simp add: new_walker_def)
  have all: "list_all (\<lambda>x. may_read authorize (settled defaultDatabase x)) (document_sources query)"
    if "inspect (ex_dal api) (ex_uni api) (cf_nativePGFields (newConfig opts)) query = Inr d" "settle (dc_sources d) defaultDatabase = Inr (ts, dbs, q)" "list_all (may_read authorize) ts"
    for d ts dbs q
    using settle_Inr [OF that(2)] doc [OF that(1)] that(3) by (simp add: list_all_iff)
  from x have "list_all (read_allowed authorize lookup defaultDatabase query) es"
  proof (cases rule: ExecuteStream_cases)
    case (refused e)
    then show ?thesis by simp
  next
    case (preflight doc targets databases q lookup' ds e)
    then show ?thesis using all [OF preflight(2-4)] by (simp add: list_all_iff)
  next
    case (ran doc' targets databases q lookup' sources es')
    have lk: "lookup' = lookup" using ran(1) by simp
    let ?rq = "\<lparr>rq_config = newConfig opts, rq_query = query, rq_doc = doc', rq_databases = databases, rq_sources = sources, rq_authorize = authorize, rq_limits = l\<rparr>"
    note a = all [OF ran(2-4)]
    have db: "list_all (\<lambda>x. ws_database (settled defaultDatabase x) = hd databases) (document_sources query) \<and> (\<exists>src. lookup (hd databases) = Some src \<and> \<not> so_policies src)"
      if route: "choose_route (newConfig opts) doc' databases sources = RouteDatabase"
    proof -
      have "length databases = 1" and p: "\<not> so_policies (source_of sources (hd databases))"
        using route by (auto simp: choose_route_def Let_def RouteDatabase_def RouteInMemory_def split: if_splits)
      then obtain d where d: "databases = [d]" by (auto simp: length_Suc_conv)
      obtain src where src: "lookup d = Some src" "mget sources d = Some src" using resolveSources_Inr [OF ran(5)] lk d by auto
      have "set databases = ws_database ` set targets" "targets = map (settled defaultDatabase) (document_sources query)"
        using settle_Inr [OF ran(3)] doc [OF ran(2)] by auto
      then show ?thesis using d p src by (auto simp: list_all_iff source_of_def)
    qed
    have made: "list_all (read_allowed authorize lookup defaultDatabase query) es0"
      if "attemptStream api ?rq route ans = (es0, st, err)" "route = RouteDatabase \<longrightarrow> choose_route (newConfig opts) doc' databases sources = RouteDatabase" for route ans es0 st err
      using attemptStream_out [OF that(1)] made_by_allowed [OF ran(5) [unfolded lk], of ?rq authorize api st route _ defaultDatabase query] a db that(2)
      by (simp add: list_all_iff)
    have "list_all (read_allowed authorize lookup defaultDatabase query) es'"
      using ran(8)
    proof (cases rule: run_request_cases)
      case (one route st err)
      then show ?thesis using made [OF one(1)] by simp
    next
      case (two es1 st1 err1 es2 st2 err2)
      then show ?thesis using made [OF two(1)] made [OF two(3)] by (simp add: RouteInMemory_def RouteDatabase_def)
    qed
    moreover have "list_all (read_allowed authorize lookup defaultDatabase query) (map Lookup databases)" using a by (simp add: list_all_iff)
    ultimately show ?thesis using ran(9) by simp
  qed
  then show ?thesis using x by simp
qed


lemma run_request_emits:
  assumes "run_request api rq targets ans1 ans2 = (es, r)"
  obtains route ans st err where "emitted es = cn_emitted st" "consuming api (request_router rq) (rq_authorize rq) (rq_limits rq) st"
    "r = finish_stream targets route st err" "ans = ans1 \<or> ans = ans2"
    "err = None \<longrightarrow> ends_complete (an_turns ans) 0 (cn_emitted st) \<and> gd_failure (se_guard (cn_session st)) = None"
  using assms
proof (cases rule: run_request_cases)
  case (one route st err)
  then show thesis using that [of st route err ans1] attemptStream_out [OF one(1)] by blast
next
  case (two es1 st1 err1 es2 st2 err2)
  have "cn_emitted st1 = []" using attemptStream_out [OF two(1)] two(2) by (simp add: consuming_def)
  then have "emitted es = cn_emitted st2" using attemptStream_out [OF two(1)] attemptStream_out [OF two(3)] two(4) by simp
  then show thesis using that [of st2 RouteInMemory err2 ans2] attemptStream_out [OF two(3)] two(5) by blast
qed

text \<open>
  C23. A result is bounded however the request ends: the rows handed to the callback are at most a thousand, over both attempts
  together, and their encoded bytes at most eight mebibytes.
\<close>

theorem result_is_bounded:
  assumes "small_rows (ex_marshal api)"
  shows "int (length (emitted (fst (ExecuteStream api opts query profile defaultDatabase registry authorize l hasEmit ans1 ans2)))) \<le> MaxResultRows \<and>
    int (sum_list (map (row_length api) (emitted (fst (ExecuteStream api opts query profile defaultDatabase registry authorize l hasEmit ans1 ans2))))) \<le> MaxResultBytes"
proof -
  obtain es r where x: "ExecuteStream api opts query profile defaultDatabase registry authorize l hasEmit ans1 ans2 = (es, r)" by fastforce
  from x have "int (length (emitted es)) \<le> MaxResultRows \<and> int (sum_list (map (row_length api) (emitted es))) \<le> MaxResultBytes"
  proof (cases rule: ExecuteStream_cases)
    case (ran doc targets databases q lookup sources es')
    from ran(8) obtain route ans st err where e: "emitted es' = cn_emitted st" and c: "consuming api (newRouter sources databases) authorize l st"
      by (rule run_request_emits) auto
    then show ?thesis using assms ran(9) by (simp add: consuming_def)
  qed (simp_all add: MaxResultRows_def MaxResultBytes_def)
  then show ?thesis using x by simp
qed

text \<open>
  C6. An answer is never cut short. When a request succeeds, its records are all the rows its reader gave, in order, up to the end of
  the stream: a read that failed part way, a source that failed behind a clean end, a budget that ran out or an error that
  merely looks like the end is answered with an error and no rows.
\<close>

theorem success_is_complete:
  assumes "Execute api opts query profile defaultDatabase registry authorize l ans1 ans2 = Inr (rows, result)"
  shows "sr_rows result = int (length rows) \<and> (ends_complete (an_turns ans1) 0 rows \<or> ends_complete (an_turns ans2) 0 rows)"
proof -
  obtain es where x: "ExecuteStream api opts query profile defaultDatabase registry authorize l True ans1 ans2 = (es, Inr result)" and rows: "rows = emitted es"
    using assms by (auto simp: Execute_def split: prod.splits sum.splits)
  from x show ?thesis
  proof (cases rule: ExecuteStream_cases)
    case (ran doc targets databases q lookup sources es')
    from ran(8) obtain route ans st err where e: "emitted es' = cn_emitted st" and c: "consuming api (newRouter sources databases) authorize l st"
      and f: "Inr result = finish_stream targets route st err" and a: "ans = ans1 \<or> ans = ans2"
      and k: "err = None \<longrightarrow> ends_complete (an_turns ans) 0 (cn_emitted st) \<and> gd_failure (se_guard (cn_session st)) = None"
      by (rule run_request_emits) auto
    have "err = None" "sr_rows result = cn_rows st" using f by (auto simp: finish_stream_def split: option.splits)
    then show ?thesis using a k c e ran(9) rows by (auto simp: consuming_def)
  qed simp_all
qed

text \<open>
  C24. Slots are given back. With admission, everything read or handed on happens while the request holds exactly one slot: the preflight
  holds none, the retry in memory takes its own after the first was given back, and none is held when the request ends, whatever
  way it ends.
\<close>

theorem slots_are_released:
  assumes "cf_admission (newConfig opts)" and "an_release ans1" and "an_release ans2"
  shows "slots_ok False (fst (ExecuteStream api opts query profile defaultDatabase registry authorize l hasEmit ans1 ans2))"
proof -
  obtain es r where x: "ExecuteStream api opts query profile defaultDatabase registry authorize l hasEmit ans1 ans2 = (es, r)" by fastforce
  from x have "slots_ok False es"
  proof (cases rule: ExecuteStream_cases)
    case (preflight doc targets databases q lookup ds e)
    then show ?thesis using slots_ok_lookup [of ds "[]"] by simp
  next
    case (ran doc targets databases q lookup sources es')
    have "slots_ok False es'"
      using ran(8)
    proof (cases rule: run_request_cases)
      case (one route st err)
      then show ?thesis using attemptStream_out [OF one(1)] assms by simp
    next
      case (two es1 st1 err1 es2 st2 err2)
      then show ?thesis using attemptStream_out [OF two(1)] attemptStream_out [OF two(3)] assms by (simp add: slots_ok_append)
    qed
    then show ?thesis using ran(9) by simp
  qed simp
  then show ?thesis using x by simp
qed

text \<open>
  C25. The size of a protected source is not told: an answer reports no row count for a source with access policies.
\<close>

theorem protected_counts_hidden:
  assumes "ExecuteStream api opts query profile defaultDatabase (Some lookup) authorize l hasEmit ans1 ans2 = (es, Inr result)"
    and "x \<in> set (sr_sources result)" and "lookup (es_database x) = Some src" and "so_policies src"
  shows "es_rows x = None"
  using assms(1)
proof (cases rule: ExecuteStream_cases)
  case (ran doc targets databases q lookup' sources es')
  from ran(8) obtain route ans st err where c: "consuming api (newRouter sources databases) authorize l st" and f: "Inr result = finish_stream targets route st err"
    by (rule run_request_emits) auto
  have p: "protected_inv (newRouter sources databases) (cn_session st)" using c reached_inv by (auto simp: consuming_def)
  have db: "es_rows y = None" if "y \<in> set (databaseSources ts seen)" for y ts seen
    using that by (induction ts seen rule: databaseSources.induct) (auto simp: Let_def split: if_splits)
  have "sr_sources result = databaseSources targets [] \<or> sr_sources result = inMemorySources (gd_stats (se_guard (cn_session st)))"
    using f by (auto simp: finish_stream_def split: option.splits if_splits)
  then show ?thesis
  proof
    assume "sr_sources result = databaseSources targets []"
    then show ?thesis using assms(2) db by simp
  next
    assume "sr_sources result = inMemorySources (gd_stats (se_guard (cn_session st)))"
    then obtain y where y: "y \<in> set (gd_stats (se_guard (cn_session st)))" "es_database x = st_database y" "es_rows x = (if st_protected y then None else Some (st_rows y))"
      using assms(2) by (auto simp: inMemorySources_def)
    then obtain src' where "known_source (newRouter sources databases) src'" "so_id src' = st_database y" "so_policies src' \<longrightarrow> st_protected y"
      using p by (auto simp: protected_inv_def list_all_iff)
    moreover from this have "lookup (so_id src') = Some src'" using resolved_map [OF ran(5), of src'] ran(1) by (metis option.inject)
    ultimately show ?thesis using assms(3,4) y by simp
  qed
qed simp_all


section \<open>Witnesses\<close>

text \<open>Orders joined to people in a database with access policies, behind an admission that gives slots back.\<close>

definition sample_api :: exec_api where
  "sample_api = \<lparr>ex_dal = sample_dal, ex_uni = sample_classes, ex_marshal = two_byte_rows, ex_err_text = (\<lambda>e. []), ex_hasAggregation = (\<lambda>q. False),
     ex_unsupported = (\<lambda>e. [])\<rparr>"

definition guarded_shop :: db_source where
  "guarded_shop = shop\<lparr>so_policies := True\<rparr>"

definition sample_registry :: "string \<Rightarrow> db_source option" where
  "sample_registry d = (if d = ''shop'' then Some guarded_shop else None)"

definition sample_authorize :: authority where
  "sample_authorize = Some (\<lambda>d c. d = ''shop'' \<and> (c = ''orders'' \<or> c = ''people''))"

definition open_people :: call where
  "open_people = CallExecute (Structured (Some (RefValue (sample_ref ''people'' []), 0)) False) \<lparr>oa_ctx = None, oa_error = None, oa_now = 1\<rparr>"

definition sample_turn :: "nat \<Rightarrow> turn" where
  "sample_turn n =
     (if n = 0 then \<lparr>tu_ctx = None, tu_calls = [CallNext 0 row_ready, CallNext 1 row_ready], tu_row = Inr (VObj []), tu_emit = None\<rparr>
      else \<lparr>tu_ctx = None, tu_calls = [], tu_row = Inl IoEOF, tu_emit = None\<rparr>)"

definition sample_answers :: answers where
  "sample_answers = \<lparr>an_slot = True, an_release = True, an_tx = \<lparr>tx_check = None, tx_runs = True, tx_error = (\<lambda>e. e)\<rparr>, an_scope = None, an_scopeCalls = [],
     an_fields = None, an_openCalls = [open_orders, open_people], an_open = ReaderReady, an_turns = sample_turn,
     an_end = \<lparr>re_calls = [CallClose 0 None 9, CallClose 1 None 9], re_close = None, re_ctx = None\<rparr>\<rparr>"

definition sample_result :: stream_result where
  "sample_result = \<lparr>sr_route = RouteInMemory, sr_rows = 1, sr_keys = [],
     sr_sources = [\<lparr>es_database = ''shop'', es_collection = ''orders'', es_rows = None, es_elapsedMs = Some 0\<rparr>,
                   \<lparr>es_database = ''shop'', es_collection = ''people'', es_rows = None, es_elapsedMs = Some 0\<rparr>]\<rparr>"

definition sample_effects :: "exec_effect list" where
  "sample_effects = [Lookup ''shop'', Acquire RouteInMemory, Leaf (Read ''shop'' ''orders''), Leaf (Read ''shop'' ''people''),
     Leaf (Deliver ''shop'' ''orders'' (VObj []) 2), Leaf (Deliver ''shop'' ''people'' (VObj []) 2), Emit (VObj []), Release]"

definition sample_config :: config where
  "sample_config = \<lparr>cf_joinEngines = [''sqlite'', ''ingitdb''], cf_nativeEngines = [''sqlite''], cf_nativePGFields = False, cf_admission = True\<rparr>"

lemma sample_newConfig: "newConfig [WithAdmission True] = sample_config"
  by (simp add: newConfig_def sample_config_def)

lemma sample_settle: "settle (dc_sources sample_document) ''shop'' =
    Inr ([\<lparr>ws_database = ''shop'', ws_collection = ''orders'', ws_scan = False\<rparr>, \<lparr>ws_database = ''shop'', ws_collection = ''people'', ws_scan = False\<rparr>], [''shop''], False)"
  by (simp add: settle_def settle_one_def sample_document_def)

abbreviation sample_router :: router where
  "sample_router \<equiv> newRouter [(''shop'', guarded_shop)] [''shop'']"

definition sample_reader :: "string \<Rightarrow> int \<Rightarrow> bool \<Rightarrow> counting_reader" where
  "sample_reader c n fin = \<lparr>rd_source = guarded_shop, rd_collection = c, rd_started = 1, rd_rows = n, rd_finished = fin\<rparr>"

definition sample_session :: "int \<Rightarrow> int \<Rightarrow> session" where
  "sample_session n b = \<lparr>se_guard = (NewGuard sample_authorize DefaultLimits)\<lparr>gd_rows := 2 * n, gd_bytes := b\<rparr>,
     se_readers = [sample_reader ''orders'' n False, sample_reader ''people'' n False],
     se_trace = [Read ''shop'' ''orders'', Read ''shop'' ''people''] @
       (if n = 0 then [] else [Deliver ''shop'' ''orders'' (VObj []) 2, Deliver ''shop'' ''people'' (VObj []) 2])\<rparr>"

lemmas sample_calls = perform.simps opened_def router_execute_def leafOf_def run_leaf_def leaf_execute_def leaf_resolve_def leaf_collection_def authorised_def
  newRouter_def sample_ref_def open_orders_def open_people_def sample_authorize_def NewGuard_def new_session_def

lemma sample_opens: "fold (perform sample_router two_byte_rows) [open_orders, open_people] (new_session sample_authorize DefaultLimits) = sample_session 0 0"
  by (simp add: sample_calls sample_session_def sample_reader_def guarded_shop_def shop_def)

lemma sample_reads: "fold (perform sample_router two_byte_rows) [CallNext 0 row_ready, CallNext 1 row_ready] (sample_session 0 0) = sample_session 1 4"
  by (simp add: sample_session_def sample_reader_def guarded_shop_def shop_def reader_Next_def row_ready_def encodeRow_def two_byte_rows_def charge_def NewGuard_def
      withDefaults_def DefaultLimits_def add64_def)

lemma sample_closes:
  defines "s \<equiv> fold (perform sample_router two_byte_rows) [CallClose 0 None 9, CallClose 1 None 9] (sample_session 1 4)"
  shows "gd_failure (se_guard s) = None" "se_trace s = se_trace (sample_session 1 4)" "inMemorySources (gd_stats (se_guard s)) = sr_sources sample_result"
  unfolding s_def by (simp_all add: sample_session_def sample_reader_def guarded_shop_def shop_def reader_Close_def finish_def record_read_def NewGuard_def Let_def
      inMemorySources_def milliseconds_def sample_result_def)

definition sample_consumed :: consumption where
  "sample_consumed = (start_consumption (sample_session 1 4))\<lparr>cn_cap := \<lparr>rc_rows = 1, rc_bytes = 2\<rparr>, cn_rows := 1, cn_emitted := [VObj []]\<rparr>"

lemma sample_turns:
  "consume_turn sample_api sample_router False RouteInMemory (sample_turn 0) (start_consumption (sample_session 0 0)) = Inr sample_consumed"
  "consume_turn sample_api sample_router False RouteInMemory (sample_turn (Suc 0)) sample_consumed = Inl (sample_consumed, None)"
  by (simp_all add: consume_turn_def sample_turn_def sample_api_def start_consumption_def sample_consumed_def cap_Next_def money_Next_def encodeRow_def two_byte_rows_def add64_def
      MaxResultRows_def MaxResultBytes_def end_of_stream_def sample_reads [simplified])

lemma sample_consume:
  "consume sample_api sample_router False RouteInMemory ReaderReady sample_turn (an_end sample_answers) (sample_session 0 0) =
     (sample_consumed\<lparr>cn_session := fold (perform sample_router two_byte_rows) [CallClose 0 None 9, CallClose 1 None 9] (sample_session 1 4)\<rparr>, None)"
proof -
  have "consume_loop sample_api sample_router False RouteInMemory sample_turn 0 (start_consumption (sample_session 0 0)) = (sample_consumed, None)"
    using sample_turns by (simp add: consume_loop.simps)
  from consume_ready [OF this] show ?thesis
    using sample_closes(1) by (simp add: sample_answers_def sample_api_def sample_consumed_def start_consumption_def run_classify_None)
qed


definition sample_request :: exec_request where
  "sample_request = \<lparr>rq_config = sample_config, rq_query = sample_query, rq_doc = sample_document, rq_databases = [''shop''], rq_sources = [(''shop'', guarded_shop)],
     rq_authorize = sample_authorize, rq_limits = DefaultLimits\<rparr>"

lemma sample_read: "read_route sample_api sample_request RouteInMemory sample_answers =
    ([], sample_consumed\<lparr>cn_session := fold (perform sample_router two_byte_rows) [CallClose 0 None 9, CallClose 1 None 9] (sample_session 1 4)\<rparr>, None)"
proof -
  have m: "inMemory sample_api sample_router sample_answers (new_session sample_authorize DefaultLimits) = (sample_session 0 0, ReaderReady)"
    using sample_opens by (simp add: inMemory_def sample_answers_def sample_api_def)
  have h: "\<not> hasMoney sample_query" by (simp add: sample_query_def sample_settings_def)
  have t: "an_turns sample_answers = sample_turn" by (simp add: sample_answers_def)
  show ?thesis using sample_consume by (simp add: read_route_def sample_request_def m h t RouteInMemory_def RouteDatabase_def)
qed

lemma sample_attempt: "attemptStream sample_api sample_request RouteInMemory sample_answers =
    (tl sample_effects, sample_consumed\<lparr>cn_session := fold (perform sample_router two_byte_rows) [CallClose 0 None 9, CallClose 1 None 9] (sample_session 1 4)\<rparr>, None)"
  using sample_read sample_closes(2)
  by (simp add: attemptStream_def sample_request_def sample_config_def sample_answers_def sample_effects_def sample_consumed_def sample_session_def start_consumption_def)

lemma sample_run:
  "ExecuteStream sample_api [WithAdmission True] sample_query sample_profile ''shop'' (Some sample_registry) sample_authorize DefaultLimits True sample_answers sample_answers =
     (sample_effects, Inr sample_result)"
proof -
  have i: "inspect (ex_dal sample_api) (ex_uni sample_api) (cf_nativePGFields sample_config) sample_query = Inr sample_document"
    using sample_inspected by (simp add: sample_api_def sample_config_def)
  have r: "resolveSources sample_registry [''shop''] [] = ([Lookup ''shop''], Inr [(''shop'', guarded_shop)])"
    by (simp add: sample_registry_def guarded_shop_def shop_def)
  have e: "checkEngines sample_config [''shop''] [(''shop'', guarded_shop)] = None"
    by (simp add: checkEngines_def source_of_def guarded_shop_def shop_def sample_config_def check_simps)
  have route: "choose_route sample_config sample_document [''shop''] [(''shop'', guarded_shop)] = RouteInMemory"
    by (simp add: choose_route_def sample_document_def)
  have run: "run_request sample_api sample_request targets sample_answers sample_answers = (tl sample_effects, Inr sample_result)" for targets
    using sample_attempt sample_closes(3) route
    by (simp add: run_request_def sample_request_def finish_stream_def sample_consumed_def start_consumption_def sample_result_def sample_query_def sample_settings_def RouteInMemory_def RouteDatabase_def)
  show ?thesis
    using run [unfolded sample_request_def] sample_claim
    by (simp add: ExecuteStream_def sample_newConfig i sample_settle r e may_read_def sample_authorize_def refuse_def checkScans_def first_of_def sample_effects_def
        del: resolveSources.simps)
qed

theorem result_is_bounded_witness:
  "int (length (emitted sample_effects)) \<le> MaxResultRows \<and> emitted sample_effects = [VObj []]"
proof -
  have "small_rows (ex_marshal sample_api)" using small_sample by (simp add: sample_api_def)
  from result_is_bounded [OF this, of "[WithAdmission True]" sample_query sample_profile "''shop''" "Some sample_registry" sample_authorize DefaultLimits True sample_answers sample_answers]
  show ?thesis by (simp add: sample_run sample_effects_def)
qed

theorem success_is_complete_witness:
  "ends_complete sample_turn 0 [VObj []]"
proof -
  have "Execute sample_api [WithAdmission True] sample_query sample_profile ''shop'' (Some sample_registry) sample_authorize DefaultLimits sample_answers sample_answers =
      Inr ([VObj []], sample_result)"
    by (simp add: Execute_def sample_run sample_effects_def)
  from success_is_complete [OF this] show ?thesis by (simp add: sample_answers_def)
qed

theorem slots_are_released_witness:
  "slots_ok False sample_effects \<and> Acquire RouteInMemory \<in> set sample_effects"
proof -
  have "cf_admission (newConfig [WithAdmission True])" "an_release sample_answers" by (simp_all add: sample_newConfig sample_config_def sample_answers_def)
  from slots_are_released [OF this this(2), of sample_api sample_query sample_profile "''shop''" "Some sample_registry" sample_authorize DefaultLimits True]
  show ?thesis by (simp add: sample_run sample_effects_def)
qed

theorem protected_counts_hidden_witness:
  "es_rows (hd (sr_sources sample_result)) = None \<and> so_policies guarded_shop"
proof -
  have "hd (sr_sources sample_result) \<in> set (sr_sources sample_result)" "sample_registry (es_database (hd (sr_sources sample_result))) = Some guarded_shop" "so_policies guarded_shop"
    by (simp_all add: sample_result_def sample_registry_def guarded_shop_def)
  from protected_counts_hidden [OF sample_run this] show ?thesis by (simp add: guarded_shop_def)
qed

end
