(* ===== verification/Join_Columns.thy ===== *)
theory Join_Columns
  imports Join_Execute
begin

text \<open>
  \<^verbatim>\<open>src/pkg/joinexec/columns.go\<close>, the names of a result's columns in the order they were selected, and from \<^verbatim>\<open>execute.go\<close> the choice of DALgo's
  executor and \<^verbatim>\<open>withDefaultDatabase\<close>, which names the one database of a document on every source that names none. The text of an
  expression, the columns a wildcard excludes and whether a query aggregates are DALgo's (\<open>column_api\<close>).
\<close>

section \<open>Column names\<close>

record column_api =
  ca_text :: "dal_expr \<Rightarrow> string"
  ca_excludes :: "string \<times> string list \<Rightarrow> string \<Rightarrow> bool"
  ca_aggregates :: bool

fun columnName :: "column_api \<Rightarrow> dal_column \<Rightarrow> nat \<Rightarrow> string list \<Rightarrow> string" where
  "columnName api (Column alias wild e) index keys =
     (if alias \<noteq> [] then alias
      else case e of
        FieldRef name src \<Rightarrow> name
      | _ \<Rightarrow>
          let aggregated = ca_text api e;
              projected = (case e of QueryExpr as q \<Rightarrow> if as \<noteq> [] then as else ''column_'' @ format_int (int index) | _ \<Rightarrow> ''column_'' @ format_int (int index));
              candidates = (if ca_aggregates api then [aggregated, projected] else [projected, aggregated])
          in case List.find (\<lambda>n. n \<in> set keys) candidates of Some n \<Rightarrow> n | None \<Rightarrow> hd candidates)"

definition add_name :: "string \<Rightarrow> string list \<Rightarrow> string list" where
  "add_name n columns = (if n \<in> set columns then columns else columns @ [n])"

fun wildcard :: "dal_column \<Rightarrow> (string \<times> string list) option" where
  "wildcard (Column alias wild e) = wild"

definition selected_names :: "column_api \<Rightarrow> dal_column list \<Rightarrow> string list \<Rightarrow> string list" where
  "selected_names api selected keys = map (\<lambda>(i, c). columnName api c i keys) (filter (\<lambda>(i, c). wildcard c = None) (zip [0..<length selected] selected))"

definition add_column :: "column_api \<Rightarrow> string list \<Rightarrow> string list \<Rightarrow> string list \<Rightarrow> nat \<times> dal_column \<Rightarrow> string list \<Rightarrow> string list" where
  "add_column api keys ordered named ic columns =
     (case wildcard (snd ic) of
        None \<Rightarrow> add_name (columnName api (snd ic) (fst ic) keys) columns
      | Some w \<Rightarrow> fold add_name (filter (\<lambda>n. n \<notin> set named \<and> \<not> ca_excludes api w n) ordered) columns)"

definition orderedColumnsForKeys :: "column_api \<Rightarrow> dal_column list \<Rightarrow> string list \<Rightarrow> string list" where
  "orderedColumnsForKeys api selected keys =
     (let ordered = sort keys; named = selected_names api selected keys in
      fold add_name ordered (fold (add_column api keys ordered named) (zip [0..<length selected] selected) []))"

fun data_keys :: "gvalue \<Rightarrow> string list" where
  "data_keys (VObj m) = mkeys m"
| "data_keys v = []"

definition orderedColumns :: "column_api \<Rightarrow> dal_column list \<Rightarrow> gvalue list \<Rightarrow> string list" where
  "orderedColumns api selected records = orderedColumnsForKeys api selected (fold (\<lambda>r keys. fold add_name (data_keys r) keys) records [])"

subsection \<open>Every key has one column\<close>

lemma add_name_set [simp]: "set (add_name n cols) = insert n (set cols)"
  by (auto simp: add_name_def)

lemma add_names_set [simp]: "set (fold add_name ns cols) = set ns \<union> set cols"
  by (induction ns arbitrary: cols) auto

lemma add_name_distinct: "distinct cols \<Longrightarrow> distinct (add_name n cols)"
  by (simp add: add_name_def)

lemma add_names_distinct: "distinct cols \<Longrightarrow> distinct (fold add_name ns cols)"
  by (induction ns arbitrary: cols) (auto intro: add_name_distinct)

lemma add_names_new: "distinct (cols @ ns) \<Longrightarrow> fold add_name ns cols = cols @ ns"
  by (induction ns arbitrary: cols) (auto simp: add_name_def)

lemma add_names_filter: "distinct ns \<Longrightarrow> fold add_name ns cols = cols @ filter (\<lambda>n. n \<notin> set cols) ns"
proof (induction ns arbitrary: cols)
  case (Cons n ns)
  have "filter (\<lambda>m. m \<notin> set (cols @ [n])) ns = filter (\<lambda>m. m \<notin> set cols) ns" using Cons.prems by (intro filter_cong) auto
  then show ?case using Cons by (simp add: add_name_def)
qed simp

lemma add_columns:
  "distinct cols \<Longrightarrow> distinct (fold (add_column api keys ordered named) ics cols) \<and>
   set cols \<union> (\<lambda>(i, c). columnName api c i keys) ` {(i, c) \<in> set ics. wildcard c = None} \<subseteq> set (fold (add_column api keys ordered named) ics cols)"
proof (induction ics arbitrary: cols)
  case (Cons ic ics)
  have d: "distinct (add_column api keys ordered named ic cols)" using Cons.prems by (auto simp: add_column_def add_name_distinct add_names_distinct split: option.split)
  have s: "set cols \<subseteq> set (add_column api keys ordered named ic cols)" by (auto simp: add_column_def split: option.split)
  have n: "wildcard (snd ic) = None \<Longrightarrow> columnName api (snd ic) (fst ic) keys \<in> set (add_column api keys ordered named ic cols)" by (simp add: add_column_def)
  let ?names = "\<lambda>xs. (\<lambda>(i, c). columnName api c i keys) ` {(i, c) \<in> set xs. wildcard c = None}"
  have "?names (ic # ics) \<subseteq> set (add_column api keys ordered named ic cols) \<union> ?names ics"
  proof
    fix x
    assume "x \<in> ?names (ic # ics)"
    then obtain i c where x: "x = columnName api c i keys" "wildcard c = None" "(i, c) = ic \<or> (i, c) \<in> set ics" by auto
    from x(3) show "x \<in> set (add_column api keys ordered named ic cols) \<union> ?names ics"
    proof
      assume "(i, c) = ic"
      then show ?thesis using n x by auto
    qed (use x in force)
  qed
  then show ?case using Cons.IH [OF d] s by (simp only: fold_Cons comp_apply) blast
qed simp

lemma add_columns_names:
  assumes "list_all (\<lambda>ic. wildcard (snd ic) = None) ics"
  shows "fold (add_column api keys ordered named) ics cols = fold add_name (map (\<lambda>(i, c). columnName api c i keys) ics) cols"
  using assms by (induction ics arbitrary: cols) (auto simp: add_column_def split_beta)

section \<open>The executor of a document in memory\<close>

datatype memory_plan = Federated | Recursive

fun ordersByExpression :: "ordering list \<Rightarrow> bool" where
  "ordersByExpression [] = False"
| "ordersByExpression (Order (FieldRef name src) # orders) = ordersByExpression orders"
| "ordersByExpression (ord # orders) = True"

definition memory_plan :: "walked_document \<Rightarrow> ordering list \<Rightarrow> bool \<Rightarrow> bool \<Rightarrow> memory_plan" where
  "memory_plan doc orders money qualified =
     (let evaluated = (\<not> money \<and> length (dc_sources doc) = 1 \<and> (dc_hasNull doc \<or> ordersByExpression orders)) in
      if (qualified \<or> money) \<and> \<not> dc_hasSubquery doc \<and> \<not> evaluated then Federated else Recursive)"

section \<open>The default database\<close>

text \<open>\<^verbatim>\<open>NewDatabaseCollectionRef\<close> has no parent, and takes over a scan clause only when it has a limit or an order.\<close>

definition bind_ref :: "string \<Rightarrow> collection_ref \<Rightarrow> ordering list \<Rightarrow> dal_source" where
  "bind_ref database ref orders =
     (if cr_database ref = [] then
        (let bound = \<lparr>cr_database = database, cr_schema = cr_schema ref, cr_name = cr_name ref, cr_alias = cr_alias ref, cr_hasParent = False, cr_scanLimit = 0\<rparr> in
         if cr_scanLimit ref > 0 \<or> orders \<noteq> [] then CollectionRef (bound\<lparr>cr_scanLimit := cr_scanLimit ref\<rparr>) orders else CollectionRef bound [])
      else CollectionRef ref orders)"

definition bind_source :: "string \<Rightarrow> dal_source \<Rightarrow> dal_source" where
  "bind_source database src = (case src of CollectionRef ref orders \<Rightarrow> bind_ref database ref orders | _ \<Rightarrow> src)"

fun bindFromDatabase :: "string \<Rightarrow> from_source \<Rightarrow> from_source"
  and bind_join :: "string \<Rightarrow> dal_join \<Rightarrow> dal_join"
where
  "bindFromDatabase database NilFrom = NilFrom"
| "bindFromDatabase database (From base joins) = From (bind_source database base) (map (bind_join database) joins)"
| "bind_join database (Join type child src on) =
     (if child \<noteq> NilFrom then Join type (bindFromDatabase database child) src on else Join type NilFrom (bind_source database src) on)"

fun withDefaultDatabase :: "string \<Rightarrow> dal_query \<Rightarrow> dal_query" where
  "withDefaultDatabase database NilQuery = NilQuery"
| "withDefaultDatabase database (Query settings fr wh groupBy having orderBy columns) = Query settings (bindFromDatabase database fr) wh groupBy having orderBy columns"


section \<open>Properties\<close>

lemma selected_names_set: "set (selected_names api selected keys) = (\<lambda>(i, c). columnName api c i keys) ` {(i, c) \<in> set (zip [0..<length selected] selected). wildcard c = None}"
  by (auto simp: selected_names_def)

text \<open>
  No field of a row is without a column, and no column stands twice: the columns of a result hold every key a row carries and
  every column selected by name. Where nothing is selected by a wildcard and the selected names differ, they come first, in the
  order they were selected, and the keys nothing selects after them, sorted.
\<close>

theorem columns_cover_rows:
  assumes "distinct keys"
  shows "distinct (orderedColumnsForKeys api selected keys) \<and> set keys \<union> set (selected_names api selected keys) \<subseteq> set (orderedColumnsForKeys api selected keys) \<and>
    (list_all (\<lambda>c. wildcard c = None) selected \<and> distinct (selected_names api selected keys) \<longrightarrow>
     orderedColumnsForKeys api selected keys = selected_names api selected keys @ filter (\<lambda>k. k \<notin> set (selected_names api selected keys)) (sort keys))"
proof -
  let ?ics = "zip [0..<length selected] selected" and ?named = "selected_names api selected keys"
  let ?cols = "fold (add_column api keys (sort keys) ?named) ?ics []"
  have c: "distinct ?cols" "set ?named \<subseteq> set ?cols" using add_columns [of "[]" api keys "sort keys" ?named ?ics] by (simp_all add: selected_names_set)
  have cover: "distinct (orderedColumnsForKeys api selected keys) \<and> set keys \<union> set ?named \<subseteq> set (orderedColumnsForKeys api selected keys)"
    using c by (auto simp: orderedColumnsForKeys_def Let_def intro: add_names_distinct)
  have order: "orderedColumnsForKeys api selected keys = ?named @ filter (\<lambda>k. k \<notin> set ?named) (sort keys)"
    if w: "list_all (\<lambda>c. wildcard c = None) selected" and d: "distinct ?named"
  proof -
    have all: "list_all (\<lambda>ic. wildcard (snd ic) = None) ?ics" using w by (auto simp: list_all_iff dest: set_zip_rightD)
    then have "filter (\<lambda>(i, c). wildcard c = None) ?ics = ?ics" by (intro filter_True) (auto simp: list_all_iff)
    then have "?named = map (\<lambda>(i, c). columnName api c i keys) ?ics" by (simp add: selected_names_def)
    then have "?cols = ?named" using add_columns_names [OF all, of api keys "sort keys" ?named "[]"] add_names_new [of "[]" ?named] d by simp
    then show ?thesis using add_names_filter [of "sort keys" ?named] assms by (simp add: orderedColumnsForKeys_def Let_def)
  qed
  show ?thesis using cover order by blast
qed

definition sample_column_api :: column_api where
  "sample_column_api = \<lparr>ca_text = (\<lambda>e. ''sum''), ca_excludes = (\<lambda>w n. False), ca_aggregates = False\<rparr>"

definition sample_selection :: "dal_column list" where
  "sample_selection = [Column [] None (FieldRef ''total'' []), Column ''who'' None (FieldRef ''name'' ''p'')]"

theorem columns_cover_rows_witness:
  "orderedColumnsForKeys sample_column_api sample_selection [''who'', ''total'', ''id''] = [''total'', ''who'', ''id'']"
proof -
  have names: "selected_names sample_column_api sample_selection [''who'', ''total'', ''id''] = [''total'', ''who'']"
    by (simp add: selected_names_def sample_selection_def upt_conv_Cons)
  have "list_all (\<lambda>c. wildcard c = None) sample_selection" by (simp add: sample_selection_def)
  moreover have "sort [''who'', ''total'', ''id''] = [''id'', ''total'', ''who'']" by code_simp
  ultimately show ?thesis using columns_cover_rows [of "[''who'', ''total'', ''id'']" sample_column_api sample_selection] names by simp
qed

definition source_key :: "walked_source \<Rightarrow> string \<times> string" where
  "source_key x = (ws_database x, ws_collection x)"

definition node_keys :: "node list \<Rightarrow> (string \<times> string) list" where
  "node_keys ns = map source_key (concat (map node_sources ns))"

definition bound_keys :: "string \<Rightarrow> node list \<Rightarrow> (string \<times> string) list" where
  "bound_keys database ns = map (\<lambda>x. source_key (settled database x)) (concat (map node_sources ns))"

lemma keys_Nil [simp]: "node_keys [] = []" "bound_keys d [] = []"
  by (simp_all add: node_keys_def bound_keys_def)

lemma keys_append [simp]: "node_keys (xs @ ys) = node_keys xs @ node_keys ys" "bound_keys d (xs @ ys) = bound_keys d xs @ bound_keys d ys"
  by (simp_all add: node_keys_def bound_keys_def)

lemma keys_concat: "node_keys (concat nss) = concat (map node_keys nss)" "bound_keys d (concat nss) = concat (map (bound_keys d) nss)"
  by (induction nss) simp_all

text \<open>Conditions, expressions and orderings read nothing but through a subquery.\<close>

lemma no_subquery_no_source:
  "list_ex subquery_node (nodes_query q) \<or> True" "list_ex subquery_node (nodes_from fr) \<or> True" "list_ex subquery_node (nodes_join j) \<or> True"
  "list_ex subquery_node (nodes_source src) \<or> True"
  "list_ex subquery_node (nodes_order ord) \<or> concat (map node_sources (nodes_order ord)) = []"
  "list_ex subquery_node (nodes_column col) \<or> concat (map node_sources (nodes_column col)) = []"
  "list_ex subquery_node (nodes_cond c) \<or> concat (map node_sources (nodes_cond c)) = []"
  "list_ex subquery_node (nodes_expr e) \<or> concat (map node_sources (nodes_expr e)) = []"
  by (induction q and fr and j and src and ord and col and c and e rule: dal_induct) (auto simp: list_ex_iff)


lemma no_keys: "concat (map node_sources ns) = [] \<Longrightarrow> node_keys ns = [] \<and> bound_keys d ns = []"
  by (simp only: node_keys_def bound_keys_def) simp

lemma plain_nodes_no_keys:
  "\<not> list_ex subquery_node (nodes_order ord) \<Longrightarrow> node_keys (nodes_order ord) = [] \<and> bound_keys d (nodes_order ord) = []"
  "\<not> list_ex subquery_node (nodes_column col) \<Longrightarrow> node_keys (nodes_column col) = [] \<and> bound_keys d (nodes_column col) = []"
  "\<not> list_ex subquery_node (nodes_cond c) \<Longrightarrow> node_keys (nodes_cond c) = [] \<and> bound_keys d (nodes_cond c) = []"
  "\<not> list_ex subquery_node (nodes_expr e) \<Longrightarrow> node_keys (nodes_expr e) = [] \<and> bound_keys d (nodes_expr e) = []"
  using no_subquery_no_source(5-8) no_keys by blast+

lemma all_no_keys:
  assumes "\<And>x. x \<in> set xs \<Longrightarrow> \<not> list_ex subquery_node (f x) \<Longrightarrow> node_keys (f x) = [] \<and> bound_keys d (f x) = []"
    and "\<not> list_ex subquery_node (concat (map f xs))"
  shows "node_keys (concat (map f xs)) = [] \<and> bound_keys d (concat (map f xs)) = []"
  using assms by (induction xs) (auto simp: keys_concat)

lemma relation_id_bound: "cr_schema a = cr_schema b \<Longrightarrow> cr_name a = cr_name b \<Longrightarrow> relation_id a = relation_id b"
  by (simp add: relation_id_def)

lemma bind_source_keys:
  assumes "\<not> list_ex subquery_node (nodes_source src)"
  shows "node_keys (nodes_source (bind_source d src)) = bound_keys d (nodes_source src)"
proof (cases src)
  case (CollectionRef ref orders)
  have o: "node_keys (concat (map nodes_order orders)) = []" "bound_keys d (concat (map nodes_order orders)) = []"
    using all_no_keys [of orders nodes_order d] plain_nodes_no_keys(1) assms CollectionRef by auto
  have s: "nodes_source (CollectionRef r os) = [NSource (CollectionRef r os)] @ concat (map nodes_order os)" for r os by simp
  have one: "node_keys [NSource (CollectionRef r os)] = (case relation_id r of Inl e \<Rightarrow> [] | Inr i \<Rightarrow> [(cr_database r, i)])" for r os
    by (simp add: node_keys_def source_key_def split: sum.split)
  have two: "bound_keys d [NSource (CollectionRef r os)] = (case relation_id r of Inl e \<Rightarrow> [] | Inr i \<Rightarrow> [(if cr_database r = [] then d else cr_database r, i)])" for r os
    by (simp add: bound_keys_def source_key_def settled_def split: sum.split)
  let ?b = "\<lparr>cr_database = d, cr_schema = cr_schema ref, cr_name = cr_name ref, cr_alias = cr_alias ref, cr_hasParent = False, cr_scanLimit = 0\<rparr>"
  have r: "relation_id ?b = relation_id ref" "relation_id (?b\<lparr>cr_scanLimit := n\<rparr>) = relation_id ref" for n by (rule relation_id_bound; simp)+
  show ?thesis
  proof (cases "cr_database ref = []")
    case True
    show ?thesis
    proof (cases "cr_scanLimit ref > 0 \<or> orders \<noteq> []")
      case scan: True
      then have "bind_source d src = CollectionRef (?b\<lparr>cr_scanLimit := cr_scanLimit ref\<rparr>) orders" using CollectionRef True by (simp add: bind_source_def bind_ref_def Let_def)
      then show ?thesis unfolding CollectionRef by (simp only: s keys_append o one two r True) (simp split: sum.split)
    next
      case False
      then have "bind_source d src = CollectionRef ?b []" using CollectionRef True by (simp add: bind_source_def bind_ref_def Let_def)
      then show ?thesis unfolding CollectionRef by (simp only: s keys_append o one two r True) (simp split: sum.split)
    qed
  next
    case False
    then have "bind_source d src = CollectionRef ref orders" using CollectionRef by (simp add: bind_source_def bind_ref_def)
    then show ?thesis unfolding CollectionRef using False by (simp only: s keys_append o one two) simp
  qed
qed (use assms in \<open>simp_all add: bind_source_def node_keys_def bound_keys_def\<close>)

lemma bind_from_Nil: "bindFromDatabase d fr = NilFrom \<longleftrightarrow> fr = NilFrom"
  by (cases fr) simp_all

lemma bind_keys:
  "\<not> list_ex subquery_node (nodes_from fr) \<Longrightarrow> node_keys (nodes_from (bindFromDatabase d fr)) = bound_keys d (nodes_from fr)"
  "\<not> list_ex subquery_node (nodes_join j) \<Longrightarrow> node_keys (nodes_join (bind_join d j)) = bound_keys d (nodes_join j)"
proof (induction d fr and d j rule: bindFromDatabase_bind_join.induct)
  case (1 d)
  then show ?case by (simp add: node_keys_def bound_keys_def)
next
  case (2 d base joins)
  have j: "node_keys (nodes_join (bind_join d x)) = bound_keys d (nodes_join x)" if "x \<in> set joins" for x
    using "2.IH" [OF that] "2.prems" that by (auto simp: list_ex_iff)
  then have "concat (map (\<lambda>x. node_keys (nodes_join (bind_join d x))) joins) = concat (map (\<lambda>x. bound_keys d (nodes_join x)) joins)"
    by (intro arg_cong [where f = concat] map_cong) simp_all
  then show ?case using bind_source_keys [of base d] "2.prems" by (simp add: keys_concat comp_def)
next
  case (3 d type child src on)
  have on: "node_keys (concat (map nodes_cond on)) = []" "bound_keys d (concat (map nodes_cond on)) = []"
    using all_no_keys [of on nodes_cond d] plain_nodes_no_keys(3) "3.prems" by auto
  show ?case
  proof (cases "child = NilFrom")
    case True
    then show ?thesis using bind_source_keys [of src d] "3.prems" on by simp
  next
    case False
    then have "node_keys (nodes_from (bindFromDatabase d child)) = bound_keys d (nodes_from child)" using "3.IH" "3.prems" by simp
    then show ?thesis using False on by (simp add: bind_from_Nil)
  qed
qed

text \<open>
  Naming the default database changes nothing but names: a document without subqueries whose sources are bound to its database
  reads the same collections in the same order, each in the database the preflight settled - and authorised - it in.
\<close>

theorem bound_document_reads_settled_sources:
  assumes "\<not> list_ex subquery_node (nodes_query q)"
  shows "map source_key (document_sources (withDefaultDatabase d q)) = map (\<lambda>x. source_key (settled d x)) (document_sources q)"
proof (cases q)
  case (Query settings fr wh groupBy having orderBy columns)
  let ?rest = "nodes_cond wh @ concat (map nodes_expr groupBy) @ nodes_cond having @ concat (map nodes_order orderBy) @ concat (map nodes_column columns)"
  have "node_keys ?rest = [] \<and> bound_keys d ?rest = []"
    using assms Query all_no_keys [of groupBy nodes_expr d] all_no_keys [of orderBy nodes_order d] all_no_keys [of columns nodes_column d] plain_nodes_no_keys by simp
  moreover have "node_keys (nodes_from (bindFromDatabase d fr)) = bound_keys d (nodes_from fr)" using bind_keys(1) assms Query by simp
  moreover have "node_keys [NQuery columns] = [] \<and> bound_keys d [NQuery columns] = []" by (simp add: node_keys_def bound_keys_def)
  moreover have "nodes_query (Query settings f wh groupBy having orderBy columns) = [NQuery columns] @ nodes_from f @ ?rest" for f by simp
  ultimately have "node_keys (nodes_query (withDefaultDatabase d q)) = bound_keys d (nodes_query q)" unfolding Query withDefaultDatabase.simps by (simp only: keys_append)
  then show ?thesis by (simp add: node_keys_def bound_keys_def)
qed simp

theorem bound_document_reads_settled_sources_witness:
  "map source_key (document_sources (withDefaultDatabase ''shop'' sample_query)) = [(''shop'', ''orders''), (''shop'', ''people'')]"
proof -
  have n: "\<not> list_ex subquery_node (nodes_query sample_query)" by (simp add: sample_query_def)
  have "document_sources sample_query = dc_sources sample_document"
    using inspect_Inr [OF sample_inspected] visits_note [of sample_dal "nodes_query sample_query" new_walker] by (simp add: new_walker_def)
  then show ?thesis using bound_document_reads_settled_sources [OF n, of "''shop''"] by (simp add: sample_document_def source_key_def settled_def)
qed

end
