(* ===== verification/Spec2Isabelle.thy ===== *)
theory Spec2Isabelle
  imports Batch Policy_Store Query_Gate Paging Authorization_Request Provider_Evidence Provider_Wire Connect Routes Mounts Tugql_Profile Join_Columns
begin

text \<open>
  OpenVaultDB server: a verification library for the core logic of \<^verbatim>\<open>openvaultdb-go\<close>.
\<close>

end
